(* ===== verification/Prelude.thy ===== *)
theory Prelude
  imports Main "HOL-Library.List_Lexorder" "HOL-Library.Char_ord"
begin

text \<open>
  The vocabulary every component shares: error values, programs over an explicit state that
  may stop with an error (Go's \<open>(value, error)\<close> results), a Hoare triple over them that
  speaks about the normal exit and the error exit, and a few facts on sorted lists.
\<close>

section \<open>Errors\<close>

text \<open>
  Go's error values.  \<open>ErrNotFound\<close> and \<open>ErrConflict\<close> are the sentinels of
  \<open>internal/core/store.go\<close>; \<open>Errorf fmt args\<close> is \<open>fmt.Errorf\<close> or \<open>errors.New\<close>
  without a wrapped error, \<open>ErrWrap fmt e\<close> is \<open>fmt.Errorf\<close> with \<open>%w\<close>;
  \<open>ErrIO op\<close> is a failure the database driver or the operating system reports for the
  call named \<open>op\<close>; \<open>GoPanic\<close> is a run-time panic.
\<close>

datatype error =
    ErrNotFound
  | ErrConflict
  | Errorf string "string list"
  | ErrWrap string error
  | ErrIO string
  | GoPanic string

text \<open>\<open>errors.Is\<close>: the target is found by unwrapping.\<close>

fun errors_Is :: "error \<Rightarrow> error \<Rightarrow> bool" where
  "errors_Is (ErrWrap m e) t = (ErrWrap m e = t \<or> errors_Is e t)"
| "errors_Is e t = (e = t)"

section \<open>Programs over a state\<close>

type_synonym ('s, 'a) prog = "'s \<Rightarrow> (error + 'a) \<times> 's"

named_theorems prog_simps \<open>evaluation of the program combinators\<close>
named_theorems hoare_intros \<open>structural rules of the Hoare triple\<close>

definition ret :: "'a \<Rightarrow> ('s, 'a) prog" where
  "ret x = (\<lambda>s. (Inr x, s))"

definition fail :: "error \<Rightarrow> ('s, 'a) prog" where
  "fail e = (\<lambda>s. (Inl e, s))"

definition bindE :: "('s, 'a) prog \<Rightarrow> ('a \<Rightarrow> ('s, 'b) prog) \<Rightarrow> ('s, 'b) prog" where
  "bindE m f = (\<lambda>s. case m s of (Inl e, s') \<Rightarrow> (Inl e, s') | (Inr x, s') \<Rightarrow> f x s')"

definition wrapE :: "string \<Rightarrow> ('s, 'a) prog \<Rightarrow> ('s, 'a) prog" where
  "wrapE msg m = (\<lambda>s. case m s of (Inl e, s') \<Rightarrow> (Inl (ErrWrap msg e), s') | (Inr x, s') \<Rightarrow> (Inr x, s'))"

text \<open>The result of a call handed to the caller as a value (Go code that inspects \<open>err\<close>).\<close>

definition tryE :: "('s, 'a) prog \<Rightarrow> ('s, error + 'a) prog" where
  "tryE m = (\<lambda>s. case m s of (r, s') \<Rightarrow> (Inr r, s'))"

fun mapE :: "('a \<Rightarrow> ('s, 'b) prog) \<Rightarrow> 'a list \<Rightarrow> ('s, 'b list) prog" where
  "mapE f [] = ret []"
| "mapE f (x # xs) = bindE (f x) (\<lambda>y. bindE (mapE f xs) (\<lambda>ys. ret (y # ys)))"

fun foldE :: "('a \<Rightarrow> 'r \<Rightarrow> ('s, 'r) prog) \<Rightarrow> 'a list \<Rightarrow> 'r \<Rightarrow> ('s, 'r) prog" where
  "foldE f [] r = ret r"
| "foldE f (x # xs) r = bindE (f x r) (foldE f xs)"

lemma ret_run [prog_simps]: "ret x s = (Inr x, s)"
  by (simp add: ret_def)

lemma fail_run [prog_simps]: "fail e s = (Inl e, s)"
  by (simp add: fail_def)

lemma bindE_run [prog_simps]:
  "bindE m f s = (case m s of (Inl e, s') \<Rightarrow> (Inl e, s') | (Inr x, s') \<Rightarrow> f x s')"
  by (simp add: bindE_def)

lemma wrapE_run [prog_simps]:
  "wrapE msg m s = (case m s of (Inl e, s') \<Rightarrow> (Inl (ErrWrap msg e), s') | (Inr x, s') \<Rightarrow> (Inr x, s'))"
  by (simp add: wrapE_def)

lemma tryE_run [prog_simps]: "tryE m s = (case m s of (r, s') \<Rightarrow> (Inr r, s'))"
  by (simp add: tryE_def)

lemma bindE_Inr:
  "bindE m f s = (Inr y, s') \<longleftrightarrow> (\<exists>x s1. m s = (Inr x, s1) \<and> f x s1 = (Inr y, s'))"
  by (auto simp: bindE_def split: prod.split sum.split)

lemma bindE_Inl:
  "bindE m f s = (Inl e, s') \<longleftrightarrow>
     m s = (Inl e, s') \<or> (\<exists>x s1. m s = (Inr x, s1) \<and> f x s1 = (Inl e, s'))"
  by (auto simp: bindE_def split: prod.split sum.split)

lemma wrapE_Inr: "wrapE msg m s = (Inr y, s') \<longleftrightarrow> m s = (Inr y, s')"
  by (auto simp: wrapE_def split: prod.split sum.split)

lemma wrapE_Inl: "wrapE msg m s = (Inl e, s') \<longleftrightarrow> (\<exists>e'. e = ErrWrap msg e' \<and> m s = (Inl e', s'))"
  by (auto simp: wrapE_def split: prod.split sum.split)

lemma tryE_Inr: "tryE m s = (Inr r, s') \<longleftrightarrow> m s = (r, s')"
  by (auto simp: tryE_def split: prod.split)

lemma tryE_Inl: "tryE m s \<noteq> (Inl e, s')"
  by (auto simp: tryE_def split: prod.split)

lemma ret_Inr: "ret x s = (Inr y, s') \<longleftrightarrow> y = x \<and> s' = s"
  by (auto simp: ret_def)

lemma ret_Inl: "ret x s \<noteq> (Inl e, s')"
  by (simp add: ret_def)

lemma fail_Inr: "fail e s \<noteq> (Inr y, s')"
  by (simp add: fail_def)

lemma fail_Inl: "fail e s = (Inl e', s') \<longleftrightarrow> e' = e \<and> s' = s"
  by (auto simp: fail_def)

lemmas prog_results = bindE_Inr bindE_Inl wrapE_Inr wrapE_Inl tryE_Inr tryE_Inl
  ret_Inr ret_Inl fail_Inr fail_Inl

section \<open>Hoare triples with two exits\<close>

definition hoare ::
  "('s \<Rightarrow> bool) \<Rightarrow> ('s, 'a) prog \<Rightarrow> ('a \<Rightarrow> 's \<Rightarrow> bool) \<Rightarrow> (error \<Rightarrow> 's \<Rightarrow> bool) \<Rightarrow> bool" where
  "hoare P m Q E \<longleftrightarrow> (\<forall>s s'. P s \<longrightarrow>
     (\<forall>e. m s = (Inl e, s') \<longrightarrow> E e s') \<and> (\<forall>x. m s = (Inr x, s') \<longrightarrow> Q x s'))"

lemma hoareI:
  assumes "\<And>s e s'. P s \<Longrightarrow> m s = (Inl e, s') \<Longrightarrow> E e s'"
    and "\<And>s x s'. P s \<Longrightarrow> m s = (Inr x, s') \<Longrightarrow> Q x s'"
  shows "hoare P m Q E"
  using assms by (simp add: hoare_def)

lemma hoare_okD: "hoare P m Q E \<Longrightarrow> P s \<Longrightarrow> m s = (Inr x, s') \<Longrightarrow> Q x s'"
  by (simp add: hoare_def)

lemma hoare_errD: "hoare P m Q E \<Longrightarrow> P s \<Longrightarrow> m s = (Inl e, s') \<Longrightarrow> E e s'"
  by (simp add: hoare_def)

lemma hoare_totalD:
  assumes "hoare P m Q (\<lambda>_ _. False)" and "P s"
  shows "\<exists>x s'. m s = (Inr x, s') \<and> Q x s'"
proof (cases "m s")
  case (Pair r s')
  with assms show ?thesis by (cases r) (auto simp: hoare_def)
qed

lemma hoare_ret [hoare_intros]: "(\<And>s. P s \<Longrightarrow> Q x s) \<Longrightarrow> hoare P (ret x) Q E"
  by (simp add: hoare_def ret_def)

lemma hoare_fail [hoare_intros]: "(\<And>s. P s \<Longrightarrow> E e s) \<Longrightarrow> hoare P (fail e) Q E"
  by (simp add: hoare_def fail_def)

lemma hoare_bind:
  assumes "hoare P m R E" and "\<And>x. hoare (R x) (f x) Q E"
  shows "hoare P (bindE m f) Q E"
  using assms unfolding hoare_def bindE_Inr bindE_Inl by blast

lemma hoare_bind_fact:
  assumes "hoare P m (\<lambda>r s. P' s \<and> F r) E" and "\<And>r. F r \<Longrightarrow> hoare P' (f r) Q E"
  shows "hoare P (bindE m f) Q E"
proof (rule hoare_bind [OF assms(1)])
  show "hoare (\<lambda>s. P' s \<and> F r) (f r) Q E" for r
    using assms(2) [of r] unfolding hoare_def by blast
qed

lemma hoare_wrap:
  assumes "hoare P m Q (\<lambda>e s. E (ErrWrap msg e) s)"
  shows "hoare P (wrapE msg m) Q E"
  using assms unfolding hoare_def wrapE_Inr wrapE_Inl by blast

lemma hoare_try:
  assumes "hoare P m (\<lambda>x. Q (Inr x)) (\<lambda>e. Q (Inl e))"
  shows "hoare P (tryE m) Q E"
proof (rule hoareI)
  fix s r s' assume "P s" and "tryE m s = (Inr r, s')"
  with assms show "Q r s'" by (cases r) (auto simp: hoare_def tryE_Inr)
qed (simp add: tryE_Inl)

lemma hoare_conseq:
  assumes "hoare P' m Q' E'"
    and "\<And>s. P s \<Longrightarrow> P' s" and "\<And>x s. Q' x s \<Longrightarrow> Q x s" and "\<And>e s. E' e s \<Longrightarrow> E e s"
  shows "hoare P m Q E"
  using assms unfolding hoare_def by blast

lemma hoare_err: "hoare P m Q E' \<Longrightarrow> (\<And>e s. E' e s \<Longrightarrow> E e s) \<Longrightarrow> hoare P m Q E"
  unfolding hoare_def by blast

lemma hoare_post: "hoare P m Q' E \<Longrightarrow> (\<And>x s. Q' x s \<Longrightarrow> Q x s) \<Longrightarrow> hoare P m Q E"
  unfolding hoare_def by blast

lemma hoare_if:
  assumes "b \<Longrightarrow> hoare P m Q E" and "\<not> b \<Longrightarrow> hoare P n Q E"
  shows "hoare P (if b then m else n) Q E"
  using assms by simp

lemma hoare_assume: "(\<And>s. P s \<Longrightarrow> b) \<Longrightarrow> (b \<Longrightarrow> hoare P m Q E) \<Longrightarrow> hoare P m Q E"
  unfolding hoare_def by blast

lemma hoare_pure: "(b \<Longrightarrow> hoare P m Q E) \<Longrightarrow> hoare (\<lambda>s. b \<and> P s) m Q E"
  unfolding hoare_def by blast

text \<open>Reading a list element by element: each step keeps \<open>I\<close> and yields \<open>R\<close>.\<close>

lemma hoare_mapE:
  assumes "\<And>x. x \<in> set xs \<Longrightarrow> hoare I (f x) (\<lambda>y s. I s \<and> R x y) E"
  shows "hoare I (mapE f xs) (\<lambda>ys s. I s \<and> list_all2 R xs ys) E"
  using assms
proof (induction xs)
  case Nil
  then show ?case by (auto intro!: hoare_ret)
next
  case (Cons x xs)
  have head: "hoare I (f x) (\<lambda>y s. I s \<and> R x y) E" by (rule Cons.prems) simp
  have tail: "hoare I (mapE f xs) (\<lambda>ys s. I s \<and> list_all2 R xs ys) E"
    by (rule Cons.IH) (rule Cons.prems, simp)
  have rest: "hoare (\<lambda>s. I s \<and> R x y) (bindE (mapE f xs) (\<lambda>ys. ret (y # ys)))
      (\<lambda>ys s. I s \<and> list_all2 R (x # xs) ys) E" for y
  proof (rule hoare_assume [where b = "R x y"], blast)
    assume "R x y"
    then show ?thesis
      by (intro hoare_bind [OF hoare_conseq [OF tail]] hoare_ret) auto
  qed
  show ?case
    unfolding mapE.simps by (rule hoare_bind [OF head rest])
qed

text \<open>A fold with an invariant indexed by the elements already consumed.\<close>

lemma hoare_foldE:
  assumes "\<And>ys x zs r. xs = ys @ x # zs \<Longrightarrow> hoare (I ys r) (f x r) (I (ys @ [x])) E"
  shows "hoare (I [] r) (foldE f xs r) (I xs) E"
proof -
  have "hoare (I ys r) (foldE f zs r) (I xs) E" if "xs = ys @ zs" for ys zs r
    using that
  proof (induction zs arbitrary: ys r)
    case Nil
    then show ?case by (auto intro!: hoare_ret)
  next
    case (Cons z zs)
    have "hoare (I ys r) (f z r) (I (ys @ [z])) E" by (rule assms) (rule Cons.prems)
    moreover have "\<And>r'. hoare (I (ys @ [z]) r') (foldE f zs r') (I xs) E"
      by (rule Cons.IH) (simp add: Cons.prems)
    ultimately show ?case by (auto intro: hoare_bind)
  qed
  from this [of "[]" xs] show ?thesis by simp
qed

section \<open>Go integers\<close>

text \<open>
  Go's \<open>int\<close> and \<open>int64\<close> have 64 bits.  Counters and token counts are modelled as
  \<open>int\<close>; where the code multiplies a value that no check bounds, \<open>wrap64\<close> brings the
  product back into the signed 64-bit range.  Division truncates towards zero.
\<close>

definition wrap64 :: "int \<Rightarrow> int" where
  "wrap64 i = (i + 2 ^ 63) mod 2 ^ 64 - 2 ^ 63"

definition go_div :: "int \<Rightarrow> int \<Rightarrow> int" where
  "go_div a b = sgn a * sgn b * (\<bar>a\<bar> div \<bar>b\<bar>)"

lemma wrap64_id: "- (2 ^ 63) \<le> i \<Longrightarrow> i < 2 ^ 63 \<Longrightarrow> wrap64 i = i"
  by (simp add: wrap64_def)

lemma wrap64_range: "- (2 ^ 63) \<le> wrap64 i \<and> wrap64 i < 2 ^ 63"
  by (auto simp: wrap64_def)

lemma go_div_nonneg: "0 \<le> a \<Longrightarrow> 0 < b \<Longrightarrow> go_div a b = a div b"
  by (cases "a = 0") (auto simp: go_div_def)

section \<open>Sums and sorted lists\<close>

lemma sum_list_nonneg_map: "\<forall>x \<in> set xs. (0::int) \<le> f x \<Longrightarrow> 0 \<le> sum_list (map f xs)"
  by (induction xs) auto

lemma sorted_wrt_less_sort_key:
  assumes "sorted_wrt (\<lambda>a b. f a < f b) xs"
  shows "sort_key (f :: 'a \<Rightarrow> 'b :: linorder) xs = xs"
proof (rule sort_key_id_if_sorted)
  show "sorted (map f xs)"
    using assms by (induction xs) (auto intro: less_imp_le)
qed

lemma filter_key_unique: "distinct (map f xs) \<Longrightarrow> x \<in> set xs \<Longrightarrow> filter (\<lambda>y. f y = f x) xs = [x]"
  by (induction xs) (auto simp: filter_empty_conv, metis imageI)

lemma map_enumerate_snd: "map (\<lambda>p. f (snd p)) (enumerate n xs) = map f xs"
  by (induction xs arbitrary: n) simp_all

end
