(* ===== verification/GoText.thy ===== *)
theory GoText
  imports Prelude
begin

text \<open>
  Go strings.  A Go string is a byte string (here \<open>string\<close>, a list of 8-bit characters);
  \<open>for range\<close>, \<open>[]rune(s)\<close> and the \<open>strings\<close> and \<open>unicode\<close> packages read it as
  UTF-8, an ill-formed byte standing for U+FFFD.  This theory models the parts of the
  language and its standard library the sources use: decoding and encoding, \<open>IsSpace\<close>,
  \<open>Fields\<close>, \<open>FieldsFunc\<close>, \<open>TrimSpace\<close>, \<open>Join\<close>, \<open>Contains\<close>, \<open>ToLower\<close>,
  \<open>strconv.Itoa\<close>, \<open>strconv.Quote\<close>, and the rune truncation the packages of acm repeat.
  The letter, number, print and case tables of package \<open>unicode\<close> beyond ASCII are the
  parameter \<open>unicode\<close>.
\<close>

section \<open>UTF-8\<close>

type_synonym rune = int

definition byte :: "char \<Rightarrow> int" where
  "byte c = of_char c"

definition chr :: "int \<Rightarrow> char" where
  "chr i = char_of i"

definition in_range :: "int \<Rightarrow> int \<Rightarrow> int \<Rightarrow> bool" where
  "in_range lo hi x \<longleftrightarrow> lo \<le> x \<and> x \<le> hi"

abbreviation RuneError :: rune where
  "RuneError \<equiv> 65533"

text \<open>
  \<open>utf8.DecodeRuneInString\<close>: the rune that starts with byte \<open>b\<close> and the number of
  continuation bytes it takes from \<open>rest\<close> (0 for an ill-formed byte, as for ASCII).
\<close>

definition decode_rune :: "int \<Rightarrow> string \<Rightarrow> rune \<times> nat" where
  "decode_rune b rest =
     (case rest of
        [] \<Rightarrow> (if b < 128 then b else RuneError, 0)
      | c1 # r1 \<Rightarrow>
          (let x1 = byte c1;
               lo = (if b = 224 then 160 else if b = 240 then 144 else 128);
               hi = (if b = 237 then 159 else if b = 244 then 143 else 191)
           in if b < 128 then (b, 0)
              else if \<not> in_range 194 244 b \<or> \<not> in_range lo hi x1 then (RuneError, 0)
              else if b < 224 then ((b - 192) * 64 + (x1 - 128), 1)
              else (case r1 of
                      [] \<Rightarrow> (RuneError, 0)
                    | c2 # r2 \<Rightarrow>
                        (let x2 = byte c2
                         in if \<not> in_range 128 191 x2 then (RuneError, 0)
                            else if b < 240 then ((b - 224) * 4096 + (x1 - 128) * 64 + (x2 - 128), 2)
                            else (case r2 of
                                    [] \<Rightarrow> (RuneError, 0)
                                  | c3 # r3 \<Rightarrow>
                                      (let x3 = byte c3
                                       in if \<not> in_range 128 191 x3 then (RuneError, 0)
                                          else ((b - 240) * 262144 + (x1 - 128) * 4096
                                                 + (x2 - 128) * 64 + (x3 - 128), 3)))))))"

text \<open>The runes of a string, each with the bytes it was read from.\<close>

fun chunks :: "string \<Rightarrow> (rune \<times> string) list" where
  "chunks [] = []"
| "chunks (c # cs) =
     (case decode_rune (byte c) cs of
        (r, k) \<Rightarrow> (r, c # take k cs) # chunks (drop k cs))"

definition runes :: "string \<Rightarrow> rune list" where
  "runes s = map fst (chunks s)"

text \<open>\<open>utf8.AppendRune\<close>: surrogates and out-of-range values encode as U+FFFD.\<close>

definition valid_rune :: "rune \<Rightarrow> bool" where
  "valid_rune r \<longleftrightarrow> 0 \<le> r \<and> r \<le> 1114111 \<and> \<not> in_range 55296 57343 r"

definition encode_rune :: "rune \<Rightarrow> string" where
  "encode_rune r0 =
     (let r = (if valid_rune r0 then r0 else RuneError)
      in if r < 128 then [chr r]
         else if r < 2048 then [chr (192 + r div 64), chr (128 + r mod 64)]
         else if r < 65536 then
           [chr (224 + r div 4096), chr (128 + r div 64 mod 64), chr (128 + r mod 64)]
         else
           [chr (240 + r div 262144), chr (128 + r div 4096 mod 64),
            chr (128 + r div 64 mod 64), chr (128 + r mod 64)])"

text \<open>\<open>string(runes)\<close>.\<close>

definition of_runes :: "rune list \<Rightarrow> string" where
  "of_runes rs = concat (map encode_rune rs)"

lemma byte_range [simp]: "0 \<le> byte c" "byte c < 256"
proof -
  have "byte c = byte c mod 256" by (simp add: byte_def)
  then show "0 \<le> byte c" "byte c < 256" by presburger+
qed

lemma byte_chr [simp]: "0 \<le> i \<Longrightarrow> i < 256 \<Longrightarrow> byte (chr i) = i"
  by (simp add: byte_def chr_def)

lemma chr_byte [simp]: "chr (byte c) = c"
  by (simp add: byte_def chr_def)

lemma concat_chunks: "concat (map snd (chunks s)) = s"
  by (induction s rule: chunks.induct) (simp_all split: prod.split)

lemma chunks_nonempty: "(r, b) \<in> set (chunks s) \<Longrightarrow> b \<noteq> []"
  by (induction s rule: chunks.induct) (auto split: prod.splits)

lemma length_chunks: "length (chunks s) \<le> length s"
proof (induction s rule: chunks.induct)
  case (2 c cs)
  obtain r k where rk: "decode_rune (byte c) cs = (r, k)" by force
  have "length (chunks (drop k cs)) \<le> length cs"
    using "2.IH" [OF rk [symmetric]] by (metis diff_le_self le_trans length_drop)
  with rk show ?case by simp
qed simp

lemma runes_eq_Nil [simp]: "runes s = [] \<longleftrightarrow> s = []"
  by (cases s) (simp_all add: runes_def split: prod.split)

lemma runes_Nil [simp]: "runes [] = []"
  by simp

text \<open>Decoding the encoding of a rune gives the rune back, whatever follows.\<close>

lemma decode_encode:
  assumes "valid_rune r"
  shows "\<exists>c cs. encode_rune r = c # cs \<and> decode_rune (byte c) (cs @ rest) = (r, length cs)"
proof -
  consider (one) "r < 128" | (two) "128 \<le> r" "r < 2048" | (three) "2048 \<le> r" "r < 65536"
    | (four) "65536 \<le> r" by linarith
  then show ?thesis
  proof cases
    case one
    with assms show ?thesis
      by (auto simp: encode_rune_def decode_rune_def valid_rune_def Let_def split: list.split)
  next
    case two
    define u v where uv: "u = r div 64" "v = r mod 64"
    have r: "r = u * 64 + v" unfolding uv by presburger
    have q: "2 \<le> u" "u < 32" "0 \<le> v" "v < 64" using two unfolding uv by auto
    have e: "encode_rune r = [chr (192 + u), chr (128 + v)]"
      using two assms by (simp add: encode_rune_def uv)
    have "decode_rune (192 + u) ([chr (128 + v)] @ rest) = (r, 1)"
      using q unfolding decode_rune_def by (simp add: in_range_def Let_def r)
    with e q show ?thesis by simp
  next
    case three
    define u v w where uvw: "u = r div 4096" "v = r div 64 mod 64" "w = r mod 64"
    have "r div 4096 = r div 64 div 64" using zdiv_zmult2_eq [of 64 r 64] by simp
    then have r: "r = u * 4096 + v * 64 + w"
      unfolding uvw using div_mult_mod_eq [of r 64] div_mult_mod_eq [of "r div 64" 64] by linarith
    have q: "0 \<le> u" "u < 16" "0 \<le> v" "v < 64" "0 \<le> w" "w < 64"
      using three unfolding uvw by (auto intro: pos_mod_bound simp: div_int_pos_iff)
    have low: "u = 0 \<Longrightarrow> 32 \<le> v" using three(1) q unfolding r by linarith
    have "\<not> (55296 \<le> r \<and> r \<le> 57343)" using assms by (simp add: valid_rune_def in_range_def)
    then have sur: "u = 13 \<Longrightarrow> v \<le> 31" using q unfolding r by linarith
    have e: "encode_rune r = [chr (224 + u), chr (128 + v), chr (128 + w)]"
      using three assms by (simp add: encode_rune_def uvw)
    have "decode_rune (224 + u) ([chr (128 + v), chr (128 + w)] @ rest) = (r, 2)"
      using q low sur unfolding decode_rune_def by (simp add: in_range_def Let_def r)
    with e q show ?thesis by simp
  next
    case four
    define u v w z where uvw: "u = r div 262144" "v = r div 4096 mod 64" "w = r div 64 mod 64" "z = r mod 64"
    have "r div 4096 = r div 64 div 64" "r div 262144 = r div 4096 div 64"
      using zdiv_zmult2_eq [of 64 r 64] zdiv_zmult2_eq [of 64 r 4096] by simp_all
    then have r: "r = u * 262144 + v * 4096 + w * 64 + z"
      unfolding uvw using div_mult_mod_eq [of r 64] div_mult_mod_eq [of "r div 64" 64]
        div_mult_mod_eq [of "r div 4096" 64] by linarith
    have m: "r < 1114112" using assms by (simp add: valid_rune_def)
    have u: "0 \<le> u" "u < 5" unfolding uvw(1) using m four by simp_all
    have q: "0 \<le> v" "v < 64" "0 \<le> w" "w < 64" "0 \<le> z" "z < 64"
      unfolding uvw by simp_all
    have low: "u = 0 \<Longrightarrow> 16 \<le> v" using four u q unfolding r by linarith
    have high: "u = 4 \<Longrightarrow> v \<le> 15" using m u q unfolding r by linarith
    have e: "encode_rune r = [chr (240 + u), chr (128 + v), chr (128 + w), chr (128 + z)]"
      using four assms by (simp add: encode_rune_def uvw)
    have "decode_rune (240 + u) ([chr (128 + v), chr (128 + w), chr (128 + z)] @ rest) = (r, 3)"
      using u q low high unfolding decode_rune_def by (simp add: in_range_def Let_def r)
    with e u q show ?thesis by simp
  qed
qed

lemma runes_of_runes_append:
  assumes "\<forall>r \<in> set rs. valid_rune r"
  shows "runes (of_runes rs @ s) = rs @ runes s"
  using assms
proof (induction rs)
  case Nil
  then show ?case by (simp add: of_runes_def)
next
  case (Cons r rs)
  obtain c cs where e: "encode_rune r = c # cs"
    and d: "decode_rune (byte c) (cs @ of_runes rs @ s) = (r, length cs)"
    using decode_encode [of r "of_runes rs @ s"] Cons.prems by auto
  have "runes (of_runes (r # rs) @ s) = r # runes (of_runes rs @ s)"
    using e d by (simp add: of_runes_def runes_def)
  with Cons show ?case by simp
qed

lemma runes_of_runes: "\<forall>r \<in> set rs. valid_rune r \<Longrightarrow> runes (of_runes rs) = rs"
  using runes_of_runes_append [of rs "[]"] by simp

lemma decode_rune_valid: "0 \<le> b \<Longrightarrow> valid_rune (fst (decode_rune b rest))"
  by (auto simp: decode_rune_def valid_rune_def in_range_def Let_def split: list.split)

lemma runes_valid: "r \<in> set (runes s) \<Longrightarrow> valid_rune r"
proof (induction s rule: chunks.induct)
  case 1
  then show ?case by (simp add: runes_def)
next
  case (2 c cs)
  obtain x k where xk: "decode_rune (byte c) cs = (x, k)" by force
  have "valid_rune x" using decode_rune_valid [of "byte c" cs] xk by simp
  moreover have "r = x \<or> r \<in> set (runes (drop k cs))" using "2.prems" xk by (simp add: runes_def)
  ultimately show ?case using "2.IH" [OF xk [symmetric]] by (auto simp: runes_def)
qed

text \<open>Every well-formed UTF-8 text survives \<open>string([]rune(s))\<close>.\<close>

lemma of_runes_runes: "s = of_runes rs \<Longrightarrow> \<forall>r \<in> set rs. valid_rune r \<Longrightarrow> of_runes (runes s) = s"
  by (simp add: runes_of_runes)

text \<open>An ASCII byte always stands for itself, never for a part of another rune.\<close>

lemma decode_rune_bytes:
  "b < 128 \<Longrightarrow> decode_rune b rest = (b, 0)"
  "c \<in> set (take (snd (decode_rune b rest)) rest) \<Longrightarrow> 128 \<le> byte c"
  "128 \<le> b \<Longrightarrow> 128 \<le> fst (decode_rune b rest)"
proof -
  show "b < 128 \<Longrightarrow> decode_rune b rest = (b, 0)"
    by (simp add: decode_rune_def Let_def split: list.split)
  show "c \<in> set (take (snd (decode_rune b rest)) rest) \<Longrightarrow> 128 \<le> byte c"
    by (auto simp: decode_rune_def in_range_def Let_def numeral_2_eq_2 numeral_3_eq_3 split: list.splits if_splits)
  show "128 \<le> b \<Longrightarrow> 128 \<le> fst (decode_rune b rest)"
    by (auto simp: decode_rune_def in_range_def Let_def split: list.splits)
qed

lemma chunk_ascii: "(r, b) \<in> set (chunks s) \<Longrightarrow> c \<in> set b \<Longrightarrow> byte c < 128 \<Longrightarrow> b = [c] \<and> r = byte c"
proof (induction s rule: chunks.induct)
  case (2 x xs)
  obtain q k where d: "decode_rune (byte x) xs = (q, k)" by force
  show ?case
  proof (cases "(r, b) = (q, x # take k xs)")
    case True
    have "c = x" using True 2(3,4) decode_rune_bytes(2) [of _ "byte x" xs] d by fastforce
    then show ?thesis using True 2(4) decode_rune_bytes(1) [of "byte x" xs] d by simp
  next
    case False
    then show ?thesis using 2 d by auto
  qed
qed simp

lemma chunk_rune_ascii: "(r, b) \<in> set (chunks s) \<Longrightarrow> r < 128 \<Longrightarrow> b = [chr r]"
proof (induction s rule: chunks.induct)
  case (2 x xs)
  obtain q k where d: "decode_rune (byte x) xs = (q, k)" by force
  show ?case
  proof (cases "(r, b) = (q, x # take k xs)")
    case True
    then have "byte x < 128" using decode_rune_bytes(3) [of "byte x" xs] d 2(3) by fastforce
    then show ?thesis using True decode_rune_bytes(1) [of "byte x" xs] d by simp
  next
    case False
    then show ?thesis using 2 d by auto
  qed
qed simp

text \<open>A newline in a text is the rune 10, and the other way round.\<close>

lemma newline_rune: "CHR 0x0A \<in> set s \<longleftrightarrow> 10 \<in> set (runes s)"
proof
  assume "CHR 0x0A \<in> set s"
  then have "CHR 0x0A \<in> set (concat (map snd (chunks s)))" by (simp add: concat_chunks)
  then obtain r b where rb: "(r, b) \<in> set (chunks s)" "CHR 0x0A \<in> set b" by auto
  with chunk_ascii [OF rb] have "r = 10" by (simp add: byte_def)
  with rb show "10 \<in> set (runes s)" by (force simp: runes_def)
next
  assume "10 \<in> set (runes s)"
  then obtain b where "(10, b) \<in> set (chunks s)" by (auto simp: runes_def)
  moreover from chunk_rune_ascii [OF this] have "b = [CHR 0x0A]" by (simp add: chr_def char_of_def)
  ultimately have "CHR 0x0A \<in> set (concat (map snd (chunks s)))" by force
  then show "CHR 0x0A \<in> set s" by (simp add: concat_chunks)
qed

text \<open>An ASCII byte ends the decoding of what is before it, so a text may be cut there.\<close>

lemma decode_rune_ascii_stop:
  "byte c < 128 \<Longrightarrow> decode_rune b (s @ c # t) = decode_rune b s"
proof -
  assume c: "byte c < 128"
  have n: "\<not> in_range 128 h (byte c)" "\<not> in_range (if b = 224 then 160 else if b = 240 then 144 else 128) h (byte c)" for h
    using c by (auto simp: in_range_def)
  show ?thesis
  proof (cases s)
    case Nil
    with n show ?thesis by (simp add: decode_rune_def Let_def)
  next
    case (Cons c1 s1)
    note 1 = Cons
    show ?thesis
    proof (cases s1)
      case Nil
      with 1 n show ?thesis by (simp add: decode_rune_def Let_def)
    next
      case (Cons c2 s2)
      note 2 = Cons
      show ?thesis
      proof (cases s2)
        case Nil
        with 1 2 n show ?thesis by (simp add: decode_rune_def Let_def)
      next
        case (Cons c3 s3)
        with 1 2 show ?thesis by (simp add: decode_rune_def Let_def)
      qed
    qed
  qed
qed

lemma decode_rune_length: "snd (decode_rune b s) \<le> length s"
  by (auto simp: decode_rune_def Let_def split: list.split)

lemma chunks_append_ascii: "byte c < 128 \<Longrightarrow> chunks (s @ c # t) = chunks s @ chunks (c # t)"
proof (induction s rule: chunks.induct)
  case (2 x xs)
  obtain r k where d: "decode_rune (byte x) xs = (r, k)" by force
  have k: "k \<le> length xs" using decode_rune_length [of "byte x" xs] d by simp
  have "decode_rune (byte x) (xs @ c # t) = (r, k)" using decode_rune_ascii_stop [OF 2(2)] d by simp
  moreover have "chunks (drop k xs @ c # t) = chunks (drop k xs) @ chunks (c # t)" using 2(1) [OF d [symmetric] 2(2)] .
  moreover have "take k (xs @ c # t) = take k xs" "drop k (xs @ c # t) = drop k xs @ c # t" using k by simp_all
  ultimately have "chunks (x # (xs @ c # t)) = (r, x # take k xs) # chunks (drop k xs) @ chunks (c # t)"
    by (simp only: chunks.simps(2) prod.case)
  moreover have "chunks (x # xs) = (r, x # take k xs) # chunks (drop k xs)" using d by simp
  ultimately show ?case by (simp only: append_Cons)
qed simp

lemma chunks_ascii: "\<forall>c \<in> set s. byte c < 128 \<Longrightarrow> map fst (chunks s) = map byte s"
proof (induction s)
  case (Cons c s)
  then show ?case using decode_rune_bytes(1) [of "byte c" s] by simp
qed simp

section \<open>Package unicode\<close>

text \<open>\<open>unicode.IsSpace\<close>: the White_Space property.\<close>

definition IsSpace :: "rune \<Rightarrow> bool" where
  "IsSpace r \<longleftrightarrow> in_range 9 13 r \<or> r \<in> {32, 133, 160, 5760, 8232, 8233, 8239, 8287, 12288}
     \<or> in_range 8192 8202 r"

text \<open>The tables of package \<open>unicode\<close> for runes from U+0080 on.\<close>

record unicode =
  ut_letter :: "rune \<Rightarrow> bool"
  ut_number :: "rune \<Rightarrow> bool"
  ut_print :: "rune \<Rightarrow> bool"
  ut_lower :: "rune \<Rightarrow> rune"

definition IsLetter :: "unicode \<Rightarrow> rune \<Rightarrow> bool" where
  "IsLetter U r = (if r < 128 then in_range 65 90 r \<or> in_range 97 122 r else ut_letter U r)"

definition IsNumber :: "unicode \<Rightarrow> rune \<Rightarrow> bool" where
  "IsNumber U r = (if r < 128 then in_range 48 57 r else ut_number U r)"

definition lower_rune :: "unicode \<Rightarrow> rune \<Rightarrow> rune" where
  "lower_rune U r = (if r < 128 then (if in_range 65 90 r then r + 32 else r) else ut_lower U r)"

text \<open>A table that knows no letter, digit or case pair beyond ASCII (used in examples).\<close>

definition ascii_only :: unicode where
  "ascii_only = \<lparr>ut_letter = (\<lambda>_. False), ut_number = (\<lambda>_. False), ut_print = (\<lambda>_. False), ut_lower = (\<lambda>r. r)\<rparr>"

section \<open>Package strings\<close>

text \<open>\<open>strings.FieldsFunc\<close>: the maximal runs of runes that do not satisfy \<open>p\<close>.\<close>

fun fields_chunks :: "(rune \<Rightarrow> bool) \<Rightarrow> (rune \<times> string) list \<Rightarrow> string \<Rightarrow> string list" where
  "fields_chunks p [] cur = (if cur = [] then [] else [cur])"
| "fields_chunks p ((r, b) # cs) cur =
     (if p r then (if cur = [] then fields_chunks p cs [] else cur # fields_chunks p cs [])
      else fields_chunks p cs (cur @ b))"

definition FieldsFunc :: "(rune \<Rightarrow> bool) \<Rightarrow> string \<Rightarrow> string list" where
  "FieldsFunc p s = fields_chunks p (chunks s) []"

definition Fields :: "string \<Rightarrow> string list" where
  "Fields s = FieldsFunc IsSpace s"

definition TrimSpace :: "string \<Rightarrow> string" where
  "TrimSpace s = concat (map snd (rev (dropWhile (IsSpace \<circ> fst)
     (rev (dropWhile (IsSpace \<circ> fst) (chunks s))))))"

fun Join :: "string list \<Rightarrow> string \<Rightarrow> string" where
  "Join [] sep = []"
| "Join [x] sep = x"
| "Join (x # y # ys) sep = x @ sep @ Join (y # ys) sep"

definition HasPrefix :: "string \<Rightarrow> string \<Rightarrow> bool" where
  "HasPrefix s p \<longleftrightarrow> take (length p) s = p"

fun Contains :: "string \<Rightarrow> string \<Rightarrow> bool" where
  "Contains [] sub = (sub = [])"
| "Contains (c # cs) sub = (HasPrefix (c # cs) sub \<or> Contains cs sub)"

definition ToLower :: "unicode \<Rightarrow> string \<Rightarrow> string" where
  "ToLower U s = of_runes (map (lower_rune U) (runes s))"

lemma Contains_iff: "Contains s sub \<longleftrightarrow> (\<exists>a b. s = a @ sub @ b)"
proof (induction s)
  case Nil
  then show ?case by simp
next
  case (Cons c cs)
  have h: "HasPrefix (c # cs) sub \<longleftrightarrow> (\<exists>b. c # cs = sub @ b)"
    by (metis HasPrefix_def append_eq_conv_conj append_take_drop_id)
  show ?case
    unfolding Contains.simps(2) h Cons by (metis append_Cons append_Nil append_eq_Cons_conv)
qed

lemma Contains_Nil [simp]: "Contains s []"
  by (auto simp: Contains_iff)

lemma Contains_self [simp]: "Contains s s"
  unfolding Contains_iff by (metis append_Nil append_Nil2)

lemma Contains_append1: "Contains a x \<Longrightarrow> Contains (a @ b) x"
  unfolding Contains_iff by (metis append_assoc)

lemma Contains_append2: "Contains b x \<Longrightarrow> Contains (a @ b) x"
  unfolding Contains_iff by (metis append_assoc)

lemma Join_Cons: "xs \<noteq> [] \<Longrightarrow> Join (x # xs) sep = x @ sep @ Join xs sep"
  by (cases xs) simp_all

text \<open>
  Joining with a separator byte that occurs in no part can be undone: the property that
  makes the NUL-joined hash keys of acm unambiguous.
\<close>

lemma append_sep_inj:
  assumes "c \<notin> set a" and "c \<notin> set b" and "a @ c # x = b @ c # y"
  shows "a = b \<and> x = y"
  using assms
proof (induction a arbitrary: b)
  case Nil
  then show ?case by (cases b) auto
next
  case (Cons d a)
  then show ?case by (cases b) auto
qed

lemma Join_inj:
  assumes "\<forall>x \<in> set xs. c \<notin> set x" and "\<forall>y \<in> set ys. c \<notin> set y"
    and "xs \<noteq> []" and "ys \<noteq> []" and "Join xs [c] = Join ys [c]"
  shows "xs = ys"
  using assms
proof (induction xs arbitrary: ys)
  case Nil
  then show ?case by simp
next
  case (Cons x xs)
  then obtain y ys' where ys: "ys = y # ys'" by (cases ys) auto
  have cx: "c \<notin> set x" "c \<notin> set y" using Cons.prems ys by auto
  consider "xs = []" "ys' = []" | "xs = []" "ys' \<noteq> []" | "xs \<noteq> []" "ys' = []"
    | (both) "xs \<noteq> []" "ys' \<noteq> []" by blast
  then show ?case
  proof cases
    case both
    then have "x @ c # Join xs [c] = y @ c # Join ys' [c]"
      using Cons.prems ys by (simp add: Join_Cons)
    then have "x = y \<and> Join xs [c] = Join ys' [c]"
      by (rule append_sep_inj [OF cx])
    with Cons.IH [of ys'] Cons.prems ys both show ?thesis by auto
  qed (use Cons.prems ys cx in \<open>auto simp: Join_Cons\<close>)
qed

section \<open>Numbers and quoting\<close>

fun digits :: "nat \<Rightarrow> string" where
  "digits n = (if n < 10 then [char_of (48 + n)] else digits (n div 10) @ [char_of (48 + n mod 10)])"

declare digits.simps [simp del]

text \<open>\<open>strconv.Itoa\<close> and the verb \<open>%d\<close>.\<close>

definition itoa :: "int \<Rightarrow> string" where
  "itoa i = (if i < 0 then ''-'' @ digits (nat (- i)) else digits (nat i))"

text \<open>The same digits computed on binary integers, which is how examples evaluate them.\<close>

definition digit_char :: "int \<Rightarrow> char" where
  "digit_char d = (if d = 0 then CHR ''0'' else if d = 1 then CHR ''1'' else if d = 2 then CHR ''2''
     else if d = 3 then CHR ''3'' else if d = 4 then CHR ''4'' else if d = 5 then CHR ''5''
     else if d = 6 then CHR ''6'' else if d = 7 then CHR ''7'' else if d = 8 then CHR ''8'' else CHR ''9'')"

function int_digits :: "int \<Rightarrow> string" where
  "int_digits i = (if i < 10 then [digit_char i] else int_digits (i div 10) @ [digit_char (i mod 10)])"
  by pat_completeness auto
termination by (relation "measure nat") auto

declare int_digits.simps [simp del]

lemma digit_char: "0 \<le> d \<Longrightarrow> d < 10 \<Longrightarrow> char_of (48 + nat d) = digit_char d"
proof -
  assume "0 \<le> d" "d < 10"
  then have "d = 0 \<or> d = 1 \<or> d = 2 \<or> d = 3 \<or> d = 4 \<or> d = 5 \<or> d = 6 \<or> d = 7 \<or> d = 8 \<or> d = 9" by presburger
  then show ?thesis by (elim disjE) (simp_all add: digit_char_def char_of_eq_iff)
qed

lemma int_digits: "0 \<le> i \<Longrightarrow> int_digits i = digits (nat i)"
proof (induction i rule: int_digits.induct)
  case (1 i)
  show ?case
  proof (cases "i < 10")
    case True
    then have "nat i < 10" using 1(2) by linarith
    then have "digits (nat i) = [char_of (48 + nat i)]" by (subst digits.simps) (simp only: if_True)
    moreover have "int_digits i = [digit_char i]" using True by (subst int_digits.simps) (simp only: if_True)
    ultimately show ?thesis using digit_char [OF 1(2) True] by (simp only:)
  next
    case False
    then have "\<not> nat i < 10" by linarith
    then have "digits (nat i) = digits (nat i div 10) @ [char_of (48 + nat i mod 10)]"
      by (subst digits.simps) (simp only: if_False)
    moreover have "int_digits i = int_digits (i div 10) @ [digit_char (i mod 10)]"
      using False by (subst int_digits.simps) (simp only: if_False)
    moreover have "digit_char (i mod 10) = char_of (48 + nat i mod 10)"
      using digit_char [of "i mod 10"] 1(2) by (simp add: nat_mod_distrib)
    moreover have "int_digits (i div 10) = digits (nat i div 10)"
      using 1(1) [OF False] 1(2) by (simp add: nat_div_distrib pos_imp_zdiv_nonneg_iff)
    ultimately show ?thesis by (simp only:)
  qed
qed

lemma itoa_code [code]: "itoa i = (if i < 0 then ''-'' @ int_digits (- i) else int_digits i)"
  by (simp add: itoa_def int_digits)


text \<open>Comparing two characters is one pass over their bits.\<close>

lemma lexordp_bools:
  "ord_class.lexordp (x # xs) (y # ys) \<longleftrightarrow> (if x \<noteq> y then y else ord_class.lexordp xs ys)" for x y :: bool
  by auto

lemma less_char_bits [code]:
  "Char b0 b1 b2 b3 b4 b5 b6 b7 < Char c0 c1 c2 c3 c4 c5 c6 c7 \<longleftrightarrow>
     (if b7 \<noteq> c7 then c7 else if b6 \<noteq> c6 then c6 else if b5 \<noteq> c5 then c5 else if b4 \<noteq> c4 then c4
      else if b3 \<noteq> c3 then c3 else if b2 \<noteq> c2 then c2 else if b1 \<noteq> c1 then c1 else \<not> b0 \<and> c0)"
  unfolding less_char_simp lexordp_bools by simp

lemma digits_nonempty: "digits n \<noteq> []"
  by (subst digits.simps) simp

lemma digits_range: "c \<in> set (digits n) \<Longrightarrow> 48 \<le> (of_char c :: nat) \<and> (of_char c :: nat) \<le> 57"
proof (induction n rule: digits.induct)
  case (1 n)
  show ?case
  proof (cases "n < 10")
    case True
    with "1.prems" show ?thesis by (subst (asm) digits.simps) auto
  next
    case False
    have "n mod 10 < 10" by simp
    with "1.prems" False "1.IH" show ?thesis by (subst (asm) digits.simps) auto
  qed
qed

text \<open>The value of a digit string: the inverse of \<open>digits\<close>.\<close>

definition digits_value :: "string \<Rightarrow> nat" where
  "digits_value s = foldl (\<lambda>v c. 10 * v + (of_char c - 48)) 0 s"

lemma digits_value_digits: "digits_value (digits n) = n"
proof (induction n rule: digits.induct)
  case (1 n)
  show ?case
  proof (cases "n < 10")
    case True
    then show ?thesis by (subst digits.simps) (simp add: digits_value_def)
  next
    case False
    have "n mod 10 < 10" by simp
    with False "1.IH" show ?thesis by (subst digits.simps) (simp add: digits_value_def)
  qed
qed

lemma itoa_inj: "itoa a = itoa b \<Longrightarrow> a = b"
proof -
  assume eq: "itoa a = itoa b"
  have nodash: "digits n \<noteq> ''-'' @ x" for n x
  proof
    assume "digits n = ''-'' @ x"
    then have "CHR ''-'' \<in> set (digits n)" by simp
    from digits_range [OF this] show False by simp
  qed
  have inj: "digits m = digits n \<Longrightarrow> m = n" for m n
    using digits_value_digits by metis
  consider (neg) "a < 0" "b < 0" | (pos) "0 \<le> a" "0 \<le> b" | (np) "a < 0" "0 \<le> b" | (pn) "0 \<le> a" "b < 0"
    by linarith
  then show ?thesis
  proof cases
    case neg
    then have "nat (- a) = nat (- b)" using eq by (intro inj) (simp add: itoa_def)
    with neg show ?thesis by simp
  next
    case pos
    then have "nat a = nat b" using eq by (intro inj) (simp add: itoa_def)
    with pos show ?thesis by simp
  next
    case np
    then show ?thesis using eq nodash [of "nat b" "digits (nat (- a))"] by (simp add: itoa_def)
  next
    case pn
    then show ?thesis using eq nodash [of "nat a" "digits (nat (- b))"] by (simp add: itoa_def)
  qed
qed

lemma itoa_no_NUL: "CHR 0x00 \<notin> set (itoa i)"
proof
  assume "CHR 0x00 \<in> set (itoa i)"
  then obtain n where "CHR 0x00 \<in> set (digits n)"
    by (auto simp: itoa_def split: if_splits)
  from digits_range [OF this] show False by simp
qed

text \<open>\<open>strconv.Quote\<close>, the verb \<open>%q\<close>.\<close>

definition hex_digit :: "nat \<Rightarrow> char" where
  "hex_digit n = (if n < 10 then char_of (48 + n) else char_of (87 + n))"

fun hex_pad :: "nat \<Rightarrow> nat \<Rightarrow> string" where
  "hex_pad 0 n = []"
| "hex_pad (Suc w) n = hex_pad w (n div 16) @ [hex_digit (n mod 16)]"

abbreviation backslash :: char where
  "backslash \<equiv> CHR 0x5C"

definition quote_chunk :: "unicode \<Rightarrow> rune \<times> string \<Rightarrow> string" where
  "quote_chunk U rb = (case rb of (r, b) \<Rightarrow>
     if r = RuneError \<and> length b = 1 then backslash # ''x'' @ hex_pad 2 (nat (byte (hd b)))
     else if r = 34 \<or> r = 92 then backslash # b
     else if in_range 32 126 r \<or> (128 \<le> r \<and> ut_print U r) then b
     else if r = 7 then backslash # ''a'' else if r = 8 then backslash # ''b''
     else if r = 12 then backslash # ''f'' else if r = 10 then backslash # ''n''
     else if r = 13 then backslash # ''r'' else if r = 9 then backslash # ''t''
     else if r = 11 then backslash # ''v''
     else if r < 32 \<or> r = 127 then backslash # ''x'' @ hex_pad 2 (nat r)
     else if r < 65536 then backslash # ''u'' @ hex_pad 4 (nat r)
     else backslash # ''U'' @ hex_pad 8 (nat r))"

definition Quote :: "unicode \<Rightarrow> string \<Rightarrow> string" where
  "Quote U s = CHR 0x22 # concat (map (quote_chunk U) (chunks s)) @ [CHR 0x22]"

section \<open>Rune truncation\<close>

text \<open>
  The packages of acm cut a text to a number of runes and append a mark in the same way;
  \<open>cut_runes\<close> is their common shape, with the bounds they rely on.
\<close>

definition ellipsis :: string where
  "ellipsis = [CHR 0xE2, CHR 0x80, CHR 0xA6]"

definition cut_runes :: "nat \<Rightarrow> string \<Rightarrow> string \<Rightarrow> string" where
  "cut_runes n mark s =
     (if length (runes s) \<le> n then s else of_runes (take n (runes s)) @ mark)"

lemma take_runes_valid: "\<forall>r \<in> set (take n (runes s)). valid_rune r"
  by (auto dest: in_set_takeD runes_valid)

lemma runes_cut_runes:
  "runes (cut_runes n mark s) =
     (if length (runes s) \<le> n then runes s else take n (runes s) @ runes mark)"
  by (simp add: cut_runes_def runes_of_runes_append take_runes_valid)

lemma length_cut_runes: "length (runes (cut_runes n mark s)) \<le> n + length (runes mark)"
  by (simp add: runes_cut_runes)

lemma runes_ellipsis: "length (runes ellipsis) = 1"
  by (simp add: runes_def ellipsis_def decode_rune_def in_range_def byte_def Let_def)

lemma cut_runes_id: "length (runes s) \<le> n \<Longrightarrow> cut_runes n mark s = s"
  by (simp add: cut_runes_def)

section \<open>File paths\<close>

text \<open>\<open>path/filepath\<close> on a system whose separator is the slash.\<close>

fun split_on :: "char \<Rightarrow> string \<Rightarrow> string list" where
  "split_on c [] = [[]]"
| "split_on c (x # xs) =
     (if x = c then [] # split_on c xs
      else case split_on c xs of [] \<Rightarrow> [[x]] | p # ps \<Rightarrow> (x # p) # ps)"

fun clean_parts :: "bool \<Rightarrow> string list \<Rightarrow> string list \<Rightarrow> string list" where
  "clean_parts rooted acc [] = rev acc"
| "clean_parts rooted acc (p # ps) =
     (if p = [] \<or> p = ''.'' then clean_parts rooted acc ps
      else if p = ''..''
      then (case acc of
              [] \<Rightarrow> clean_parts rooted (if rooted then [] else [p]) ps
            | a # as \<Rightarrow> clean_parts rooted (if a = ''..'' then p # acc else as) ps)
      else clean_parts rooted (p # acc) ps)"

definition path_Clean :: "string \<Rightarrow> string" where
  "path_Clean p =
     (if p = [] then ''.''
      else let rooted = (hd p = CHR ''/''); parts = clean_parts rooted [] (split_on (CHR ''/'') p) in
           if rooted then CHR ''/'' # Join parts ''/''
           else if parts = [] then ''.'' else Join parts ''/'')"

definition path_Join :: "string list \<Rightarrow> string" where
  "path_Join elems =
     (let rest = dropWhile (\<lambda>e. e = []) elems in
      if rest = [] then [] else path_Clean (Join rest ''/''))"

text \<open>\<open>filepath.Dir\<close> and \<open>filepath.Base\<close>.\<close>

definition path_Dir :: "string \<Rightarrow> string" where
  "path_Dir p = path_Clean (rev (dropWhile (\<lambda>c. c \<noteq> CHR ''/'') (rev p)))"

definition path_Base :: "string \<Rightarrow> string" where
  "path_Base p =
     (if p = [] then ''.''
      else let q = rev (dropWhile (\<lambda>c. c = CHR ''/'') (rev p)) in
           if q = [] then ''/'' else rev (takeWhile (\<lambda>c. c \<noteq> CHR ''/'') (rev q)))"

end
