(* ===== verification/CoreTypes.thy ===== *)
theory CoreTypes
  imports GoText
begin

text \<open>
  The domain model of package \<open>internal/core\<close> (\<open>types.go\<close>, \<open>summary.go\<close>,
  \<open>store.go\<close>, \<open>ids.go\<close>): conversations, messages, summary DAG nodes, the entries of the
  active window, the request types of the store, and the deterministic identifiers.
  Agents, roles, kinds and item types are Go string types: any string may appear, and
  \<open>Valid\<close> recognises the declared constants.  Field names carry a prefix for their struct.
\<close>

section \<open>Agents and roles\<close>

type_synonym agent = string
type_synonym role = string

definition AgentClaude :: agent where "AgentClaude = ''claude-code''"

definition AgentCodex :: agent where "AgentCodex = ''codex''"

definition AgentOpenCode :: agent where "AgentOpenCode = ''opencode''"

definition agent_Valid :: "agent \<Rightarrow> bool" where
  "agent_Valid a \<longleftrightarrow> a = AgentClaude \<or> a = AgentCodex \<or> a = AgentOpenCode"

definition RoleSystem :: role where "RoleSystem = ''system''"

definition RoleUser :: role where "RoleUser = ''user''"

definition RoleAssistant :: role where "RoleAssistant = ''assistant''"

definition RoleTool :: role where "RoleTool = ''tool''"

definition role_Valid :: "role \<Rightarrow> bool" where
  "role_Valid r \<longleftrightarrow> r = RoleSystem \<or> r = RoleUser \<or> r = RoleAssistant \<or> r = RoleTool"

lemmas role_defs = RoleSystem_def RoleUser_def RoleAssistant_def RoleTool_def
lemmas agent_defs = AgentClaude_def AgentCodex_def AgentOpenCode_def

section \<open>Conversations, messages, statistics\<close>

text \<open>Instants are nanoseconds since the Unix epoch, in UTC.\<close>

type_synonym time = int
type_synonym duration = int

record conversation =
  cv_ID :: string
  cv_Agent :: agent
  cv_SessionID :: string
  cv_Title :: string
  cv_CreatedAt :: time
  cv_UpdatedAt :: time

record message =
  ms_ID :: string
  ms_ConversationID :: string
  ms_Seq :: int
  ms_Role :: role
  ms_Content :: string
  ms_TokenCount :: int
  ms_ToolName :: string
  ms_ExternalID :: string
  ms_IdentityHash :: string
  ms_Raw :: string
  ms_CreatedAt :: time

record stats =
  st_Conversations :: int
  st_Messages :: int
  st_TotalTokens :: int

record conversation_role_counts =
  rc_ConversationID :: string
  rc_Agent :: agent
  rc_Users :: int
  rc_Assistants :: int
  rc_Tools :: int
  rc_UpdatedAt :: time

record prune_candidate =
  pc_Conversation :: conversation
  pc_Pinned :: bool
  pc_SummaryCount :: int
  pc_UnexpandedSummary :: int

record delete_result =
  dr_Deleted :: int
  dr_OffloadPaths :: "string list"

section \<open>Summaries and the active window\<close>

type_synonym summary_kind = string

definition SummaryLeaf :: summary_kind where "SummaryLeaf = ''leaf''"

definition SummaryCondensed :: summary_kind where "SummaryCondensed = ''condensed''"

record summary =
  sm_ID :: string
  sm_ConversationID :: string
  sm_Kind :: summary_kind
  sm_Depth :: int
  sm_Content :: string
  sm_TokenCount :: int
  sm_SourceCount :: int
  sm_DescendantMessageCount :: int
  sm_EarliestSeq :: int
  sm_LatestSeq :: int
  sm_CreatedAt :: time

type_synonym context_item_type = string

definition ContextMessage :: context_item_type where "ContextMessage = ''message''"

definition ContextSummary :: context_item_type where "ContextSummary = ''summary''"

record context_item =
  ci_Ordinal :: int
  ci_Type :: context_item_type
  ci_RefID :: string

record large_file =
  lf_ID :: string
  lf_ConversationID :: string
  lf_MessageID :: string
  lf_StorageURI :: string
  lf_ByteSize :: int
  lf_TokenCount :: int
  lf_ExplorationSummary :: string
  lf_Extractor :: string
  lf_CreatedAt :: time

record leaf_summary_input =
  li_ConversationID :: string
  li_Content :: string
  li_TokenCount :: int
  li_SourceMessageIDs :: "string list"
  li_EarliestSeq :: int
  li_LatestSeq :: int
  li_DescendantMessageCount :: int

record condensed_summary_input =
  co_ConversationID :: string
  co_Depth :: int
  co_Content :: string
  co_TokenCount :: int
  co_ChildSummaryIDs :: "string list"
  co_EarliestSeq :: int
  co_LatestSeq :: int
  co_DescendantMessageCount :: int

record summarize_input =
  si_Kind :: summary_kind
  si_Depth :: int
  si_Sources :: "string list"
  si_TargetTokens :: int

lemma kind_neq [simp]: "SummaryLeaf \<noteq> SummaryCondensed" "SummaryCondensed \<noteq> SummaryLeaf"
  by (simp_all add: SummaryLeaf_def SummaryCondensed_def)

lemma item_type_neq [simp]: "ContextMessage \<noteq> ContextSummary" "ContextSummary \<noteq> ContextMessage"
  by (simp_all add: ContextMessage_def ContextSummary_def)

section \<open>Store requests\<close>

type_synonym search_mode = string

definition SearchFTS :: search_mode where "SearchFTS = ''''"

definition SearchSubstr :: search_mode where "SearchSubstr = ''substr''"

record conversation_input =
  in_Agent :: agent
  in_SessionID :: string
  in_Title :: string

record message_input =
  mi_ConversationID :: string
  mi_Role :: role
  mi_Content :: string
  mi_TokenCount :: int
  mi_ToolName :: string
  mi_ExternalID :: string
  mi_Raw :: string

record search_query =
  sq_Text :: string
  sq_Mode :: search_mode
  sq_ConversationID :: string
  sq_Limit :: int
  sq_Any :: bool

text \<open>
  A search score is a \<open>float64\<close> the database computes; only its order matters here, so it
  is an integer that stands for its position in that order.
\<close>

record search_hit =
  sh_Message :: message
  sh_Snippet :: string
  sh_Score :: int

record summary_hit =
  mh_Summary :: summary
  mh_Snippet :: string
  mh_Score :: int
  mh_Active :: bool

section \<open>Identifiers\<close>

text \<open>
  \<open>H\<close> stands for \<open>hex(sha256(.))\<close>.  The model does not open it: what the code relies on is
  that two different keys get different digests, which a theorem states for the keys it is about.
\<close>

type_synonym hash = "string \<Rightarrow> string"

definition NUL :: char where "NUL = CHR 0x00"

definition idLen :: nat where "idLen = 24"

definition digest :: "hash \<Rightarrow> string list \<Rightarrow> string" where
  "digest H parts = H (Join parts [NUL])"

definition hashID :: "hash \<Rightarrow> string \<Rightarrow> string list \<Rightarrow> string" where
  "hashID H prefix parts = prefix @ ''_'' @ take idLen (digest H parts)"

definition DeriveConversationID :: "hash \<Rightarrow> agent \<Rightarrow> string \<Rightarrow> string" where
  "DeriveConversationID H agent sessionID = hashID H ''conv'' [agent, sessionID]"

definition DeriveMessageID :: "hash \<Rightarrow> string \<Rightarrow> string \<Rightarrow> string" where
  "DeriveMessageID H conversationID idHash = hashID H ''msg'' [conversationID, idHash]"

definition DeriveSummaryID :: "hash \<Rightarrow> string \<Rightarrow> summary_kind \<Rightarrow> int \<Rightarrow> string list \<Rightarrow> string" where
  "DeriveSummaryID H conversationID kind depth sourceIDs =
     hashID H ''sum'' ([conversationID, kind, itoa depth] @ sourceIDs)"

definition DeriveFileID :: "hash \<Rightarrow> string \<Rightarrow> string \<Rightarrow> string" where
  "DeriveFileID H conversationID messageID = hashID H ''file'' [conversationID, messageID]"

definition IdentityHash :: "hash \<Rightarrow> string \<Rightarrow> role \<Rightarrow> string \<Rightarrow> string \<Rightarrow> string" where
  "IdentityHash H externalID role content raw =
     (if externalID \<noteq> [] then digest H [''ext'', externalID]
      else if raw \<noteq> [] then digest H [''raw'', raw]
      else digest H [role, content])"

text \<open>
  The preimages of the hashes.  The parts are joined with NUL, so for parts without NUL the
  preimage determines the parts: an identifier repeats only for the same entity or when
  SHA-256 itself (cut to 96 bits) collides.
\<close>

definition summary_key :: "string \<Rightarrow> summary_kind \<Rightarrow> int \<Rightarrow> string list \<Rightarrow> string" where
  "summary_key conversationID kind depth sourceIDs =
     Join ([conversationID, kind, itoa depth] @ sourceIDs) [NUL]"

definition identity_key :: "string \<Rightarrow> role \<Rightarrow> string \<Rightarrow> string \<Rightarrow> string" where
  "identity_key externalID role content raw =
     Join (if externalID \<noteq> [] then [''ext'', externalID]
           else if raw \<noteq> [] then [''raw'', raw] else [role, content]) [NUL]"

definition nul_free :: "string \<Rightarrow> bool" where
  "nul_free s \<longleftrightarrow> NUL \<notin> set s"

lemma DeriveSummaryID_key:
  "DeriveSummaryID H c k d ids = ''sum_'' @ take idLen (H (summary_key c k d ids))"
  by (simp add: DeriveSummaryID_def hashID_def digest_def summary_key_def)

lemma IdentityHash_key: "IdentityHash H e r c w = H (identity_key e r c w)"
  by (simp add: IdentityHash_def identity_key_def digest_def)

lemma summary_key_inj:
  assumes "nul_free c" "nul_free k" "\<forall>i \<in> set ids. nul_free i"
    and "nul_free c'" "nul_free k'" "\<forall>i \<in> set ids'. nul_free i"
    and eq: "summary_key c k d ids = summary_key c' k' d' ids'"
  shows "c = c' \<and> k = k' \<and> d = d' \<and> ids = ids'"
proof -
  have free: "NUL \<notin> set (itoa n)" for n
    using itoa_no_NUL by (simp add: NUL_def)
  have "[c, k, itoa d] @ ids = [c', k', itoa d'] @ ids'"
    using assms free by (intro Join_inj [where c = NUL]) (auto simp: nul_free_def summary_key_def)
  then show ?thesis by (auto dest: itoa_inj)
qed

lemma identity_key_inj:
  assumes "role_Valid r" "role_Valid r'"
    and eq: "identity_key e r c w = identity_key e' r' c' w'"
  shows "(e \<noteq> [] \<and> e' = e) \<or> (e = [] \<and> e' = [] \<and> w \<noteq> [] \<and> w' = w)
    \<or> (e = [] \<and> e' = [] \<and> w = [] \<and> w' = [] \<and> r' = r \<and> c' = c)"
proof -
  define tag where "tag e r w = (if e \<noteq> [] then ''ext'' else if w \<noteq> [] then ''raw'' else r)" for e r w :: string
  define body where "body e c w = (if e \<noteq> [] then e else if w \<noteq> [] then w else c)" for e c w :: string
  have key: "identity_key e r c w = tag e r w @ NUL # body e c w" for e r c w
    by (simp add: identity_key_def tag_def body_def)
  have free: "NUL \<notin> set (tag e r w)" if "role_Valid r" for e r w
    using that by (auto simp: tag_def role_Valid_def role_defs NUL_def)
  have "tag e r w = tag e' r' w' \<and> body e c w = body e' c' w'"
    using eq unfolding key by (rule append_sep_inj [OF free free, OF assms(1,2)])
  then show ?thesis
    using assms(1,2) by (auto simp: tag_def body_def role_Valid_def role_defs split: if_splits)
qed

section \<open>The rows of new summaries\<close>

text \<open>What \<open>CreateLeafSummary\<close> and \<open>CreateCondensedSummary\<close> store for a request.\<close>

definition leaf_summary :: "hash \<Rightarrow> leaf_summary_input \<Rightarrow> time \<Rightarrow> summary" where
  "leaf_summary H i now =
     \<lparr>sm_ID = DeriveSummaryID H (li_ConversationID i) SummaryLeaf 0 (li_SourceMessageIDs i),
      sm_ConversationID = li_ConversationID i, sm_Kind = SummaryLeaf, sm_Depth = 0,
      sm_Content = li_Content i, sm_TokenCount = li_TokenCount i,
      sm_SourceCount = int (length (li_SourceMessageIDs i)),
      sm_DescendantMessageCount = li_DescendantMessageCount i,
      sm_EarliestSeq = li_EarliestSeq i, sm_LatestSeq = li_LatestSeq i, sm_CreatedAt = now\<rparr>"

definition condensed_summary :: "hash \<Rightarrow> condensed_summary_input \<Rightarrow> time \<Rightarrow> summary" where
  "condensed_summary H i now =
     \<lparr>sm_ID = DeriveSummaryID H (co_ConversationID i) SummaryCondensed (co_Depth i) (co_ChildSummaryIDs i),
      sm_ConversationID = co_ConversationID i, sm_Kind = SummaryCondensed, sm_Depth = co_Depth i,
      sm_Content = co_Content i, sm_TokenCount = co_TokenCount i,
      sm_SourceCount = int (length (co_ChildSummaryIDs i)),
      sm_DescendantMessageCount = co_DescendantMessageCount i,
      sm_EarliestSeq = co_EarliestSeq i, sm_LatestSeq = co_LatestSeq i, sm_CreatedAt = now\<rparr>"

lemma leaf_summary_simps [simp]:
  "sm_ConversationID (leaf_summary H i now) = li_ConversationID i" "sm_Kind (leaf_summary H i now) = SummaryLeaf"
  "sm_Depth (leaf_summary H i now) = 0" "sm_EarliestSeq (leaf_summary H i now) = li_EarliestSeq i"
  "sm_LatestSeq (leaf_summary H i now) = li_LatestSeq i"
  "sm_DescendantMessageCount (leaf_summary H i now) = li_DescendantMessageCount i"
  "sm_TokenCount (leaf_summary H i now) = li_TokenCount i" "sm_Content (leaf_summary H i now) = li_Content i"
  by (simp_all add: leaf_summary_def)

lemma condensed_summary_simps [simp]:
  "sm_ConversationID (condensed_summary H i now) = co_ConversationID i"
  "sm_Kind (condensed_summary H i now) = SummaryCondensed"
  "sm_Depth (condensed_summary H i now) = co_Depth i" "sm_EarliestSeq (condensed_summary H i now) = co_EarliestSeq i"
  "sm_LatestSeq (condensed_summary H i now) = co_LatestSeq i"
  "sm_DescendantMessageCount (condensed_summary H i now) = co_DescendantMessageCount i"
  "sm_TokenCount (condensed_summary H i now) = co_TokenCount i" "sm_Content (condensed_summary H i now) = co_Content i"
  by (simp_all add: condensed_summary_def)

end
