(* ===== verification/Database.thy ===== *)
theory Database
  imports CoreTypes
begin

text \<open>
  The database under \<open>internal/store\<close>: the tables of the embedded migrations as lists of
  rows, the driver (every statement may fail, a transaction that fails is rolled back), the
  clock, and \<open>fmtTime\<close>, the text form in which instants are stored and compared.

  \<^item> A row is the Go struct it is scanned into.  A \<open>SELECT\<close> without \<open>ORDER BY\<close> reads rows
    in insertion order; \<open>ORDER BY\<close> is a stable sort on the column.
  \<^item> \<open>w_fault n\<close> says that the \<open>n\<close>-th call to the driver or the operating system fails;
    \<open>w_now n\<close> is what the clock shows at that point.  Both are arbitrary: a theorem holds for
    every pattern of failures unless it asks for a healthy driver.
  \<^item> A failed \<open>COMMIT\<close> leaves the tables as they were at \<open>BEGIN\<close> (SQLite's atomic commit).
\<close>

section \<open>Tables and the world\<close>

record fts_row =
  fr_content :: string
  fr_ref_id :: string
  fr_conversation_id :: string

record context_row =
  cx_conversation_id :: string
  cx_ordinal :: int
  cx_item_type :: context_item_type
  cx_ref_id :: string

record tables =
  t_conversations :: "conversation list"
  t_messages :: "message list"
  t_messages_fts :: "fts_row list"
  t_summaries :: "summary list"
  t_summary_messages :: "(string \<times> string) list"
  t_summary_parents :: "(string \<times> string) list"
  t_context_items :: "context_row list"
  t_large_files :: "large_file list"
  t_summaries_fts :: "fts_row list"
  t_conversation_pins :: "(string \<times> time) list"
  t_summary_expansions :: "(string \<times> time) list"

definition empty_tables :: tables where
  "empty_tables = \<lparr>t_conversations = [], t_messages = [], t_messages_fts = [], t_summaries = [],
     t_summary_messages = [], t_summary_parents = [], t_context_items = [], t_large_files = [],
     t_summaries_fts = [], t_conversation_pins = [], t_summary_expansions = []\<rparr>"

record world =
  w_db :: tables
  w_files :: "string \<Rightarrow> string option"
  w_tick :: nat
  w_fault :: "nat \<Rightarrow> bool"
  w_now :: "nat \<Rightarrow> time"

text \<open>From here on no call fails.\<close>

definition healthy :: "world \<Rightarrow> bool" where
  "healthy w \<longleftrightarrow> (\<forall>n \<ge> w_tick w. \<not> w_fault w n)"

section \<open>Stored instants\<close>

text \<open>
  \<open>fmtTime\<close>: RFC 3339 in UTC with the fraction of the second cut after its last non-zero digit
  (\<open>time.RFC3339Nano\<close>).  The date is computed from the day number in the proleptic Gregorian
  calendar, in eras of 400 years that start on 1 March.  A row of the model holds the instant;
  wherever a statement compares or orders a time column the model compares the texts.
\<close>

definition pad0 :: "nat \<Rightarrow> int \<Rightarrow> string" where
  "pad0 width n =
     (let d = itoa \<bar>n\<bar> in (if n < 0 then ''-'' else '''') @ replicate (width - length d) (CHR ''0'') @ d)"

definition civil_date :: "int \<Rightarrow> int \<times> int \<times> int" where
  "civil_date days =
     (let z = days + 719468; era = z div 146097; doe = z mod 146097;
          yoe = (doe - doe div 1460 + doe div 36524 - doe div 146096) div 365;
          doy = doe - (365 * yoe + yoe div 4 - yoe div 100);
          mp = (5 * doy + 2) div 153;
          d = doy - (153 * mp + 2) div 5 + 1;
          m = (if mp < 10 then mp + 3 else mp - 9);
          y = yoe + era * 400 + (if m \<le> 2 then 1 else 0)
      in (y, m, d))"

definition fraction_text :: "int \<Rightarrow> string" where
  "fraction_text nanos =
     (if nanos = 0 then ''''
      else CHR ''.'' # rev (dropWhile (\<lambda>c. c = CHR ''0'') (rev (pad0 9 nanos))))"

definition fmtTime :: "time \<Rightarrow> string" where
  "fmtTime t =
     (let secs = t div 1000000000; days = secs div 86400; sod = secs mod 86400;
          (y, m, d) = civil_date days
      in pad0 4 y @ ''-'' @ pad0 2 m @ ''-'' @ pad0 2 d @ ''T'' @
         pad0 2 (sod div 3600) @ '':'' @ pad0 2 (sod div 60 mod 60) @ '':'' @ pad0 2 (sod mod 60) @
         fraction_text (t mod 1000000000) @ ''Z'')"

section \<open>Driver calls\<close>

definition driver :: "string \<Rightarrow> (world, unit) prog" where
  "driver op = (\<lambda>w. (if w_fault w (w_tick w) then Inl (ErrIO op) else Inr (), w\<lparr>w_tick := Suc (w_tick w)\<rparr>))"

definition clock_Now :: "(world, time) prog" where
  "clock_Now = (\<lambda>w. (Inr (w_now w (w_tick w)), w))"

text \<open>A query: the driver answers from the tables or fails with the caller's message.\<close>

definition sql_query :: "string \<Rightarrow> (tables \<Rightarrow> 'a) \<Rightarrow> (world, 'a) prog" where
  "sql_query msg q = bindE (wrapE msg (driver ''query'')) (\<lambda>_ w. (Inr (q (w_db w)), w))"

text \<open>A query whose rows are then iterated (\<open>rows.Next\<close>, \<open>rows.Err\<close>).\<close>

definition sql_rows :: "string \<Rightarrow> string \<Rightarrow> (tables \<Rightarrow> 'a list) \<Rightarrow> (world, 'a list) prog" where
  "sql_rows qmsg imsg q =
     bindE (sql_query qmsg q) (\<lambda>rows. bindE (wrapE imsg (driver ''rows'')) (\<lambda>_. ret rows))"

text \<open>A statement: \<open>None\<close> is a violated constraint (primary key, unique, foreign key).\<close>

definition sql_exec :: "string \<Rightarrow> (tables \<Rightarrow> tables option) \<Rightarrow> (world, unit) prog" where
  "sql_exec msg stmt =
     bindE (wrapE msg (driver ''exec''))
       (\<lambda>_ w. case stmt (w_db w) of
                None \<Rightarrow> (Inl (ErrWrap msg (ErrIO ''constraint'')), w)
              | Some t \<Rightarrow> (Inr (), w\<lparr>w_db := t\<rparr>))"

text \<open>
  \<open>BeginTx\<close>, the body, \<open>Commit\<close>; \<open>rollbackOnErr\<close> restores the tables when the body or the
  commit fails.
\<close>

definition in_tx :: "string \<Rightarrow> string \<Rightarrow> (world, 'a) prog \<Rightarrow> (world, 'a) prog" where
  "in_tx begin_msg commit_msg body = (\<lambda>w.
     case wrapE begin_msg (driver ''begin'') w of
       (Inl e, w1) \<Rightarrow> (Inl e, w1)
     | (Inr _, w1) \<Rightarrow>
         (case bindE body (\<lambda>x. bindE (wrapE commit_msg (driver ''commit'')) (\<lambda>_. ret x)) w1 of
            (Inl e, w2) \<Rightarrow> (Inl e, w2\<lparr>w_db := w_db w1\<rparr>)
          | (Inr x, w2) \<Rightarrow> (Inr x, w2)))"

text \<open>
  \<open>on_db P\<close>: the tables satisfy \<open>P\<close> and, if \<open>b\<close> is set, the driver is healthy from here on.
  A triple with \<open>on_db P b\<close> covers both readings: with \<open>b = False\<close> any failure may happen,
  with \<open>b = True\<close> none does, and an error exit then has another reason.
\<close>

definition on_db :: "bool \<Rightarrow> (tables \<Rightarrow> bool) \<Rightarrow> world \<Rightarrow> bool" where
  "on_db b P w \<longleftrightarrow> P (w_db w) \<and> (b \<longrightarrow> healthy w)"

lemma driver_hoare: "hoare (on_db b P) (driver op) (\<lambda>_. on_db b P) (\<lambda>_ w. on_db b P w \<and> \<not> b)"
  by (rule hoareI) (auto simp: driver_def on_db_def healthy_def split: if_splits)

lemma clock_hoare: "hoare (on_db b P) clock_Now (\<lambda>_. on_db b P) E"
  by (rule hoareI) (auto simp: clock_Now_def)

lemma sql_query_hoare:
  "hoare (on_db b P) (sql_query msg q) (\<lambda>r. on_db b (\<lambda>t. P t \<and> r = q t)) (\<lambda>_ w. on_db b P w \<and> \<not> b)"
  unfolding sql_query_def
  by (rule hoare_bind [OF hoare_wrap [OF driver_hoare]]) (rule hoareI, auto simp: on_db_def)

lemma driver_ret_hoare:
  "hoare (on_db b P) (bindE (wrapE msg (driver op)) (\<lambda>_. ret x))
     (\<lambda>r. on_db b (\<lambda>t. P t \<and> r = x)) (\<lambda>_ w. on_db b P w \<and> \<not> b)"
  by (rule hoareI) (auto simp: prog_results driver_def on_db_def healthy_def split: if_splits)

lemma sql_rows_hoare:
  "hoare (on_db b P) (sql_rows qmsg imsg q) (\<lambda>r. on_db b (\<lambda>t. P t \<and> r = q t)) (\<lambda>_ w. on_db b P w \<and> \<not> b)"
  unfolding sql_rows_def
proof (rule hoare_bind [OF sql_query_hoare])
  fix rows
  show "hoare (on_db b (\<lambda>t. P t \<and> rows = q t)) (bindE (wrapE imsg (driver ''rows'')) (\<lambda>_. ret rows))
      (\<lambda>r. on_db b (\<lambda>t. P t \<and> r = q t)) (\<lambda>_ w. on_db b P w \<and> \<not> b)"
    by (rule hoare_conseq [OF driver_ret_hoare [where P = "\<lambda>t. P t \<and> rows = q t"]]) (auto simp: on_db_def)
qed

lemma sql_exec_hoare:
  assumes "\<And>t. P t \<Longrightarrow> b \<Longrightarrow> stmt t \<noteq> None"
  shows "hoare (on_db b P) (sql_exec msg stmt) (\<lambda>_. on_db b (\<lambda>t'. \<exists>t. P t \<and> stmt t = Some t'))
     (\<lambda>_ w. on_db b P w \<and> \<not> b)"
  unfolding sql_exec_def
proof (rule hoare_bind [OF hoare_wrap [OF driver_hoare]], rule hoareI)
  fix s e s'
  assume "on_db b P s"
    "(case stmt (w_db s) of None \<Rightarrow> (Inl (ErrWrap msg (ErrIO ''constraint'')), s)
       | Some t \<Rightarrow> (Inr (), s\<lparr>w_db := t\<rparr>)) = (Inl e, s')"
  with assms [of "w_db s"] show "on_db b P s' \<and> \<not> b" by (auto simp: on_db_def split: option.splits)
next
  fix s x s'
  assume "on_db b P s"
    "(case stmt (w_db s) of None \<Rightarrow> (Inl (ErrWrap msg (ErrIO ''constraint'')), s)
       | Some t \<Rightarrow> (Inr (), s\<lparr>w_db := t\<rparr>)) = (Inr x, s')"
  then show "on_db b (\<lambda>t'. \<exists>t. P t \<and> stmt t = Some t') s'"
    by (auto simp: on_db_def healthy_def split: option.splits)
qed

text \<open>
  A transaction is atomic: its error exit has the tables of its entry, whatever the body did
  before it failed.
\<close>

lemma in_tx_hoare:
  assumes "hoare (on_db b P) body (\<lambda>x. on_db b (Q x)) (\<lambda>_ w. (b \<longrightarrow> healthy w) \<and> E b)"
    and "\<not> b \<Longrightarrow> E b"
  shows "hoare (on_db b P) (in_tx bmsg cmsg body) (\<lambda>x. on_db b (Q x)) (\<lambda>_ w. on_db b P w \<and> E b)"
proof (rule hoareI)
  define inner where "inner = bindE body (\<lambda>x. bindE (wrapE cmsg (driver ''commit'')) (\<lambda>_. ret x))"
  have tx: "in_tx bmsg cmsg body = (\<lambda>w. case wrapE bmsg (driver ''begin'') w of (Inl e, w1) \<Rightarrow> (Inl e, w1)
     | (Inr _, w1) \<Rightarrow> (case inner w1 of (Inl e, w2) \<Rightarrow> (Inl e, w2\<lparr>w_db := w_db w1\<rparr>) | (Inr x, w2) \<Rightarrow> (Inr x, w2)))"
    unfolding in_tx_def by (simp only: inner_def)
  have inner: "hoare (on_db b P) inner (\<lambda>x. on_db b (Q x)) (\<lambda>_ w. (b \<longrightarrow> healthy w) \<and> E b)"
    unfolding inner_def
    by (rule hoare_bind [OF assms(1) hoare_conseq [OF driver_ret_hoare]])
      (auto simp: on_db_def intro: assms(2))
  have d: "on_db b P w1 \<and> (isl r1 \<longrightarrow> \<not> b)"
    if "wrapE bmsg (driver ''begin'') s = (r1, w1)" "on_db b P s" for s r1 w1
    using that by (auto simp: driver_def on_db_def healthy_def prog_simps split: if_splits)
  {
    fix s e s'
    assume s: "on_db b P s" and r: "in_tx bmsg cmsg body s = (Inl e, s')"
    obtain r1 w1 where b1: "wrapE bmsg (driver ''begin'') s = (r1, w1)" by force
    show "on_db b P s' \<and> E b"
    proof (cases r1)
      case (Inl e1)
      with r b1 d [OF b1 s] assms(2) show ?thesis by (auto simp: tx)
    next
      case (Inr u)
      with r b1 obtain w2 where 2: "inner w1 = (Inl e, w2)" and s': "s' = w2\<lparr>w_db := w_db w1\<rparr>"
        by (auto simp: tx split: prod.splits sum.splits)
      from hoare_errD [OF inner _ 2] d [OF b1 s] s' show ?thesis by (auto simp: on_db_def healthy_def)
    qed
  next
    fix s x s'
    assume s: "on_db b P s" and r: "in_tx bmsg cmsg body s = (Inr x, s')"
    obtain r1 w1 where b1: "wrapE bmsg (driver ''begin'') s = (r1, w1)" by force
    with r have "inner w1 = (Inr x, s')" by (auto simp: tx split: prod.splits sum.splits)
    from hoare_okD [OF inner _ this] d [OF b1 s] show "on_db b (Q x) s'" by simp
  }
qed

section \<open>Symbolic execution on known tables\<close>

text \<open>
  \<open>at_db b t\<close>: the tables are exactly \<open>t\<close>.  The rules below run an operation statement by
  statement from known tables; collected in \<open>sql_rules\<close>, they reduce a triple to the pure
  question what the statements compute.
\<close>

named_theorems sql_rules \<open>one rule per database statement\<close>

definition at_db :: "bool \<Rightarrow> tables \<Rightarrow> world \<Rightarrow> bool" where
  "at_db b t w \<longleftrightarrow> w_db w = t \<and> (b \<longrightarrow> healthy w)"

lemma at_db_on_db: "at_db b t = on_db b (\<lambda>t'. t' = t)"
  by (auto simp: at_db_def on_db_def fun_eq_iff)

lemma driver_at: "hoare (at_db b t) (driver op) (\<lambda>_. at_db b t) (\<lambda>_ w. at_db b t w \<and> \<not> b)"
  unfolding at_db_on_db by (rule driver_hoare)

lemma bind_query [sql_rules]:
  assumes "hoare (at_db b t) (f (q t)) Q E" and "\<And>e w. at_db b t w \<Longrightarrow> \<not> b \<Longrightarrow> E e w"
  shows "hoare (at_db b t) (bindE (sql_query msg q) f) Q E"
proof (rule hoare_bind)
  show "hoare (at_db b t) (sql_query msg q) (\<lambda>r w. r = q t \<and> at_db b t w) E"
    by (rule hoare_conseq [OF sql_query_hoare [where P = "\<lambda>t'. t' = t"]])
      (auto simp: at_db_on_db on_db_def intro: assms(2))
  show "hoare (\<lambda>w. x = q t \<and> at_db b t w) (f x) Q E" for x
    by (rule hoare_pure) (simp add: assms(1))
qed

lemma bind_rows [sql_rules]:
  assumes "hoare (at_db b t) (f (q t)) Q E" and "\<And>e w. at_db b t w \<Longrightarrow> \<not> b \<Longrightarrow> E e w"
  shows "hoare (at_db b t) (bindE (sql_rows msg imsg q) f) Q E"
proof (rule hoare_bind)
  show "hoare (at_db b t) (sql_rows msg imsg q) (\<lambda>r w. r = q t \<and> at_db b t w) E"
    by (rule hoare_conseq [OF sql_rows_hoare [where P = "\<lambda>t'. t' = t"]])
      (auto simp: at_db_on_db on_db_def intro: assms(2))
  show "hoare (\<lambda>w. x = q t \<and> at_db b t w) (f x) Q E" for x
    by (rule hoare_pure) (simp add: assms(1))
qed

lemma bind_clock [sql_rules]:
  assumes "\<And>now. hoare (at_db b t) (f now) Q E"
  shows "hoare (at_db b t) (bindE clock_Now f) Q E"
  by (rule hoare_bind [OF clock_hoare [of b "\<lambda>t'. t' = t", folded at_db_on_db] assms])

lemma exec_at:
  assumes "\<And>e w. at_db b t w \<Longrightarrow> \<not> b \<or> stmt t = None \<Longrightarrow> E e w"
  shows "hoare (at_db b t) (sql_exec msg stmt) (\<lambda>_ w. \<exists>t2. stmt t = Some t2 \<and> at_db b t2 w) E"
  unfolding sql_exec_def
proof (rule hoare_bind)
  show "hoare (at_db b t) (wrapE msg (driver ''exec'')) (\<lambda>_. at_db b t) E"
    by (rule hoare_wrap, rule hoare_conseq [OF driver_at]) (auto intro: assms)
  show "hoare (at_db b t) (\<lambda>w. case stmt (w_db w) of None \<Rightarrow> (Inl (ErrWrap msg (ErrIO ''constraint'')), w)
      | Some t' \<Rightarrow> (Inr (), w\<lparr>w_db := t'\<rparr>)) (\<lambda>_ w. \<exists>t2. stmt t = Some t2 \<and> at_db b t2 w) E" for u
    by (rule hoareI) (auto simp: at_db_def healthy_def split: option.splits intro: assms)
qed

lemma bind_exec [sql_rules]:
  assumes "\<And>t2. stmt t = Some t2 \<Longrightarrow> hoare (at_db b t2) (f ()) Q E"
    and "\<And>e w. at_db b t w \<Longrightarrow> \<not> b \<or> stmt t = None \<Longrightarrow> E e w"
  shows "hoare (at_db b t) (bindE (sql_exec msg stmt) f) Q E"
proof (rule hoare_bind [OF exec_at])
  show "hoare (\<lambda>w. \<exists>t2. stmt t = Some t2 \<and> at_db b t2 w) (f u) Q E" for u
    using assms(1) by (auto simp: hoare_def)
qed (simp_all add: assms(2))

lemma ret_at: "(\<And>w. at_db b t w \<Longrightarrow> Q x w) \<Longrightarrow> hoare (at_db b t) (ret x) Q E"
  by (rule hoare_ret)

lemma fail_at: "(\<And>w. at_db b t w \<Longrightarrow> E e w) \<Longrightarrow> hoare (at_db b t) (fail e) Q E"
  by (rule hoare_fail)

lemma in_tx_at:
  assumes "hoare (at_db b t) body (\<lambda>x. on_db b (Q x)) (\<lambda>_ w. (b \<longrightarrow> healthy w) \<and> X)" and "\<not> b \<Longrightarrow> X"
  shows "hoare (at_db b t) (in_tx bmsg cmsg body) (\<lambda>x. on_db b (Q x)) (\<lambda>_ w. at_db b t w \<and> X)"
  using assms unfolding at_db_on_db by (intro in_tx_hoare [where E = "\<lambda>_. X"]) auto

lemma at_db_imp_on_db: "at_db b t w \<Longrightarrow> P t \<Longrightarrow> on_db b P w"
  by (simp add: at_db_def on_db_def)

lemma hoare_at_db:
  assumes "\<And>t. P t \<Longrightarrow> hoare (at_db b t) m Q E"
  shows "hoare (on_db b P) m Q E"
proof (rule hoareI)
  fix s e s' assume "on_db b P s" "m s = (Inl e, s')"
  then show "E e s'" by (intro hoare_errD [OF assms]) (auto simp: on_db_def at_db_def)
next
  fix s x s' assume "on_db b P s" "m s = (Inr x, s')"
  then show "Q x s'" by (intro hoare_okD [OF assms]) (auto simp: on_db_def at_db_def)
qed

end
