(* ===== verification/Schema.thy ===== *)
theory Schema
  imports Database
begin

text \<open>
  The SQL statements of \<open>internal/store\<close> as functions on the tables, with the constraints of
  \<open>internal/store/migrations\<close>: primary keys, unique columns, foreign keys with
  \<open>ON DELETE CASCADE\<close>.  \<open>None\<close> is a violated constraint.  \<open>wf_tables\<close> is the well-formedness
  every statement keeps: the constraints, and what the statements maintain beyond them (each
  search index mirrors its table row by row, message numbers run from 1 without gaps, window
  ordinals run from 0).
\<close>

section \<open>Clauses\<close>

definition sql_limit :: "int \<Rightarrow> 'a list \<Rightarrow> 'a list" where
  "sql_limit n xs = (if n < 0 then xs else take (nat n) xs)"

definition order_desc :: "('a \<Rightarrow> 'k :: linorder) \<Rightarrow> 'a list \<Rightarrow> 'a list" where
  "order_desc key xs = rev (sort_key key (rev xs))"

lemma set_order_desc [simp]: "set (order_desc key xs) = set xs"
  by (simp add: order_desc_def)

lemma set_sql_limit: "set (sql_limit n xs) \<subseteq> set xs"
  by (auto simp: sql_limit_def dest: in_set_takeD)

lemma length_sql_limit: "0 \<le> n \<Longrightarrow> length (sql_limit n xs) \<le> nat n"
  by (simp add: sql_limit_def)

text \<open>SQLite's \<open>lower\<close> folds ASCII letters only; \<open>instr(x, y) > 0\<close> is \<open>Contains\<close>.\<close>

definition sqlite_lower_char :: "char \<Rightarrow> char" where
  "sqlite_lower_char c = (if 65 \<le> byte c \<and> byte c \<le> 90 then chr (byte c + 32) else c)"

definition sqlite_lower :: "string \<Rightarrow> string" where
  "sqlite_lower s = map sqlite_lower_char s"

section \<open>Statements on conversations and messages\<close>

definition has_conversation :: "tables \<Rightarrow> string \<Rightarrow> bool" where
  "has_conversation t c \<longleftrightarrow> c \<in> cv_ID ` set (t_conversations t)"

definition upsert_conversation :: "string \<Rightarrow> conversation_input \<Rightarrow> time \<Rightarrow> tables \<Rightarrow> tables option" where
  "upsert_conversation cid inp now t =
     (if \<exists>c \<in> set (t_conversations t). cv_Agent c = in_Agent inp \<and> cv_SessionID c = in_SessionID inp
      then Some (t\<lparr>t_conversations := map (\<lambda>c.
             if cv_Agent c = in_Agent inp \<and> cv_SessionID c = in_SessionID inp
             then c\<lparr>cv_Title := (if in_Title inp \<noteq> [] then in_Title inp else cv_Title c), cv_UpdatedAt := now\<rparr>
             else c) (t_conversations t)\<rparr>)
      else if has_conversation t cid then None
      else Some (t\<lparr>t_conversations := t_conversations t @
             [\<lparr>cv_ID = cid, cv_Agent = in_Agent inp, cv_SessionID = in_SessionID inp,
               cv_Title = in_Title inp, cv_CreatedAt = now, cv_UpdatedAt = now\<rparr>]\<rparr>))"

definition conversation_log :: "tables \<Rightarrow> string \<Rightarrow> message list" where
  "conversation_log t c = filter (\<lambda>m. ms_ConversationID m = c) (t_messages t)"

text \<open>\<open>COALESCE(MAX(seq), 0) + 1\<close>.\<close>

definition next_seq :: "tables \<Rightarrow> string \<Rightarrow> int" where
  "next_seq t c = fold max (map ms_Seq (conversation_log t c)) 0 + 1"

definition insert_message :: "message \<Rightarrow> tables \<Rightarrow> tables option" where
  "insert_message m t =
     (if (\<exists>x \<in> set (t_messages t). ms_ID x = ms_ID m
           \<or> (ms_ConversationID x = ms_ConversationID m
              \<and> (ms_Seq x = ms_Seq m \<or> ms_IdentityHash x = ms_IdentityHash m)))
         \<or> \<not> has_conversation t (ms_ConversationID m)
      then None else Some (t\<lparr>t_messages := t_messages t @ [m]\<rparr>))"

definition message_fts :: "message \<Rightarrow> fts_row" where
  "message_fts m = \<lparr>fr_content = ms_Content m, fr_ref_id = ms_ID m, fr_conversation_id = ms_ConversationID m\<rparr>"

definition index_message :: "message \<Rightarrow> tables \<Rightarrow> tables option" where
  "index_message m t = Some (t\<lparr>t_messages_fts := t_messages_fts t @ [message_fts m]\<rparr>)"

definition touch_conversation :: "string \<Rightarrow> time \<Rightarrow> tables \<Rightarrow> tables option" where
  "touch_conversation cid now t =
     Some (t\<lparr>t_conversations :=
       map (\<lambda>c. if cv_ID c = cid then c\<lparr>cv_UpdatedAt := now\<rparr> else c) (t_conversations t)\<rparr>)"

section \<open>Statements on the summary DAG\<close>

definition has_summary :: "tables \<Rightarrow> string \<Rightarrow> bool" where
  "has_summary t s \<longleftrightarrow> s \<in> sm_ID ` set (t_summaries t)"

definition has_message :: "tables \<Rightarrow> string \<Rightarrow> bool" where
  "has_message t m \<longleftrightarrow> m \<in> ms_ID ` set (t_messages t)"

definition insert_summary_row :: "summary \<Rightarrow> tables \<Rightarrow> tables option" where
  "insert_summary_row s t =
     (if has_summary t (sm_ID s) \<or> \<not> has_conversation t (sm_ConversationID s) then None
      else Some (t\<lparr>t_summaries := t_summaries t @ [s]\<rparr>))"

definition summary_fts :: "summary \<Rightarrow> fts_row" where
  "summary_fts s = \<lparr>fr_content = sm_Content s, fr_ref_id = sm_ID s, fr_conversation_id = sm_ConversationID s\<rparr>"

definition index_summary :: "summary \<Rightarrow> tables \<Rightarrow> tables option" where
  "index_summary s t = Some (t\<lparr>t_summaries_fts := t_summaries_fts t @ [summary_fts s]\<rparr>)"

text \<open>\<open>INSERT OR IGNORE\<close>: a repeated pair is skipped; a missing referenced row is an error.\<close>

definition link_message :: "string \<Rightarrow> string \<Rightarrow> tables \<Rightarrow> tables option" where
  "link_message sid mid t =
     (if (sid, mid) \<in> set (t_summary_messages t) then Some t
      else if \<not> has_summary t sid \<or> \<not> has_message t mid then None
      else Some (t\<lparr>t_summary_messages := t_summary_messages t @ [(sid, mid)]\<rparr>))"

definition link_child :: "string \<Rightarrow> string \<Rightarrow> tables \<Rightarrow> tables option" where
  "link_child sid cid t =
     (if (sid, cid) \<in> set (t_summary_parents t) then Some t
      else if \<not> has_summary t sid \<or> \<not> has_summary t cid then None
      else Some (t\<lparr>t_summary_parents := t_summary_parents t @ [(sid, cid)]\<rparr>))"

definition clear_context_items :: "string \<Rightarrow> tables \<Rightarrow> tables option" where
  "clear_context_items c t =
     Some (t\<lparr>t_context_items := filter (\<lambda>r. cx_conversation_id r \<noteq> c) (t_context_items t)\<rparr>)"

definition insert_context_item :: "string \<Rightarrow> int \<Rightarrow> context_item_type \<Rightarrow> string \<Rightarrow> tables \<Rightarrow> tables option" where
  "insert_context_item c ord ty ref t =
     (if (\<exists>r \<in> set (t_context_items t). cx_conversation_id r = c \<and> cx_ordinal r = ord) \<or> \<not> has_conversation t c
      then None
      else Some (t\<lparr>t_context_items := t_context_items t @
             [\<lparr>cx_conversation_id = c, cx_ordinal = ord, cx_item_type = ty, cx_ref_id = ref\<rparr>]\<rparr>))"

definition upsert_large_file :: "large_file \<Rightarrow> tables \<Rightarrow> tables option" where
  "upsert_large_file f t =
     (if \<exists>x \<in> set (t_large_files t). lf_ID x = lf_ID f
      then Some (t\<lparr>t_large_files := map (\<lambda>x. if lf_ID x = lf_ID f
             then x\<lparr>lf_StorageURI := lf_StorageURI f, lf_ByteSize := lf_ByteSize f,
                    lf_TokenCount := lf_TokenCount f, lf_ExplorationSummary := lf_ExplorationSummary f,
                    lf_Extractor := lf_Extractor f\<rparr>
             else x) (t_large_files t)\<rparr>)
      else if \<not> has_conversation t (lf_ConversationID f) then None
      else Some (t\<lparr>t_large_files := t_large_files t @ [f]\<rparr>))"

section \<open>Statements on pins, expansions, deletion\<close>

definition delete_pin :: "string \<Rightarrow> tables \<Rightarrow> tables option" where
  "delete_pin c t = Some (t\<lparr>t_conversation_pins := filter (\<lambda>p. fst p \<noteq> c) (t_conversation_pins t)\<rparr>)"

definition insert_pin :: "string \<Rightarrow> time \<Rightarrow> tables \<Rightarrow> tables option" where
  "insert_pin c now t =
     (if c \<in> fst ` set (t_conversation_pins t) then Some t
      else if \<not> has_conversation t c then None
      else Some (t\<lparr>t_conversation_pins := t_conversation_pins t @ [(c, now)]\<rparr>))"

definition upsert_expansion :: "string \<Rightarrow> time \<Rightarrow> tables \<Rightarrow> tables option" where
  "upsert_expansion s now t =
     (if s \<in> fst ` set (t_summary_expansions t)
      then Some (t\<lparr>t_summary_expansions :=
             map (\<lambda>e. if fst e = s then (s, now) else e) (t_summary_expansions t)\<rparr>)
      else if \<not> has_summary t s then None
      else Some (t\<lparr>t_summary_expansions := t_summary_expansions t @ [(s, now)]\<rparr>))"

definition delete_messages_fts :: "string \<Rightarrow> tables \<Rightarrow> tables option" where
  "delete_messages_fts c t =
     Some (t\<lparr>t_messages_fts := filter (\<lambda>r. fr_conversation_id r \<noteq> c) (t_messages_fts t)\<rparr>)"

definition delete_summaries_fts :: "string \<Rightarrow> tables \<Rightarrow> tables option" where
  "delete_summaries_fts c t =
     Some (t\<lparr>t_summaries_fts := filter (\<lambda>r. fr_conversation_id r \<noteq> c) (t_summaries_fts t)\<rparr>)"

text \<open>\<open>DELETE FROM conversations\<close> with every cascade that starts there.\<close>

definition delete_conversation :: "string \<Rightarrow> tables \<Rightarrow> tables option" where
  "delete_conversation c t =
     (let keptm = (\<lambda>m. \<forall>x \<in> set (t_messages t). ms_ID x = m \<longrightarrow> ms_ConversationID x \<noteq> c);
          kepts = (\<lambda>s. \<forall>x \<in> set (t_summaries t). sm_ID x = s \<longrightarrow> sm_ConversationID x \<noteq> c)
      in Some (t\<lparr>
        t_conversations := filter (\<lambda>x. cv_ID x \<noteq> c) (t_conversations t),
        t_messages := filter (\<lambda>m. ms_ConversationID m \<noteq> c) (t_messages t),
        t_summaries := filter (\<lambda>s. sm_ConversationID s \<noteq> c) (t_summaries t),
        t_summary_messages := filter (\<lambda>(s, m). kepts s \<and> keptm m) (t_summary_messages t),
        t_summary_parents := filter (\<lambda>(p, s). kepts p \<and> kepts s) (t_summary_parents t),
        t_context_items := filter (\<lambda>r. cx_conversation_id r \<noteq> c) (t_context_items t),
        t_large_files := filter (\<lambda>f. lf_ConversationID f \<noteq> c) (t_large_files t),
        t_conversation_pins := filter (\<lambda>p. fst p \<noteq> c) (t_conversation_pins t),
        t_summary_expansions := filter (\<lambda>e. kepts (fst e)) (t_summary_expansions t)\<rparr>))"

section \<open>Well-formed tables\<close>

definition window_rows :: "tables \<Rightarrow> string \<Rightarrow> context_row list" where
  "window_rows t c = filter (\<lambda>r. cx_conversation_id r = c) (t_context_items t)"

definition conversation_ids :: "tables \<Rightarrow> string set" where
  "conversation_ids t = cv_ID ` set (t_conversations t)"

definition wf_conversations :: "hash \<Rightarrow> tables \<Rightarrow> bool" where
  "wf_conversations H t \<longleftrightarrow> distinct (map cv_ID (t_conversations t))
     \<and> distinct (map (\<lambda>c. (cv_Agent c, cv_SessionID c)) (t_conversations t))
     \<and> (\<forall>c \<in> set (t_conversations t). cv_ID c = DeriveConversationID H (cv_Agent c) (cv_SessionID c))"

definition message_identity :: "hash \<Rightarrow> message \<Rightarrow> bool" where
  "message_identity H m \<longleftrightarrow>
     ms_IdentityHash m = IdentityHash H (ms_ExternalID m) (ms_Role m) (ms_Content m) (ms_Raw m)
     \<and> ms_ID m = DeriveMessageID H (ms_ConversationID m) (ms_IdentityHash m)"

definition wf_messages :: "hash \<Rightarrow> tables \<Rightarrow> bool" where
  "wf_messages H t \<longleftrightarrow> distinct (map ms_ID (t_messages t))
     \<and> (\<forall>m \<in> set (t_messages t). ms_ConversationID m \<in> conversation_ids t \<and> message_identity H m)
     \<and> (\<forall>c \<in> conversation_ids t.
          map ms_Seq (conversation_log t c) = map int [1..<Suc (length (conversation_log t c))])"

definition fts_parity :: "tables \<Rightarrow> bool" where
  "fts_parity t \<longleftrightarrow> t_messages_fts t = map message_fts (t_messages t)
     \<and> t_summaries_fts t = map summary_fts (t_summaries t)"

definition wf_summaries :: "tables \<Rightarrow> bool" where
  "wf_summaries t \<longleftrightarrow> distinct (map sm_ID (t_summaries t))
     \<and> (\<forall>s \<in> set (t_summaries t). sm_ConversationID s \<in> conversation_ids t)"

definition wf_links :: "tables \<Rightarrow> bool" where
  "wf_links t \<longleftrightarrow> distinct (t_summary_messages t) \<and> distinct (t_summary_parents t)
     \<and> (\<forall>(s, m) \<in> set (t_summary_messages t). has_summary t s \<and> has_message t m)
     \<and> (\<forall>(p, s) \<in> set (t_summary_parents t). has_summary t p \<and> has_summary t s)"

definition wf_window :: "tables \<Rightarrow> bool" where
  "wf_window t \<longleftrightarrow> (\<forall>r \<in> set (t_context_items t). cx_conversation_id r \<in> conversation_ids t)
     \<and> (\<forall>c \<in> conversation_ids t. map cx_ordinal (window_rows t c) = map int [0..<length (window_rows t c)])"

definition wf_lifecycle :: "tables \<Rightarrow> bool" where
  "wf_lifecycle t \<longleftrightarrow> distinct (map lf_ID (t_large_files t))
     \<and> (\<forall>f \<in> set (t_large_files t). lf_ConversationID f \<in> conversation_ids t)
     \<and> distinct (map fst (t_conversation_pins t))
     \<and> (\<forall>c \<in> fst ` set (t_conversation_pins t). c \<in> conversation_ids t)
     \<and> distinct (map fst (t_summary_expansions t))
     \<and> (\<forall>s \<in> fst ` set (t_summary_expansions t). has_summary t s)"

definition wf_tables :: "hash \<Rightarrow> tables \<Rightarrow> bool" where
  "wf_tables H t \<longleftrightarrow> wf_conversations H t \<and> wf_messages H t \<and> fts_parity t \<and> wf_summaries t
     \<and> wf_links t \<and> wf_window t \<and> wf_lifecycle t"

lemmas wf_parts = wf_conversations_def wf_messages_def fts_parity_def wf_summaries_def wf_links_def
  wf_window_def wf_lifecycle_def

lemmas table_reads = conversation_ids_def conversation_log_def window_rows_def has_message_def
  has_summary_def has_conversation_def

lemma wf_empty: "wf_tables H empty_tables"
  by (simp add: wf_tables_def wf_parts table_reads empty_tables_def)

lemma has_conversation_ids: "has_conversation t c \<longleftrightarrow> c \<in> conversation_ids t"
  by (simp add: has_conversation_def conversation_ids_def)

text \<open>Each part reads a few tables only; a statement on another table keeps it.\<close>

lemma conversation_ids_frame [simp]:
  "conversation_ids (t\<lparr>t_messages := x1\<rparr>) = conversation_ids t"
  "conversation_ids (t\<lparr>t_messages_fts := x2\<rparr>) = conversation_ids t"
  "conversation_ids (t\<lparr>t_summaries := x3\<rparr>) = conversation_ids t"
  "conversation_ids (t\<lparr>t_summary_messages := x4\<rparr>) = conversation_ids t"
  "conversation_ids (t\<lparr>t_summary_parents := x5\<rparr>) = conversation_ids t"
  "conversation_ids (t\<lparr>t_context_items := x6\<rparr>) = conversation_ids t"
  "conversation_ids (t\<lparr>t_large_files := x7\<rparr>) = conversation_ids t"
  "conversation_ids (t\<lparr>t_summaries_fts := x8\<rparr>) = conversation_ids t"
  "conversation_ids (t\<lparr>t_conversation_pins := x9\<rparr>) = conversation_ids t"
  "conversation_ids (t\<lparr>t_summary_expansions := x10\<rparr>) = conversation_ids t"
  by (simp_all add: conversation_ids_def)

lemma wf_conversations_frame [simp]:
  "wf_conversations H (t\<lparr>t_messages := x1\<rparr>) = wf_conversations H t"
  "wf_conversations H (t\<lparr>t_messages_fts := x2\<rparr>) = wf_conversations H t"
  "wf_conversations H (t\<lparr>t_summaries := x3\<rparr>) = wf_conversations H t"
  "wf_conversations H (t\<lparr>t_summary_messages := x4\<rparr>) = wf_conversations H t"
  "wf_conversations H (t\<lparr>t_summary_parents := x5\<rparr>) = wf_conversations H t"
  "wf_conversations H (t\<lparr>t_context_items := x6\<rparr>) = wf_conversations H t"
  "wf_conversations H (t\<lparr>t_large_files := x7\<rparr>) = wf_conversations H t"
  "wf_conversations H (t\<lparr>t_summaries_fts := x8\<rparr>) = wf_conversations H t"
  "wf_conversations H (t\<lparr>t_conversation_pins := x9\<rparr>) = wf_conversations H t"
  "wf_conversations H (t\<lparr>t_summary_expansions := x10\<rparr>) = wf_conversations H t"
  by (simp_all add: wf_conversations_def)

lemma wf_messages_frame [simp]:
  "wf_messages H (t\<lparr>t_messages_fts := x2\<rparr>) = wf_messages H t"
  "wf_messages H (t\<lparr>t_summaries := x3\<rparr>) = wf_messages H t"
  "wf_messages H (t\<lparr>t_summary_messages := x4\<rparr>) = wf_messages H t"
  "wf_messages H (t\<lparr>t_summary_parents := x5\<rparr>) = wf_messages H t"
  "wf_messages H (t\<lparr>t_context_items := x6\<rparr>) = wf_messages H t"
  "wf_messages H (t\<lparr>t_large_files := x7\<rparr>) = wf_messages H t"
  "wf_messages H (t\<lparr>t_summaries_fts := x8\<rparr>) = wf_messages H t"
  "wf_messages H (t\<lparr>t_conversation_pins := x9\<rparr>) = wf_messages H t"
  "wf_messages H (t\<lparr>t_summary_expansions := x10\<rparr>) = wf_messages H t"
  by (simp_all add: wf_messages_def conversation_log_def)

lemma fts_parity_frame [simp]:
  "fts_parity (t\<lparr>t_conversations := x0\<rparr>) = fts_parity t"
  "fts_parity (t\<lparr>t_summary_messages := x4\<rparr>) = fts_parity t"
  "fts_parity (t\<lparr>t_summary_parents := x5\<rparr>) = fts_parity t"
  "fts_parity (t\<lparr>t_context_items := x6\<rparr>) = fts_parity t"
  "fts_parity (t\<lparr>t_large_files := x7\<rparr>) = fts_parity t"
  "fts_parity (t\<lparr>t_conversation_pins := x9\<rparr>) = fts_parity t"
  "fts_parity (t\<lparr>t_summary_expansions := x10\<rparr>) = fts_parity t"
  by (simp_all add: fts_parity_def)

lemma wf_summaries_frame [simp]:
  "wf_summaries (t\<lparr>t_messages := x1\<rparr>) = wf_summaries t"
  "wf_summaries (t\<lparr>t_messages_fts := x2\<rparr>) = wf_summaries t"
  "wf_summaries (t\<lparr>t_summary_messages := x4\<rparr>) = wf_summaries t"
  "wf_summaries (t\<lparr>t_summary_parents := x5\<rparr>) = wf_summaries t"
  "wf_summaries (t\<lparr>t_context_items := x6\<rparr>) = wf_summaries t"
  "wf_summaries (t\<lparr>t_large_files := x7\<rparr>) = wf_summaries t"
  "wf_summaries (t\<lparr>t_summaries_fts := x8\<rparr>) = wf_summaries t"
  "wf_summaries (t\<lparr>t_conversation_pins := x9\<rparr>) = wf_summaries t"
  "wf_summaries (t\<lparr>t_summary_expansions := x10\<rparr>) = wf_summaries t"
  by (simp_all add: wf_summaries_def)

lemma wf_links_frame [simp]:
  "wf_links (t\<lparr>t_conversations := x0\<rparr>) = wf_links t"
  "wf_links (t\<lparr>t_messages_fts := x2\<rparr>) = wf_links t"
  "wf_links (t\<lparr>t_context_items := x6\<rparr>) = wf_links t"
  "wf_links (t\<lparr>t_large_files := x7\<rparr>) = wf_links t"
  "wf_links (t\<lparr>t_summaries_fts := x8\<rparr>) = wf_links t"
  "wf_links (t\<lparr>t_conversation_pins := x9\<rparr>) = wf_links t"
  "wf_links (t\<lparr>t_summary_expansions := x10\<rparr>) = wf_links t"
  by (simp_all add: wf_links_def has_summary_def has_message_def)

lemma wf_window_frame [simp]:
  "wf_window (t\<lparr>t_messages := x1\<rparr>) = wf_window t"
  "wf_window (t\<lparr>t_messages_fts := x2\<rparr>) = wf_window t"
  "wf_window (t\<lparr>t_summaries := x3\<rparr>) = wf_window t"
  "wf_window (t\<lparr>t_summary_messages := x4\<rparr>) = wf_window t"
  "wf_window (t\<lparr>t_summary_parents := x5\<rparr>) = wf_window t"
  "wf_window (t\<lparr>t_large_files := x7\<rparr>) = wf_window t"
  "wf_window (t\<lparr>t_summaries_fts := x8\<rparr>) = wf_window t"
  "wf_window (t\<lparr>t_conversation_pins := x9\<rparr>) = wf_window t"
  "wf_window (t\<lparr>t_summary_expansions := x10\<rparr>) = wf_window t"
  by (simp_all add: wf_window_def window_rows_def)

lemma wf_lifecycle_frame [simp]:
  "wf_lifecycle (t\<lparr>t_messages := x1\<rparr>) = wf_lifecycle t"
  "wf_lifecycle (t\<lparr>t_messages_fts := x2\<rparr>) = wf_lifecycle t"
  "wf_lifecycle (t\<lparr>t_summary_messages := x4\<rparr>) = wf_lifecycle t"
  "wf_lifecycle (t\<lparr>t_summary_parents := x5\<rparr>) = wf_lifecycle t"
  "wf_lifecycle (t\<lparr>t_context_items := x6\<rparr>) = wf_lifecycle t"
  "wf_lifecycle (t\<lparr>t_summaries_fts := x8\<rparr>) = wf_lifecycle t"
  by (simp_all add: wf_lifecycle_def has_summary_def)


subsection \<open>Conversations\<close>

lemma conversation_ids_map:
  assumes "t_conversations t' = map f (t_conversations t)" and "\<And>c. cv_ID (f c) = cv_ID c"
  shows "conversation_ids t' = conversation_ids t"
  by (simp add: conversation_ids_def assms image_image)

text \<open>Changing titles and times leaves every reference intact.\<close>

lemma wf_map_conversations:
  assumes "wf_tables H t"
    and upd: "\<And>c. cv_ID (f c) = cv_ID c" "\<And>c. cv_Agent (f c) = cv_Agent c" "\<And>c. cv_SessionID (f c) = cv_SessionID c"
  shows "wf_tables H (t\<lparr>t_conversations := map f (t_conversations t)\<rparr>)"
proof -
  let ?t = "t\<lparr>t_conversations := map f (t_conversations t)\<rparr>"
  have [simp]: "map g (map f xs) = map g xs" if "\<And>c. g (f c) = g c" for g :: "conversation \<Rightarrow> 'x" and xs
    using that by (simp add: o_def)
  have "wf_conversations H ?t"
    using assms(1) upd by (simp add: wf_tables_def wf_conversations_def del: map_map)
  moreover have "conversation_ids ?t = conversation_ids t"
    by (simp add: conversation_ids_def image_image upd)
  ultimately show ?thesis
    using assms(1)
    by (simp add: wf_tables_def wf_messages_def wf_summaries_def wf_window_def wf_lifecycle_def
        conversation_log_def window_rows_def has_summary_def)
qed

lemma wf_touch: "wf_tables H t \<Longrightarrow> touch_conversation c now t = Some t' \<Longrightarrow> wf_tables H t'"
  by (auto simp: touch_conversation_def intro!: wf_map_conversations)

lemma wf_add_conversation:
  assumes wf: "wf_tables H t" and new: "cv_ID c \<notin> conversation_ids t"
    and pair: "(cv_Agent c, cv_SessionID c) \<notin> (\<lambda>c. (cv_Agent c, cv_SessionID c)) ` set (t_conversations t)"
    and id: "cv_ID c = DeriveConversationID H (cv_Agent c) (cv_SessionID c)"
  shows "wf_tables H (t\<lparr>t_conversations := t_conversations t @ [c]\<rparr>)"
proof -
  let ?t = "t\<lparr>t_conversations := t_conversations t @ [c]\<rparr>"
  have ids: "conversation_ids ?t = insert (cv_ID c) (conversation_ids t)"
    by (auto simp: conversation_ids_def)
  have m: "filter (\<lambda>m. ms_ConversationID m = cv_ID c) (t_messages t) = []"
    using wf new by (auto simp: wf_tables_def wf_messages_def filter_empty_conv)
  have r: "filter (\<lambda>r. cx_conversation_id r = cv_ID c) (t_context_items t) = []"
    using wf new by (auto simp: wf_tables_def wf_window_def filter_empty_conv)
  have "wf_conversations H ?t"
    using wf new pair id by (auto simp: wf_tables_def wf_conversations_def conversation_ids_def)
  moreover have "wf_messages H ?t"
    using wf m by (auto simp: wf_tables_def wf_messages_def ids conversation_log_def)
  moreover have "wf_window ?t"
    using wf r by (auto simp: wf_tables_def wf_window_def ids window_rows_def)
  moreover have "wf_summaries ?t" "wf_lifecycle ?t" "wf_links ?t" "fts_parity ?t"
    using wf by (auto simp: wf_tables_def wf_summaries_def wf_lifecycle_def ids has_summary_def wf_links_def
        has_message_def fts_parity_def)
  ultimately show ?thesis by (simp add: wf_tables_def)
qed

lemma wf_upsert_conversation:
  assumes "wf_tables H t" and "upsert_conversation (DeriveConversationID H (in_Agent i) (in_SessionID i)) i now t = Some t'"
  shows "wf_tables H t'"
  using assms
  by (auto simp: upsert_conversation_def has_conversation_ids split: if_splits
      intro!: wf_map_conversations wf_add_conversation)

subsection \<open>Messages\<close>

text \<open>The three statements of an append, as one update.\<close>

definition append_tables :: "message \<Rightarrow> time \<Rightarrow> tables \<Rightarrow> tables" where
  "append_tables m now t = t\<lparr>t_messages := t_messages t @ [m], t_messages_fts := t_messages_fts t @ [message_fts m],
     t_conversations := map (\<lambda>c. if cv_ID c = ms_ConversationID m then c\<lparr>cv_UpdatedAt := now\<rparr> else c)
       (t_conversations t)\<rparr>"

lemma fold_max_seq: "fold max (map int [1..<Suc n]) (0::int) = int n"
proof (induction n)
  case (Suc n)
  have "[1..<Suc (Suc n)] = [1..<Suc n] @ [Suc n]" by simp
  with Suc show ?case by (simp only: map_append fold_append o_def) simp
qed simp

lemma next_seq_wf:
  assumes "wf_messages H t" and "c \<in> conversation_ids t"
  shows "next_seq t c = int (length (conversation_log t c)) + 1"
proof -
  have "map ms_Seq (conversation_log t c) = map int [1..<Suc (length (conversation_log t c))]"
    using assms by (simp add: wf_messages_def)
  then show ?thesis by (simp only: next_seq_def fold_max_seq)
qed

lemma wf_append:
  assumes wf: "wf_tables H t" and c: "ms_ConversationID m \<in> conversation_ids t"
    and id: "message_identity H m" and fresh: "ms_ID m \<notin> ms_ID ` set (t_messages t)"
    and seq: "ms_Seq m = next_seq t (ms_ConversationID m)"
  shows "wf_tables H (append_tables m now t)"
proof -
  let ?u = "\<lambda>c. if cv_ID c = ms_ConversationID m then c\<lparr>cv_UpdatedAt := now\<rparr> else c"
  let ?t = "t\<lparr>t_messages := t_messages t @ [m], t_messages_fts := t_messages_fts t @ [message_fts m]\<rparr>"
  have ids: "conversation_ids ?t = conversation_ids t" by (simp add: conversation_ids_def)
  have "wf_messages H t" using wf by (simp add: wf_tables_def)
  note n = next_seq_wf [OF this c]
  have "wf_messages H ?t"
    using wf c id fresh seq n by (auto simp: wf_tables_def wf_messages_def ids conversation_log_def)
  moreover have "fts_parity ?t" using wf by (simp add: wf_tables_def fts_parity_def)
  moreover have "wf_links ?t" using wf by (auto simp: wf_tables_def wf_links_def has_message_def has_summary_def)
  moreover have "wf_conversations H ?t" "wf_summaries ?t" "wf_window ?t" "wf_lifecycle ?t"
    using wf by (simp_all add: wf_tables_def)
  ultimately have "wf_tables H ?t" by (simp add: wf_tables_def)
  then have "wf_tables H (?t\<lparr>t_conversations := map ?u (t_conversations ?t)\<rparr>)"
    by (rule wf_map_conversations) auto
  then show ?thesis by (simp add: append_tables_def)
qed

lemma append_statements:
  assumes "insert_message m t = Some t1" "index_message m t1 = Some t2"
    "touch_conversation (ms_ConversationID m) now t2 = Some t3"
  shows "t3 = append_tables m now t \<and> ms_ConversationID m \<in> conversation_ids t
    \<and> ms_ID m \<notin> ms_ID ` set (t_messages t)"
  using assms by (auto simp: insert_message_def index_message_def touch_conversation_def append_tables_def
      has_conversation_ids split: if_splits)

text \<open>On well-formed tables an append is refused only for an unknown conversation.\<close>

lemma insert_message_ok:
  assumes wf: "wf_tables H t" and c: "ms_ConversationID m \<in> conversation_ids t" and id: "message_identity H m"
    and fresh: "ms_ID m \<notin> ms_ID ` set (t_messages t)" and seq: "ms_Seq m = next_seq t (ms_ConversationID m)"
  shows "insert_message m t \<noteq> None"
proof -
  have "wf_messages H t" using wf by (simp add: wf_tables_def)
  note n = next_seq_wf [OF this c]
  have "ms_Seq x < ms_Seq m" if "x \<in> set (t_messages t)" "ms_ConversationID x = ms_ConversationID m" for x
  proof -
    have "ms_Seq x \<in> set (map ms_Seq (conversation_log t (ms_ConversationID m)))"
      using that by (simp add: conversation_log_def)
    also have "map ms_Seq (conversation_log t (ms_ConversationID m))
        = map int [1..<Suc (length (conversation_log t (ms_ConversationID m)))]"
      using wf c by (simp add: wf_tables_def wf_messages_def)
    finally show ?thesis using seq n by auto
  qed
  moreover have "ms_IdentityHash x \<noteq> ms_IdentityHash m"
    if "x \<in> set (t_messages t)" "ms_ConversationID x = ms_ConversationID m" for x
  proof
    assume "ms_IdentityHash x = ms_IdentityHash m"
    moreover have "message_identity H x" using wf that(1) by (simp add: wf_tables_def wf_messages_def)
    ultimately have "ms_ID x = ms_ID m" using id that(2) by (simp add: message_identity_def)
    with fresh that(1) show False by (metis imageI)
  qed
  moreover have "ms_ID x \<noteq> ms_ID m" if "x \<in> set (t_messages t)" for x
    using that fresh by (metis imageI)
  ultimately show ?thesis
    using c unfolding insert_message_def has_conversation_ids by (metis less_irrefl option.distinct(1))
qed

subsection \<open>Summaries and links\<close>

lemma wf_add_summary:
  assumes wf: "wf_tables H t" and "insert_summary_row s t = Some t1" "index_summary s t1 = Some t'"
  shows "wf_tables H t'"
proof -
  have t': "t' = t\<lparr>t_summaries := t_summaries t @ [s], t_summaries_fts := t_summaries_fts t @ [summary_fts s]\<rparr>"
    and new: "\<not> has_summary t (sm_ID s)" and c: "sm_ConversationID s \<in> conversation_ids t"
    using assms(2,3) by (auto simp: insert_summary_row_def index_summary_def has_conversation_ids split: if_splits)
  have ids: "conversation_ids t' = conversation_ids t" by (simp add: t' conversation_ids_def)
  have more: "has_summary t' x \<longleftrightarrow> x = sm_ID s \<or> has_summary t x" for x by (auto simp: t' has_summary_def)
  have msg: "has_message t' x = has_message t x" for x by (simp add: t' has_message_def)
  have "wf_conversations H t'" "wf_messages H t'" "wf_window t'"
    using wf by (simp_all add: wf_tables_def t')
  moreover have "fts_parity t'" using wf by (simp add: wf_tables_def fts_parity_def t')
  moreover have "wf_summaries t'"
    using wf new c by (auto simp: wf_tables_def wf_summaries_def ids t' has_summary_def)
  moreover have "wf_links t'"
    using wf by (auto simp: wf_tables_def wf_links_def more msg) (auto simp: t')
  moreover have "wf_lifecycle t'"
    using wf by (auto simp: wf_tables_def wf_lifecycle_def more ids) (auto simp: t')
  ultimately show ?thesis by (simp add: wf_tables_def)
qed

text \<open>A statement that only touches the link tables or the window.\<close>

lemma wf_other_tables:
  assumes "wf_tables H t"
    and "t_conversations t' = t_conversations t" "t_messages t' = t_messages t" "t_messages_fts t' = t_messages_fts t"
      "t_summaries t' = t_summaries t" "t_summaries_fts t' = t_summaries_fts t"
    and "wf_links t'" "wf_window t'" "wf_lifecycle t'"
  shows "wf_tables H t'"
proof -
  have "conversation_ids t' = conversation_ids t" by (simp add: conversation_ids_def assms)
  with assms show ?thesis
    by (simp add: wf_tables_def wf_conversations_def wf_messages_def fts_parity_def wf_summaries_def
        conversation_log_def)
qed

lemma wf_link_message:
  assumes wf: "wf_tables H t" and st: "link_message sid mid t = Some t'"
  shows "wf_tables H t'"
proof (cases "(sid, mid) \<in> set (t_summary_messages t)")
  case False
  with st have t': "t' = t\<lparr>t_summary_messages := t_summary_messages t @ [(sid, mid)]\<rparr>"
    and "has_summary t sid" "has_message t mid" by (auto simp: link_message_def split: if_splits)
  with wf False show ?thesis
    by (intro wf_other_tables [OF wf])
      (auto simp: wf_tables_def wf_links_def has_summary_def has_message_def)
qed (use wf st in \<open>simp add: link_message_def\<close>)

lemma wf_link_child:
  assumes wf: "wf_tables H t" and st: "link_child sid cid t = Some t'"
  shows "wf_tables H t'"
proof (cases "(sid, cid) \<in> set (t_summary_parents t)")
  case False
  with st have t': "t' = t\<lparr>t_summary_parents := t_summary_parents t @ [(sid, cid)]\<rparr>"
    and "has_summary t sid" "has_summary t cid" by (auto simp: link_child_def split: if_splits)
  with wf False show ?thesis
    by (intro wf_other_tables [OF wf])
      (auto simp: wf_tables_def wf_links_def has_summary_def has_message_def)
qed (use wf st in \<open>simp add: link_child_def\<close>)

subsection \<open>The window\<close>

lemma wf_clear_items:
  assumes wf: "wf_tables H t" and st: "clear_context_items c t = Some t'"
  shows "wf_tables H t' \<and> window_rows t' c = []"
proof -
  have t': "t' = t\<lparr>t_context_items := filter (\<lambda>r. cx_conversation_id r \<noteq> c) (t_context_items t)\<rparr>"
    using st by (simp add: clear_context_items_def)
  have rows: "window_rows t' d = (if d = c then [] else window_rows t d)" for d
    by (auto simp: t' window_rows_def filter_empty_conv intro!: filter_cong)
  have "wf_window t'"
    using wf unfolding wf_tables_def wf_window_def rows by (auto simp: t' conversation_ids_def)
  then have "wf_tables H t'"
    using wf by (intro wf_other_tables [OF wf])
      (auto simp: wf_tables_def t')
  then show ?thesis by (simp add: rows)
qed

lemma wf_insert_item:
  assumes wf: "wf_tables H t" and st: "insert_context_item c ord ty ref t = Some t'"
    and ord: "ord = int (length (window_rows t c))"
  shows "wf_tables H t'"
proof -
  let ?r = "\<lparr>cx_conversation_id = c, cx_ordinal = ord, cx_item_type = ty, cx_ref_id = ref\<rparr>"
  have t': "t' = t\<lparr>t_context_items := t_context_items t @ [?r]\<rparr>" and c: "c \<in> conversation_ids t"
    using st by (auto simp: insert_context_item_def has_conversation_ids split: if_splits)
  have rows: "window_rows t' d = window_rows t d @ (if d = c then [?r] else [])" for d
    by (simp add: t' window_rows_def)
  have ids: "conversation_ids t' = conversation_ids t" by (simp add: t' conversation_ids_def)
  have "wf_window t'"
    using wf c unfolding wf_tables_def wf_window_def ids rows by (auto simp: t' ord)
  then show ?thesis
    using wf by (intro wf_other_tables [OF wf])
      (auto simp: wf_tables_def t')
qed

subsection \<open>Files, pins, expansions\<close>

lemma wf_lifecycle_only:
  assumes wf: "wf_tables H t" and "wf_lifecycle t'"
    and t': "t' = t\<lparr>t_large_files := fs, t_conversation_pins := ps, t_summary_expansions := es\<rparr>"
  shows "wf_tables H t'"
  using wf assms(2) by (intro wf_other_tables [OF wf]) (simp_all add: t' wf_tables_def)

lemma wf_upsert_large_file:
  assumes wf: "wf_tables H t" and st: "upsert_large_file f t = Some t'"
  shows "wf_tables H t'"
proof -
  let ?u = "\<lambda>x. if lf_ID x = lf_ID f
             then x\<lparr>lf_StorageURI := lf_StorageURI f, lf_ByteSize := lf_ByteSize f,
                    lf_TokenCount := lf_TokenCount f, lf_ExplorationSummary := lf_ExplorationSummary f,
                    lf_Extractor := lf_Extractor f\<rparr>
             else x"
  have u: "map lf_ID (map ?u xs) = map lf_ID xs" for xs by simp
  have v: "lf_ConversationID (?u x) = lf_ConversationID x" for x by simp
  have life: "wf_lifecycle t" using wf by (simp add: wf_tables_def)
  consider (old) "t' = t\<lparr>t_large_files := map ?u (t_large_files t)\<rparr>"
    | (new) "t' = t\<lparr>t_large_files := t_large_files t @ [f]\<rparr>" "lf_ConversationID f \<in> conversation_ids t"
        "\<forall>x \<in> set (t_large_files t). lf_ID x \<noteq> lf_ID f"
    using st by (auto simp: upsert_large_file_def has_conversation_ids split: if_splits)
  then have "wf_lifecycle t'"
  proof cases
    case old
    have "\<forall>x \<in> set (map ?u (t_large_files t)). lf_ConversationID x \<in> conversation_ids t"
      using life by (auto simp: wf_lifecycle_def)
    moreover have "distinct (map lf_ID (map ?u (t_large_files t)))"
      unfolding u using life by (simp add: wf_lifecycle_def)
    ultimately show ?thesis
      using life by (simp add: old wf_lifecycle_def has_summary_def del: map_map set_map)
  next
    case new
    with life show ?thesis by (auto simp: wf_lifecycle_def has_summary_def)
  qed
  moreover have "t' = t\<lparr>t_large_files := t_large_files t', t_conversation_pins := t_conversation_pins t,
      t_summary_expansions := t_summary_expansions t\<rparr>"
    using st by (auto simp: upsert_large_file_def split: if_splits)
  ultimately show ?thesis by (rule wf_lifecycle_only [OF wf])
qed

lemma wf_delete_pin:
  assumes wf: "wf_tables H t" and st: "delete_pin c t = Some t'"
  shows "wf_tables H t'"
proof (rule wf_lifecycle_only [OF wf])
  show "t' = t\<lparr>t_large_files := t_large_files t, t_conversation_pins := filter (\<lambda>p. fst p \<noteq> c) (t_conversation_pins t),
      t_summary_expansions := t_summary_expansions t\<rparr>"
    using st by (auto simp: delete_pin_def)
  then show "wf_lifecycle t'"
    using wf by (auto simp: wf_tables_def wf_lifecycle_def has_summary_def distinct_map_filter)
qed

lemma wf_insert_pin:
  assumes wf: "wf_tables H t" and st: "insert_pin c now t = Some t'"
  shows "wf_tables H t'"
proof (cases "c \<in> fst ` set (t_conversation_pins t)")
  case False
  show ?thesis
  proof (rule wf_lifecycle_only [OF wf])
    show t': "t' = t\<lparr>t_large_files := t_large_files t, t_conversation_pins := t_conversation_pins t @ [(c, now)],
        t_summary_expansions := t_summary_expansions t\<rparr>"
      using st False by (simp add: insert_pin_def split: if_splits)
    have "c \<in> conversation_ids t"
      using st False by (simp add: insert_pin_def has_conversation_ids split: if_splits)
    then show "wf_lifecycle t'"
      using wf False by (simp add: t' wf_tables_def wf_lifecycle_def has_summary_def)
  qed
qed (use wf st in \<open>simp add: insert_pin_def\<close>)

lemma wf_upsert_expansion:
  assumes wf: "wf_tables H t" and st: "upsert_expansion s now t = Some t'"
  shows "wf_tables H t'"
proof -
  let ?u = "\<lambda>e. if fst e = s then (s, now) else e"
  have u: "map fst (map ?u xs) = map fst xs" for xs :: "(string \<times> time) list"
    by (induction xs) auto
  have life: "wf_lifecycle t" using wf by (simp add: wf_tables_def)
  consider (old) "t' = t\<lparr>t_summary_expansions := map ?u (t_summary_expansions t)\<rparr>"
    | (new) "t' = t\<lparr>t_summary_expansions := t_summary_expansions t @ [(s, now)]\<rparr>" "has_summary t s"
        "s \<notin> fst ` set (t_summary_expansions t)"
    using st by (auto simp: upsert_expansion_def split: if_splits)
  then have "wf_lifecycle t'"
  proof cases
    case old
    have "fst ` set (map ?u (t_summary_expansions t)) = fst ` set (t_summary_expansions t)"
      using u [of "t_summary_expansions t"] by (metis set_map)
    with life u old show ?thesis
      by (simp add: wf_lifecycle_def has_summary_def del: map_map set_map)
  next
    case new
    with life show ?thesis by (auto simp: wf_lifecycle_def has_summary_def)
  qed
  moreover have "t' = t\<lparr>t_large_files := t_large_files t, t_conversation_pins := t_conversation_pins t,
      t_summary_expansions := t_summary_expansions t'\<rparr>"
    using st by (auto simp: upsert_expansion_def split: if_splits)
  ultimately show ?thesis by (rule wf_lifecycle_only [OF wf])
qed

subsection \<open>Deletion\<close>

text \<open>The three statements that remove a conversation, as one update.\<close>

definition purge_tables :: "string \<Rightarrow> tables \<Rightarrow> tables" where
  "purge_tables c t =
     (let keptm = (\<lambda>m. \<forall>x \<in> set (t_messages t). ms_ID x = m \<longrightarrow> ms_ConversationID x \<noteq> c);
          kepts = (\<lambda>s. \<forall>x \<in> set (t_summaries t). sm_ID x = s \<longrightarrow> sm_ConversationID x \<noteq> c)
      in \<lparr>t_conversations = filter (\<lambda>x. cv_ID x \<noteq> c) (t_conversations t),
        t_messages = filter (\<lambda>m. ms_ConversationID m \<noteq> c) (t_messages t),
        t_messages_fts = filter (\<lambda>r. fr_conversation_id r \<noteq> c) (t_messages_fts t),
        t_summaries = filter (\<lambda>s. sm_ConversationID s \<noteq> c) (t_summaries t),
        t_summary_messages = filter (\<lambda>(s, m). kepts s \<and> keptm m) (t_summary_messages t),
        t_summary_parents = filter (\<lambda>(p, s). kepts p \<and> kepts s) (t_summary_parents t),
        t_context_items = filter (\<lambda>r. cx_conversation_id r \<noteq> c) (t_context_items t),
        t_large_files = filter (\<lambda>f. lf_ConversationID f \<noteq> c) (t_large_files t),
        t_summaries_fts = filter (\<lambda>r. fr_conversation_id r \<noteq> c) (t_summaries_fts t),
        t_conversation_pins = filter (\<lambda>p. fst p \<noteq> c) (t_conversation_pins t),
        t_summary_expansions = filter (\<lambda>e. kepts (fst e)) (t_summary_expansions t)\<rparr>)"

lemma purge_statements:
  assumes "delete_messages_fts c t = Some t1" "delete_summaries_fts c t1 = Some t2"
    "delete_conversation c t2 = Some t3"
  shows "t3 = purge_tables c t"
  using assms by (auto simp: delete_messages_fts_def delete_summaries_fts_def delete_conversation_def
      purge_tables_def Let_def)

lemma purge_ids: "conversation_ids (purge_tables c t) = conversation_ids t - {c}"
  by (auto simp: purge_tables_def conversation_ids_def Let_def)

lemma purge_log: "d \<noteq> c \<Longrightarrow> conversation_log (purge_tables c t) d = conversation_log t d"
  by (auto simp: purge_tables_def conversation_log_def Let_def intro!: filter_cong)

lemma purge_window: "d \<noteq> c \<Longrightarrow> window_rows (purge_tables c t) d = window_rows t d"
  by (auto simp: purge_tables_def window_rows_def Let_def intro!: filter_cong)

lemma purge_has_summary:
  assumes "distinct (map sm_ID (t_summaries t))" "has_summary t s"
    and "\<forall>x \<in> set (t_summaries t). sm_ID x = s \<longrightarrow> sm_ConversationID x \<noteq> c"
  shows "has_summary (purge_tables c t) s"
  using assms(2,3) by (auto simp: has_summary_def purge_tables_def Let_def)

lemma purge_has_message:
  assumes "has_message t m" and "\<forall>x \<in> set (t_messages t). ms_ID x = m \<longrightarrow> ms_ConversationID x \<noteq> c"
  shows "has_message (purge_tables c t) m"
  using assms by (auto simp: has_message_def purge_tables_def Let_def)

lemma wf_purge:
  assumes wf: "wf_tables H t"
  shows "wf_tables H (purge_tables c t)"
proof -
  let ?t = "purge_tables c t"
  note parts = wf [unfolded wf_tables_def]
  have "wf_conversations H ?t"
    using parts by (auto simp: wf_conversations_def purge_tables_def Let_def distinct_map_filter)
  moreover have "wf_messages H ?t"
    unfolding wf_messages_def
  proof (intro conjI ballI)
    show "distinct (map ms_ID (t_messages ?t))"
      using parts by (simp add: wf_messages_def purge_tables_def Let_def distinct_map_filter)
    show "ms_ConversationID m \<in> conversation_ids ?t" "message_identity H m" if "m \<in> set (t_messages ?t)" for m
      using parts that by (auto simp: wf_messages_def purge_ids) (auto simp: purge_tables_def Let_def)
    show "map ms_Seq (conversation_log ?t d) = map int [1..<Suc (length (conversation_log ?t d))]"
      if "d \<in> conversation_ids ?t" for d
      using parts that by (simp add: wf_messages_def purge_ids purge_log)
  qed
  moreover have "fts_parity ?t"
    using parts by (simp add: fts_parity_def purge_tables_def Let_def filter_map o_def message_fts_def summary_fts_def)
  moreover have "wf_summaries ?t"
    unfolding wf_summaries_def purge_ids
    using parts by (auto simp: wf_summaries_def purge_tables_def Let_def distinct_map_filter)
  moreover have "wf_links ?t"
  proof -
    have d: "distinct (map sm_ID (t_summaries t))" using parts by (simp add: wf_summaries_def)
    have "has_summary ?t s \<and> has_message ?t m" if "(s, m) \<in> set (t_summary_messages ?t)" for s m
      using that parts
      by (intro conjI purge_has_summary [OF d] purge_has_message)
        (auto simp: wf_links_def purge_tables_def Let_def)
    moreover have "has_summary ?t p \<and> has_summary ?t s" if "(p, s) \<in> set (t_summary_parents ?t)" for p s
      using that parts
      by (intro conjI purge_has_summary [OF d]) (auto simp: wf_links_def purge_tables_def Let_def)
    ultimately show ?thesis
      using parts by (auto simp: wf_links_def) (simp_all add: purge_tables_def Let_def)
  qed
  moreover have "wf_window ?t"
    unfolding wf_window_def
  proof (intro conjI ballI)
    show "cx_conversation_id r \<in> conversation_ids ?t" if "r \<in> set (t_context_items ?t)" for r
      using parts that by (auto simp: wf_window_def purge_ids) (auto simp: purge_tables_def Let_def)
    show "map cx_ordinal (window_rows ?t d) = map int [0..<length (window_rows ?t d)]"
      if "d \<in> conversation_ids ?t" for d
      using parts that by (simp add: wf_window_def purge_ids purge_window)
  qed
  moreover have "wf_lifecycle ?t"
  proof -
    have d: "distinct (map sm_ID (t_summaries t))" using parts by (simp add: wf_summaries_def)
    have "has_summary ?t s" if "s \<in> fst ` set (t_summary_expansions ?t)" for s
      using that parts
      by (intro purge_has_summary [OF d]) (auto simp: wf_lifecycle_def purge_tables_def Let_def)
    moreover have "\<forall>f \<in> set (t_large_files ?t). lf_ConversationID f \<in> conversation_ids ?t"
      "\<forall>x \<in> fst ` set (t_conversation_pins ?t). x \<in> conversation_ids ?t"
      unfolding purge_ids using parts by (auto simp: wf_lifecycle_def) (auto simp: purge_tables_def Let_def)
    moreover have "distinct (map lf_ID (t_large_files ?t))" "distinct (map fst (t_conversation_pins ?t))"
      "distinct (map fst (t_summary_expansions ?t))"
      using parts by (simp_all add: wf_lifecycle_def purge_tables_def Let_def distinct_map_filter)
    ultimately show ?thesis unfolding wf_lifecycle_def by blast
  qed
  ultimately show ?thesis by (simp add: wf_tables_def)
qed

end
