(* ===== verification/Store_Core.thy ===== *)
theory Store_Core
  imports Schema
begin

text \<open>
  \<open>internal/store/sqlite_core.go\<close>: conversations and the verbatim message log.  The full-text
  engine (FTS5) is a parameter: which rows match an expression, their \<open>bm25\<close> rank and snippet.
  Timestamps are scanned back as the instants that were written.
\<close>

record fts_engine =
  fe_match :: "string \<Rightarrow> string \<Rightarrow> bool"
  fe_bm25 :: "fts_row list \<Rightarrow> string \<Rightarrow> fts_row \<Rightarrow> int"
  fe_snippet :: "string \<Rightarrow> string \<Rightarrow> string"

section \<open>Conversations\<close>

definition ConversationBySession :: "agent \<Rightarrow> string \<Rightarrow> (world, conversation) prog" where
  "ConversationBySession ag session =
     bindE (sql_query ''store: load conversation''
              (\<lambda>t. find (\<lambda>c. cv_Agent c = ag \<and> cv_SessionID c = session) (t_conversations t)))
       (\<lambda>row. case row of None \<Rightarrow> fail ErrNotFound | Some c \<Rightarrow> ret c)"

definition EnsureConversation :: "hash \<Rightarrow> conversation_input \<Rightarrow> (world, conversation) prog" where
  "EnsureConversation H inp =
     (let cid = DeriveConversationID H (in_Agent inp) (in_SessionID inp) in
      bindE clock_Now (\<lambda>now.
      bindE (sql_exec ''store: upsert conversation'' (upsert_conversation cid inp now)) (\<lambda>_.
      ConversationBySession (in_Agent inp) (in_SessionID inp))))"

definition ListConversations :: "agent \<Rightarrow> (world, conversation list) prog" where
  "ListConversations ag =
     sql_rows ''store: list conversations'' ''store: iterate conversations''
       (\<lambda>t. sort_key (\<lambda>c. fmtTime (cv_CreatedAt c))
              (filter (\<lambda>c. ag = [] \<or> cv_Agent c = ag) (t_conversations t)))"

definition count_role :: "tables \<Rightarrow> string \<Rightarrow> role \<Rightarrow> int" where
  "count_role t c r = int (length (filter (\<lambda>m. ms_Role m = r) (conversation_log t c)))"

definition ConversationRoleCounts :: "agent \<Rightarrow> int \<Rightarrow> (world, conversation_role_counts list) prog" where
  "ConversationRoleCounts ag limit =
     sql_rows ''store: conversation role counts'' ''store: iterate conversation role counts''
       (\<lambda>t. sql_limit limit
          (map (\<lambda>c. \<lparr>rc_ConversationID = cv_ID c, rc_Agent = cv_Agent c,
                      rc_Users = count_role t (cv_ID c) RoleUser,
                      rc_Assistants = count_role t (cv_ID c) RoleAssistant,
                      rc_Tools = count_role t (cv_ID c) RoleTool,
                      rc_UpdatedAt = cv_UpdatedAt c\<rparr>)
            (order_desc (\<lambda>c. fmtTime (cv_UpdatedAt c))
              (filter (\<lambda>c. cv_Agent c = ag) (t_conversations t)))))"

section \<open>Messages\<close>

definition input_hash :: "hash \<Rightarrow> message_input \<Rightarrow> string" where
  "input_hash H inp = IdentityHash H (mi_ExternalID inp) (mi_Role inp) (mi_Content inp) (mi_Raw inp)"

definition input_id :: "hash \<Rightarrow> message_input \<Rightarrow> string" where
  "input_id H inp = DeriveMessageID H (mi_ConversationID inp) (input_hash H inp)"

definition new_message :: "hash \<Rightarrow> message_input \<Rightarrow> int \<Rightarrow> time \<Rightarrow> message" where
  "new_message H inp seq now =
     \<lparr>ms_ID = input_id H inp, ms_ConversationID = mi_ConversationID inp, ms_Seq = seq,
      ms_Role = mi_Role inp, ms_Content = mi_Content inp, ms_TokenCount = mi_TokenCount inp,
      ms_ToolName = mi_ToolName inp, ms_ExternalID = mi_ExternalID inp,
      ms_IdentityHash = input_hash H inp, ms_Raw = mi_Raw inp, ms_CreatedAt = now\<rparr>"

definition AppendMessage :: "hash \<Rightarrow> message_input \<Rightarrow> (world, message \<times> bool) prog" where
  "AppendMessage H inp =
     in_tx ''store: begin tx'' ''store: commit''
       (bindE (sql_query ''store: probe message'' (\<lambda>t. find (\<lambda>m. ms_ID m = input_id H inp) (t_messages t)))
         (\<lambda>existing. case existing of
            Some m \<Rightarrow> ret (m, False)
          | None \<Rightarrow>
              bindE (sql_query ''store: next seq'' (\<lambda>t. next_seq t (mi_ConversationID inp))) (\<lambda>seq.
              bindE clock_Now (\<lambda>now.
              let msg = new_message H inp seq now in
              bindE (sql_exec ''store: insert message'' (insert_message msg)) (\<lambda>_.
              bindE (sql_exec ''store: index message'' (index_message msg)) (\<lambda>_.
              bindE (sql_exec ''store: touch conversation'' (touch_conversation (mi_ConversationID inp) now)) (\<lambda>_.
              ret (msg, True))))))))"

definition GetMessage :: "string \<Rightarrow> (world, message) prog" where
  "GetMessage mid =
     bindE (sql_query ''store: get message'' (\<lambda>t. find (\<lambda>m. ms_ID m = mid) (t_messages t)))
       (\<lambda>row. case row of None \<Rightarrow> fail ErrNotFound | Some m \<Rightarrow> ret m)"

definition ListMessages :: "string \<Rightarrow> int \<Rightarrow> int \<Rightarrow> (world, message list) prog" where
  "ListMessages cid afterSeq limit =
     sql_rows ''store: list messages'' ''store: iterate messages''
       (\<lambda>t. let rows = sort_key ms_Seq (filter (\<lambda>m. ms_Seq m > afterSeq) (conversation_log t cid))
            in if limit > 0 then sql_limit limit rows else rows)"

text \<open>The loop of \<open>RecentConversationalMessageIDs\<close>: it stops as soon as both floors are met.\<close>

fun take_recent :: "int \<Rightarrow> int \<Rightarrow> nat \<Rightarrow> string list \<Rightarrow> int \<Rightarrow> message list \<Rightarrow> string list" where
  "take_recent minMessages minTokens 0 ids tokens rows = ids"
| "take_recent minMessages minTokens (Suc n) ids tokens rows =
     (if int (length ids) \<ge> minMessages \<and> tokens \<ge> minTokens then ids
      else case rows of [] \<Rightarrow> ids
           | m # rest \<Rightarrow> take_recent minMessages minTokens n (ids @ [ms_ID m]) (tokens + ms_TokenCount m) rest)"

definition RecentConversationalMessageIDs :: "string \<Rightarrow> int \<Rightarrow> int \<Rightarrow> int \<Rightarrow> (world, string list) prog" where
  "RecentConversationalMessageIDs cid minMessages minTokens maxRows =
     (if minMessages < 0 \<or> minTokens < 0 \<or> maxRows < 1 \<or> maxRows > 4096
      then fail (Errorf ''store: invalid recent-message limits'' [])
      else bindE (sql_rows ''store: list recent message ids'' ''store: iterate recent message ids''
             (\<lambda>t. sql_limit maxRows (order_desc ms_Seq
                (filter (\<lambda>m. ms_Role m \<noteq> RoleTool) (conversation_log t cid)))))
           (\<lambda>rows. ret (take_recent minMessages minTokens (nat maxRows) [] 0 rows)))"

section \<open>Search\<close>

definition ftsMatchExpr :: "unicode \<Rightarrow> string \<Rightarrow> bool \<Rightarrow> string" where
  "ftsMatchExpr U text any =
     (let fields = FieldsFunc (\<lambda>r. \<not> IsLetter U r \<and> \<not> IsNumber U r) text in
      if fields = [] then []
      else Join (map (\<lambda>f. CHR 0x22 # f @ [CHR 0x22]) fields) (if any then '' OR '' else '' ''))"

definition truncate_text :: "string \<Rightarrow> nat \<Rightarrow> string" where
  "truncate_text s n = cut_runes n ellipsis s"

definition scan_hits :: "bool \<Rightarrow> (message \<times> string \<times> int) list \<Rightarrow> search_hit list" where
  "scan_hits withSnippet rows =
     map (\<lambda>(m, snip, score). \<lparr>sh_Message = m,
        sh_Snippet = (if \<not> withSnippet \<or> snip = [] then truncate_text (ms_Content m) 200 else snip),
        sh_Score = score\<rparr>) rows"

definition queryHits :: "bool \<Rightarrow> (tables \<Rightarrow> (message \<times> string \<times> int) list) \<Rightarrow> (world, search_hit list) prog" where
  "queryHits withSnippet q =
     bindE (sql_rows ''store: search'' ''store: iterate hits'' q) (\<lambda>rows. ret (scan_hits withSnippet rows))"

definition fts_join :: "fts_engine \<Rightarrow> string \<Rightarrow> string \<Rightarrow> tables \<Rightarrow> (message \<times> string \<times> int) list" where
  "fts_join F expr cid t =
     [(m, fe_snippet F expr (fr_content r), fe_bm25 F (t_messages_fts t) expr r).
        r \<leftarrow> t_messages_fts t, m \<leftarrow> t_messages t,
        ms_ID m = fr_ref_id r, fe_match F expr (fr_content r), cid = [] \<or> ms_ConversationID m = cid]"

definition searchFTS :: "unicode \<Rightarrow> fts_engine \<Rightarrow> search_query \<Rightarrow> int \<Rightarrow> (world, search_hit list) prog" where
  "searchFTS U F q limit =
     (let expr = ftsMatchExpr U (sq_Text q) (sq_Any q) in
      if expr = [] then ret []
      else queryHits True (\<lambda>t. sql_limit limit
             (sort_key (\<lambda>(m, snip, score). score) (fts_join F expr (sq_ConversationID q) t))))"

definition searchSubstr :: "search_query \<Rightarrow> int \<Rightarrow> (world, search_hit list) prog" where
  "searchSubstr q limit =
     (if sq_Text q = [] then ret []
      else queryHits False (\<lambda>t. sql_limit limit
             (map (\<lambda>m. (m, [], 0))
               (sort_key (\<lambda>m. ms_ConversationID m) (sort_key ms_Seq
                 (filter (\<lambda>m. Contains (sqlite_lower (ms_Content m)) (sqlite_lower (sq_Text q))
                            \<and> (sq_ConversationID q = [] \<or> ms_ConversationID m = sq_ConversationID q))
                   (t_messages t)))))))"

definition SearchMessages :: "unicode \<Rightarrow> fts_engine \<Rightarrow> search_query \<Rightarrow> (world, search_hit list) prog" where
  "SearchMessages U F q =
     (let limit = (if sq_Limit q \<le> 0 then 20 else sq_Limit q) in
      if sq_Mode q = SearchSubstr then searchSubstr q limit else searchFTS U F q limit)"

definition Stats :: "(world, stats) prog" where
  "Stats =
     bindE (sql_query ''store: count conversations'' (\<lambda>t. int (length (t_conversations t)))) (\<lambda>n.
     bindE (sql_query ''store: count messages''
              (\<lambda>t. (int (length (t_messages t)), sum_list (map ms_TokenCount (t_messages t))))) (\<lambda>(k, s).
     ret \<lparr>st_Conversations = n, st_Messages = k, st_TotalTokens = s\<rparr>))"

section \<open>What the operations do to the tables\<close>

text \<open>
  The contract of an append: the message was there and nothing changed, or it is new, its row is
  at the end of the log with the next number of its conversation, its index row beside it.
\<close>

definition appended :: "hash \<Rightarrow> message_input \<Rightarrow> tables \<Rightarrow> message \<times> bool \<Rightarrow> tables \<Rightarrow> bool" where
  "appended H inp t r t' \<longleftrightarrow>
     (if snd r
      then input_id H inp \<notin> ms_ID ` set (t_messages t) \<and> mi_ConversationID inp \<in> conversation_ids t
        \<and> (\<exists>now. fst r = new_message H inp (next_seq t (mi_ConversationID inp)) now
               \<and> t' = append_tables (fst r) now t)
      else fst r \<in> set (t_messages t) \<and> ms_ID (fst r) = input_id H inp \<and> t' = t)"

lemma find_id_Some: "find (\<lambda>m. f m = k) xs = Some x \<Longrightarrow> x \<in> set xs \<and> f x = k"
  by (auto simp: find_Some_iff dest: nth_mem)

lemma find_id_None: "find (\<lambda>m. f m = k) xs = None \<longleftrightarrow> k \<notin> f ` set xs"
  by (auto simp: find_None_iff)

lemma message_identity_new [simp]: "message_identity H (new_message H inp seq now)"
  by (simp add: message_identity_def new_message_def input_hash_def input_id_def)

lemma new_message_simps [simp]:
  "ms_ID (new_message H inp seq now) = input_id H inp"
  "ms_ConversationID (new_message H inp seq now) = mi_ConversationID inp"
  "ms_Seq (new_message H inp seq now) = seq"
  "ms_Raw (new_message H inp seq now) = mi_Raw inp"
  "ms_Role (new_message H inp seq now) = mi_Role inp"
  "ms_Content (new_message H inp seq now) = mi_Content inp"
  "ms_TokenCount (new_message H inp seq now) = mi_TokenCount inp"
  by (simp_all add: new_message_def)

text \<open>
  On well-formed tables: the append happens, or the tables are as before; with a healthy driver it
  can only be refused because the conversation is unknown.
\<close>

lemma AppendMessage_at:
  assumes wf: "wf_tables H t"
  shows "hoare (at_db b t) (AppendMessage H inp) (\<lambda>r. on_db b (appended H inp t r))
    (\<lambda>_ w. at_db b t w \<and> (\<not> b \<or> mi_ConversationID inp \<notin> conversation_ids t))"
  unfolding AppendMessage_def
proof (rule in_tx_at, rule bind_query)
  let ?X = "\<not> b \<or> mi_ConversationID inp \<notin> conversation_ids t"
  let ?E = "\<lambda>(e::error) w. (b \<longrightarrow> healthy w) \<and> ?X"
  have err: "?E e w" if "at_db b t' w" "\<not> b \<or> ?X" for e w t'
    using that by (auto simp: at_db_def)
  let ?seq = "next_seq t (mi_ConversationID inp)"
  have insert: "hoare (at_db b t)
      (bindE (sql_exec ''store: insert message'' (insert_message (new_message H inp ?seq now))) (\<lambda>_.
       bindE (sql_exec ''store: index message'' (index_message (new_message H inp ?seq now))) (\<lambda>_.
       bindE (sql_exec ''store: touch conversation'' (touch_conversation (mi_ConversationID inp) now)) (\<lambda>_.
       ret (new_message H inp ?seq now, True))))) (\<lambda>r. on_db b (appended H inp t r)) ?E"
    if none: "find (\<lambda>m. ms_ID m = input_id H inp) (t_messages t) = None" for now
  proof (intro sql_rules)
    let ?m = "new_message H inp ?seq now"
    fix t1 t2 t3
    assume st: "insert_message ?m t = Some t1" "index_message ?m t1 = Some t2"
      "touch_conversation (mi_ConversationID inp) now t2 = Some t3"
    show "hoare (at_db b t3) (ret (?m, True)) (\<lambda>r. on_db b (appended H inp t r)) ?E"
      using append_statements [of ?m t t1 t2 now t3] st
      by (intro ret_at at_db_imp_on_db) (auto simp: appended_def intro!: exI [of _ now])
  next
    fix e w assume w: "at_db b t w" and r: "\<not> b \<or> insert_message (new_message H inp ?seq now) t = None"
    have "insert_message (new_message H inp ?seq now) t \<noteq> None" if "mi_ConversationID inp \<in> conversation_ids t"
      using that none by (intro insert_message_ok [OF wf]) (auto simp: find_id_None)
    with r show "?E e w" by (intro err [OF w]) auto
  qed (auto simp: index_message_def touch_conversation_def at_db_def)
  show "hoare (at_db b t) (case find (\<lambda>m. ms_ID m = input_id H inp) (t_messages t) of
      Some m \<Rightarrow> ret (m, False)
    | None \<Rightarrow> bindE (sql_query ''store: next seq'' (\<lambda>t. next_seq t (mi_ConversationID inp))) (\<lambda>seq.
        bindE clock_Now (\<lambda>now. let msg = new_message H inp seq now in
          bindE (sql_exec ''store: insert message'' (insert_message msg)) (\<lambda>_.
          bindE (sql_exec ''store: index message'' (index_message msg)) (\<lambda>_.
          bindE (sql_exec ''store: touch conversation'' (touch_conversation (mi_ConversationID inp) now)) (\<lambda>_.
          ret (msg, True))))))) (\<lambda>r. on_db b (appended H inp t r)) ?E"
  proof (cases "find (\<lambda>m. ms_ID m = input_id H inp) (t_messages t)")
    case None
    then show ?thesis
      unfolding None option.case Let_def
      by (intro bind_query bind_clock insert err None) auto
  next
    case (Some m)
    with find_id_Some [OF Some] show ?thesis
      by (simp only: Some option.case) (rule ret_at, auto simp: appended_def intro!: at_db_imp_on_db)
  qed
qed (auto simp: at_db_def)

text \<open>An append keeps the tables well-formed, extends the log, and changes nothing else of it.\<close>

lemma appended_wf:
  assumes "wf_tables H t" and "appended H inp t r t'"
  shows "wf_tables H t'"
  using assms by (auto simp: appended_def split: if_splits intro!: wf_append)

lemma append_tables_ids: "conversation_ids (append_tables m now t) = conversation_ids t"
  by (rule conversation_ids_map [where f = "\<lambda>c. if cv_ID c = ms_ConversationID m then c\<lparr>cv_UpdatedAt := now\<rparr> else c"])
    (simp_all add: append_tables_def)

lemma appended_messages:
  assumes "appended H inp t r t'"
  shows "t_messages t' = t_messages t @ (if snd r then [fst r] else [])"
    and "conversation_ids t' = conversation_ids t" and "fst r \<in> set (t_messages t')"
    and "ms_ID (fst r) = input_id H inp"
    and "snd r \<longleftrightarrow> input_id H inp \<notin> ms_ID ` set (t_messages t)"
proof -
  show "conversation_ids t' = conversation_ids t"
    using assms by (auto simp: appended_def append_tables_ids split: if_splits)
  show "snd r \<longleftrightarrow> input_id H inp \<notin> ms_ID ` set (t_messages t)"
    using assms by (force simp: appended_def split: if_splits)
qed (use assms in \<open>auto simp: appended_def append_tables_def split: if_splits\<close>)

text \<open>
  \<open>EnsureConversation\<close> returns the row of the session.  It relies on the derived identifier: two
  sessions with the same identifier would violate the primary key.
\<close>

definition conversation_id_clash :: "hash \<Rightarrow> tables \<Rightarrow> conversation_input \<Rightarrow> bool" where
  "conversation_id_clash H t i \<longleftrightarrow> (\<exists>c \<in> set (t_conversations t).
     cv_ID c = DeriveConversationID H (in_Agent i) (in_SessionID i)
     \<and> \<not> (cv_Agent c = in_Agent i \<and> cv_SessionID c = in_SessionID i))"

definition ensured :: "hash \<Rightarrow> conversation_input \<Rightarrow> tables \<Rightarrow> tables \<Rightarrow> bool" where
  "ensured H i t t' \<longleftrightarrow> wf_tables H t' \<and> t_messages t' = t_messages t \<and> t_summaries t' = t_summaries t
     \<and> t_context_items t' = t_context_items t
     \<and> t_summary_messages t' = t_summary_messages t \<and> t_summary_parents t' = t_summary_parents t
     \<and> conversation_ids t' = insert (DeriveConversationID H (in_Agent i) (in_SessionID i)) (conversation_ids t)
     \<and> (\<exists>c \<in> set (t_conversations t'). cv_Agent c = in_Agent i \<and> cv_SessionID c = in_SessionID i
          \<and> (in_Title i \<noteq> [] \<longrightarrow> cv_Title c = in_Title i))"

lemma upsert_conversation_ensured:
  assumes wf: "wf_tables H t"
    and up: "upsert_conversation (DeriveConversationID H (in_Agent i) (in_SessionID i)) i now t = Some t'"
  shows "ensured H i t t'"
proof -
  let ?same = "\<lambda>c. cv_Agent c = in_Agent i \<and> cv_SessionID c = in_SessionID i"
  let ?u = "\<lambda>c. if ?same c then c\<lparr>cv_Title := (if in_Title i \<noteq> [] then in_Title i else cv_Title c),
    cv_UpdatedAt := now\<rparr> else c"
  have same_id: "cv_ID c = DeriveConversationID H (in_Agent i) (in_SessionID i)"
    if "c \<in> set (t_conversations t)" "?same c" for c
    using wf that by (simp add: wf_tables_def wf_conversations_def)
  have wf': "wf_tables H t'" by (rule wf_upsert_conversation [OF wf up])
  show ?thesis
  proof (cases "\<exists>c \<in> set (t_conversations t). ?same c")
    case True
    then obtain c where c: "c \<in> set (t_conversations t)" "?same c" by blast
    have t': "t' = t\<lparr>t_conversations := map ?u (t_conversations t)\<rparr>"
      using up True by (simp add: upsert_conversation_def)
    have "conversation_ids t' = conversation_ids t"
      by (rule conversation_ids_map [where f = ?u]) (simp_all add: t')
    moreover have "DeriveConversationID H (in_Agent i) (in_SessionID i) \<in> conversation_ids t"
      using same_id [OF c] c(1) by (force simp: conversation_ids_def)
    moreover have "?u c \<in> set (t_conversations t')" using c(1) by (simp add: t')
    ultimately show ?thesis
      using wf' c(2) unfolding ensured_def by (auto simp: t' insert_absorb intro!: bexI [of _ "?u c"])
  next
    case False
    with up wf' show ?thesis by (auto simp: ensured_def upsert_conversation_def conversation_ids_def split: if_splits)
  qed
qed

lemma ConversationBySession_at:
  "hoare (at_db b t) (ConversationBySession ag session)
     (\<lambda>c w. at_db b t w \<and> c \<in> set (t_conversations t) \<and> cv_Agent c = ag \<and> cv_SessionID c = session)
     (\<lambda>_ w. at_db b t w \<and> (\<not> b \<or> (\<forall>c \<in> set (t_conversations t). \<not> (cv_Agent c = ag \<and> cv_SessionID c = session))))"
  unfolding ConversationBySession_def
  by (rule bind_query)
    (auto split: option.split simp: find_None_iff find_Some_iff intro!: ret_at fail_at)

lemma EnsureConversation_at:
  assumes wf: "wf_tables H t"
  shows "hoare (at_db b t) (EnsureConversation H i)
     (\<lambda>c. on_db b (\<lambda>t'. ensured H i t t' \<and> cv_ID c = DeriveConversationID H (in_Agent i) (in_SessionID i)
        \<and> c \<in> set (t_conversations t')))
     (\<lambda>_ w. (at_db b t w \<or> on_db b (ensured H i t) w) \<and> (\<not> b \<or> conversation_id_clash H t i))"
  unfolding EnsureConversation_def Let_def
proof (intro bind_clock bind_exec)
  fix now t2
  let ?Q = "\<lambda>c. on_db b (\<lambda>t'. ensured H i t t' \<and> cv_ID c = DeriveConversationID H (in_Agent i) (in_SessionID i)
        \<and> c \<in> set (t_conversations t'))"
  let ?E = "\<lambda>e w. (at_db b t w \<or> on_db b (ensured H i t) w) \<and> (\<not> b \<or> conversation_id_clash H t i)"
  assume "upsert_conversation (DeriveConversationID H (in_Agent i) (in_SessionID i)) i now t = Some t2"
  then have e: "ensured H i t t2" by (rule upsert_conversation_ensured [OF wf])
  then have "cv_ID c = DeriveConversationID H (in_Agent i) (in_SessionID i)"
    if "c \<in> set (t_conversations t2)" "cv_Agent c = in_Agent i \<and> cv_SessionID c = in_SessionID i" for c
    using that by (simp add: ensured_def wf_tables_def wf_conversations_def)
  with e show "hoare (at_db b t2) (ConversationBySession (in_Agent i) (in_SessionID i)) ?Q ?E"
    by (intro hoare_conseq [OF ConversationBySession_at]) (auto simp: at_db_def on_db_def ensured_def)
next
  fix now e w
  assume "at_db b t w"
    "\<not> b \<or> upsert_conversation (DeriveConversationID H (in_Agent i) (in_SessionID i)) i now t = None"
  then show "(at_db b t w \<or> on_db b (ensured H i t) w) \<and> (\<not> b \<or> conversation_id_clash H t i)"
    by (auto simp: upsert_conversation_def has_conversation_def conversation_id_clash_def split: if_splits)
qed

end
