(* ===== verification/Window.thy ===== *)
theory Window
  imports CoreTypes
begin

text \<open>
  The pure part of \<open>internal/engine/engine.go\<close>: the in-memory window, its token total, the
  protected fresh tail, the choice of the next block to fold, and the replacement of a block by
  one summary item.  Indices are positions in the list, a block is the half-open range the code
  returns.
\<close>

record window_item =
  wi_typ :: context_item_type
  wi_refID :: string
  wi_role :: role
  wi_tokens :: int
  wi_earliestSeq :: int
  wi_latestSeq :: int
  wi_depth :: int

abbreviation is_message :: "window_item \<Rightarrow> bool" where
  "is_message it \<equiv> wi_typ it = ContextMessage"

abbreviation is_summary :: "window_item \<Rightarrow> bool" where
  "is_summary it \<equiv> wi_typ it = ContextSummary"

definition windowTokens :: "window_item list \<Rightarrow> int" where
  "windowTokens w = sum_list (map wi_tokens w)"

definition isConversationalMessage :: "window_item \<Rightarrow> bool" where
  "isConversationalMessage it \<longleftrightarrow> wi_typ it = ContextMessage \<and> wi_role it \<noteq> RoleTool"

section \<open>The fresh tail\<close>

text \<open>The loop of \<open>protectedSet\<close>: the index runs down from the end of the window.\<close>

fun protect_loop :: "window_item list \<Rightarrow> int \<Rightarrow> int \<Rightarrow> nat \<Rightarrow> int \<Rightarrow> int \<Rightarrow> nat list" where
  "protect_loop w freshTail freshTokens 0 seen tokenTotal = []"
| "protect_loop w freshTail freshTokens (Suc i) seen tokenTotal =
     (if seen < freshTail \<or> tokenTotal < freshTokens
      then if isConversationalMessage (w ! i)
           then i # protect_loop w freshTail freshTokens i (seen + 1) (tokenTotal + wi_tokens (w ! i))
           else protect_loop w freshTail freshTokens i seen tokenTotal
      else [])"

definition protectedSet :: "window_item list \<Rightarrow> int \<Rightarrow> int \<Rightarrow> nat set" where
  "protectedSet w freshTail freshTokens =
     (if freshTail \<le> 0 \<and> freshTokens \<le> 0 then {}
      else set (protect_loop w freshTail freshTokens (length w) 0 0))"

text \<open>The protected items themselves, newest first.\<close>

fun tail_items :: "int \<Rightarrow> int \<Rightarrow> int \<Rightarrow> int \<Rightarrow> window_item list \<Rightarrow> window_item list" where
  "tail_items freshTail freshTokens seen tot [] = []"
| "tail_items freshTail freshTokens seen tot (x # xs) =
     (if seen < freshTail \<or> tot < freshTokens
      then if isConversationalMessage x
           then x # tail_items freshTail freshTokens (seen + 1) (tot + wi_tokens x) xs
           else tail_items freshTail freshTokens seen tot xs
      else [])"

definition fresh_tail :: "int \<Rightarrow> int \<Rightarrow> window_item list \<Rightarrow> window_item list" where
  "fresh_tail freshTail freshTokens w = tail_items freshTail freshTokens 0 0 (rev w)"

section \<open>The next block\<close>

fun skip_items :: "nat set \<Rightarrow> nat \<Rightarrow> window_item list \<Rightarrow> nat" where
  "skip_items protected i [] = i"
| "skip_items protected i (x # xs) =
     (if wi_typ x \<noteq> ContextMessage \<or> i \<in> protected then skip_items protected (Suc i) xs else i)"

fun block_end :: "nat set \<Rightarrow> int \<Rightarrow> int \<Rightarrow> nat \<Rightarrow> window_item list \<Rightarrow> nat" where
  "block_end protected chunk tok i [] = i"
| "block_end protected chunk tok i (x # xs) =
     (if wi_typ x = ContextMessage \<and> i \<notin> protected
      then if tok + wi_tokens x \<ge> chunk then Suc i
           else block_end protected chunk (tok + wi_tokens x) (Suc i) xs
      else i)"

definition findMessageBlock :: "window_item list \<Rightarrow> nat set \<Rightarrow> int \<Rightarrow> (nat \<times> nat) option" where
  "findMessageBlock w protected leafChunkTokens =
     (let i = skip_items protected 0 w in
      if i \<ge> length w then None
      else Some (i, block_end protected leafChunkTokens 0 i (drop i w)))"

text \<open>The inner loop of \<open>condenseRun\<close>: how many summaries of depth \<open>d\<close> follow within the limits.\<close>

fun run_length :: "int \<Rightarrow> int \<Rightarrow> int \<Rightarrow> int \<Rightarrow> int \<Rightarrow> window_item list \<Rightarrow> nat" where
  "run_length fanout chunk d n tokens [] = 0"
| "run_length fanout chunk d n tokens (x # xs) =
     (if n < fanout \<and> wi_typ x = ContextSummary \<and> wi_depth x = d \<and> \<not> tokens + wi_tokens x > chunk
      then Suc (run_length fanout chunk d (n + 1) (tokens + wi_tokens x) xs)
      else 0)"

fun condense_from :: "int \<Rightarrow> int \<Rightarrow> int \<Rightarrow> nat \<Rightarrow> window_item list \<Rightarrow> (nat \<times> nat) option" where
  "condense_from fanout maxDepth chunk i [] = None"
| "condense_from fanout maxDepth chunk i (x # xs) =
     (if wi_typ x \<noteq> ContextSummary then condense_from fanout maxDepth chunk (Suc i) xs
      else let n = run_length fanout chunk (wi_depth x) 0 0 (x # xs) in
           if wi_depth x < maxDepth \<and> int n = fanout then Some (i, i + n)
           else condense_from fanout maxDepth chunk (Suc i) xs)"

definition condenseRun :: "window_item list \<Rightarrow> int \<Rightarrow> int \<Rightarrow> int \<Rightarrow> (nat \<times> nat) option" where
  "condenseRun w fanout maxDepth chunkTokens = condense_from fanout maxDepth chunkTokens 0 w"

definition replaceRange :: "window_item list \<Rightarrow> nat \<Rightarrow> nat \<Rightarrow> window_item \<Rightarrow> window_item list" where
  "replaceRange w start end item = take start w @ [item] @ drop end w"

text \<open>The slice \<open>w[start:end]\<close>.\<close>

definition slice :: "nat \<Rightarrow> nat \<Rightarrow> 'a list \<Rightarrow> 'a list" where
  "slice i j w = take (j - i) (drop i w)"

section \<open>Truncation\<close>

text \<open>
  \<open>targetTokens * 4\<close> is 64-bit arithmetic; a negative bound makes the slice expression panic, which
  is \<open>None\<close>.
\<close>

definition truncateToTokens :: "string \<Rightarrow> int \<Rightarrow> string option" where
  "truncateToTokens s targetTokens =
     (let maxChars = wrap64 (targetTokens * 4) in
      if int (length (runes s)) \<le> maxChars then Some s
      else if maxChars < 0 then None
      else Some (cut_runes (nat maxChars) ellipsis s))"

section \<open>Slices and replacement\<close>

lemma windowTokens_simps [simp]:
  "windowTokens [] = 0"
  "windowTokens (x # xs) = wi_tokens x + windowTokens xs"
  "windowTokens (xs @ ys) = windowTokens xs + windowTokens ys"
  by (simp_all add: windowTokens_def)

lemma length_slice: "j \<le> length w \<Longrightarrow> length (slice i j w) = j - i"
  by (simp add: slice_def)

lemma slice_split: "i \<le> j \<Longrightarrow> j \<le> length w \<Longrightarrow> w = take i w @ slice i j w @ drop j w"
  by (metis append_take_drop_id drop_drop le_add_diff_inverse2 slice_def)

lemma slice_Suc: "m \<le> n \<Longrightarrow> n < length w \<Longrightarrow> slice m (Suc n) w = slice m n w @ [w ! n]"
  by (simp add: slice_def Suc_diff_le take_Suc_conv_app_nth)

lemma slice_self [simp]: "slice i i w = []"
  by (simp add: slice_def)

lemma nth_slice: "i + k < j \<Longrightarrow> j \<le> length w \<Longrightarrow> slice i j w ! k = w ! (i + k)"
  by (simp add: slice_def)

lemma set_slice: "j \<le> length w \<Longrightarrow> x \<in> set (slice i j w) \<longleftrightarrow> (\<exists>k. i \<le> k \<and> k < j \<and> x = w ! k)"
  unfolding in_set_conv_nth
proof (safe, goal_cases)
  case (1 k)
  then show ?case by (intro exI [of _ "i + k"]) (auto simp: length_slice nth_slice)
next
  case (2 k)
  then show ?case by (intro exI [of _ "k - i"]) (auto simp: length_slice nth_slice)
qed

lemma slice_hd: "i < j \<Longrightarrow> j \<le> length w \<Longrightarrow> slice i j w = w ! i # slice (Suc i) j w"
  by (simp add: slice_def Cons_nth_drop_Suc [symmetric] Suc_diff_Suc [symmetric])

lemma length_replaceRange:
  "i \<le> j \<Longrightarrow> j \<le> length w \<Longrightarrow> length (replaceRange w i j it) + (j - i) = length w + 1"
  by (simp add: replaceRange_def)

lemma windowTokens_replaceRange:
  assumes "i \<le> j" "j \<le> length w"
  shows "windowTokens (replaceRange w i j it) = windowTokens w - windowTokens (slice i j w) + wi_tokens it"
proof -
  have "windowTokens w = windowTokens (take i w @ slice i j w @ drop j w)"
    using slice_split [OF assms] by simp
  then show ?thesis by (simp add: windowTokens_def replaceRange_def)
qed

section \<open>Folding keeps the fresh tail\<close>

lemma tail_items_append:
  "tail_items ft fk s t (xs @ ys) = tail_items ft fk s t xs
     @ tail_items ft fk (s + int (length (tail_items ft fk s t xs)))
         (t + windowTokens (tail_items ft fk s t xs)) ys"
proof (induction xs arbitrary: s t)
  case Nil
  then show ?case by (simp add: windowTokens_def)
next
  case (Cons x xs)
  show ?case
  proof (cases "s < ft \<or> t < fk")
    case True
    then show ?thesis
      using Cons [of s t] Cons [of "s + 1" "t + wi_tokens x"] by (simp add: windowTokens_def algebra_simps)
  next
    case False
    then show ?thesis by (cases ys) (simp_all add: windowTokens_def)
  qed
qed

lemma tail_items_met: "\<not> s < ft \<Longrightarrow> \<not> t < fk \<Longrightarrow> tail_items ft fk s t xs = []"
  by (cases xs) simp_all

lemma tail_items_conversational: "x \<in> set (tail_items ft fk s t xs) \<Longrightarrow> isConversationalMessage x \<and> x \<in> set xs"
  by (induction ft fk s t xs rule: tail_items.induct) (auto split: if_splits)

lemma protect_loop_met: "\<not> (s < ft \<or> t < fk) \<Longrightarrow> protect_loop w ft fk n s t = []"
  by (cases n) simp_all

text \<open>The loop cut at position \<open>m\<close>: the indices from \<open>m\<close> on, then the loop from \<open>m\<close>.\<close>

lemma protect_loop_split:
  assumes "m \<le> n" and "n \<le> length w"
  shows "\<exists>A. protect_loop w ft fk n s t = A @ protect_loop w ft fk m (s + int (length A)) (t + windowTokens (map ((!) w) A))
    \<and> map ((!) w) A = tail_items ft fk s t (rev (slice m n w)) \<and> set A \<subseteq> {m..<n}"
  using assms
proof (induction n arbitrary: s t)
  case 0
  then show ?case by (intro exI [of _ "[]"]) (simp add: windowTokens_def)
next
  case (Suc n)
  show ?case
  proof (cases "m = Suc n")
    case True
    then show ?thesis by (intro exI [of _ "[]"]) (simp add: windowTokens_def)
  next
    case False
    with Suc.prems have mn: "m \<le> n" "n \<le> length w" and sl: "slice m (Suc n) w = slice m n w @ [w ! n]"
      by (simp_all add: slice_Suc)
    show ?thesis
    proof (cases "s < ft \<or> t < fk")
      case False
      then show ?thesis
        by (intro exI [of _ "[]"]) (simp add: windowTokens_def protect_loop_met sl)
    next
      case unmet: True
      show ?thesis
      proof (cases "isConversationalMessage (w ! n)")
        case True
        obtain A where A: "protect_loop w ft fk n (s + 1) (t + wi_tokens (w ! n)) = A @ protect_loop w ft fk m
            (s + 1 + int (length A)) (t + wi_tokens (w ! n) + windowTokens (map ((!) w) A))"
          "map ((!) w) A = tail_items ft fk (s + 1) (t + wi_tokens (w ! n)) (rev (slice m n w))" "set A \<subseteq> {m..<n}"
          using Suc.IH [OF mn] by blast
        show ?thesis
          using A unmet True mn by (intro exI [of _ "n # A"]) (auto simp: windowTokens_def sl algebra_simps)
      next
        case False
        obtain A where A: "protect_loop w ft fk n s t = A @ protect_loop w ft fk m
            (s + int (length A)) (t + windowTokens (map ((!) w) A))"
          "map ((!) w) A = tail_items ft fk s t (rev (slice m n w))" "set A \<subseteq> {m..<n}"
          using Suc.IH [OF mn] by blast
        show ?thesis
          using A unmet False by (intro exI [of _ A]) (auto simp: sl)
      qed
    qed
  qed
qed

lemma protected_items:
  "map ((!) w) (protect_loop w ft fk (length w) 0 0) = fresh_tail ft fk w"
proof -
  from protect_loop_split [of 0 "length w" w ft fk 0 0] show ?thesis
    by (auto simp: fresh_tail_def slice_def)
qed

lemma protectedSet_items: "ft > 0 \<or> fk > 0 \<Longrightarrow> ((!) w) ` protectedSet w ft fk = set (fresh_tail ft fk w)"
  by (auto simp: protectedSet_def protected_items [symmetric])

lemma protected_conversational: "k \<in> protectedSet w ft fk \<Longrightarrow> isConversationalMessage (w ! k)"
proof -
  assume k: "k \<in> protectedSet w ft fk"
  then have "ft > 0 \<or> fk > 0" by (auto simp: protectedSet_def split: if_splits)
  from protectedSet_items [OF this, of w] k have "w ! k \<in> set (fresh_tail ft fk w)" by blast
  then show ?thesis using tail_items_conversational unfolding fresh_tail_def by blast
qed

text \<open>
  The protected items of a window stay exactly the same when an unprotected block gives way to an
  item that is no conversational message: neither \<open>Compact\<close> nor \<open>ArchiveToFreshTail\<close> erodes the
  fresh tail, however often they fold.
\<close>

lemma fresh_tail_replaceRange:
  assumes ij: "i \<le> j" "j \<le> length w"
    and free: "{i..<j} \<inter> protectedSet w ft fk = {}"
    and it: "\<not> isConversationalMessage it"
  shows "fresh_tail ft fk (replaceRange w i j it) = fresh_tail ft fk w"
proof (cases "ft \<le> 0 \<and> fk \<le> 0")
  case True
  have "tail_items ft fk 0 0 xs = []" for xs
    using True by (cases xs) auto
  then show ?thesis by (simp add: fresh_tail_def)
next
  case False
  let ?C = "rev (drop j w)" and ?B = "rev (slice i j w)" and ?A = "rev (take i w)"
  obtain P where P: "protect_loop w ft fk (length w) 0 0
      = P @ protect_loop w ft fk j (int (length P)) (windowTokens (map ((!) w) P))"
    "map ((!) w) P = tail_items ft fk 0 0 ?C" "set P \<subseteq> {j..<length w}"
    using protect_loop_split [of j "length w" w ft fk 0 0] ij by (auto simp: slice_def)
  define s where "s = int (length P)"
  define t where "t = windowTokens (map ((!) w) P)"
  obtain Q where Q: "protect_loop w ft fk j s t = Q @ protect_loop w ft fk i (s + int (length Q)) (t + windowTokens (map ((!) w) Q))"
    "map ((!) w) Q = tail_items ft fk s t ?B" "set Q \<subseteq> {i..<j}"
    using protect_loop_split [of i j w ft fk s t] ij by blast
  have "set Q \<subseteq> protectedSet w ft fk"
    using False P(1) Q(1) by (auto simp: protectedSet_def s_def t_def)
  with free Q(3) have "Q = []" by (cases Q) auto
  with Q(2) have B: "tail_items ft fk s t ?B = []" by simp
  have s: "s = int (length (tail_items ft fk 0 0 ?C))" "t = windowTokens (tail_items ft fk 0 0 ?C)"
    using P(2) by (metis s_def length_map, simp add: t_def)
  have "rev w = ?C @ ?B @ ?A"
    using arg_cong [OF slice_split [OF ij], of rev] by simp
  then have "fresh_tail ft fk w = tail_items ft fk 0 0 ?C @ tail_items ft fk s t ?A"
    by (simp add: fresh_tail_def tail_items_append s [symmetric] B)
  moreover have "fresh_tail ft fk (replaceRange w i j it) = tail_items ft fk 0 0 ?C @ tail_items ft fk s t ?A"
    using it tail_items_met by (simp add: fresh_tail_def replaceRange_def tail_items_append s [symmetric])
  ultimately show ?thesis by simp
qed

section \<open>What the searches find\<close>

lemma skip_items_spec:
  "i \<le> skip_items P i xs \<and> skip_items P i xs \<le> i + length xs
   \<and> (\<forall>k. i \<le> k \<and> k < skip_items P i xs \<longrightarrow> \<not> (is_message (xs ! (k - i)) \<and> k \<notin> P))
   \<and> (skip_items P i xs < i + length xs \<longrightarrow> is_message (xs ! (skip_items P i xs - i)) \<and> skip_items P i xs \<notin> P)"
proof (induction P i xs rule: skip_items.induct)
  case (2 P i x xs)
  show ?case
  proof (cases "wi_typ x \<noteq> ContextMessage \<or> i \<in> P")
    case True
    note IH = "2.IH" [OF True]
    have n: "(x # xs) ! (k - i) = xs ! (k - Suc i)" if "Suc i \<le> k" for k
      using that by (simp add: nth_Cons')
    have "\<not> (is_message ((x # xs) ! (k - i)) \<and> k \<notin> P)" if "i \<le> k" "k < skip_items P (Suc i) xs" for k
    proof (cases "k = i")
      case False
      with that IH n [of k] show ?thesis by auto
    qed (use True in auto)
    with IH True n [of "skip_items P (Suc i) xs"] show ?thesis by auto
  qed auto
qed auto

lemma block_end_spec:
  "i \<le> block_end P c tok i xs \<and> block_end P c tok i xs \<le> i + length xs
   \<and> (\<forall>k. i \<le> k \<and> k < block_end P c tok i xs \<longrightarrow> is_message (xs ! (k - i)) \<and> k \<notin> P)"
proof (induction P c tok i xs rule: block_end.induct)
  case (2 P c tok i x xs)
  have n: "(x # xs) ! (k - i) = xs ! (k - Suc i)" if "Suc i \<le> k" for k
    using that by (simp add: nth_Cons')
  show ?case
  proof (cases "wi_typ x = ContextMessage \<and> i \<notin> P \<and> \<not> tok + wi_tokens x \<ge> c")
    case True
    then have IH: "Suc i \<le> block_end P c (tok + wi_tokens x) (Suc i) xs
      \<and> block_end P c (tok + wi_tokens x) (Suc i) xs \<le> Suc i + length xs
      \<and> (\<forall>k. Suc i \<le> k \<and> k < block_end P c (tok + wi_tokens x) (Suc i) xs \<longrightarrow> is_message (xs ! (k - Suc i)) \<and> k \<notin> P)"
      using "2.IH" by simp
    have "is_message ((x # xs) ! (k - i)) \<and> k \<notin> P"
      if "i \<le> k" "k < block_end P c (tok + wi_tokens x) (Suc i) xs" for k
    proof (cases "k = i")
      case False
      with that IH n [of k] show ?thesis by auto
    qed (use True in auto)
    with IH True show ?thesis by auto
  next
    case False
    then have "block_end P c tok i (x # xs) = (if wi_typ x = ContextMessage \<and> i \<notin> P then Suc i else i)" by auto
    then show ?thesis by (auto simp: le_less_Suc_eq)
  qed
qed auto

lemma block_end_progress:
  "xs \<noteq> [] \<Longrightarrow> is_message (hd xs) \<Longrightarrow> i \<notin> P \<Longrightarrow> i < block_end P c tok i xs"
  using block_end_spec [of "Suc i"] by (cases xs) (auto simp: Suc_le_eq)

text \<open>
  The block: non-empty, all messages, none protected.  No block means that every message of the
  window is protected.
\<close>

lemma findMessageBlock_Some:
  assumes "findMessageBlock w P c = Some (i, j)"
  shows "i < j" "j \<le> length w" "\<And>k. i \<le> k \<Longrightarrow> k < j \<Longrightarrow> is_message (w ! k) \<and> k \<notin> P"
proof -
  have i: "i = skip_items P 0 w" "i < length w" and j: "j = block_end P c 0 i (drop i w)"
    using assms by (auto simp: findMessageBlock_def Let_def split: if_splits)
  have "is_message (w ! i)" "i \<notin> P"
    using skip_items_spec [of 0 P w] i by auto
  then show "i < j" unfolding j using i by (intro block_end_progress) (auto simp: hd_drop_conv_nth)
  have b: "i \<le> j \<and> j \<le> i + length (drop i w) \<and> (\<forall>k. i \<le> k \<and> k < j \<longrightarrow> is_message (drop i w ! (k - i)) \<and> k \<notin> P)"
    unfolding j by (rule block_end_spec)
  then show "j \<le> length w" using i by simp
  show "is_message (w ! k) \<and> k \<notin> P" if "i \<le> k" "k < j" for k
    using b that i by auto
qed

lemma findMessageBlock_None:
  "findMessageBlock w P c = None \<longleftrightarrow> (\<forall>k < length w. is_message (w ! k) \<longrightarrow> k \<in> P)"
proof
  assume "findMessageBlock w P c = None"
  then have "length w \<le> skip_items P 0 w" by (simp add: findMessageBlock_def Let_def split: if_splits)
  with skip_items_spec [of 0 P w] show "\<forall>k < length w. is_message (w ! k) \<longrightarrow> k \<in> P" by auto
next
  assume a: "\<forall>k < length w. is_message (w ! k) \<longrightarrow> k \<in> P"
  show "findMessageBlock w P c = None"
  proof (rule ccontr)
    assume "findMessageBlock w P c \<noteq> None"
    then have "skip_items P 0 w < length w" by (simp add: findMessageBlock_def Let_def split: if_splits)
    with skip_items_spec [of 0 P w] a show False by auto
  qed
qed

text \<open>The tokens before the last message of a block stay below the chunk limit.\<close>

lemma block_end_tokens:
  assumes "block_end P c tok i xs = j" "i < j" "tok < c"
  shows "tok + windowTokens (take (j - 1 - i) xs) < c"
  using assms
proof (induction P c tok i xs arbitrary: j rule: block_end.induct)
  case (2 P c tok i x xs)
  show ?case
  proof (cases "wi_typ x = ContextMessage \<and> i \<notin> P \<and> \<not> tok + wi_tokens x \<ge> c")
    case True
    then have j: "block_end P c (tok + wi_tokens x) (Suc i) xs = j" using "2.prems" by simp
    show ?thesis
    proof (cases "Suc i < j")
      case True': True
      have "(tok + wi_tokens x) + windowTokens (take (j - 1 - Suc i) xs) < c"
        using True True' j by (intro "2.IH") auto
      moreover have "take (j - 1 - i) (x # xs) = x # take (j - 1 - Suc i) xs"
        using True' by (simp add: take_Cons' diff_diff_add)
      ultimately show ?thesis by (simp add: windowTokens_def)
    next
      case False
      with "2.prems" show ?thesis by (simp add: windowTokens_def)
    qed
  qed (use "2.prems" in \<open>auto simp: windowTokens_def split: if_splits\<close>)
qed simp

lemma findMessageBlock_tokens:
  assumes "findMessageBlock w P c = Some (i, j)" and "0 < c"
  shows "windowTokens (slice i (j - 1) w) < c"
proof -
  have "block_end P c 0 i (drop i w) = j" "i < j"
    using assms(1) findMessageBlock_Some(1) [OF assms(1)] by (auto simp: findMessageBlock_def Let_def split: if_splits)
  from block_end_tokens [OF this assms(2)] show ?thesis by (simp add: slice_def)
qed

lemma run_length_spec:
  assumes "n \<le> f"
  shows "run_length f c d n tok xs \<le> length xs
   \<and> (\<forall>k < run_length f c d n tok xs. is_summary (xs ! k) \<and> wi_depth (xs ! k) = d)
   \<and> n + int (run_length f c d n tok xs) \<le> f
   \<and> (tok \<le> c \<longrightarrow> tok + windowTokens (take (run_length f c d n tok xs) xs) \<le> c)"
  using assms
proof (induction f c d n tok xs rule: run_length.induct)
  case (2 f c d n tok x xs)
  show ?case
  proof (cases "n < f \<and> wi_typ x = ContextSummary \<and> wi_depth x = d \<and> \<not> tok + wi_tokens x > c")
    case True
    then have IH: "run_length f c d (n + 1) (tok + wi_tokens x) xs \<le> length xs
       \<and> (\<forall>k < run_length f c d (n + 1) (tok + wi_tokens x) xs. is_summary (xs ! k) \<and> wi_depth (xs ! k) = d)
       \<and> n + 1 + int (run_length f c d (n + 1) (tok + wi_tokens x) xs) \<le> f
       \<and> (tok + wi_tokens x \<le> c \<longrightarrow> tok + wi_tokens x
            + windowTokens (take (run_length f c d (n + 1) (tok + wi_tokens x) xs) xs) \<le> c)"
      using "2.IH" by simp
    have "is_summary ((x # xs) ! k) \<and> wi_depth ((x # xs) ! k) = d"
      if "k < Suc (run_length f c d (n + 1) (tok + wi_tokens x) xs)" for k
      using that True IH by (cases k) auto
    with IH True show ?thesis by (auto simp: windowTokens_def)
  next
    case False
    with "2.prems" show ?thesis by (auto simp: windowTokens_def)
  qed
qed (auto simp: windowTokens_def)

lemma condense_from_Some:
  assumes "condense_from f D c i0 xs = Some (i, j)" and "0 \<le> f"
  shows "i0 \<le> i \<and> j \<le> i0 + length xs \<and> int j = int i + f
    \<and> (\<exists>d < D. \<forall>k. i \<le> k \<and> k < j \<longrightarrow> is_summary (xs ! (k - i0)) \<and> wi_depth (xs ! (k - i0)) = d)
    \<and> (0 \<le> c \<longrightarrow> windowTokens (take (j - i) (drop (i - i0) xs)) \<le> c)"
  using assms
proof (induction f D c i0 xs rule: condense_from.induct)
  case (2 f D c i0 x xs)
  let ?n = "run_length f c (wi_depth x) 0 0 (x # xs)"
  show ?case
  proof (cases "wi_typ x = ContextSummary \<and> wi_depth x < D \<and> int ?n = f")
    case True
    then have ij: "i = i0" "j = i0 + ?n" using "2.prems" by (simp_all add: Let_def del: run_length.simps)
    note r = run_length_spec [of 0 f c "wi_depth x" 0 "x # xs", OF "2.prems"(2)]
    have "\<forall>k. i \<le> k \<and> k < j \<longrightarrow> is_summary ((x # xs) ! (k - i0)) \<and> wi_depth ((x # xs) ! (k - i0)) = wi_depth x"
      using r ij by auto
    with r ij True show ?thesis by (auto simp del: run_length.simps)
  next
    case False
    then have rest: "condense_from f D c (Suc i0) xs = Some (i, j)"
      using "2.prems" by (auto simp: Let_def simp del: run_length.simps split: if_splits)
    have IH: "Suc i0 \<le> i \<and> j \<le> Suc i0 + length xs \<and> int j = int i + f
      \<and> (\<exists>d < D. \<forall>k. i \<le> k \<and> k < j \<longrightarrow> is_summary (xs ! (k - Suc i0)) \<and> wi_depth (xs ! (k - Suc i0)) = d)
      \<and> (0 \<le> c \<longrightarrow> windowTokens (take (j - i) (drop (i - Suc i0) xs)) \<le> c)"
      using False rest "2.IH" "2.prems"(2)
      by (cases "wi_typ x = ContextSummary") (simp_all add: Let_def del: run_length.simps)
    have n: "(x # xs) ! (k - i0) = xs ! (k - Suc i0)" if "Suc i0 \<le> k" for k
      using that by (simp add: nth_Cons')
    have "drop (i - i0) (x # xs) = drop (i - Suc i0) xs" if "Suc i0 \<le> i"
      using that by (simp add: drop_Cons')
    with IH n show ?thesis by (auto dest!: less_imp_le)
  qed
qed simp

text \<open>A run: exactly \<open>fanout\<close> adjacent summaries of one depth below the limit, within the chunk.\<close>

lemma condenseRun_Some:
  assumes "condenseRun w f D c = Some (i, j)" and "2 \<le> f"
  obtains d where "d < D" "i + 2 \<le> j" "j \<le> length w" "int (j - i) = f"
    "\<And>k. i \<le> k \<Longrightarrow> k < j \<Longrightarrow> is_summary (w ! k) \<and> wi_depth (w ! k) = d"
    "0 \<le> c \<Longrightarrow> windowTokens (slice i j w) \<le> c"
  using condense_from_Some [OF assms(1) [unfolded condenseRun_def]] assms(2) by (auto simp: slice_def)

section \<open>Folding makes progress\<close>

text \<open>Two points for a message, one for a summary: every fold takes at least one away.\<close>

definition fold_measure :: "window_item list \<Rightarrow> nat" where
  "fold_measure w = length w + length (filter is_message w)"

lemma fold_measure_append: "fold_measure (xs @ ys) = fold_measure xs + fold_measure ys"
  by (simp add: fold_measure_def)

lemma fold_measure_replaceRange:
  assumes "i < j" "j \<le> length w" "is_summary it"
    and big: "2 \<le> fold_measure (slice i j w)"
  shows "fold_measure (replaceRange w i j it) < fold_measure w"
proof -
  have "fold_measure w = fold_measure (take i w @ slice i j w @ drop j w)"
    using slice_split [of i j w] assms by simp
  moreover have "fold_measure [it] = 1" using assms(3) by (simp add: fold_measure_def)
  ultimately show ?thesis using big by (simp only: replaceRange_def fold_measure_append)
qed

lemma fold_measure_messages:
  assumes "i < j" "j \<le> length w" "\<And>k. i \<le> k \<Longrightarrow> k < j \<Longrightarrow> is_message (w ! k)"
  shows "2 \<le> fold_measure (slice i j w)"
  using assms by (simp add: slice_hd fold_measure_def)

lemma fold_measure_run: "i + 2 \<le> j \<Longrightarrow> j \<le> length w \<Longrightarrow> 2 \<le> fold_measure (slice i j w)"
  by (simp add: fold_measure_def length_slice)

lemma fold_measure_bound: "fold_measure w \<le> 2 * length w"
  using length_filter_le [of is_message w] by (simp add: fold_measure_def)

end
