(* ===== verification/Dag.thy ===== *)
theory Dag
  imports Window
begin

text \<open>
  What the engine sees of its store: the message log, the summary nodes with their links, the
  persisted window of each conversation.  This is the abstract state of the engine's store
  interface; the SQLite tables are one implementation.  The theory states what it means for a
  summary to stand for a span of the log, and the two updates compaction makes.
\<close>

record dag_view =
  dv_messages :: "message list"
  dv_summaries :: "summary list"
  dv_sources :: "(string \<times> string) list"
  dv_children :: "(string \<times> string) list"
  dv_window :: "string \<Rightarrow> (context_item_type \<times> string) list"

definition log_of :: "dag_view \<Rightarrow> string \<Rightarrow> message list" where
  "log_of v c = filter (\<lambda>m. ms_ConversationID m = c) (dv_messages v)"

definition log_ids :: "dag_view \<Rightarrow> string \<Rightarrow> string list" where
  "log_ids v c = map ms_ID (log_of v c)"

definition links :: "(string \<times> string) list \<Rightarrow> string \<Rightarrow> string list" where
  "links es a = map snd (filter (\<lambda>e. fst e = a) es)"

abbreviation sources_of :: "dag_view \<Rightarrow> string \<Rightarrow> string list" where
  "sources_of v \<equiv> links (dv_sources v)"

abbreviation children_of :: "dag_view \<Rightarrow> string \<Rightarrow> string list" where
  "children_of v \<equiv> links (dv_children v)"

definition summary_ids :: "dag_view \<Rightarrow> string set" where
  "summary_ids v = sm_ID ` set (dv_summaries v)"

definition find_summary :: "dag_view \<Rightarrow> string \<Rightarrow> summary option" where
  "find_summary v sid = find (\<lambda>s. sm_ID s = sid) (dv_summaries v)"

definition find_message :: "dag_view \<Rightarrow> string \<Rightarrow> message option" where
  "find_message v mid = find (\<lambda>m. ms_ID m = mid) (dv_messages v)"

section \<open>Spans\<close>

text \<open>\<open>expands v sid ids\<close>: following the links below \<open>sid\<close> down to the messages gives \<open>ids\<close>.\<close>

inductive expands :: "dag_view \<Rightarrow> string \<Rightarrow> string list \<Rightarrow> bool" for v where
  leaf: "find_summary v sid = Some s \<Longrightarrow> sm_Kind s = SummaryLeaf \<Longrightarrow> expands v sid (sources_of v sid)"
| condensed: "find_summary v sid = Some s \<Longrightarrow> sm_Kind s \<noteq> SummaryLeaf \<Longrightarrow>
    list_all2 (expands v) (children_of v sid) parts \<Longrightarrow> expands v sid (concat parts)"

text \<open>
  A summary is sound when it expands to a non-empty contiguous span of its conversation's log and
  its bookkeeping fields describe that span.
\<close>

definition span_of :: "dag_view \<Rightarrow> string \<Rightarrow> nat \<Rightarrow> string list \<Rightarrow> bool" where
  "span_of v c k ids \<longleftrightarrow> k + length ids \<le> length (log_ids v c) \<and> ids = take (length ids) (drop k (log_ids v c))"

definition summary_sound :: "dag_view \<Rightarrow> summary \<Rightarrow> string list \<Rightarrow> bool" where
  "summary_sound v s ids \<longleftrightarrow> expands v (sm_ID s) ids \<and> ids \<noteq> []
     \<and> span_of v (sm_ConversationID s) (nat (sm_EarliestSeq s - 1)) ids \<and> 1 \<le> sm_EarliestSeq s
     \<and> sm_LatestSeq s = sm_EarliestSeq s + int (length ids) - 1
     \<and> sm_DescendantMessageCount s = int (length ids)"

text \<open>
  Depth: a leaf has depth 0, a condensed summary is one deeper than each of its children, so
  following links always ends.
\<close>

definition depth_ok :: "dag_view \<Rightarrow> summary \<Rightarrow> bool" where
  "depth_ok v s \<longleftrightarrow>
     (if sm_Kind s = SummaryLeaf then sm_Depth s = 0
      else sm_Kind s = SummaryCondensed \<and> 1 \<le> sm_Depth s
        \<and> (\<forall>c \<in> set (children_of v (sm_ID s)). \<exists>s'. find_summary v c = Some s'
             \<and> sm_Depth s' = sm_Depth s - 1 \<and> sm_ConversationID s' = sm_ConversationID s))"

section \<open>Identifiers\<close>

text \<open>The key a stored summary's identifier was derived from, read off its links.\<close>

definition own_key :: "dag_view \<Rightarrow> summary \<Rightarrow> string" where
  "own_key v s = summary_key (sm_ConversationID s) (sm_Kind s) (sm_Depth s)
     (if sm_Kind s = SummaryLeaf then sources_of v (sm_ID s) else children_of v (sm_ID s))"

definition key_id :: "hash \<Rightarrow> string \<Rightarrow> string" where
  "key_id H k = ''sum_'' @ take idLen (H k)"

text \<open>No stored summary has the identifier of \<open>k\<close> unless it has the key \<open>k\<close>.\<close>

definition no_clash :: "hash \<Rightarrow> dag_view \<Rightarrow> string \<Rightarrow> bool" where
  "no_clash H v k \<longleftrightarrow> (\<forall>s \<in> set (dv_summaries v). sm_ID s = key_id H k \<longrightarrow> own_key v s = k)"

text \<open>The digests of the keys in \<open>K\<close> differ (hex digits, so no NUL byte in them).\<close>

definition collision_free :: "hash \<Rightarrow> string set \<Rightarrow> bool" where
  "collision_free H K \<longleftrightarrow> inj_on (key_id H) K"

definition hex_hash :: "hash \<Rightarrow> bool" where
  "hex_hash H \<longleftrightarrow> (\<forall>k. nul_free (H k))"

section \<open>Well-formed views\<close>

definition dag_wf :: "hash \<Rightarrow> dag_view \<Rightarrow> bool" where
  "dag_wf H v \<longleftrightarrow> distinct (map ms_ID (dv_messages v)) \<and> distinct (map sm_ID (dv_summaries v))
     \<and> (\<forall>c. map ms_Seq (log_of v c) = map int [1..<Suc (length (log_of v c))])
     \<and> (\<forall>m \<in> set (dv_messages v). nul_free (ms_ID m) \<and> nul_free (ms_ConversationID m))
     \<and> (\<forall>s \<in> set (dv_summaries v). nul_free (sm_ID s) \<and> nul_free (sm_ConversationID s))
     \<and> (\<forall>(s, m) \<in> set (dv_sources v). s \<in> summary_ids v \<and> m \<in> ms_ID ` set (dv_messages v))
     \<and> (\<forall>(p, s) \<in> set (dv_children v). p \<in> summary_ids v \<and> s \<in> summary_ids v)"

text \<open>Every stored node is what its identifier says, sound, and of the right depth.\<close>

definition dag_sound :: "hash \<Rightarrow> dag_view \<Rightarrow> bool" where
  "dag_sound H v \<longleftrightarrow> (\<forall>s \<in> set (dv_summaries v).
     sm_ID s = key_id H (own_key v s) \<and> depth_ok v s \<and> (\<exists>ids. summary_sound v s ids))"

section \<open>Updates\<close>

definition add_leaf :: "summary \<Rightarrow> string list \<Rightarrow> dag_view \<Rightarrow> dag_view" where
  "add_leaf s ids v = v\<lparr>dv_summaries := dv_summaries v @ [s], dv_sources := dv_sources v @ map (Pair (sm_ID s)) ids\<rparr>"

definition add_condensed :: "summary \<Rightarrow> string list \<Rightarrow> dag_view \<Rightarrow> dag_view" where
  "add_condensed s ids v = v\<lparr>dv_summaries := dv_summaries v @ [s], dv_children := dv_children v @ map (Pair (sm_ID s)) ids\<rparr>"

definition set_window :: "string \<Rightarrow> (context_item_type \<times> string) list \<Rightarrow> dag_view \<Rightarrow> dag_view" where
  "set_window c items v = v\<lparr>dv_window := (dv_window v)(c := items)\<rparr>"

text \<open>\<open>extends v v'\<close>: the log and every stored node are untouched; only new nodes were added.\<close>

definition extends :: "dag_view \<Rightarrow> dag_view \<Rightarrow> bool" where
  "extends v v' \<longleftrightarrow> dv_messages v' = dv_messages v
     \<and> (\<exists>new. dv_summaries v' = dv_summaries v @ new \<and> sm_ID ` set new \<inter> summary_ids v = {})
     \<and> (\<forall>s \<in> summary_ids v. sources_of v' s = sources_of v s \<and> children_of v' s = children_of v s)"

lemma links_simps [simp]:
  "links [] a = []"
  "links (e # es) a = (if fst e = a then snd e # links es a else links es a)"
  "links (es @ fs) a = links es a @ links fs a"
  by (simp_all add: links_def)

lemma links_Pair [simp]: "links (map (Pair p) ids) a = (if a = p then ids else [])"
  by (induction ids) auto

lemma links_none: "a \<notin> fst ` set es \<Longrightarrow> links es a = []"
  by (force simp: links_def filter_empty_conv)

lemma set_links: "x \<in> set (links es a) \<longleftrightarrow> (a, x) \<in> set es"
  by (force simp: links_def)

lemma find_summary_Some: "find_summary v sid = Some s \<Longrightarrow> s \<in> set (dv_summaries v) \<and> sm_ID s = sid"
  by (auto simp: find_summary_def find_Some_iff)

lemma find_summary_iff:
  assumes "distinct (map sm_ID (dv_summaries v))"
  shows "find_summary v sid = Some s \<longleftrightarrow> s \<in> set (dv_summaries v) \<and> sm_ID s = sid"
proof
  assume s: "s \<in> set (dv_summaries v) \<and> sm_ID s = sid"
  then obtain x where x: "find_summary v sid = Some x"
    by (cases "find_summary v sid") (auto simp: find_summary_def find_None_iff)
  from find_summary_Some [OF this] s assms have "x = s" by (metis distinct_map inj_onD)
  with x show "find_summary v sid = Some s" by simp
qed (rule find_summary_Some)

lemma find_message_Some: "find_message v mid = Some m \<Longrightarrow> m \<in> set (dv_messages v) \<and> ms_ID m = mid"
  by (auto simp: find_message_def find_Some_iff)

lemma find_message_iff:
  assumes "distinct (map ms_ID (dv_messages v))"
  shows "find_message v mid = Some m \<longleftrightarrow> m \<in> set (dv_messages v) \<and> ms_ID m = mid"
proof
  assume s: "m \<in> set (dv_messages v) \<and> ms_ID m = mid"
  then obtain x where x: "find_message v mid = Some x"
    by (cases "find_message v mid") (auto simp: find_message_def find_None_iff)
  from find_message_Some [OF this] s assms have "x = m" by (metis distinct_map inj_onD)
  with x show "find_message v mid = Some m" by simp
qed (rule find_message_Some)

lemma find_append_old: "find P xs = Some x \<Longrightarrow> find P (xs @ ys) = Some x"
  by (induction xs) auto

section \<open>Spans survive new nodes and new messages\<close>

lemma extends_find:
  assumes "extends v v'" "find_summary v sid = Some s"
  shows "find_summary v' sid = Some s"
  using assms unfolding extends_def find_summary_def by (auto intro: find_append_old)

lemma extends_refl: "extends v v"
  by (simp add: extends_def)

lemma extends_trans:
  assumes 1: "extends u v" and 2: "extends v w"
  shows "extends u w"
proof -
  obtain n1 where n1: "dv_summaries v = dv_summaries u @ n1" "sm_ID ` set n1 \<inter> summary_ids u = {}"
    using 1 by (auto simp: extends_def)
  obtain n2 where n2: "dv_summaries w = dv_summaries v @ n2" "sm_ID ` set n2 \<inter> summary_ids v = {}"
    using 2 by (auto simp: extends_def)
  have sub: "summary_ids u \<subseteq> summary_ids v" using n1 by (auto simp: summary_ids_def)
  have "dv_summaries w = dv_summaries u @ (n1 @ n2)" using n1 n2 by simp
  moreover have "sm_ID ` set (n1 @ n2) \<inter> summary_ids u = {}" using n1 n2 sub by (auto simp: summary_ids_def)
  ultimately show ?thesis using 1 2 sub unfolding extends_def by (metis subsetD)
qed

lemma extends_log: "extends v v' \<Longrightarrow> log_of v' c = log_of v c"
  by (simp add: extends_def log_of_def)

lemma extends_ids: "extends v v' \<Longrightarrow> summary_ids v \<subseteq> summary_ids v'"
  by (auto simp: extends_def summary_ids_def)

lemma in_summary_ids: "find_summary v sid = Some s \<Longrightarrow> sid \<in> summary_ids v"
  using find_summary_Some by (force simp: summary_ids_def)

lemma expands_cong:
  assumes "expands v sid ids"
    and "\<And>x s. find_summary v x = Some s \<Longrightarrow> find_summary v' x = Some s \<and> sources_of v' x = sources_of v x
      \<and> children_of v' x = children_of v x"
  shows "expands v' sid ids"
  using assms(1)
proof (induction rule: expands.induct)
  case (leaf sid s)
  with assms(2) [OF leaf(1)] show ?case by (metis expands.leaf)
next
  case (condensed sid s parts)
  have "list_all2 (expands v') (children_of v sid) parts"
    using condensed(3) by (rule list_all2_mono) simp
  with condensed(1,2) assms(2) [OF condensed(1)] show ?case by (metis expands.condensed)
qed

lemma expands_extends: "extends v v' \<Longrightarrow> expands v sid ids \<Longrightarrow> expands v' sid ids"
  by (erule expands_cong) (metis extends_def extends_find in_summary_ids)

lemma expands_leaf_iff:
  "find_summary v sid = Some s \<Longrightarrow> sm_Kind s = SummaryLeaf \<Longrightarrow> expands v sid ids \<longleftrightarrow> ids = sources_of v sid"
  by (auto elim: expands.cases intro: expands.leaf)

lemma expands_det: "expands v sid ids \<Longrightarrow> expands v sid ids' \<Longrightarrow> ids' = ids"
proof (induction arbitrary: ids' rule: expands.induct)
  case (leaf sid s)
  then show ?case by (simp add: expands_leaf_iff)
next
  case (condensed sid s parts)
  from condensed.prems condensed.hyps obtain parts' where
    p: "ids' = concat parts'" "list_all2 (expands v) (children_of v sid) parts'"
    by (auto elim: expands.cases)
  have "parts' = parts"
  proof (rule nth_equalityI)
    show "length parts' = length parts"
      using p(2) condensed.IH by (simp add: list_all2_conv_all_nth)
    show "parts' ! i = parts ! i" if "i < length parts'" for i
      using that p(2) condensed.IH by (auto simp: list_all2_conv_all_nth)
  qed
  with p(1) show ?case by simp
qed

lemma span_extends: "extends v v' \<Longrightarrow> span_of v' c k ids = span_of v c k ids"
  by (simp add: span_of_def log_ids_def extends_log)

lemma summary_sound_extends: "extends v v' \<Longrightarrow> summary_sound v s ids \<Longrightarrow> summary_sound v' s ids"
  by (auto simp: summary_sound_def span_extends expands_extends)

lemma depth_ok_extends:
  assumes "extends v v'" "depth_ok v s" "sm_ID s \<in> summary_ids v"
  shows "depth_ok v' s"
proof -
  have "children_of v' (sm_ID s) = children_of v (sm_ID s)" using assms(1,3) by (simp add: extends_def)
  then show ?thesis using assms(2) extends_find [OF assms(1)] unfolding depth_ok_def by (metis (no_types, lifting))
qed

lemma own_key_extends: "extends v v' \<Longrightarrow> sm_ID s \<in> summary_ids v \<Longrightarrow> own_key v' s = own_key v s"
  by (simp add: own_key_def extends_def)

lemma node_extends:
  assumes "extends v v'" "s \<in> set (dv_summaries v)"
    and "sm_ID s = key_id H (own_key v s) \<and> depth_ok v s \<and> (\<exists>ids. summary_sound v s ids)"
  shows "sm_ID s = key_id H (own_key v' s) \<and> depth_ok v' s \<and> (\<exists>ids. summary_sound v' s ids)"
proof -
  have "sm_ID s \<in> summary_ids v" using assms(2) by (simp add: summary_ids_def)
  with assms show ?thesis using own_key_extends depth_ok_extends summary_sound_extends by metis
qed

text \<open>A new message at the end of the log.\<close>

definition add_message :: "message \<Rightarrow> dag_view \<Rightarrow> dag_view" where
  "add_message m v = v\<lparr>dv_messages := dv_messages v @ [m]\<rparr>"

lemma expands_add_message [simp]: "expands (add_message m v) sid ids \<longleftrightarrow> expands v sid ids"
  by (rule iffI; erule expands_cong) (simp_all add: add_message_def find_summary_def)

lemma log_ids_add_message:
  "log_ids (add_message m v) c = log_ids v c @ (if ms_ConversationID m = c then [ms_ID m] else [])"
  by (simp add: log_ids_def log_of_def add_message_def)

lemma span_add_message: "span_of v c k ids \<Longrightarrow> span_of (add_message m v) c k ids"
  by (auto simp: span_of_def log_ids_add_message)

lemma dag_sound_add_message: "dag_sound H v \<Longrightarrow> dag_sound H (add_message m v)"
proof -
  assume v: "dag_sound H v"
  have "summary_sound (add_message m v) s ids" if "summary_sound v s ids" for s ids
    using that by (auto simp: summary_sound_def span_add_message)
  moreover have "own_key (add_message m v) s = own_key v s" "depth_ok (add_message m v) s = depth_ok v s" for s
    by (simp_all add: own_key_def depth_ok_def add_message_def find_summary_def)
  moreover have "dv_summaries (add_message m v) = dv_summaries v" by (simp add: add_message_def)
  ultimately show ?thesis using v unfolding dag_sound_def by metis
qed

section \<open>New nodes are sound\<close>

lemma links_fresh:
  assumes "dag_wf H v" "sid \<notin> summary_ids v"
  shows "sources_of v sid = []" "children_of v sid = []"
  using assms by (auto simp: dag_wf_def intro!: links_none)

lemma extends_add_leaf:
  assumes "dag_wf H v" "sm_ID s \<notin> summary_ids v"
  shows "extends v (add_leaf s ids v)"
  using assms by (auto simp: extends_def add_leaf_def)

lemma extends_add_condensed:
  assumes "dag_wf H v" "sm_ID s \<notin> summary_ids v"
  shows "extends v (add_condensed s ids v)"
  using assms by (auto simp: extends_def add_condensed_def)

lemma find_new_summary: "sm_ID s \<notin> summary_ids v \<Longrightarrow> dv_summaries v' = dv_summaries v @ [s] \<Longrightarrow>
    find_summary v' (sm_ID s) = Some s"
proof -
  assume new: "sm_ID s \<notin> summary_ids v" and v': "dv_summaries v' = dv_summaries v @ [s]"
  have "find P (xs @ [s]) = Some s" if "\<forall>x \<in> set xs. \<not> P x" "P s" for P and xs :: "summary list"
    using that by (induction xs) auto
  moreover have "\<forall>x \<in> set (dv_summaries v). sm_ID x \<noteq> sm_ID s"
    using new unfolding summary_ids_def by (metis imageI)
  ultimately show ?thesis by (simp add: find_summary_def v')
qed

lemma key_id_nul_free: "hex_hash H \<Longrightarrow> nul_free (key_id H k)"
  by (auto simp: key_id_def hex_hash_def nul_free_def NUL_def dest: in_set_takeD)

lemma dag_wf_add_leaf:
  assumes wf: "dag_wf H v" and hex: "hex_hash H"
    and new: "sm_ID s \<notin> summary_ids v" and id: "sm_ID s = key_id H k" and c: "nul_free (sm_ConversationID s)"
    and ids: "set ids \<subseteq> ms_ID ` set (dv_messages v)"
  shows "dag_wf H (add_leaf s ids v)"
  using wf new c ids key_id_nul_free [OF hex, of k]
  by (auto simp: dag_wf_def add_leaf_def summary_ids_def log_of_def id)

lemma dag_wf_add_condensed:
  assumes wf: "dag_wf H v" and hex: "hex_hash H"
    and new: "sm_ID s \<notin> summary_ids v" and id: "sm_ID s = key_id H k" and c: "nul_free (sm_ConversationID s)"
    and ids: "set ids \<subseteq> summary_ids v"
  shows "dag_wf H (add_condensed s ids v)"
  using wf new c ids key_id_nul_free [OF hex, of k]
  by (auto simp: dag_wf_def add_condensed_def summary_ids_def log_of_def id)

lemma dag_sound_add:
  assumes sound: "dag_sound H v" and ext: "extends v v'" and sums: "dv_summaries v' = dv_summaries v @ [s]"
    and node: "sm_ID s = key_id H (own_key v' s)" "depth_ok v' s" "summary_sound v' s ids"
  shows "dag_sound H v'"
  unfolding dag_sound_def sums
proof
  fix x assume "x \<in> set (dv_summaries v @ [s])"
  then consider "x \<in> set (dv_summaries v)" | "x = s" by auto
  then show "sm_ID x = key_id H (own_key v' x) \<and> depth_ok v' x \<and> (\<exists>ids. summary_sound v' x ids)"
  proof cases
    case 1
    with sound show ?thesis by (intro node_extends [OF ext]) (auto simp: dag_sound_def)
  qed (use node in blast)
qed

lemma add_leaf_node:
  assumes wf: "dag_wf H v" and sound: "dag_sound H v" and new: "sm_ID s \<notin> summary_ids v"
    and id: "sm_ID s = key_id H (summary_key (sm_ConversationID s) SummaryLeaf 0 ids)"
    and kind: "sm_Kind s = SummaryLeaf" "sm_Depth s = 0"
    and span: "span_of v (sm_ConversationID s) k ids" "ids \<noteq> []" "sm_EarliestSeq s = int k + 1"
      "sm_LatestSeq s = int k + int (length ids)" "sm_DescendantMessageCount s = int (length ids)"
  shows "dag_sound H (add_leaf s ids v) \<and> expands (add_leaf s ids v) (sm_ID s) ids"
proof -
  let ?v = "add_leaf s ids v"
  have ext: "extends v ?v" by (rule extends_add_leaf [OF wf new])
  have src: "sources_of ?v (sm_ID s) = ids" using links_fresh [OF wf new] by (simp add: add_leaf_def)
  have fnd: "find_summary ?v (sm_ID s) = Some s" by (rule find_new_summary [OF new]) (simp add: add_leaf_def)
  have exp: "expands ?v (sm_ID s) ids" using expands.leaf [OF fnd kind(1)] by (simp add: src)
  have node: "summary_sound ?v s ids"
    using exp span span_extends [OF ext] by (simp add: summary_sound_def)
  have depth: "depth_ok ?v s" using kind by (simp add: depth_ok_def)
  have key: "sm_ID s = key_id H (own_key ?v s)" using id kind src by (simp add: own_key_def)
  have "dag_sound H ?v"
    by (rule dag_sound_add [OF sound ext _ key depth node]) (simp add: add_leaf_def)
  with exp show ?thesis by simp
qed

lemma add_condensed_node:
  assumes wf: "dag_wf H v" and sound: "dag_sound H v" and new: "sm_ID s \<notin> summary_ids v"
    and id: "sm_ID s = key_id H (summary_key (sm_ConversationID s) SummaryCondensed (sm_Depth s) cs)"
    and kind: "sm_Kind s = SummaryCondensed" "1 \<le> sm_Depth s"
    and parts: "list_all2 (expands v) cs parts"
    and children: "\<forall>c \<in> set cs. \<exists>s'. find_summary v c = Some s' \<and> sm_Depth s' = sm_Depth s - 1
        \<and> sm_ConversationID s' = sm_ConversationID s"
    and span: "span_of v (sm_ConversationID s) k (concat parts)" "concat parts \<noteq> []" "sm_EarliestSeq s = int k + 1"
      "sm_LatestSeq s = int k + int (length (concat parts))" "sm_DescendantMessageCount s = int (length (concat parts))"
  shows "dag_sound H (add_condensed s cs v) \<and> expands (add_condensed s cs v) (sm_ID s) (concat parts)"
proof -
  let ?v = "add_condensed s cs v"
  have ext: "extends v ?v" by (rule extends_add_condensed [OF wf new])
  have ch: "children_of ?v (sm_ID s) = cs" using links_fresh [OF wf new] by (simp add: add_condensed_def)
  have fnd: "find_summary ?v (sm_ID s) = Some s" by (rule find_new_summary [OF new]) (simp add: add_condensed_def)
  have "list_all2 (expands ?v) cs parts"
    using parts by (rule list_all2_mono) (rule expands_extends [OF ext])
  then have exp: "expands ?v (sm_ID s) (concat parts)"
    using expands.condensed [OF fnd, of parts] kind by (simp add: ch)
  have depth: "depth_ok ?v s"
    using kind children extends_find [OF ext] by (auto simp: depth_ok_def ch)
  have key: "sm_ID s = key_id H (own_key ?v s)" using id kind(1) ch by (simp add: own_key_def)
  have node: "summary_sound ?v s (concat parts)"
    using exp span span_extends [OF ext] by (simp add: summary_sound_def)
  have "dag_sound H ?v"
    by (rule dag_sound_add [OF sound ext _ key depth node]) (simp add: add_condensed_def)
  with exp show ?thesis by simp
qed

end
