(* ===== verification/Store_Dag.thy ===== *)
theory Store_Dag
  imports Store_Core Dag
begin

text \<open>
  \<open>internal/store/sqlite_dag.go\<close>: summary nodes with their lossless links, the active window,
  offloaded files.
\<close>

section \<open>Summaries\<close>

definition insertSummary :: "summary \<Rightarrow> (world, unit) prog" where
  "insertSummary s =
     bindE (sql_exec ''store: insert summary'' (insert_summary_row s)) (\<lambda>_.
     bindE (sql_exec ''store: index summary'' (index_summary s)) (\<lambda>_. ret ()))"

fun exec_each :: "string \<Rightarrow> ('a \<Rightarrow> tables \<Rightarrow> tables option) \<Rightarrow> 'a list \<Rightarrow> (world, unit) prog" where
  "exec_each msg stmt [] = ret ()"
| "exec_each msg stmt (x # xs) = bindE (sql_exec msg (stmt x)) (\<lambda>_. exec_each msg stmt xs)"

definition CreateLeafSummary :: "hash \<Rightarrow> leaf_summary_input \<Rightarrow> (world, summary) prog" where
  "CreateLeafSummary H i =
     (let sid = DeriveSummaryID H (li_ConversationID i) SummaryLeaf 0 (li_SourceMessageIDs i) in
      in_tx ''store: begin tx'' ''store: commit''
        (bindE (sql_query ''store: probe summary'' (\<lambda>t. find (\<lambda>s. sm_ID s = sid) (t_summaries t)))
          (\<lambda>existing. case existing of
             Some s \<Rightarrow> ret s
           | None \<Rightarrow>
               bindE clock_Now (\<lambda>now.
               let s = leaf_summary H i now in
               bindE (insertSummary s) (\<lambda>_.
               bindE (exec_each ''store: link message'' (link_message sid) (li_SourceMessageIDs i)) (\<lambda>_.
               ret s))))))"

definition CreateCondensedSummary :: "hash \<Rightarrow> condensed_summary_input \<Rightarrow> (world, summary) prog" where
  "CreateCondensedSummary H i =
     (let sid = DeriveSummaryID H (co_ConversationID i) SummaryCondensed (co_Depth i) (co_ChildSummaryIDs i) in
      in_tx ''store: begin tx'' ''store: commit''
        (bindE (sql_query ''store: probe summary'' (\<lambda>t. find (\<lambda>s. sm_ID s = sid) (t_summaries t)))
          (\<lambda>existing. case existing of
             Some s \<Rightarrow> ret s
           | None \<Rightarrow>
               bindE clock_Now (\<lambda>now.
               let s = condensed_summary H i now in
               bindE (insertSummary s) (\<lambda>_.
               bindE (exec_each ''store: link child summary'' (link_child sid) (co_ChildSummaryIDs i)) (\<lambda>_.
               ret s))))))"

definition GetSummary :: "string \<Rightarrow> (world, summary) prog" where
  "GetSummary sid =
     bindE (sql_query ''store: get summary'' (\<lambda>t. find (\<lambda>s. sm_ID s = sid) (t_summaries t)))
       (\<lambda>row. case row of None \<Rightarrow> fail ErrNotFound | Some s \<Rightarrow> ret s)"

text \<open>The joins: every link row with the row it points to.\<close>

definition linked_messages :: "tables \<Rightarrow> string \<Rightarrow> message list" where
  "linked_messages t sid =
     [m. (s, mid) \<leftarrow> t_summary_messages t, s = sid, m \<leftarrow> t_messages t, ms_ID m = mid]"

definition linked_children :: "tables \<Rightarrow> string \<Rightarrow> summary list" where
  "linked_children t sid =
     [s. (p, cid) \<leftarrow> t_summary_parents t, p = sid, s \<leftarrow> t_summaries t, sm_ID s = cid]"

definition SummaryMessages :: "string \<Rightarrow> (world, message list) prog" where
  "SummaryMessages sid =
     sql_rows ''store: summary messages'' ''store: iterate summary messages''
       (\<lambda>t. sort_key ms_Seq (linked_messages t sid))"

definition SummaryChildren :: "string \<Rightarrow> (world, summary list) prog" where
  "SummaryChildren sid =
     sql_rows ''store: summary children'' ''store: iterate children''
       (\<lambda>t. sort_key sm_EarliestSeq (linked_children t sid))"

definition ListConversationIDs :: "(world, string list) prog" where
  "ListConversationIDs =
     sql_rows ''store: list conversations'' ''store: iterate conversations''
       (\<lambda>t. map cv_ID (sort_key (\<lambda>c. fmtTime (cv_CreatedAt c)) (t_conversations t)))"

definition summary_active :: "tables \<Rightarrow> string \<Rightarrow> bool" where
  "summary_active t sid \<longleftrightarrow>
     (\<exists>r \<in> set (t_context_items t). cx_item_type r = ContextSummary \<and> cx_ref_id r = sid)"

definition summary_fts_join :: "fts_engine \<Rightarrow> string \<Rightarrow> string \<Rightarrow> tables \<Rightarrow> (summary \<times> string \<times> int) list" where
  "summary_fts_join F expr cid t =
     [(s, fe_snippet F expr (fr_content r), fe_bm25 F (t_summaries_fts t) expr r).
        r \<leftarrow> t_summaries_fts t, s \<leftarrow> t_summaries t,
        sm_ID s = fr_ref_id r, fe_match F expr (fr_content r), cid = [] \<or> sm_ConversationID s = cid]"

definition scan_summary_hits :: "tables \<Rightarrow> (summary \<times> string \<times> int) list \<Rightarrow> summary_hit list" where
  "scan_summary_hits t rows =
     map (\<lambda>(s, snip, score). \<lparr>mh_Summary = s,
        mh_Snippet = (if snip = [] then truncate_text (sm_Content s) 200 else snip),
        mh_Score = score, mh_Active = summary_active t (sm_ID s)\<rparr>) rows"

definition SearchSummaries :: "unicode \<Rightarrow> fts_engine \<Rightarrow> search_query \<Rightarrow> (world, summary_hit list) prog" where
  "SearchSummaries U F q =
     (let limit = (if sq_Limit q \<le> 0 then 20 else sq_Limit q);
          query = sql_rows ''store: search summaries'' ''store: iterate summary hits'' in
      if sq_Mode q = SearchSubstr
      then if sq_Text q = [] then ret []
           else query (\<lambda>t. scan_summary_hits t (sql_limit limit (map (\<lambda>s. (s, [], 0))
                  (sort_key (\<lambda>s. sm_ConversationID s) (sort_key sm_EarliestSeq
                    (filter (\<lambda>s. Contains (sqlite_lower (sm_Content s)) (sqlite_lower (sq_Text q))
                       \<and> (sq_ConversationID q = [] \<or> sm_ConversationID s = sq_ConversationID q))
                      (t_summaries t)))))))
      else let expr = ftsMatchExpr U (sq_Text q) (sq_Any q) in
           if expr = [] then ret []
           else query (\<lambda>t. scan_summary_hits t (sql_limit limit
                  (sort_key (\<lambda>(s, snip, score). score) (summary_fts_join F expr (sq_ConversationID q) t)))))"

section \<open>The active window\<close>

definition window_items :: "tables \<Rightarrow> string \<Rightarrow> context_item list" where
  "window_items t c =
     map (\<lambda>r. \<lparr>ci_Ordinal = cx_ordinal r, ci_Type = cx_item_type r, ci_RefID = cx_ref_id r\<rparr>)
       (sort_key cx_ordinal (window_rows t c))"

definition ListContextItems :: "string \<Rightarrow> (world, context_item list) prog" where
  "ListContextItems c =
     sql_rows ''store: list context items'' ''store: iterate context items'' (\<lambda>t. window_items t c)"

definition ReplaceContextItems :: "string \<Rightarrow> context_item list \<Rightarrow> (world, unit) prog" where
  "ReplaceContextItems c items =
     in_tx ''store: begin tx'' ''store: commit''
       (bindE (sql_exec ''store: clear context items'' (clear_context_items c)) (\<lambda>_.
        exec_each ''store: insert context item''
          (\<lambda>(i, it). insert_context_item c (int i) (ci_Type it) (ci_RefID it)) (enumerate 0 items)))"

section \<open>Offloaded files\<close>

definition CreateLargeFile :: "hash \<Rightarrow> large_file \<Rightarrow> (world, large_file) prog" where
  "CreateLargeFile H f =
     bindE clock_Now (\<lambda>now.
     let f1 = (if lf_ID f = [] then f\<lparr>lf_ID := DeriveFileID H (lf_ConversationID f) (lf_MessageID f)\<rparr> else f) in
     bindE (sql_exec ''store: upsert large file'' (upsert_large_file (f1\<lparr>lf_CreatedAt := now\<rparr>))) (\<lambda>_ w.
     (Inr (f1\<lparr>lf_CreatedAt := (case find (\<lambda>x. lf_ID x = lf_ID f1) (t_large_files (w_db w)) of
         Some x \<Rightarrow> lf_CreatedAt x | None \<Rightarrow> now)\<rparr>), w)))"

definition GetLargeFile :: "string \<Rightarrow> (world, large_file) prog" where
  "GetLargeFile fid =
     bindE (sql_query ''store: get large file'' (\<lambda>t. find (\<lambda>f. lf_ID f = fid) (t_large_files t)))
       (\<lambda>row. case row of None \<Rightarrow> fail ErrNotFound | Some f \<Rightarrow> ret f)"

section \<open>Several statements in a row\<close>

fun fold_stmts :: "('a \<Rightarrow> tables \<Rightarrow> tables option) \<Rightarrow> 'a list \<Rightarrow> tables \<Rightarrow> tables option" where
  "fold_stmts f [] t = Some t"
| "fold_stmts f (x # xs) t = (case f x t of None \<Rightarrow> None | Some t' \<Rightarrow> fold_stmts f xs t')"

lemma exec_each_at:
  "hoare (at_db b t) (exec_each msg stmt xs) (\<lambda>_. on_db b (\<lambda>t'. fold_stmts stmt xs t = Some t'))
     (\<lambda>_ w. (b \<longrightarrow> healthy w) \<and> (\<not> b \<or> fold_stmts stmt xs t = None))"
proof (induction xs arbitrary: t)
  case Nil
  then show ?case by (auto intro!: ret_at at_db_imp_on_db)
next
  case (Cons x xs)
  show ?case
    unfolding exec_each.simps
  proof (rule bind_exec)
    fix t2 assume "stmt x t = Some t2"
    with Cons [of t2] show "hoare (at_db b t2) (exec_each msg stmt xs)
        (\<lambda>_. on_db b (\<lambda>t'. fold_stmts stmt (x # xs) t = Some t'))
        (\<lambda>_ w. (b \<longrightarrow> healthy w) \<and> (\<not> b \<or> fold_stmts stmt (x # xs) t = None))" by simp
  qed (auto simp: at_db_def)
qed

lemma fold_stmts_wf:
  assumes "\<And>x t t'. wf_tables H t \<Longrightarrow> f x t = Some t' \<Longrightarrow> wf_tables H t'"
  shows "wf_tables H t \<Longrightarrow> fold_stmts f xs t = Some t' \<Longrightarrow> wf_tables H t'"
  by (induction xs arbitrary: t) (auto split: option.splits intro: assms)

lemma link_messages_result:
  assumes "distinct ids" "\<forall>m \<in> set ids. (sid, m) \<notin> set (t_summary_messages t)"
  shows "fold_stmts (link_message sid) ids t =
     (if ids = [] \<or> has_summary t sid \<and> (\<forall>m \<in> set ids. has_message t m)
      then Some (t\<lparr>t_summary_messages := t_summary_messages t @ map (Pair sid) ids\<rparr>) else None)"
  using assms
proof (induction ids arbitrary: t)
  case (Cons m ids)
  show ?case
  proof (cases "has_summary t sid \<and> has_message t m")
    case True
    let ?t = "t\<lparr>t_summary_messages := t_summary_messages t @ [(sid, m)]\<rparr>"
    have "link_message sid m t = Some ?t" using Cons.prems True by (simp add: link_message_def)
    moreover have "has_summary ?t sid = has_summary t sid" "has_message ?t x = has_message t x" for x
      by (simp_all add: has_summary_def has_message_def)
    moreover have "fold_stmts (link_message sid) ids ?t =
        (if ids = [] \<or> has_summary ?t sid \<and> (\<forall>m \<in> set ids. has_message ?t m)
         then Some (?t\<lparr>t_summary_messages := t_summary_messages ?t @ map (Pair sid) ids\<rparr>) else None)"
      using Cons.prems by (intro Cons.IH) auto
    ultimately show ?thesis using True by simp
  next
    case False
    then show ?thesis using Cons.prems by (auto simp: link_message_def)
  qed
qed simp

lemma link_children_result:
  assumes "distinct ids" "\<forall>m \<in> set ids. (sid, m) \<notin> set (t_summary_parents t)"
  shows "fold_stmts (link_child sid) ids t =
     (if ids = [] \<or> has_summary t sid \<and> (\<forall>m \<in> set ids. has_summary t m)
      then Some (t\<lparr>t_summary_parents := t_summary_parents t @ map (Pair sid) ids\<rparr>) else None)"
  using assms
proof (induction ids arbitrary: t)
  case (Cons m ids)
  show ?case
  proof (cases "has_summary t sid \<and> has_summary t m")
    case True
    let ?t = "t\<lparr>t_summary_parents := t_summary_parents t @ [(sid, m)]\<rparr>"
    have "link_child sid m t = Some ?t" using Cons.prems True by (simp add: link_child_def)
    moreover have "has_summary ?t x = has_summary t x" for x by (simp add: has_summary_def)
    moreover have "fold_stmts (link_child sid) ids ?t =
        (if ids = [] \<or> has_summary ?t sid \<and> (\<forall>m \<in> set ids. has_summary ?t m)
         then Some (?t\<lparr>t_summary_parents := t_summary_parents ?t @ map (Pair sid) ids\<rparr>) else None)"
      using Cons.prems by (intro Cons.IH) auto
    ultimately show ?thesis using True by simp
  next
    case False
    then show ?thesis using Cons.prems by (auto simp: link_child_def)
  qed
qed simp

lemma insert_items_result:
  assumes "\<forall>r \<in> set (t_context_items t). cx_conversation_id r = c \<longrightarrow> cx_ordinal r < int n"
  shows "fold_stmts (\<lambda>(i, it). insert_context_item c (int i) (ci_Type it) (ci_RefID it)) (enumerate n items) t =
     (if items = [] \<or> has_conversation t c
      then Some (t\<lparr>t_context_items := t_context_items t @
        map (\<lambda>(i, it). \<lparr>cx_conversation_id = c, cx_ordinal = int i, cx_item_type = ci_Type it, cx_ref_id = ci_RefID it\<rparr>)
          (enumerate n items)\<rparr>)
      else None)"
  using assms
proof (induction items arbitrary: n t)
  case (Cons it items)
  let ?r = "\<lparr>cx_conversation_id = c, cx_ordinal = int n, cx_item_type = ci_Type it, cx_ref_id = ci_RefID it\<rparr>"
  let ?t = "t\<lparr>t_context_items := t_context_items t @ [?r]\<rparr>"
  have free: "\<not> (\<exists>r \<in> set (t_context_items t). cx_conversation_id r = c \<and> cx_ordinal r = int n)"
    using Cons.prems by force
  show ?case
  proof (cases "has_conversation t c")
    case True
    have "insert_context_item c (int n) (ci_Type it) (ci_RefID it) t = Some ?t"
      using free True by (simp add: insert_context_item_def)
    moreover have "has_conversation ?t c" using True by (simp add: has_conversation_def)
    moreover have "\<forall>r \<in> set (t_context_items ?t). cx_conversation_id r = c \<longrightarrow> cx_ordinal r < int (Suc n)"
    proof (intro ballI impI)
      fix r assume r: "r \<in> set (t_context_items ?t)" "cx_conversation_id r = c"
      then consider "r \<in> set (t_context_items t)" | "r = ?r" by auto
      then show "cx_ordinal r < int (Suc n)" using Cons.prems r(2) by cases (fastforce, simp)
    qed
    ultimately show ?thesis using Cons.IH [of ?t "Suc n"] True by simp
  qed (simp add: insert_context_item_def)
qed simp

lemma wf_insert_items:
  assumes "wf_tables H t" "length (window_rows t c) = n"
    and "fold_stmts (\<lambda>(i, it). insert_context_item c (int i) (ci_Type it) (ci_RefID it)) (enumerate n items) t = Some t'"
  shows "wf_tables H t'"
  using assms
proof (induction items arbitrary: n t)
  case (Cons it items)
  then obtain t1 where t1: "insert_context_item c (int n) (ci_Type it) (ci_RefID it) t = Some t1"
    "fold_stmts (\<lambda>(i, it). insert_context_item c (int i) (ci_Type it) (ci_RefID it)) (enumerate (Suc n) items) t1 = Some t'"
    by (auto split: option.splits)
  have "wf_tables H t1" by (rule wf_insert_item [OF Cons.prems(1) t1(1)]) (simp add: Cons.prems(2))
  moreover have "length (window_rows t1 c) = Suc n"
    using t1(1) Cons.prems(2) by (auto simp: insert_context_item_def window_rows_def split: if_splits)
  ultimately show ?case using Cons.IH t1(2) by blast
qed simp

end
