(* ===== verification/Store_Lifecycle.thy ===== *)
theory Store_Lifecycle
  imports Store_Dag
begin

text \<open>
  \<open>internal/store/sqlite_lifecycle.go\<close> and \<open>health.go\<close>: pins, expansion marks, the retention
  plan, bounded atomic deletion, and the parity check of the search indexes.
\<close>

definition maxLifecycleBatch :: nat where "maxLifecycleBatch = 1000"

section \<open>Pins and expansion marks\<close>

definition ConversationByID :: "string \<Rightarrow> (world, conversation) prog" where
  "ConversationByID cid =
     bindE (sql_query ''store: load conversation by id'' (\<lambda>t. find (\<lambda>c. cv_ID c = cid) (t_conversations t)))
       (\<lambda>row. case row of None \<Rightarrow> fail ErrNotFound | Some c \<Rightarrow> ret c)"

definition SetConversationPin :: "string \<Rightarrow> bool \<Rightarrow> (world, unit) prog" where
  "SetConversationPin cid pinned =
     bindE (ConversationByID cid) (\<lambda>_.
     if \<not> pinned then sql_exec ''store: remove conversation pin'' (delete_pin cid)
     else bindE clock_Now (\<lambda>now. sql_exec ''store: set conversation pin'' (insert_pin cid now)))"

definition MarkSummaryExpanded :: "string \<Rightarrow> (world, unit) prog" where
  "MarkSummaryExpanded sid =
     bindE clock_Now (\<lambda>now. sql_exec ''store: mark summary expanded'' (upsert_expansion sid now))"

section \<open>The retention plan\<close>

definition prune_candidate_of :: "tables \<Rightarrow> conversation \<Rightarrow> prune_candidate" where
  "prune_candidate_of t c =
     (let sums = filter (\<lambda>s. sm_ConversationID s = cv_ID c) (t_summaries t) in
      \<lparr>pc_Conversation = c, pc_Pinned = (cv_ID c \<in> fst ` set (t_conversation_pins t)),
       pc_SummaryCount = int (length sums),
       pc_UnexpandedSummary = int (length (filter (\<lambda>s. sm_ID s \<notin> fst ` set (t_summary_expansions t)) sums))\<rparr>)"

definition prune_rows :: "time \<Rightarrow> int \<Rightarrow> tables \<Rightarrow> prune_candidate list" where
  "prune_rows before limit t =
     sql_limit limit (map (prune_candidate_of t)
       (sort_key (\<lambda>c. fmtTime (cv_UpdatedAt c))
         (filter (\<lambda>c. fmtTime (cv_UpdatedAt c) < fmtTime before) (t_conversations t))))"

definition ListPruneCandidates :: "time \<Rightarrow> int \<Rightarrow> (world, prune_candidate list) prog" where
  "ListPruneCandidates before limit =
     (if limit \<le> 0 \<or> limit > int maxLifecycleBatch
      then fail (Errorf ''store: prune limit must be between 1 and 1000'' [])
      else sql_rows ''store: list prune candidates'' ''store: iterate prune candidates'' (prune_rows before limit))"

definition ListConversationSummaries :: "string \<Rightarrow> (world, summary list) prog" where
  "ListConversationSummaries cid =
     sql_rows ''store: list conversation summaries'' ''store: iterate conversation summaries''
       (\<lambda>t. order_desc sm_Depth (sort_key sm_EarliestSeq
              (filter (\<lambda>s. sm_ConversationID s = cid) (t_summaries t))))"

section \<open>Deletion\<close>

definition selectOffloadPaths :: "string \<Rightarrow> (world, string list) prog" where
  "selectOffloadPaths cid =
     sql_rows ''store: list deleted offloads'' ''store: iterate deleted offloads''
       (\<lambda>t. map lf_StorageURI (filter (\<lambda>f. lf_ConversationID f = cid) (t_large_files t)))"

definition deleteConversationRows :: "string \<Rightarrow> (world, string list \<times> int) prog" where
  "deleteConversationRows cid =
     bindE (selectOffloadPaths cid) (\<lambda>paths.
     bindE (sql_exec ''store: delete message FTS rows'' (delete_messages_fts cid)) (\<lambda>_.
     bindE (sql_exec ''store: delete summary FTS rows'' (delete_summaries_fts cid)) (\<lambda>_.
     bindE (\<lambda>w. (Inr (int (length (filter (\<lambda>c. cv_ID c = cid) (t_conversations (w_db w))))), w)) (\<lambda>affected.
     bindE (sql_exec ''store: delete conversation'' (delete_conversation cid)) (\<lambda>_.
     bindE (wrapE ''store: count deleted conversation'' (driver ''rows affected'')) (\<lambda>_.
     ret (paths, affected)))))))"

definition DeleteConversations :: "string list \<Rightarrow> (world, delete_result) prog" where
  "DeleteConversations ids =
     (if ids = [] \<or> length ids > maxLifecycleBatch
      then fail (Errorf ''store: delete batch must contain 1..1000 conversations'' [])
      else in_tx ''store: begin conversation delete'' ''store: commit conversation delete''
        (foldE (\<lambda>cid r. bindE (deleteConversationRows cid) (\<lambda>(paths, deleted).
            ret (r\<lparr>dr_Deleted := dr_Deleted r + deleted, dr_OffloadPaths := dr_OffloadPaths r @ paths\<rparr>)))
          ids \<lparr>dr_Deleted = 0, dr_OffloadPaths = []\<rparr>))"

section \<open>Health\<close>

record health =
  he_Integrity :: string
  he_MessageRows :: int
  he_MessageFTSRows :: int
  he_SummaryRows :: int
  he_SummaryFTSRows :: int

definition health_OK :: "health \<Rightarrow> bool" where
  "health_OK h \<longleftrightarrow> he_Integrity h = ''ok'' \<and> he_MessageRows h = he_MessageFTSRows h
     \<and> he_SummaryRows h = he_SummaryFTSRows h"

text \<open>The verdict of \<open>PRAGMA integrity_check\<close> is SQLite's own, a parameter.\<close>

definition CheckHealth :: "(tables \<Rightarrow> string) \<Rightarrow> (world, health) prog" where
  "CheckHealth integrity =
     bindE (sql_query ''store: integrity check'' integrity) (\<lambda>verdict.
     bindE (sql_query ''store: count messages'' (\<lambda>t. int (length (t_messages t)))) (\<lambda>m.
     bindE (sql_query ''store: count messages_fts'' (\<lambda>t. int (length (t_messages_fts t)))) (\<lambda>mf.
     bindE (sql_query ''store: count summaries'' (\<lambda>t. int (length (t_summaries t)))) (\<lambda>s.
     bindE (sql_query ''store: count summaries_fts'' (\<lambda>t. int (length (t_summaries_fts t)))) (\<lambda>sf.
     ret \<lparr>he_Integrity = verdict, he_MessageRows = m, he_MessageFTSRows = mf,
          he_SummaryRows = s, he_SummaryFTSRows = sf\<rparr>)))))"

section \<open>What they do to the tables\<close>

text \<open>A statement at the end of an operation.\<close>

lemma exec_last:
  assumes "\<And>t2. stmt t = Some t2 \<Longrightarrow> P t2" and "b \<Longrightarrow> stmt t = None \<Longrightarrow> X"
  shows "hoare (at_db b t) (sql_exec msg stmt) (\<lambda>_. on_db b P) (\<lambda>_ w. at_db b t w \<and> (\<not> b \<or> X))"
  by (rule hoare_post [OF exec_at]) (use assms in \<open>auto simp: at_db_def on_db_def\<close>)

lemma purge_at:
  "hoare (at_db b t) (deleteConversationRows cid)
     (\<lambda>r. on_db b (\<lambda>t'. t' = purge_tables cid t))
     (\<lambda>_ w. (b \<longrightarrow> healthy w) \<and> \<not> b)"
  unfolding deleteConversationRows_def selectOffloadPaths_def
proof (intro bind_rows bind_exec)
  fix t1 t2 assume "delete_messages_fts cid t = Some t1" "delete_summaries_fts cid t1 = Some t2"
  then have p: "t3 = purge_tables cid t" if "delete_conversation cid t2 = Some t3" for t3
    using that by (rule purge_statements)
  show "hoare (at_db b t2)
     (bindE (\<lambda>w. (Inr (int (length (filter (\<lambda>c. cv_ID c = cid) (t_conversations (w_db w))))), w)) (\<lambda>affected.
      bindE (sql_exec ''store: delete conversation'' (delete_conversation cid)) (\<lambda>_.
      bindE (wrapE ''store: count deleted conversation'' (driver ''rows affected'')) (\<lambda>_.
      ret (map lf_StorageURI (filter (\<lambda>f. lf_ConversationID f = cid) (t_large_files t)), affected)))))
     (\<lambda>r. on_db b (\<lambda>t'. t' = purge_tables cid t)) (\<lambda>_ w. (b \<longrightarrow> healthy w) \<and> \<not> b)"
  proof (rule hoare_bind [where R = "\<lambda>_. at_db b t2"])
    show "hoare (at_db b t2) (\<lambda>w. (Inr (int (length (filter (\<lambda>c. cv_ID c = cid) (t_conversations (w_db w))))), w))
        (\<lambda>_. at_db b t2) (\<lambda>_ w. (b \<longrightarrow> healthy w) \<and> \<not> b)" by (rule hoareI) auto
    fix affected
    have count: "hoare (at_db b t3) (bindE (wrapE ''store: count deleted conversation'' (driver ''rows affected''))
        (\<lambda>_. ret (map lf_StorageURI (filter (\<lambda>f. lf_ConversationID f = cid) (t_large_files t)), affected)))
        (\<lambda>r. on_db b (\<lambda>t'. t' = purge_tables cid t)) (\<lambda>_ w. (b \<longrightarrow> healthy w) \<and> \<not> b)"
      if "delete_conversation cid t2 = Some t3" for t3
      by (rule hoare_bind [OF hoare_wrap [OF hoare_err [OF driver_at]]])
        (auto simp: at_db_def p [OF that] on_db_def intro!: hoare_ret)
    show "hoare (at_db b t2) (bindE (sql_exec ''store: delete conversation'' (delete_conversation cid)) (\<lambda>_.
      bindE (wrapE ''store: count deleted conversation'' (driver ''rows affected'')) (\<lambda>_.
      ret (map lf_StorageURI (filter (\<lambda>f. lf_ConversationID f = cid) (t_large_files t)), affected))))
     (\<lambda>r. on_db b (\<lambda>t'. t' = purge_tables cid t)) (\<lambda>_ w. (b \<longrightarrow> healthy w) \<and> \<not> b)"
      by (rule bind_exec [OF count]) (auto simp: delete_conversation_def Let_def at_db_def)
  qed
qed (auto simp: at_db_def delete_messages_fts_def delete_summaries_fts_def)

lemma DeleteConversations_at:
  "hoare (at_db b t) (DeleteConversations ids)
     (\<lambda>r. on_db b (\<lambda>t'. t' = fold purge_tables ids t))
     (\<lambda>_ w. at_db b t w \<and> (\<not> b \<or> ids = [] \<or> length ids > maxLifecycleBatch))"
proof (cases "ids = [] \<or> length ids > maxLifecycleBatch")
  case False
  let ?step = "\<lambda>cid (r :: delete_result). bindE (deleteConversationRows cid) (\<lambda>(paths, deleted).
            ret (r\<lparr>dr_Deleted := dr_Deleted r + deleted, dr_OffloadPaths := dr_OffloadPaths r @ paths\<rparr>))"
  let ?I = "\<lambda>ys (r :: delete_result). on_db b (\<lambda>t'. t' = fold purge_tables ys t)"
  let ?E = "\<lambda>(e :: error) w. (b \<longrightarrow> healthy w) \<and> \<not> b"
  have step: "hoare (?I ys r) (?step cid r) (?I (ys @ [cid])) ?E" for ys cid and r :: delete_result
  proof (rule hoare_bind)
    show "hoare (?I ys r) (deleteConversationRows cid) (\<lambda>_. ?I (ys @ [cid]) r) ?E"
      using purge_at [of b "fold purge_tables ys t" cid] by (simp add: at_db_on_db)
    show "hoare (?I (ys @ [cid]) r) (case x of (paths, deleted) \<Rightarrow>
        ret (r\<lparr>dr_Deleted := dr_Deleted r + deleted, dr_OffloadPaths := dr_OffloadPaths r @ paths\<rparr>))
        (?I (ys @ [cid])) ?E" for x
      by (cases x) (auto intro: hoare_ret)
  qed
  have "hoare (?I [] r) (foldE ?step ids r) (?I ids) ?E" for r
    by (rule hoare_foldE) (rule step)
  then have "hoare (at_db b t) (foldE ?step ids \<lparr>dr_Deleted = 0, dr_OffloadPaths = []\<rparr>) (?I ids)
      (\<lambda>e w. (b \<longrightarrow> healthy w) \<and> \<not> b)" by (simp add: at_db_on_db)
  from in_tx_at [OF this, of "''store: begin conversation delete''" "''store: commit conversation delete''"]
  have "hoare (at_db b t) (in_tx ''store: begin conversation delete'' ''store: commit conversation delete''
      (foldE ?step ids \<lparr>dr_Deleted = 0, dr_OffloadPaths = []\<rparr>)) (?I ids) (\<lambda>_ w. at_db b t w \<and> \<not> b)" by simp
  then show ?thesis
    unfolding DeleteConversations_def using False by (auto intro: hoare_err)
qed (auto simp: DeleteConversations_def intro: hoare_fail)

lemma wf_fold_purge: "wf_tables H t \<Longrightarrow> wf_tables H (fold purge_tables ids t)"
  by (induction ids arbitrary: t) (auto intro: wf_purge)

end
