(* ===== verification/Tokens.thy ===== *)
theory Tokens
  imports CoreTypes
begin

text \<open>
  Package \<open>internal/tokens\<close>: the heuristic token estimate, and the contract of
  \<open>core.TokenCounter\<close> the engine and the service rely on, as the locale
  \<open>token_counter\<close> with the heuristic as its instance.
\<close>

section \<open>The heuristic\<close>

text \<open>The word loop of \<open>Count\<close>: \<open>inWord\<close> and \<open>words\<close> are its variables.\<close>

fun count_words :: "rune list \<Rightarrow> bool \<Rightarrow> int \<Rightarrow> int" where
  "count_words [] inWord words = words"
| "count_words (r # rs) inWord words =
     (if IsSpace r then count_words rs False words
      else if \<not> inWord then count_words rs True (words + 1)
      else count_words rs inWord words)"

definition Heuristic_Count :: "string \<Rightarrow> int" where
  "Heuristic_Count s =
     (if s = [] then 0
      else
        let chars = int (length (runes s));
            byChars = (chars + 3) div 4;
            words = count_words (runes s) False 0;
            byWords = (words * 4 + 2) div 3
        in if byWords > byChars then byWords else byChars)"

lemma count_words_bounds:
  "words \<le> count_words rs inWord words \<and>
   2 * count_words rs inWord words \<le> 2 * words + int (length rs) + (if inWord then 0 else 1)"
  by (induction rs inWord words rule: count_words.induct) (auto split: if_splits)

section \<open>The contract of a token counter\<close>

text \<open>
  What the clients of \<open>core.TokenCounter\<close> need: counts are never negative, only the empty
  text counts 0, and a text of \<open>n\<close> runes counts at most \<open>(2n + 4) / 3\<close>.
\<close>

locale token_counter =
  fixes Count :: "string \<Rightarrow> int"
  assumes Count_nonneg: "0 \<le> Count s"
    and Count_zero: "Count s = 0 \<longleftrightarrow> s = []"
    and Count_bound: "3 * Count s \<le> 2 * int (length (runes s)) + 4"
begin

lemma Count_pos: "s \<noteq> [] \<Longrightarrow> 1 \<le> Count s"
  using Count_nonneg [of s] Count_zero [of s] by linarith

lemma Count_cut_runes:
  "3 * Count (cut_runes n mark s) \<le> 2 * (int n + int (length (runes mark))) + 4"
proof -
  define k where "k = length (runes (cut_runes n mark s))"
  have "k \<le> n + length (runes mark)" unfolding k_def by (rule length_cut_runes)
  then have "2 * int k \<le> 2 * (int n + int (length (runes mark)))" by simp
  moreover have "3 * Count (cut_runes n mark s) \<le> 2 * int k + 4" unfolding k_def by (rule Count_bound)
  ultimately show ?thesis by (rule add_right_mono [THEN order_trans [rotated]])
qed

lemma sum_Count_nonneg: "0 \<le> sum_list (map Count xs)"
  by (rule sum_list_nonneg_map) (simp add: Count_nonneg)

end

interpretation heuristic: token_counter Heuristic_Count
proof
  fix s
  define c where "c = int (length (runes s))"
  define w where "w = count_words (runes s) False 0"
  have w: "0 \<le> w" "2 * w \<le> c + 1"
    using count_words_bounds [of 0 "runes s" False] by (simp_all add: w_def c_def)
  have C: "Heuristic_Count s = (if s = [] then 0 else max ((w * 4 + 2) div 3) ((c + 3) div 4))"
    by (simp add: Heuristic_Count_def Let_def w_def c_def max_def)
  have c: "s \<noteq> [] \<Longrightarrow> 1 \<le> c" by (cases "runes s") (auto simp: c_def)
  show "0 \<le> Heuristic_Count s" using w c unfolding C by auto
  show "Heuristic_Count s = 0 \<longleftrightarrow> s = []" using w c unfolding C by auto
  show "3 * Heuristic_Count s \<le> 2 * int (length (runes s)) + 4"
    using w c unfolding C c_def [symmetric] by (auto simp: max_def)
qed

text \<open>C1 anchor lemmas: the estimate is at least a quarter of the runes.\<close>

lemma Heuristic_Count_chars: "int (length (runes s)) \<le> 4 * Heuristic_Count s"
  by (auto simp: Heuristic_Count_def Let_def)

end
