(* ===== verification/Service.thy ===== *)
theory Service
  imports Store_Lifecycle Tokens
begin

text \<open>
  \<open>internal/core/service.go\<close>: ingestion over the store interface of \<open>internal/core/store.go\<close>.
  The locale \<open>core_store\<close> states what ingestion relies on; its abstract state is the set of known
  conversations and the list of all messages in the order they were stored.
\<close>

section \<open>The service\<close>

record 'st core_store =
  cs_EnsureConversation :: "conversation_input \<Rightarrow> ('st, conversation) prog"
  cs_ConversationBySession :: "agent \<Rightarrow> string \<Rightarrow> ('st, conversation) prog"
  cs_ListConversations :: "agent \<Rightarrow> ('st, conversation list) prog"
  cs_AppendMessage :: "message_input \<Rightarrow> ('st, message \<times> bool) prog"
  cs_GetMessage :: "string \<Rightarrow> ('st, message) prog"
  cs_ListMessages :: "string \<Rightarrow> int \<Rightarrow> int \<Rightarrow> ('st, message list) prog"
  cs_SearchMessages :: "search_query \<Rightarrow> ('st, search_hit list) prog"
  cs_Stats :: "('st, stats) prog"

record ingest_message =
  im_Role :: role
  im_Content :: string
  im_ToolName :: string
  im_ExternalID :: string
  im_Raw :: string

record ingest_request =
  iq_Agent :: agent
  iq_SessionID :: string
  iq_Title :: string
  iq_Messages :: "ingest_message list"

record policy_decision =
  pd_SessionExcluded :: bool
  pd_MessagesExcluded :: int
  pd_MessagesRedacted :: int

type_synonym message_policy = "ingest_request \<Rightarrow> error + (ingest_request \<times> policy_decision)"

record 'st service =
  sv_store :: "'st core_store"
  sv_counter :: "string \<Rightarrow> int"
  sv_policy :: "message_policy option"

record ingest_result =
  ir_ConversationID :: string
  ir_Appended :: int
  ir_Deduped :: int
  ir_Tokens :: int
  ir_Excluded :: int
  ir_Redacted :: int

text \<open>\<open>NewService\<close>: the first policy given, if any.\<close>

definition NewService :: "'st core_store \<Rightarrow> (string \<Rightarrow> int) \<Rightarrow> message_policy list \<Rightarrow> 'st service" where
  "NewService store counter policies =
     \<lparr>sv_store = store, sv_counter = counter, sv_policy = (case policies of [] \<Rightarrow> None | p # ps \<Rightarrow> Some p)\<rparr>"

definition message_request :: "'st service \<Rightarrow> string \<Rightarrow> ingest_message \<Rightarrow> message_input" where
  "message_request S cid m =
     \<lparr>mi_ConversationID = cid, mi_Role = im_Role m, mi_Content = im_Content m,
      mi_TokenCount = sv_counter S (im_Content m), mi_ToolName = im_ToolName m,
      mi_ExternalID = im_ExternalID m, mi_Raw = im_Raw m\<rparr>"

definition count_append :: "message \<times> bool \<Rightarrow> ingest_result \<Rightarrow> ingest_result" where
  "count_append r res =
     (if snd r then res\<lparr>ir_Appended := ir_Appended res + 1, ir_Tokens := ir_Tokens res + ms_TokenCount (fst r)\<rparr>
      else res\<lparr>ir_Deduped := ir_Deduped res + 1\<rparr>)"

fun ingest_loop :: "unicode \<Rightarrow> 'st service \<Rightarrow> string \<Rightarrow> nat \<Rightarrow> ingest_message list \<Rightarrow> ingest_result \<Rightarrow> ('st, ingest_result) prog" where
  "ingest_loop U S cid i [] res = ret res"
| "ingest_loop U S cid i (m # ms) res =
     (if \<not> role_Valid (im_Role m)
      then fail (Errorf ''ingest: message %d has invalid role %q'' [itoa (int i), Quote U (im_Role m)])
      else bindE (wrapE (''ingest: append message '' @ itoa (int i)) (cs_AppendMessage (sv_store S) (message_request S cid m)))
             (\<lambda>r. ingest_loop U S cid (Suc i) ms (count_append r res)))"

definition Ingest :: "unicode \<Rightarrow> 'st service \<Rightarrow> ingest_request \<Rightarrow> ('st, ingest_result) prog" where
  "Ingest U S req =
     (if \<not> agent_Valid (iq_Agent req) then fail (Errorf ''ingest: invalid agent %q'' [Quote U (iq_Agent req)])
      else if iq_SessionID req = [] then fail (Errorf ''ingest: empty session id'' [])
      else case (case sv_policy S of
                   None \<Rightarrow> Inr (req, \<lparr>pd_SessionExcluded = False, pd_MessagesExcluded = 0, pd_MessagesRedacted = 0\<rparr>)
                 | Some p \<Rightarrow> p req) of
        Inl e \<Rightarrow> fail (ErrWrap ''ingest: apply privacy policy'' e)
      | Inr (req', decision) \<Rightarrow>
          (let base = \<lparr>ir_ConversationID = [], ir_Appended = 0, ir_Deduped = 0, ir_Tokens = 0,
                       ir_Excluded = pd_MessagesExcluded decision, ir_Redacted = pd_MessagesRedacted decision\<rparr> in
           if pd_SessionExcluded decision \<or> (iq_Messages req \<noteq> [] \<and> iq_Messages req' = []) then ret base
           else bindE (wrapE ''ingest: ensure conversation'' (cs_EnsureConversation (sv_store S)
                        \<lparr>in_Agent = iq_Agent req', in_SessionID = iq_SessionID req', in_Title = iq_Title req'\<rparr>))
                  (\<lambda>conv. ingest_loop U S (cv_ID conv) 0 (iq_Messages req') (base\<lparr>ir_ConversationID := cv_ID conv\<rparr>))))"

definition Service_Search :: "'st service \<Rightarrow> search_query \<Rightarrow> ('st, search_hit list) prog" where
  "Service_Search S q = wrapE ''search'' (cs_SearchMessages (sv_store S) q)"

definition DescribeMessage :: "'st service \<Rightarrow> string \<Rightarrow> ('st, message) prog" where
  "DescribeMessage S i = wrapE ''describe'' (cs_GetMessage (sv_store S) i)"

definition Service_Stats :: "'st service \<Rightarrow> ('st, stats) prog" where
  "Service_Stats S = wrapE ''stats'' (cs_Stats (sv_store S))"

section \<open>What ingestion relies on\<close>

text \<open>The outcome of one append: refused as known, or stored at the end.\<close>

definition stored_message :: "hash \<Rightarrow> message_input \<Rightarrow> message list \<Rightarrow> message \<times> bool \<Rightarrow> message list \<Rightarrow> bool" where
  "stored_message H inp M r M' \<longleftrightarrow> M' = M @ (if snd r then [fst r] else []) \<and> fst r \<in> set M'
     \<and> ms_ID (fst r) = input_id H inp \<and> (snd r \<longleftrightarrow> input_id H inp \<notin> ms_ID ` set M)
     \<and> (snd r \<longrightarrow> ms_ConversationID (fst r) = mi_ConversationID inp \<and> ms_Role (fst r) = mi_Role inp
          \<and> ms_Content (fst r) = mi_Content inp \<and> ms_Raw (fst r) = mi_Raw inp \<and> ms_TokenCount (fst r) = mi_TokenCount inp)"

locale core_store =
  fixes S :: "'st core_store" and H :: hash and at :: "bool \<Rightarrow> string set \<Rightarrow> message list \<Rightarrow> 'st \<Rightarrow> bool"
    and clash :: "conversation_input \<Rightarrow> 'st \<Rightarrow> bool"
  assumes ensure: "hoare (\<lambda>s. at b cs M s \<and> s = s0) (cs_EnsureConversation S i)
      (\<lambda>c s. at b (insert (DeriveConversationID H (in_Agent i) (in_SessionID i)) cs) M s
         \<and> cv_ID c = DeriveConversationID H (in_Agent i) (in_SessionID i))
      (\<lambda>_ s. (at b cs M s \<or> at b (insert (DeriveConversationID H (in_Agent i) (in_SessionID i)) cs) M s)
         \<and> (\<not> b \<or> clash i s0))"
    and append: "hoare (at b cs M) (cs_AppendMessage S inp) (\<lambda>r s. \<exists>M'. at b cs M' s \<and> stored_message H inp M r M')
      (\<lambda>_ s. at b cs M s \<and> (\<not> b \<or> mi_ConversationID inp \<notin> cs))"

definition message_key :: "hash \<Rightarrow> string \<Rightarrow> ingest_message \<Rightarrow> string" where
  "message_key H cid m = DeriveMessageID H cid (IdentityHash H (im_ExternalID m) (im_Role m) (im_Content m) (im_Raw m))"

lemma input_id_request: "input_id H (message_request S cid m) = message_key H cid m"
  by (simp add: input_id_def input_hash_def message_request_def message_key_def)

text \<open>
  The specification of the loop: a message whose identifier is new goes to the end, any other is
  skipped; \<open>ingested\<close> relates the log and the counters before and after.  The new rows are those of some
  of the messages (at the positions \<open>I\<close>), in their order.
\<close>

definition stored_as :: "hash \<Rightarrow> string \<Rightarrow> message \<Rightarrow> ingest_message \<Rightarrow> bool" where
  "stored_as H cid x m \<longleftrightarrow> ms_ID x = message_key H cid m \<and> ms_Content x = im_Content m \<and> ms_Raw x = im_Raw m \<and> ms_Role x = im_Role m"

definition ingested :: "hash \<Rightarrow> (string \<Rightarrow> int) \<Rightarrow> string \<Rightarrow> ingest_message list \<Rightarrow> message list \<Rightarrow> ingest_result
    \<Rightarrow> message list \<Rightarrow> ingest_result \<Rightarrow> bool" where
  "ingested H cnt cid ms M res M' res' \<longleftrightarrow> (\<exists>new. M' = M @ new
     \<and> (\<forall>x \<in> set new. ms_ConversationID x = cid \<and> ms_ID x \<notin> ms_ID ` set M
          \<and> (\<exists>m \<in> set ms. ms_ID x = message_key H cid m \<and> ms_Content x = im_Content m \<and> ms_Raw x = im_Raw m \<and> ms_Role x = im_Role m)
          \<and> ms_TokenCount x = cnt (ms_Content x))
     \<and> distinct (map ms_ID new) \<and> (\<exists>I. list_all2 (stored_as H cid) new (nths ms I))
     \<and> ir_Appended res' = ir_Appended res + int (length new)
     \<and> ir_Deduped res' = ir_Deduped res + (int (length ms) - int (length new))
     \<and> ir_Tokens res' = ir_Tokens res + sum_list (map ms_TokenCount new)
     \<and> ir_ConversationID res' = ir_ConversationID res \<and> ir_Excluded res' = ir_Excluded res
     \<and> ir_Redacted res' = ir_Redacted res)"

lemma ingest_loop_valid:
  "ingest_loop U S cid i ms res s = (Inr r, s') \<Longrightarrow> \<forall>m \<in> set ms. role_Valid (im_Role m)"
proof (induction ms arbitrary: i res s)
  case (Cons m ms)
  then show ?case by (auto simp: bindE_Inr fail_def split: if_splits)
qed simp

lemma ingested_Nil: "ingested H cnt cid [] M res M res"
  by (auto simp: ingested_def)

lemma nths_shift: "nths (x # xs) (Suc ` I) = nths xs I" "nths (x # xs) (insert 0 (Suc ` I)) = x # nths xs I"
proof -
  have "{j. Suc j \<in> Suc ` I} = I" "{j. Suc j \<in> insert 0 (Suc ` I)} = I" by auto
  then show "nths (x # xs) (Suc ` I) = nths xs I" "nths (x # xs) (insert 0 (Suc ` I)) = x # nths xs I"
    by (simp_all add: nths_Cons image_iff)
qed

lemma ingested_step:
  assumes st: "stored_message H (message_request S cid m) M r M1"
    and rest: "ingested H (sv_counter S) cid ms M1 (count_append r res) M' res'"
  shows "ingested H (sv_counter S) cid (m # ms) M res M' res'"
proof -
  obtain new where new: "M' = M1 @ new" "distinct (map ms_ID new)"
    "\<forall>x \<in> set new. ms_ConversationID x = cid \<and> ms_ID x \<notin> ms_ID ` set M1
          \<and> (\<exists>m \<in> set ms. ms_ID x = message_key H cid m \<and> ms_Content x = im_Content m \<and> ms_Raw x = im_Raw m \<and> ms_Role x = im_Role m)
          \<and> ms_TokenCount x = sv_counter S (ms_Content x)"
    and c: "ir_Appended res' = ir_Appended (count_append r res) + int (length new)"
     "ir_Deduped res' = ir_Deduped (count_append r res) + (int (length ms) - int (length new))"
     "ir_Tokens res' = ir_Tokens (count_append r res) + sum_list (map ms_TokenCount new)"
     "ir_ConversationID res' = ir_ConversationID (count_append r res)"
     "ir_Excluded res' = ir_Excluded (count_append r res)" "ir_Redacted res' = ir_Redacted (count_append r res)"
    and ord: "\<exists>I. list_all2 (stored_as H cid) new (nths ms I)"
    using rest by (auto simp: ingested_def)
  obtain I where I: "list_all2 (stored_as H cid) new (nths ms I)" using ord by blast
  show ?thesis
  proof (cases "snd r")
    case True
    have M1: "M1 = M @ [fst r]" "ms_ID (fst r) \<notin> ms_ID ` set M" "ms_ConversationID (fst r) = cid"
      "ms_Content (fst r) = im_Content m" "ms_Raw (fst r) = im_Raw m" "ms_Role (fst r) = im_Role m" "ms_TokenCount (fst r) = sv_counter S (im_Content m)"
      "ms_ID (fst r) = message_key H cid m"
      using st True by (auto simp: stored_message_def input_id_request) (auto simp: message_request_def)
    have "list_all2 (stored_as H cid) (fst r # new) (nths (m # ms) (insert 0 (Suc ` I)))"
      using I M1 by (simp add: nths_shift stored_as_def)
    moreover have "ms_ID (fst r) \<notin> ms_ID ` set new" using new(3) by (force simp: M1(1))
    ultimately show ?thesis
      unfolding ingested_def
      using new c M1 True by (intro exI [of _ "fst r # new"] conjI) (auto simp: count_append_def)
  next
    case False
    then have "M1 = M" using st by (simp add: stored_message_def)
    moreover have "\<exists>I. list_all2 (stored_as H cid) new (nths (m # ms) I)" using I nths_shift(1) [of m ms I] by metis
    ultimately show ?thesis
      unfolding ingested_def using new c False by (intro exI [of _ new] conjI) (auto simp: count_append_def)
  qed
qed

context core_store
begin

lemma ingest_loop_ok:
  assumes S: "sv_store sv = S" and c: "cid \<in> cs" and roles: "\<forall>m \<in> set ms. role_Valid (im_Role m)"
  shows "hoare (at b cs M) (ingest_loop U sv cid i ms res)
    (\<lambda>r s. \<exists>M'. at b cs M' s \<and> ingested H (sv_counter sv) cid ms M res M' r \<and> message_key H cid ` set ms \<subseteq> ms_ID ` set M')
    (\<lambda>_ s. \<exists>M'. at b cs M' s \<and> (\<exists>new. M' = M @ new \<and> length new \<le> length ms) \<and> \<not> b)"
  using roles
proof (induction ms arbitrary: M i res)
  case Nil
  then show ?case by (auto intro!: hoare_ret ingested_Nil)
next
  case (Cons m ms)
  let ?inp = "message_request sv cid m"
  let ?Q = "\<lambda>r s. \<exists>M'. at b cs M' s \<and> ingested H (sv_counter sv) cid (m # ms) M res M' r
      \<and> message_key H cid ` set (m # ms) \<subseteq> ms_ID ` set M'"
  let ?E = "\<lambda>_ s. \<exists>M'. at b cs M' s \<and> (\<exists>new. M' = M @ new \<and> length new \<le> length (m # ms)) \<and> \<not> b"
  have rest: "hoare (\<lambda>s. \<exists>M1. at b cs M1 s \<and> stored_message H ?inp M r M1)
      (ingest_loop U sv cid (Suc i) ms (count_append r res)) ?Q ?E" for r
  proof (rule hoareI)
    fix s e s'
    assume "\<exists>M1. at b cs M1 s \<and> stored_message H ?inp M r M1"
      and run: "ingest_loop U sv cid (Suc i) ms (count_append r res) s = (Inl e, s')"
    then obtain M1 where M1: "at b cs M1 s" "stored_message H ?inp M r M1" by blast
    obtain M' new where "at b cs M' s'" "M' = M1 @ new" "length new \<le> length ms" "\<not> b"
      using hoare_errD [OF Cons.IH M1(1) run] Cons.prems by auto
    then show "?E e s'" using M1(2) by (auto simp: stored_message_def split: if_splits)
  next
    fix s x s'
    assume "\<exists>M1. at b cs M1 s \<and> stored_message H ?inp M r M1"
      and run: "ingest_loop U sv cid (Suc i) ms (count_append r res) s = (Inr x, s')"
    then obtain M1 where M1: "at b cs M1 s" "stored_message H ?inp M r M1" by blast
    obtain M' where M': "at b cs M' s'" "ingested H (sv_counter sv) cid ms M1 (count_append r res) M' x"
      "message_key H cid ` set ms \<subseteq> ms_ID ` set M'"
      using hoare_okD [OF Cons.IH M1(1) run] Cons.prems by auto
    have "ms_ID (fst r) = message_key H cid m" "fst r \<in> set M1" "set M1 \<subseteq> set M'"
      using M1(2) M'(2) by (auto simp: stored_message_def ingested_def input_id_request)
    then have "message_key H cid m \<in> ms_ID ` set M'" by (metis imageI subsetD)
    with ingested_step [OF M1(2) M'(2)] M'(1,3) show "?Q x s'" by auto
  qed
  have "ingest_loop U sv cid i (m # ms) res = bindE (wrapE (''ingest: append message '' @ itoa (int i))
      (cs_AppendMessage S ?inp)) (\<lambda>r. ingest_loop U sv cid (Suc i) ms (count_append r res))"
    using Cons.prems S by simp
  then show ?case
    by (simp only:) (rule hoare_bind [OF hoare_wrap [OF hoare_err [OF append]] rest],
      use c in \<open>auto simp: message_request_def\<close>)
qed

end

section \<open>The SQLite store\<close>

definition sqlite_core :: "hash \<Rightarrow> unicode \<Rightarrow> fts_engine \<Rightarrow> world core_store" where
  "sqlite_core H U F = \<lparr>cs_EnsureConversation = EnsureConversation H,
     cs_ConversationBySession = ConversationBySession, cs_ListConversations = ListConversations,
     cs_AppendMessage = AppendMessage H, cs_GetMessage = GetMessage, cs_ListMessages = ListMessages, cs_SearchMessages = SearchMessages U F, cs_Stats = Store_Core.Stats\<rparr>"

definition core_at :: "hash \<Rightarrow> bool \<Rightarrow> string set \<Rightarrow> message list \<Rightarrow> world \<Rightarrow> bool" where
  "core_at H b cs M = on_db b (\<lambda>t. wf_tables H t \<and> conversation_ids t = cs \<and> t_messages t = M)"

interpretation sqlite_core: core_store "sqlite_core H U F" H "core_at H" "\<lambda>i w. conversation_id_clash H (w_db w) i"
proof
  fix b cs M s0 and i :: conversation_input and inp :: message_input
  let ?id = "DeriveConversationID H (in_Agent i) (in_SessionID i)"
  show "hoare (\<lambda>s. core_at H b cs M s \<and> s = s0) (cs_EnsureConversation (sqlite_core H U F) i)
      (\<lambda>c s. core_at H b (insert ?id cs) M s \<and> cv_ID c = ?id)
      (\<lambda>_ s. (core_at H b cs M s \<or> core_at H b (insert ?id cs) M s) \<and> (\<not> b \<or> conversation_id_clash H (w_db s0) i))"
  proof (rule hoareI)
    fix s e s' assume s: "core_at H b cs M s \<and> s = s0" and run: "cs_EnsureConversation (sqlite_core H U F) i s = (Inl e, s')"
    have t: "wf_tables H (w_db s)" "at_db b (w_db s) s" using s by (auto simp: core_at_def on_db_def at_db_def)
    have run': "EnsureConversation H i s = (Inl e, s')" using run by (simp add: sqlite_core_def)
    have r: "(at_db b (w_db s) s' \<or> on_db b (ensured H i (w_db s)) s') \<and> (\<not> b \<or> conversation_id_clash H (w_db s) i)"
      by (rule hoare_errD [OF EnsureConversation_at [OF t(1)] t(2) run'])
    from conjunct1 [OF r] have "core_at H b cs M s' \<or> core_at H b (insert ?id cs) M s'"
    proof
      assume "at_db b (w_db s) s'"
      then have "core_at H b cs M s'" using s by (auto simp: core_at_def on_db_def at_db_def)
      then show ?thesis ..
    next
      assume "on_db b (ensured H i (w_db s)) s'"
      then have "core_at H b (insert ?id cs) M s'" using s by (auto simp: core_at_def on_db_def ensured_def)
      then show ?thesis ..
    qed
    with r s show "(core_at H b cs M s' \<or> core_at H b (insert ?id cs) M s') \<and> (\<not> b \<or> conversation_id_clash H (w_db s0) i)"
      by simp
  next
    fix s c s' assume s: "core_at H b cs M s \<and> s = s0" and run: "cs_EnsureConversation (sqlite_core H U F) i s = (Inr c, s')"
    have t: "wf_tables H (w_db s)" "at_db b (w_db s) s" using s by (auto simp: core_at_def on_db_def at_db_def)
    have run': "EnsureConversation H i s = (Inr c, s')" using run by (simp add: sqlite_core_def)
    have "on_db b (\<lambda>t'. ensured H i (w_db s) t' \<and> cv_ID c = ?id \<and> c \<in> set (t_conversations t')) s'"
      by (rule hoare_okD [OF EnsureConversation_at [OF t(1)] t(2) run'])
    with s show "core_at H b (insert ?id cs) M s' \<and> cv_ID c = ?id"
      by (auto simp: core_at_def on_db_def ensured_def)
  qed
  show "hoare (core_at H b cs M) (cs_AppendMessage (sqlite_core H U F) inp)
      (\<lambda>r s. \<exists>M'. core_at H b cs M' s \<and> stored_message H inp M r M')
      (\<lambda>_ s. core_at H b cs M s \<and> (\<not> b \<or> mi_ConversationID inp \<notin> cs))"
    unfolding core_at_def
  proof (rule hoare_at_db)
    fix t assume t: "wf_tables H t \<and> conversation_ids t = cs \<and> t_messages t = M"
    show "hoare (at_db b t) (cs_AppendMessage (sqlite_core H U F) inp)
      (\<lambda>r s. \<exists>M'. on_db b (\<lambda>t. wf_tables H t \<and> conversation_ids t = cs \<and> t_messages t = M') s \<and> stored_message H inp M r M')
      (\<lambda>_ s. on_db b (\<lambda>t. wf_tables H t \<and> conversation_ids t = cs \<and> t_messages t = M) s \<and> (\<not> b \<or> mi_ConversationID inp \<notin> cs))"
    proof (rule hoare_conseq)
      show "hoare (at_db b t) (cs_AppendMessage (sqlite_core H U F) inp) (\<lambda>r. on_db b (appended H inp t r))
        (\<lambda>_ w. at_db b t w \<and> (\<not> b \<or> mi_ConversationID inp \<notin> conversation_ids t))"
        using AppendMessage_at [of H t b inp] t by (simp add: sqlite_core_def)
      fix r w assume w: "on_db b (appended H inp t r) w"
      then have a: "appended H inp t r (w_db w)" and b: "b \<longrightarrow> healthy w" by (auto simp: on_db_def)
      have "stored_message H inp M r (t_messages (w_db w))"
        using appended_messages [OF a] a t
        by (auto simp: stored_message_def appended_def split: if_splits)
      then show "\<exists>M'. on_db b (\<lambda>t. wf_tables H t \<and> conversation_ids t = cs \<and> t_messages t = M') w \<and> stored_message H inp M r M'"
        using appended_wf [OF _ a] appended_messages(2) [OF a] t b by (auto simp: on_db_def)
    qed (use t in \<open>auto simp: on_db_def at_db_def\<close>)
  qed
qed

end
