(* ===== verification/Cover.thy ===== *)
theory Cover
  imports Dag
begin

text \<open>
  When a window is lossless: its items, in order, expand to exactly the first \<open>n\<close> messages of the
  conversation's log.  A window that covers the log keeps doing so when a block gives way to a
  summary of that block, and when messages arrive behind it.
\<close>

definition message_item :: "message \<Rightarrow> window_item" where
  "message_item m = \<lparr>wi_typ = ContextMessage, wi_refID = ms_ID m, wi_role = ms_Role m,
     wi_tokens = ms_TokenCount m, wi_earliestSeq = ms_Seq m, wi_latestSeq = ms_Seq m, wi_depth = 0\<rparr>"

definition summary_item :: "summary \<Rightarrow> window_item" where
  "summary_item s = \<lparr>wi_typ = ContextSummary, wi_refID = sm_ID s, wi_role = [],
     wi_tokens = sm_TokenCount s, wi_earliestSeq = sm_EarliestSeq s, wi_latestSeq = sm_LatestSeq s,
     wi_depth = sm_Depth s\<rparr>"

definition item_expands :: "dag_view \<Rightarrow> string \<Rightarrow> window_item \<Rightarrow> string list \<Rightarrow> bool" where
  "item_expands v c it ids \<longleftrightarrow>
     (\<exists>m \<in> set (log_of v c). it = message_item m \<and> ids = [ms_ID m])
     \<or> (\<exists>s \<in> set (dv_summaries v). sm_ConversationID s = c \<and> it = summary_item s \<and> expands v (sm_ID s) ids)"

definition covers :: "dag_view \<Rightarrow> string \<Rightarrow> window_item list \<Rightarrow> nat \<Rightarrow> bool" where
  "covers v c w n \<longleftrightarrow> n \<le> length (log_ids v c)
     \<and> (\<exists>parts. list_all2 (item_expands v c) w parts \<and> concat parts = take n (log_ids v c))"

definition item_ref :: "window_item \<Rightarrow> context_item_type \<times> string" where
  "item_ref it = (wi_typ it, wi_refID it)"

definition windows_ok :: "dag_view \<Rightarrow> bool" where
  "windows_ok v \<longleftrightarrow> (\<forall>c. \<exists>w n. map item_ref w = dv_window v c \<and> covers v c w n)"

text \<open>The engine's invariant of its store.\<close>

definition dag_inv :: "hash \<Rightarrow> dag_view \<Rightarrow> bool" where
  "dag_inv H v \<longleftrightarrow> hex_hash H \<and> dag_wf H v \<and> dag_sound H v \<and> windows_ok v"

lemma item_simps [simp]:
  "is_message (message_item m)" "\<not> is_message (summary_item s)"
  "is_summary (summary_item s)" "\<not> is_summary (message_item m)"
  "wi_refID (message_item m) = ms_ID m" "wi_refID (summary_item s) = sm_ID s"
  "wi_tokens (message_item m) = ms_TokenCount m" "wi_tokens (summary_item s) = sm_TokenCount s"
  "wi_earliestSeq (message_item m) = ms_Seq m" "wi_latestSeq (message_item m) = ms_Seq m"
  "wi_earliestSeq (summary_item s) = sm_EarliestSeq s" "wi_latestSeq (summary_item s) = sm_LatestSeq s"
  "wi_depth (summary_item s) = sm_Depth s" "wi_role (message_item m) = ms_Role m"
  "item_ref (message_item m) = (ContextMessage, ms_ID m)" "item_ref (summary_item s) = (ContextSummary, sm_ID s)"
  by (simp_all add: message_item_def summary_item_def item_ref_def)

lemma summary_not_conversational [simp]: "\<not> isConversationalMessage (summary_item s)"
  by (simp add: isConversationalMessage_def)

section \<open>Positions in the log\<close>

lemma log_seq:
  assumes "dag_wf H v" "i < length (log_of v c)"
  shows "ms_Seq (log_of v c ! i) = int i + 1"
proof -
  have "map ms_Seq (log_of v c) = map int [1..<Suc (length (log_of v c))]"
    using assms(1) by (simp add: dag_wf_def)
  then have "map ms_Seq (log_of v c) ! i = map int [1..<Suc (length (log_of v c))] ! i" by simp
  with assms(2) show ?thesis by (simp del: upt_Suc)
qed

lemma distinct_log: "dag_wf H v \<Longrightarrow> distinct (log_ids v c)"
  by (simp add: dag_wf_def log_ids_def log_of_def distinct_map_filter)

lemma length_log_ids [simp]: "length (log_ids v c) = length (log_of v c)"
  by (simp add: log_ids_def)

text \<open>A non-empty span occurs at one position only.\<close>

lemma span_position:
  assumes d: "distinct L" and k: "k + length xs \<le> length L" "xs = take (length xs) (drop k L)"
    and ne: "xs \<noteq> []" and L: "L = A @ xs @ B"
  shows "k = length A"
proof -
  have "take (length xs) (drop k L) ! 0 = L ! k" using k(1) ne by (simp add: Suc_le_eq)
  then have "hd xs = L ! k" using arg_cong [OF k(2), of "\<lambda>ys. ys ! 0"] ne by (simp add: hd_conv_nth)
  moreover have "hd xs = L ! length A" using L ne by (simp add: hd_conv_nth nth_append)
  moreover have "k < length L" using k(1) ne by (cases xs) auto
  moreover have "length A < length L" using L ne by (cases xs) auto
  ultimately show ?thesis using d by (metis nth_eq_iff_index_eq)
qed

text \<open>The position fields of an item are those of the messages it stands for.\<close>

lemma item_position:
  assumes wf: "dag_wf H v" and sound: "dag_sound H v" and it: "item_expands v c it ids"
    and L: "log_ids v c = A @ ids @ B"
  shows "ids \<noteq> [] \<and> wi_earliestSeq it = int (length A) + 1 \<and> wi_latestSeq it = int (length A) + int (length ids)"
proof -
  from it consider m where "m \<in> set (log_of v c)" "it = message_item m" "ids = [ms_ID m]"
    | s where "s \<in> set (dv_summaries v)" "sm_ConversationID s = c" "it = summary_item s" "expands v (sm_ID s) ids"
    by (auto simp: item_expands_def)
  then show ?thesis
  proof cases
    case 1
    then obtain i where i: "i < length (log_of v c)" "log_of v c ! i = m" by (auto simp: in_set_conv_nth)
    have "i = length A"
    proof -
      have "log_ids v c ! i = ms_ID m" using i by (simp add: log_ids_def)
      moreover have "log_ids v c ! length A = ms_ID m" using L 1 by simp
      moreover have "length A < length (log_ids v c)" using L 1 by simp
      ultimately show ?thesis using distinct_log [OF wf, of c] i by (metis length_log_ids nth_eq_iff_index_eq)
    qed
    with log_seq [OF wf i(1)] i 1 show ?thesis by simp
  next
    case 2
    then obtain ids' where s: "summary_sound v s ids'" using sound by (auto simp: dag_sound_def)
    with 2 have ids': "ids' = ids" by (auto simp: summary_sound_def dest: expands_det)
    have "nat (sm_EarliestSeq s - 1) = length A"
      using s 2 ids' by (intro span_position [OF distinct_log [OF wf, of c] _ _ _ L])
        (auto simp: summary_sound_def span_of_def)
    with s ids' 2 show ?thesis by (auto simp: summary_sound_def)
  qed
qed

lemma item_expands_det:
  assumes "dag_wf H v" "item_expands v c it a" "item_expands v c it b"
  shows "a = b"
  using assms(2,3) by (auto simp: item_expands_def dest: expands_det) (auto simp: message_item_def summary_item_def dest: expands_det)

lemma item_expands_extends: "extends v v' \<Longrightarrow> item_expands v c it ids \<Longrightarrow> item_expands v' c it ids"
proof -
  assume ext: "extends v v'" and it: "item_expands v c it ids"
  have "s \<in> set (dv_summaries v')" if "s \<in> set (dv_summaries v)" for s
    using ext that by (auto simp: extends_def)
  with it show ?thesis
    unfolding item_expands_def extends_log [OF ext] by (blast intro: expands_extends [OF ext])
qed

section \<open>Covering windows\<close>

lemma covers_Nil [simp]: "covers v c [] n \<longleftrightarrow> n = 0"
  by (auto simp: covers_def log_ids_def)

lemma covers_extends:
  assumes "extends v v'" "covers v c w n"
  shows "covers v' c w n"
proof -
  obtain parts where p: "list_all2 (item_expands v c) w parts" "concat parts = take n (log_ids v c)"
    "n \<le> length (log_ids v c)" using assms(2) by (auto simp: covers_def)
  have "list_all2 (item_expands v' c) w parts"
    using p(1) by (rule list_all2_mono) (rule item_expands_extends [OF assms(1)])
  moreover have "log_ids v' c = log_ids v c" using extends_log [OF assms(1)] by (simp add: log_ids_def)
  ultimately show ?thesis using p by (auto simp: covers_def)
qed

lemma covers_add_message:
  assumes "covers v c w n"
  shows "covers (add_message m v) c w n"
proof -
  obtain parts where p: "list_all2 (item_expands v c) w parts" "concat parts = take n (log_ids v c)"
    "n \<le> length (log_ids v c)" using assms by (auto simp: covers_def)
  have "item_expands (add_message m v) c it ids" if "item_expands v c it ids" for it ids
    using that unfolding item_expands_def by (auto simp: log_of_def add_message_def [of m v] expands_add_message [unfolded add_message_def])
  then have "list_all2 (item_expands (add_message m v) c) w parts" using p(1) by (rule list_all2_mono [rotated])
  with p show ?thesis by (auto simp: covers_def log_ids_add_message)
qed

text \<open>A covering window cut at a block: what the block stands for is a span of the log.\<close>

lemma covers_split:
  assumes wf: "dag_wf H v" and sound: "dag_sound H v" and cov: "covers v c (A @ B @ C) n"
  obtains a b z where "list_all2 (item_expands v c) A a" "list_all2 (item_expands v c) B b"
    "list_all2 (item_expands v c) C z" "concat a @ concat b @ concat z = take n (log_ids v c)"
    "span_of v c (length (concat a)) (concat b)"
    "B \<noteq> [] \<Longrightarrow> concat b \<noteq> [] \<and> wi_earliestSeq (hd B) = int (length (concat a)) + 1
       \<and> wi_latestSeq (last B) = int (length (concat a)) + int (length (concat b))"
proof -
  obtain parts where p: "list_all2 (item_expands v c) (A @ B @ C) parts" "concat parts = take n (log_ids v c)"
    and n: "n \<le> length (log_ids v c)" using cov by (auto simp: covers_def)
  obtain a r where ar: "parts = a @ r" "list_all2 (item_expands v c) A a" "list_all2 (item_expands v c) (B @ C) r"
    using p(1) by (auto simp: list_all2_append1)
  obtain b z where bz: "r = b @ z" "list_all2 (item_expands v c) B b" "list_all2 (item_expands v c) C z"
    using ar(3) by (auto simp: list_all2_append1)
  have cat: "concat a @ concat b @ concat z = take n (log_ids v c)" using p(2) ar(1) bz(1) by simp
  have L: "log_ids v c = concat a @ concat b @ (concat z @ drop n (log_ids v c))"
    using cat by (metis append.assoc append_take_drop_id)
  have span: "span_of v c (length (concat a)) (concat b)"
    unfolding span_of_def by (subst (2) L, subst L) simp
  have ends: "concat b \<noteq> [] \<and> wi_earliestSeq (hd B) = int (length (concat a)) + 1
       \<and> wi_latestSeq (last B) = int (length (concat a)) + int (length (concat b))" if B: "B \<noteq> []"
  proof -
    obtain x B' where x: "B = x # B'" using B by (cases B) auto
    then obtain i b' where i: "b = i # b'" "item_expands v c x i" using bz(2) by (auto simp: list_all2_Cons1)
    have 1: "i \<noteq> []" "wi_earliestSeq x = int (length (concat a)) + 1"
      using item_position [OF wf sound i(2), of "concat a" "concat b' @ concat z @ drop n (log_ids v c)"] L i(1)
      by auto
    obtain B'' y where y: "B = B'' @ [y]" using B by (cases B rule: rev_cases) auto
    then obtain b'' j where j: "b = b'' @ [j]" "item_expands v c y j"
      using bz(2) by (auto simp: list_all2_append1 list_all2_Cons1)
    have 2: "wi_latestSeq y = int (length (concat a @ concat b'')) + int (length j)"
      using item_position [OF wf sound j(2), of "concat a @ concat b''" "concat z @ drop n (log_ids v c)"] L j(1)
      by auto
    show ?thesis using 1 2 i(1) j(1) x y by (metis (no_types, lifting) append_is_Nil_conv concat.simps concat_append
          append_Nil2 last_snoc length_append list.sel(1) of_nat_add add.assoc)
  qed
  show ?thesis by (rule that [OF ar(2) bz(2,3) cat span ends])
qed

text \<open>Replacing a block by an item for the same span.\<close>

lemma covers_replace:
  assumes cov: "covers v c w n" and ext: "extends v v'" and ij: "i \<le> j" "j \<le> length w"
    and b: "list_all2 (item_expands v c) (slice i j w) b"
    and uniq: "\<And>b'. list_all2 (item_expands v c) (slice i j w) b' \<Longrightarrow> concat b' = concat b"
    and it: "item_expands v' c it (concat b)"
  shows "covers v' c (replaceRange w i j it) n"
proof -
  have cov': "covers v' c (take i w @ slice i j w @ drop j w) n"
    using covers_extends [OF ext cov] slice_split [OF ij] by simp
  obtain parts where p: "list_all2 (item_expands v c) (take i w @ slice i j w @ drop j w) parts"
    "concat parts = take n (log_ids v c)" "n \<le> length (log_ids v c)"
    using cov slice_split [OF ij] by (auto simp: covers_def)
  obtain a r where ar: "parts = a @ r" "list_all2 (item_expands v c) (take i w) a"
    "list_all2 (item_expands v c) (slice i j w @ drop j w) r"
    using p(1) by (auto simp: list_all2_append1)
  obtain b' z where bz: "r = b' @ z" "list_all2 (item_expands v c) (slice i j w) b'"
    "list_all2 (item_expands v c) (drop j w) z"
    using ar(3) by (auto simp: list_all2_append1)
  have mono: "list_all2 (item_expands v' c) xs ys" if "list_all2 (item_expands v c) xs ys" for xs ys
    using that by (rule list_all2_mono) (rule item_expands_extends [OF ext])
  have "list_all2 (item_expands v' c) (replaceRange w i j it) (a @ [concat b] @ z)"
    unfolding replaceRange_def using mono [OF ar(2)] mono [OF bz(3)] it
    by (intro list_all2_appendI) simp_all
  moreover have "concat (a @ [concat b] @ z) = take n (log_ids v c)"
    using p(2) ar(1) bz(1) uniq [OF bz(2)] by simp
  moreover have "log_ids v' c = log_ids v c" using extends_log [OF ext] by (simp add: log_ids_def)
  ultimately show ?thesis using p(3) unfolding covers_def by metis
qed

lemma block_unique:
  assumes "dag_wf H v" "list_all2 (item_expands v c) B b" "list_all2 (item_expands v c) B b'"
  shows "b' = b"
proof (rule nth_equalityI)
  show "length b' = length b" using assms by (metis list_all2_lengthD)
  show "b' ! i = b ! i" if "i < length b'" for i
    using that assms item_expands_det [OF assms(1)] by (metis list_all2_conv_all_nth)
qed

section \<open>Rebuilding a window\<close>

lemma covers_snoc:
  assumes wf: "dag_wf H v" and sound: "dag_sound H v" and cov: "covers v c (w @ [x]) n"
  obtains k ids where "covers v c w k" "item_expands v c x ids" "n = k + length ids" "wi_latestSeq x = int n" "k < n"
proof -
  obtain a b z where s: "list_all2 (item_expands v c) w a" "list_all2 (item_expands v c) [x] b"
    "list_all2 (item_expands v c) [] z" "concat a @ concat b @ concat z = take n (log_ids v c)"
    "concat b \<noteq> []" "wi_latestSeq x = int (length (concat a)) + int (length (concat b))"
    by (rule covers_split [OF wf sound, of c w "[x]" "[]" n]) (use cov in simp, simp)
  obtain ids where b: "b = [ids]" "item_expands v c x ids" using s(2) by (auto simp: list_all2_Cons1)
  have n: "n \<le> length (log_ids v c)" using cov by (simp add: covers_def)
  have cat: "concat a @ ids = take n (log_ids v c)" using s(3,4) b(1) by simp
  then have len: "length (concat a) + length ids = n"
    using n by (metis length_append length_take min.absorb2)
  have "concat a = take (length (concat a)) (log_ids v c)"
    using cat len by (metis append_eq_conv_conj min.absorb1 le_add1 take_take)
  then have "covers v c w (length (concat a))"
    using s(1) n len unfolding covers_def by (metis add_leD1)
  then show ?thesis using that [of "length (concat a)" ids] b s(5,6) len by auto
qed

lemma fold_max_latest:
  assumes wf: "dag_wf H v" and sound: "dag_sound H v"
  shows "covers v c w n \<Longrightarrow> fold max (map wi_latestSeq w) 0 = int n"
proof (induction w arbitrary: n rule: rev_induct)
  case (snoc x w)
  obtain k ids where "covers v c w k" "wi_latestSeq x = int n" "k < n"
    using covers_snoc [OF wf sound snoc.prems] by blast
  with snoc.IH show ?case by simp
qed simp

lemma covers_item:
  assumes "covers v c w n" "it \<in> set w"
  shows "(\<exists>m \<in> set (log_of v c). it = message_item m)
    \<or> (\<exists>s \<in> set (dv_summaries v). sm_ConversationID s = c \<and> it = summary_item s)"
  using assms unfolding covers_def item_expands_def
  by (fastforce simp: list_all2_conv_all_nth in_set_conv_nth)

lemma covers_more:
  assumes "covers v c w n"
  shows "covers v c (w @ map message_item (drop n (log_of v c))) (length (log_of v c))"
proof -
  obtain parts where p: "list_all2 (item_expands v c) w parts" "concat parts = take n (log_ids v c)"
    "n \<le> length (log_ids v c)" using assms by (auto simp: covers_def)
  have "list_all2 (item_expands v c) (map message_item (drop n (log_of v c))) (map (\<lambda>m. [ms_ID m]) (drop n (log_of v c)))"
    by (auto simp: list_all2_conv_all_nth item_expands_def intro!: bexI)
  then have "list_all2 (item_expands v c) (w @ map message_item (drop n (log_of v c)))
      (parts @ map (\<lambda>m. [ms_ID m]) (drop n (log_of v c)))"
    by (rule list_all2_appendI [OF p(1)])
  moreover have "concat (map (\<lambda>m. [ms_ID m]) ms) = map ms_ID ms" for ms :: "message list"
    by (induction ms) auto
  then have "concat (parts @ map (\<lambda>m. [ms_ID m]) (drop n (log_of v c))) = take (length (log_of v c)) (log_ids v c)"
    using p(2) by (simp add: log_ids_def take_map flip: map_append)
  ultimately show ?thesis unfolding covers_def by (metis length_log_ids order_refl)
qed

text \<open>The messages behind the window: those with a larger number than it covers.\<close>

lemma sorted_log: "dag_wf H v \<Longrightarrow> sorted (map ms_Seq (log_of v c))"
  by (simp add: dag_wf_def del: upt_Suc)
    (auto simp del: upt_Suc simp: sorted_wrt_map intro: sorted_wrt_mono_rel [OF _ sorted_wrt_upt])

lemma log_after:
  assumes wf: "dag_wf H v"
  shows "sort_key ms_Seq (filter (\<lambda>m. ms_Seq m > int n) (log_of v c)) = drop n (log_of v c)"
proof -
  let ?L = "log_of v c"
  have a: "filter (\<lambda>m. ms_Seq m > int n) (take n ?L) = []"
    using log_seq [OF wf] by (fastforce simp: filter_empty_conv in_set_conv_nth)
  have b: "filter (\<lambda>m. ms_Seq m > int n) (drop n ?L) = drop n ?L"
    using log_seq [OF wf, of _ c] by (fastforce simp: filter_id_conv in_set_conv_nth)
  have "filter (\<lambda>m. ms_Seq m > int n) ?L = filter (\<lambda>m. ms_Seq m > int n) (take n ?L @ drop n ?L)" by simp
  also have "\<dots> = drop n ?L" using a b by (simp only: filter_append append.left_neutral)
  finally have "filter (\<lambda>m. ms_Seq m > int n) ?L = drop n ?L" .
  moreover have "sorted (map ms_Seq (drop n ?L))"
    using sorted_log [OF wf, of c] by (metis drop_map sorted_wrt_drop)
  ultimately show ?thesis by (simp add: sort_key_id_if_sorted)
qed

lemma message_block:
  assumes "list_all2 (item_expands v c) B b" "\<forall>it \<in> set B. is_message it"
  shows "concat b = map wi_refID B"
  using assms by (induction B b rule: list_all2_induct) (auto simp: item_expands_def)

section \<open>Storing a window\<close>

lemma set_window_simps [simp]:
  "dv_messages (set_window c x v) = dv_messages v" "dv_summaries (set_window c x v) = dv_summaries v"
  "dv_sources (set_window c x v) = dv_sources v" "dv_children (set_window c x v) = dv_children v"
  "dv_window (set_window c x v) = (dv_window v)(c := x)"
  by (simp_all add: set_window_def)

lemma set_window_reads [simp]:
  "log_of (set_window c x v) = log_of v" "log_ids (set_window c x v) = log_ids v"
  "find_summary (set_window c x v) = find_summary v" "summary_ids (set_window c x v) = summary_ids v"
  by (simp_all add: log_of_def log_ids_def find_summary_def summary_ids_def fun_eq_iff)

lemma expands_set_window [simp]: "expands (set_window c x v) sid ids \<longleftrightarrow> expands v sid ids"
  by (rule iffI; erule expands_cong) simp_all

lemma covers_set_window [simp]: "covers (set_window c x v) d w n \<longleftrightarrow> covers v d w n"
proof -
  have "item_expands (set_window c x v) d = item_expands v d" by (simp add: fun_eq_iff item_expands_def)
  then show ?thesis by (simp add: covers_def)
qed

lemma extends_set_window [simp]: "extends v (set_window c x v') \<longleftrightarrow> extends v v'"
  by (simp add: extends_def)

lemma dag_inv_set_window:
  assumes "dag_inv H v" "covers v c w n"
  shows "dag_inv H (set_window c (map item_ref w) v)"
proof -
  have "own_key (set_window c x v) s = own_key v s" "depth_ok (set_window c x v) s = depth_ok v s"
    "summary_sound (set_window c x v) = summary_sound v" for x s
    by (simp_all add: own_key_def depth_ok_def fun_eq_iff summary_sound_def span_of_def)
  moreover have "windows_ok (set_window c (map item_ref w) v)"
    using assms unfolding windows_ok_def dag_inv_def by auto
  moreover have "dag_wf H (set_window c (map item_ref w) v)" using assms(1) by (simp add: dag_inv_def dag_wf_def)
  ultimately show ?thesis using assms(1) unfolding dag_inv_def dag_sound_def set_window_simps by simp
qed

end
