(* ===== verification/Recall.thy ===== *)
theory Recall
  imports Service Cover "HOL-Library.Multiset"
begin

text \<open>
  \<open>internal/agents/recall.go\<close> and \<open>internal/agents/automatic_recall.go\<close>: search terms of a prompt,
  the ranking of message and summary hits under quotas, and the block injected into the model's
  context.  Term scores stay far below the bounds of \<open>int\<close>, so they are unbounded integers here.
\<close>

section \<open>Hits\<close>

type_synonym recall_kind = string

definition RecallMessage :: recall_kind where "RecallMessage = ''message''"

definition RecallSummary :: recall_kind where "RecallSummary = ''summary''"

record recall_hit =
  rh_Kind :: recall_kind
  rh_ID :: string
  rh_ConversationID :: string
  rh_Role :: role
  rh_Content :: string
  rh_Snippet :: string
  rh_TokenCount :: int
  rh_Seq :: int
  rh_Depth :: int
  rh_EarliestSeq :: int
  rh_LatestSeq :: int
  rh_CreatedAt :: time
  rh_Active :: bool
  rh_SourceRank :: int

definition MaxRecallItems :: int where "MaxRecallItems = 10"

definition MaxRecallCandidates :: int where "MaxRecallCandidates = 50"

definition MaxSummaryCandidates :: int where "MaxSummaryCandidates = 10"

definition MaxSummaryResults :: int where "MaxSummaryResults = 2"

definition MaxFreshTailRows :: int where "MaxFreshTailRows = 4096"

definition maxRecallSnippetRunes :: nat where "maxRecallSnippetRunes = 300"

definition maxRecallTerms :: nat where "maxRecallTerms = 12"

section \<open>The injected block\<close>

definition oneLine :: "string \<Rightarrow> string" where
  "oneLine s = Join (Fields s) '' ''"

definition truncateRunes :: "string \<Rightarrow> nat \<Rightarrow> string" where
  "truncateRunes value limit = cut_runes limit ''...'' value"

definition recallLine :: "recall_hit \<Rightarrow> string" where
  "recallLine hit =
     (let snippet = truncateRunes (oneLine (rh_Snippet hit)) maxRecallSnippetRunes in
      if rh_Kind hit = RecallSummary
      then ''- ['' @ rh_ID hit @ '' depth='' @ itoa (rh_Depth hit) @ '' seq='' @ itoa (rh_EarliestSeq hit)
        @ ''-'' @ itoa (rh_LatestSeq hit) @ ''; acm expand '' @ rh_ID hit @ ''] '' @ snippet
      else ''- ['' @ rh_ID hit @ '' seq='' @ itoa (rh_Seq hit) @ '' '' @ rh_Role hit
        @ ''; acm describe '' @ rh_ID hit @ ''] '' @ snippet)"

definition newline :: string where "newline = [CHR 0x0A]"

definition recall_header :: "string list" where
  "recall_header = [''<acm-recall>'', ''Relevant earlier context from this project'' @ [CHR 0x27]
     @ ''s history. Drill down for the'', ''source with acm describe <msg-id> or acm expand <sum-id>.'']"

definition RecallBlock :: "recall_hit list \<Rightarrow> string" where
  "RecallBlock hits =
     (if hits = [] then []
      else Join (recall_header @ map recallLine hits @ [''</acm-recall>'']) newline)"

section \<open>Search terms\<close>

definition stop_words :: "string list" where
  "stop_words = [''about'', ''after'', ''again'', ''also'', ''and'', ''back'', ''been'', ''before'', ''being'', ''can'',
     ''could'', ''did'', ''does'', ''explain'', ''fix'', ''for'', ''from'', ''have'', ''here'', ''how'', ''into'', ''just'',
     ''let'', ''like'', ''more'', ''now'', ''okay'', ''pick'', ''please'', ''should'', ''some'', ''than'', ''that'', ''the'',
     ''their'', ''them'', ''then'', ''there'', ''these'', ''they'', ''this'', ''those'', ''through'', ''want'', ''was'',
     ''were'', ''what'', ''when'', ''where'', ''which'', ''who'', ''why'', ''will'', ''with'', ''would'', ''yes'', ''you'',
     ''your'']"

definition useRecallTerm :: "string \<Rightarrow> bool" where
  "useRecallTerm term =
     (if length (runes term) < 3 \<and> term \<notin> set [''go'', ''db'', ''ci'', ''ui'', ''pr''] then False
      else term \<notin> set stop_words)"

fun recall_terms_loop :: "unicode \<Rightarrow> string list \<Rightarrow> string list \<Rightarrow> string list" where
  "recall_terms_loop U [] terms = terms"
| "recall_terms_loop U (field # rest) terms =
     (let term = ToLower U field in
      if \<not> useRecallTerm term \<or> term \<in> set terms then recall_terms_loop U rest terms
      else if length (terms @ [term]) = maxRecallTerms then terms @ [term]
      else recall_terms_loop U rest (terms @ [term]))"

definition RecallTerms :: "unicode \<Rightarrow> string \<Rightarrow> string list" where
  "RecallTerms U prompt =
     (let terms = recall_terms_loop U (FieldsFunc (\<lambda>r. \<not> IsLetter U r \<and> \<not> IsNumber U r) prompt) [] in
      if length terms < 2 then [] else terms)"

section \<open>Candidates\<close>

definition MessageRecallHits :: "search_hit list \<Rightarrow> string set \<Rightarrow> recall_hit list" where
  "MessageRecallHits hits excluded =
     map (\<lambda>(rank, hit). let m = sh_Message hit in
         \<lparr>rh_Kind = RecallMessage, rh_ID = ms_ID m, rh_ConversationID = ms_ConversationID m, rh_Role = ms_Role m,
          rh_Content = ms_Content m, rh_Snippet = sh_Snippet hit, rh_TokenCount = ms_TokenCount m, rh_Seq = ms_Seq m,
          rh_Depth = 0, rh_EarliestSeq = 0, rh_LatestSeq = 0, rh_CreatedAt = ms_CreatedAt m, rh_Active = False,
          rh_SourceRank = int rank\<rparr>)
       (filter (\<lambda>(rank, hit). ms_ID (sh_Message hit) \<notin> excluded) (enumerate 0 hits))"

definition SummaryRecallHits :: "summary_hit list \<Rightarrow> recall_hit list" where
  "SummaryRecallHits hits =
     map (\<lambda>(rank, hit). let s = mh_Summary hit in
         \<lparr>rh_Kind = RecallSummary, rh_ID = sm_ID s, rh_ConversationID = sm_ConversationID s, rh_Role = [],
          rh_Content = sm_Content s, rh_Snippet = mh_Snippet hit, rh_TokenCount = sm_TokenCount s, rh_Seq = 0,
          rh_Depth = sm_Depth s, rh_EarliestSeq = sm_EarliestSeq s, rh_LatestSeq = sm_LatestSeq s,
          rh_CreatedAt = sm_CreatedAt s, rh_Active = mh_Active hit, rh_SourceRank = int rank\<rparr>)
       (enumerate 0 hits)"

section \<open>Ranking\<close>

text \<open>\<open>Time.Sub\<close> saturates at the bounds of \<open>Duration\<close>.\<close>

definition time_Sub :: "time \<Rightarrow> time \<Rightarrow> duration" where
  "time_Sub a b = max (- (2 ^ 63)) (min (2 ^ 63 - 1) (a - b))"

definition time_Hour :: duration where "time_Hour = 3600 * 10 ^ 9"

definition recencyRecallScore :: "duration \<Rightarrow> int" where
  "recencyRecallScore age =
     (if age < 24 * time_Hour then 30 else if age < 7 * 24 * time_Hour then 20
      else if age < 30 * 24 * time_Hour then 10 else 0)"

definition roleRecallScore :: "role \<Rightarrow> int" where
  "roleRecallScore role =
     (if role = RoleAssistant then 100 else if role = RoleUser then 80 else if role = RoleSystem then 40 else 0)"

definition recallScore :: "unicode \<Rightarrow> recall_hit \<Rightarrow> string list \<Rightarrow> string \<Rightarrow> time \<Rightarrow> int" where
  "recallScore U hit terms conversationID now =
     (let content = ToLower U (rh_Content hit);
          matched = int (length (filter (\<lambda>term. Contains content term) terms));
          score = matched * 100 + max (25 - rh_SourceRank hit) 0
            + (if rh_ConversationID hit = conversationID then 75 else 0)
            + recencyRecallScore (max (time_Sub now (rh_CreatedAt hit)) 0) in
      if rh_Kind hit = RecallSummary then score + 60 + (if rh_Active hit then 40 else 0)
      else score + roleRecallScore (rh_Role hit)
        - (if rh_Role hit = RoleTool then min (go_div (rh_TokenCount hit) 200) 50 else 0))"

definition withinRecallQuota :: "recall_kind \<Rightarrow> int \<Rightarrow> int \<Rightarrow> int \<Rightarrow> bool" where
  "withinRecallQuota kind messages summaries limit =
     (if kind = RecallSummary then summaries < min MaxSummaryResults limit
      else messages < min limit MaxRecallItems)"

definition better_index ::
  "recall_hit list \<Rightarrow> int list \<Rightarrow> bool list \<Rightarrow> int \<Rightarrow> int \<Rightarrow> int \<Rightarrow> nat \<Rightarrow> int \<Rightarrow> int" where
  "better_index hits scores selected messages summaries limit i best =
     (if selected ! i \<or> \<not> withinRecallQuota (rh_Kind (hits ! i)) messages summaries limit
         \<or> (best \<ge> 0 \<and> scores ! i \<le> scores ! nat best)
      then best else int i)"

definition bestRecallIndex :: "recall_hit list \<Rightarrow> int list \<Rightarrow> bool list \<Rightarrow> int \<Rightarrow> int \<Rightarrow> int \<Rightarrow> int" where
  "bestRecallIndex hits scores selected messages summaries limit =
     fold (better_index hits scores selected messages summaries limit) [0..<length scores] (-1)"

fun rank_loop ::
  "recall_hit list \<Rightarrow> int list \<Rightarrow> int \<Rightarrow> nat \<Rightarrow> bool list \<Rightarrow> recall_hit list \<Rightarrow> int \<Rightarrow> int \<Rightarrow> recall_hit list" where
  "rank_loop hits scores limit 0 selected out messageCount summaryCount = out"
| "rank_loop hits scores limit (Suc n) selected out messageCount summaryCount =
     (let best = bestRecallIndex hits scores selected messageCount summaryCount limit in
      if best < 0 then out
      else let hit = hits ! nat best in
        if rh_Kind hit = RecallSummary
        then rank_loop hits scores limit n (selected[nat best := True]) (out @ [hit]) messageCount (summaryCount + 1)
        else rank_loop hits scores limit n (selected[nat best := True]) (out @ [hit]) (messageCount + 1) summaryCount)"

definition RankRecall :: "unicode \<Rightarrow> recall_hit list \<Rightarrow> string list \<Rightarrow> string \<Rightarrow> time \<Rightarrow> int \<Rightarrow> recall_hit list" where
  "RankRecall U hits terms conversationID now limit =
     (if limit \<le> 0 \<or> hits = [] then []
      else let scores = map (\<lambda>hit. recallScore U hit terms conversationID now) hits in
        rank_loop hits scores limit (nat (min limit (min (int (length hits)) MaxRecallItems)))
          (replicate (length hits) False) [] 0 0)"

section \<open>Automatic recall\<close>

record 'st recall_store =
  rs_RecentConversationalMessageIDs :: "string \<Rightarrow> int \<Rightarrow> int \<Rightarrow> int \<Rightarrow> ('st, string list) prog"
  rs_SearchMessages :: "search_query \<Rightarrow> ('st, search_hit list) prog"
  rs_SearchSummaries :: "search_query \<Rightarrow> ('st, summary_hit list) prog"

record recall_request =
  rr_Agent :: agent
  rr_SessionID :: string
  rr_Prompt :: string
  rr_Limit :: int
  rr_FreshTailMessages :: int
  rr_FreshTailTokens :: int
  rr_Now :: time

definition RecallCandidateLimits :: "int \<Rightarrow> int \<times> int" where
  "RecallCandidateLimits limit =
     (let total = min MaxRecallCandidates (max limit 1 * 10);
          summaries = min MaxSummaryCandidates (max (go_div total 5) 1)
      in (total - summaries, summaries))"

definition automaticFreshTail :: "'st recall_store \<Rightarrow> string \<Rightarrow> recall_request \<Rightarrow> ('st, string set) prog" where
  "automaticFreshTail store conversationID request =
     bindE (wrapE ''agents: load fresh tail'' (rs_RecentConversationalMessageIDs store conversationID
              (rr_FreshTailMessages request) (rr_FreshTailTokens request) MaxFreshTailRows))
       (\<lambda>ids. ret (set ids))"

definition AutomaticRecall :: "hash \<Rightarrow> unicode \<Rightarrow> 'st recall_store \<Rightarrow> recall_request \<Rightarrow> ('st, recall_hit list) prog" where
  "AutomaticRecall H U store request =
     (if rr_Limit request < 0 \<or> rr_Limit request > MaxRecallItems
         \<or> rr_FreshTailMessages request < 0 \<or> rr_FreshTailTokens request < 0
      then fail (Errorf ''agents: invalid automatic recall limits'' [])
      else let terms = RecallTerms U (rr_Prompt request) in
      if rr_Limit request = 0 \<or> terms = [] then ret []
      else let conversationID = DeriveConversationID H (rr_Agent request) (rr_SessionID request) in
      bindE (automaticFreshTail store conversationID request) (\<lambda>excluded.
      case RecallCandidateLimits (rr_Limit request) of (messageLimit, summaryLimit) \<Rightarrow>
      let query = \<lparr>sq_Text = Join terms '' '', sq_Mode = SearchFTS, sq_ConversationID = [],
                   sq_Limit = messageLimit, sq_Any = True\<rparr> in
      bindE (wrapE ''agents: search messages'' (rs_SearchMessages store query)) (\<lambda>messages.
      bindE (wrapE ''agents: search summaries'' (rs_SearchSummaries store (query\<lparr>sq_Limit := summaryLimit\<rparr>))) (\<lambda>summaries.
      ret (RankRecall U (MessageRecallHits messages excluded @ SummaryRecallHits summaries)
             terms conversationID (rr_Now request) (rr_Limit request))))))"

section \<open>What ranking promises\<close>

text \<open>The hits that a round of the selection may take.\<close>

definition recall_candidate :: "recall_hit list \<Rightarrow> bool list \<Rightarrow> int \<Rightarrow> int \<Rightarrow> int \<Rightarrow> nat \<Rightarrow> bool" where
  "recall_candidate hits selected m s limit i \<longleftrightarrow>
     \<not> selected ! i \<and> withinRecallQuota (rh_Kind (hits ! i)) m s limit"

text \<open>One round takes the best candidate, the first one among equals.\<close>

lemma better_index_fold:
  fixes hits scores sel m s limit k
  defines "cand \<equiv> recall_candidate hits sel m s limit"
  shows "(fold (better_index hits scores sel m s limit) [0..<k] (-1) = -1 \<and> (\<forall>i < k. \<not> cand i))
    \<or> (\<exists>b < k. fold (better_index hits scores sel m s limit) [0..<k] (-1) = int b \<and> cand b \<and> (\<forall>i < k. cand i \<longrightarrow> scores ! i \<le> scores ! b \<and> (i < b \<longrightarrow> scores ! i < scores ! b)))"
proof (induction k)
  case (Suc k)
  let ?b = "fold (better_index hits scores sel m s limit) [0..<k] (-1)"
  have step: "fold (better_index hits scores sel m s limit) [0..<Suc k] (-1)
      = (if \<not> cand k \<or> (?b \<ge> 0 \<and> scores ! k \<le> scores ! nat ?b) then ?b else int k)"
    by (simp add: better_index_def cand_def recall_candidate_def)
  from Suc.IH show ?case
  proof
    assume b: "?b = -1 \<and> (\<forall>i < k. \<not> cand i)"
    then show ?thesis by (auto simp only: step less_Suc_eq split: if_splits)
  next
    assume "\<exists>b < k. ?b = int b \<and> cand b \<and> (\<forall>i < k. cand i \<longrightarrow> scores ! i \<le> scores ! b \<and> (i < b \<longrightarrow> scores ! i < scores ! b))"
    then obtain b where b: "b < k" "?b = int b" "cand b"
      "\<forall>i < k. cand i \<longrightarrow> scores ! i \<le> scores ! b \<and> (i < b \<longrightarrow> scores ! i < scores ! b)" by blast
    show ?thesis
    proof (cases "cand k \<and> scores ! b < scores ! k")
      case True
      then have "fold (better_index hits scores sel m s limit) [0..<Suc k] (-1) = int k"
        unfolding step using b(2) by simp
      then show ?thesis using True b(4) by (intro disjI2 exI [of _ k]) (force simp: less_Suc_eq)
    next
      case False
      then have "fold (better_index hits scores sel m s limit) [0..<Suc k] (-1) = int b"
        unfolding step using b(2) by auto
      then show ?thesis using False b by (intro disjI2 exI [of _ b]) (auto simp: less_Suc_eq)
    qed
  qed
qed simp

text \<open>
  The specification of the ranking, over the indexes of the chosen hits in the order they were
  chosen: distinct, by descending score, at most two summaries, and nothing left behind outranks a
  chosen hit unless it is a summary beyond the quota.
\<close>

definition summaries_in :: "recall_hit list \<Rightarrow> nat list \<Rightarrow> int" where
  "summaries_in hits picks = int (length (filter (\<lambda>i. rh_Kind (hits ! i) = RecallSummary) picks))"

definition well_ranked :: "recall_hit list \<Rightarrow> int list \<Rightarrow> int \<Rightarrow> nat list \<Rightarrow> bool" where
  "well_ranked hits scores limit picks \<longleftrightarrow>
     distinct picks \<and> set picks \<subseteq> {..<length hits}
     \<and> summaries_in hits picks \<le> min MaxSummaryResults limit
     \<and> sorted_wrt (\<lambda>i j. scores ! j \<le> scores ! i) picks
     \<and> (\<forall>i \<in> set picks. \<forall>j < length hits. j \<in> set picks \<or> scores ! j \<le> scores ! i
          \<or> (rh_Kind (hits ! j) = RecallSummary \<and> summaries_in hits picks = min MaxSummaryResults limit))"

lemma messages_in: "int (length picks) - summaries_in hits picks = int (length (filter (\<lambda>i. rh_Kind (hits ! i) \<noteq> RecallSummary) picks))"
  using sum_length_filter_compl [of "\<lambda>i. rh_Kind (hits ! i) = RecallSummary" picks] by (simp add: summaries_in_def)

lemma summaries_in_Nil [simp]: "summaries_in hits [] = 0"
  by (simp add: summaries_in_def)

lemma summaries_in_snoc [simp]:
  "summaries_in hits (picks @ [b]) = summaries_in hits picks + (if rh_Kind (hits ! b) = RecallSummary then 1 else 0)"
  by (simp add: summaries_in_def)

lemma quota_full:
  assumes "s \<le> min MaxSummaryResults limit" and "m < min limit MaxRecallItems"
    and "\<not> withinRecallQuota kind m s limit"
  shows "kind = RecallSummary \<and> s = min MaxSummaryResults limit"
  using assms by (auto simp only: withinRecallQuota_def not_less order.eq_iff not_le split: if_splits)

lemma well_ranked_snoc:
  assumes "well_ranked hits scores limit picks" and "b < length hits" "b \<notin> set picks"
    and "withinRecallQuota (rh_Kind (hits ! b)) m (summaries_in hits picks) limit"
    and max: "\<And>j. j < length hits \<Longrightarrow> j \<notin> set picks \<Longrightarrow>
      withinRecallQuota (rh_Kind (hits ! j)) m (summaries_in hits picks) limit \<Longrightarrow> scores ! j \<le> scores ! b"
    and m: "m < min limit MaxRecallItems"
  shows "well_ranked hits scores limit (picks @ [b])"
proof -
  let ?q = "min MaxSummaryResults limit"
  have quota: "summaries_in hits picks < ?q" if "rh_Kind (hits ! b) = RecallSummary"
    using assms(4) that by (simp add: withinRecallQuota_def)
  have after: "scores ! b \<le> scores ! i" if "i \<in> set picks" for i
    using assms(1,2,3) that quota unfolding well_ranked_def by fastforce
  have q: "summaries_in hits picks \<le> ?q" using assms(1) by (simp add: well_ranked_def)
  have rest: "scores ! j \<le> scores ! b \<or> (rh_Kind (hits ! j) = RecallSummary \<and> summaries_in hits picks = ?q)"
    if "j < length hits" "j \<notin> set picks" for j
    using max [OF that] quota_full [OF q m] by blast
  have same: "rh_Kind (hits ! b) \<noteq> RecallSummary" if "summaries_in hits picks = ?q"
    using quota that by auto
  show ?thesis
    unfolding well_ranked_def
  proof (intro conjI ballI allI impI)
    fix i j assume "i \<in> set (picks @ [b])" "j < length hits"
    then show "j \<in> set (picks @ [b]) \<or> scores ! j \<le> scores ! i
        \<or> (rh_Kind (hits ! j) = RecallSummary \<and> summaries_in hits (picks @ [b]) = ?q)"
      using rest [of j] same assms(1) unfolding well_ranked_def by auto
  qed (use assms(1-3) quota after in \<open>auto simp: well_ranked_def sorted_wrt_append\<close>)
qed

lemma rank_loop_ranked:
  assumes "well_ranked hits scores limit picks" and len: "length scores = length hits"
    and sel: "\<forall>i < length hits. selected ! i \<longleftrightarrow> i \<in> set picks" "length selected = length hits"
    and out: "out = map ((!) hits) picks" and s: "s = summaries_in hits picks" and m: "m = int (length picks) - s"
    and n: "length picks + n \<le> nat (min limit MaxRecallItems)"
  shows "\<exists>picks'. rank_loop hits scores limit n selected out m s = map ((!) hits) picks'
    \<and> well_ranked hits scores limit picks' \<and> length picks' \<le> length picks + n
    \<and> (length picks' < length picks + n \<longrightarrow>
         (\<forall>j < length hits. j \<in> set picks' \<or> (rh_Kind (hits ! j) = RecallSummary \<and> summaries_in hits picks' = min MaxSummaryResults limit)))"
  using assms
proof (induction n arbitrary: picks selected out m s)
  case (Suc n)
  let ?best = "bestRecallIndex hits scores selected m s limit"
  let ?cand = "recall_candidate hits selected m s limit"
  have cand: "?cand i \<longleftrightarrow> i \<notin> set picks \<and> withinRecallQuota (rh_Kind (hits ! i)) m s limit" if "i < length hits" for i
    using Suc.prems(3) that by (simp add: recall_candidate_def)
  have m_less: "m < min limit MaxRecallItems"
    using Suc.prems(6-8) by (auto simp: summaries_in_def)
  have q: "s \<le> min MaxSummaryResults limit"
    using Suc.prems(1,6) by (simp add: well_ranked_def)
  consider "?best = -1" "\<forall>i < length hits. \<not> ?cand i"
    | b where "b < length hits" "?best = int b" "?cand b" "\<forall>i < length hits. ?cand i \<longrightarrow> scores ! i \<le> scores ! b"
    using better_index_fold [where k = "length scores" and hits = hits and scores = scores and sel = selected and m = m and s = s and limit = limit] Suc.prems(2)
    unfolding bestRecallIndex_def by auto
  then show ?case
  proof cases
    case 1
    have "\<forall>j < length hits. j \<in> set picks \<or> (rh_Kind (hits ! j) = RecallSummary \<and> summaries_in hits picks = min MaxSummaryResults limit)"
      using 1(2) cand quota_full [OF q m_less] Suc.prems(6) by blast
    then show ?thesis using 1 Suc.prems by (intro exI [of _ picks]) simp
  next
    case 2
    let ?k = "if rh_Kind (hits ! b) = RecallSummary then 1 else (0::int)"
    have ranked: "well_ranked hits scores limit (picks @ [b])"
      using 2 cand m_less Suc.prems(1,6) by (intro well_ranked_snoc [where m = m]) auto
    have "\<exists>picks'. rank_loop hits scores limit n (selected[b := True]) (out @ [hits ! b]) (m + (1 - ?k)) (s + ?k) = map ((!) hits) picks'
      \<and> well_ranked hits scores limit picks' \<and> length picks' \<le> length (picks @ [b]) + n
      \<and> (length picks' < length (picks @ [b]) + n \<longrightarrow>
           (\<forall>j < length hits. j \<in> set picks' \<or> (rh_Kind (hits ! j) = RecallSummary \<and> summaries_in hits picks' = min MaxSummaryResults limit)))"
      by (rule Suc.IH [OF ranked]) (use Suc.prems 2 in \<open>auto simp: nth_list_update\<close>)
    then show ?thesis
      using 2(2) by (cases "rh_Kind (hits ! b) = RecallSummary") (simp_all add: Let_def)
  qed
qed auto

lemma RankRecall_ranked:
  "\<exists>picks. RankRecall U hits terms cid now limit = map ((!) hits) picks
    \<and> well_ranked hits (map (\<lambda>hit. recallScore U hit terms cid now) hits) (max limit 0) picks
    \<and> int (length picks) \<le> min (max limit 0) MaxRecallItems
    \<and> (int (length picks) < min (max limit 0) MaxRecallItems \<longrightarrow>
         (\<forall>j < length hits. j \<in> set picks \<or> (rh_Kind (hits ! j) = RecallSummary \<and> summaries_in hits picks = min MaxSummaryResults limit)))"
proof (cases "limit \<le> 0 \<or> hits = []")
  case True
  then show ?thesis
    by (intro exI [of _ "[]"]) (auto simp: RankRecall_def well_ranked_def summaries_in_def MaxSummaryResults_def MaxRecallItems_def)
next
  case False
  let ?scores = "map (\<lambda>hit. recallScore U hit terms cid now) hits"
  let ?n = "nat (min limit (min (int (length hits)) MaxRecallItems))"
  have start: "well_ranked hits ?scores limit []"
    using False by (auto simp: well_ranked_def MaxSummaryResults_def)
  have n: "length ([]::nat list) + ?n \<le> nat (min limit MaxRecallItems)" by (auto intro: nat_mono)
  have "\<exists>picks'. rank_loop hits ?scores limit ?n (replicate (length hits) False) [] 0 0 = map ((!) hits) picks'
    \<and> well_ranked hits ?scores limit picks' \<and> length picks' \<le> length ([]::nat list) + ?n
    \<and> (length picks' < length ([]::nat list) + ?n \<longrightarrow>
         (\<forall>j < length hits. j \<in> set picks' \<or> (rh_Kind (hits ! j) = RecallSummary \<and> summaries_in hits picks' = min MaxSummaryResults limit)))"
    by (rule rank_loop_ranked [OF start _ _ _ _ _ _ n]) auto
  then obtain picks where p: "rank_loop hits ?scores limit ?n (replicate (length hits) False) [] 0 0 = map ((!) hits) picks"
    "well_ranked hits ?scores limit picks" "length picks \<le> ?n"
    "length picks < ?n \<longrightarrow> (\<forall>j < length hits. j \<in> set picks \<or> (rh_Kind (hits ! j) = RecallSummary \<and> summaries_in hits picks = min MaxSummaryResults limit))"
    by auto
  have all: "\<forall>j < length hits. j \<in> set picks" if "length hits \<le> length picks"
  proof -
    have "card (set picks) = length picks" "set picks \<subseteq> {..<length hits}"
      using p(2) by (auto simp: well_ranked_def distinct_card)
    with that have "set picks = {..<length hits}" by (intro card_seteq) auto
    then show ?thesis by auto
  qed
  show ?thesis
    using p False all by (intro exI [of _ picks]) (auto simp: RankRecall_def MaxRecallItems_def)
qed

section \<open>Terms and lines\<close>

lemma recall_terms_loop_spec:
  assumes "distinct terms" "\<forall>t \<in> set terms. useRecallTerm t" "length terms < maxRecallTerms"
  shows "distinct (recall_terms_loop U fs terms) \<and> length (recall_terms_loop U fs terms) \<le> maxRecallTerms
    \<and> (\<forall>t \<in> set (recall_terms_loop U fs terms). useRecallTerm t)"
  using assms
proof (induction U fs terms rule: recall_terms_loop.induct)
  case (2 U field rest terms)
  let ?t = "ToLower U field"
  consider "\<not> useRecallTerm ?t \<or> ?t \<in> set terms"
    | "useRecallTerm ?t" "?t \<notin> set terms" "length (terms @ [?t]) = maxRecallTerms"
    | "useRecallTerm ?t" "?t \<notin> set terms" "length (terms @ [?t]) < maxRecallTerms"
    using 2(5) by fastforce
  then show ?case
  proof cases
    case 1
    then have "recall_terms_loop U (field # rest) terms = recall_terms_loop U rest terms" by (simp add: Let_def)
    with 2(1) [OF refl 1] 2(3-5) show ?thesis by simp
  next
    case 2
    then have "recall_terms_loop U (field # rest) terms = terms @ [?t]" by (simp add: Let_def)
    with 2 \<open>distinct terms\<close> \<open>\<forall>t \<in> set terms. useRecallTerm t\<close> show ?thesis by simp
  next
    case 3
    then have "recall_terms_loop U (field # rest) terms = recall_terms_loop U rest (terms @ [?t])" by (simp add: Let_def)
    moreover have "\<not> (\<not> useRecallTerm ?t \<or> ?t \<in> set terms)" "length (terms @ [?t]) \<noteq> maxRecallTerms"
      using 3 by simp_all
    ultimately show ?thesis using 2(2) [OF refl] 2(3,4) 3 by simp
  qed
qed simp

lemma RecallTerms_spec:
  "distinct (RecallTerms U prompt) \<and> length (RecallTerms U prompt) \<le> maxRecallTerms \<and> length (RecallTerms U prompt) \<noteq> 1
    \<and> (\<forall>t \<in> set (RecallTerms U prompt). useRecallTerm t)"
  using recall_terms_loop_spec [of "[]" U] by (auto simp: RecallTerms_def Let_def maxRecallTerms_def)

lemma fields_no_newline:
  assumes "\<forall>(r, b) \<in> set cs. CHR 0x0A \<in> set b \<longrightarrow> p r" "CHR 0x0A \<notin> set cur" "x \<in> set (fields_chunks p cs cur)"
  shows "CHR 0x0A \<notin> set x"
  using assms by (induction p cs cur rule: fields_chunks.induct) (auto split: if_splits)

lemma Join_chars: "c \<in> set (Join xs sep) \<Longrightarrow> c \<in> set sep \<or> (\<exists>x \<in> set xs. c \<in> set x)"
  by (induction xs sep rule: Join.induct) auto

lemma oneLine_newline: "CHR 0x0A \<notin> set (oneLine s)"
proof
  assume "CHR 0x0A \<in> set (oneLine s)"
  then obtain x where x: "x \<in> set (Fields s)" "CHR 0x0A \<in> set x"
    by (auto simp: oneLine_def dest: Join_chars)
  have "\<forall>(r, b) \<in> set (chunks s). CHR 0x0A \<in> set b \<longrightarrow> IsSpace r"
  proof (clarify)
    fix r b assume rb: "(r, b) \<in> set (chunks s)" "CHR 0x0A \<in> set b"
    have "r = 10" using chunk_ascii [OF rb] by (simp add: byte_def)
    then show "IsSpace r" by (simp add: IsSpace_def in_range_def)
  qed
  from fields_no_newline [OF this, where cur = "[]"] x show False by (auto simp: Fields_def FieldsFunc_def)
qed

lemma truncateRunes_newline: "CHR 0x0A \<notin> set s \<Longrightarrow> CHR 0x0A \<notin> set (truncateRunes s n)"
  by (auto simp: truncateRunes_def newline_rune runes_cut_runes dest: in_set_takeD)
    (simp add: runes_def decode_rune_def byte_def)

lemma itoa_newline: "CHR 0x0A \<notin> set (itoa i)"
  using digits_range [of "CHR 0x0A"] by (auto simp: itoa_def)

lemma split_on_no: "c \<notin> set x \<Longrightarrow> split_on c x = [x]"
  by (induction x) auto

lemma split_on_append: "c \<notin> set x \<Longrightarrow> split_on c (x @ c # rest) = x # split_on c rest"
  by (induction x) auto

lemma split_on_Join: "xs \<noteq> [] \<Longrightarrow> \<forall>x \<in> set xs. c \<notin> set x \<Longrightarrow> split_on c (Join xs [c]) = xs"
  by (induction xs "[c]" rule: Join.induct) (auto simp: split_on_no split_on_append)

section \<open>The fresh tail the recall leaves out\<close>

text \<open>\<open>RecentConversationalMessageIDs\<close> walks the conversational messages the way the engine walks
  its window.\<close>

lemma take_recent_tail:
  "take_recent mn tk n ids tok (take n (filter (\<lambda>m. ms_Role m \<noteq> RoleTool) ms))
     = ids @ take n (map wi_refID (tail_items mn tk (int (length ids)) tok (map message_item ms)))"
proof (induction ms arbitrary: n ids tok)
  case Nil
  then show ?case by (cases n) auto
next
  case (Cons m ms)
  have conv: "isConversationalMessage (message_item m) \<longleftrightarrow> ms_Role m \<noteq> RoleTool"
    by (simp add: isConversationalMessage_def message_item_def)
  show ?case
  proof (cases n)
    case (Suc k)
    show ?thesis
    proof (cases "ms_Role m = RoleTool")
      case True
      have stop: "take_recent mn tk n ids tok rows = ids" if "\<not> (int (length ids) < mn \<or> tok < tk)" for rows
        using that Suc by simp
      show ?thesis
      proof (cases "int (length ids) < mn \<or> tok < tk")
        case True
        with \<open>ms_Role m = RoleTool\<close> conv show ?thesis using Cons.IH [of n ids tok] by simp
      next
        case False
        then show ?thesis using stop by simp
      qed
    next
      case False
      have item: "wi_refID (message_item m) = ms_ID m" "wi_tokens (message_item m) = ms_TokenCount m"
        by (simp_all add: message_item_def)
      show ?thesis
        using False conv Cons.IH [of k "ids @ [ms_ID m]" "tok + ms_TokenCount m"] item Suc
        by (simp add: add.commute)
    qed
  qed simp
qed

lemma order_desc_sorted:
  assumes "distinct (map f xs)" "sorted (map f xs)"
  shows "order_desc f xs = rev xs"
proof -
  have one: "filter (\<lambda>x. f k = f x) ys = [k]" if "k \<in> set xs" "ys = xs \<or> ys = rev xs" for k ys
    using filter_key_unique [of f ys k] assms(1) that by (auto simp: eq_commute rev_map [symmetric])
  have "sort_key f (rev xs) = xs"
    by (rule properties_for_sort_key) (use one assms(2) in auto)
  then show ?thesis by (simp add: order_desc_def)
qed

lemma recent_rows:
  assumes wf: "wf_tables H t" and c: "c \<in> conversation_ids t"
  shows "order_desc ms_Seq (filter p (conversation_log t c)) = filter p (rev (conversation_log t c))"
proof -
  have seq: "map ms_Seq (conversation_log t c) = map int [1..<Suc (length (conversation_log t c))]"
    using wf c by (simp add: wf_tables_def wf_messages_def)
  have "distinct (map ms_Seq (conversation_log t c))" "sorted (map ms_Seq (conversation_log t c))"
    unfolding seq
    by (auto simp del: upt_Suc simp: distinct_map sorted_wrt_map intro: sorted_wrt_mono_rel [OF _ sorted_wrt_upt])
  then have "distinct (map ms_Seq (filter p (conversation_log t c)))" "sorted (map ms_Seq (filter p (conversation_log t c)))"
    by (simp_all add: distinct_map_filter sorted_filter)
  then show ?thesis by (simp add: order_desc_sorted rev_filter)
qed

lemma unknown_log: "wf_tables H t \<Longrightarrow> c \<notin> conversation_ids t \<Longrightarrow> conversation_log t c = []"
  by (auto simp: wf_tables_def wf_messages_def conversation_log_def filter_empty_conv)

definition protected_tail_ids :: "tables \<Rightarrow> string \<Rightarrow> int \<Rightarrow> int \<Rightarrow> string list" where
  "protected_tail_ids t c mn tk = map wi_refID (fresh_tail mn tk (map message_item (conversation_log t c)))"

lemma recent_ids:
  assumes wf: "wf_tables H t" and n: "0 \<le> n"
  shows "take_recent mn tk (nat n) [] 0 (sql_limit n (order_desc ms_Seq (filter (\<lambda>m. ms_Role m \<noteq> RoleTool) (conversation_log t c))))
    = take (nat n) (protected_tail_ids t c mn tk)"
proof -
  have "order_desc ms_Seq (filter (\<lambda>m. ms_Role m \<noteq> RoleTool) (conversation_log t c))
      = filter (\<lambda>m. ms_Role m \<noteq> RoleTool) (rev (conversation_log t c))"
  proof (cases "c \<in> conversation_ids t")
    case False
    then show ?thesis by (simp add: unknown_log [OF wf] order_desc_def)
  qed (rule recent_rows [OF wf])
  with n show ?thesis
    using take_recent_tail [of mn tk "nat n" "[]" 0 "rev (conversation_log t c)"]
    by (simp add: sql_limit_def protected_tail_ids_def fresh_tail_def rev_map)
qed

section \<open>What automatic recall relies on\<close>

text \<open>
  The abstract state of a recall store is the stored messages, the stored summaries and the
  protected tail of each conversation.  Searches return stored rows, at most as many as asked for.
\<close>

record recall_view =
  rv_messages :: "message set"
  rv_summaries :: "summary set"
  rv_tail :: "string \<Rightarrow> int \<Rightarrow> int \<Rightarrow> string list"

locale recall_store =
  fixes S :: "'st recall_store" and at :: "recall_view \<Rightarrow> 'st \<Rightarrow> bool"
  assumes recent: "hoare (at v) (rs_RecentConversationalMessageIDs S c mn tk rows)
      (\<lambda>ids s. at v s \<and> ids = take (nat rows) (rv_tail v c mn tk)) (\<lambda>_. at v)"
    and search_messages: "0 < sq_Limit q \<Longrightarrow> hoare (at v) (rs_SearchMessages S q)
      (\<lambda>hits s. at v s \<and> sh_Message ` set hits \<subseteq> rv_messages v \<and> int (length hits) \<le> sq_Limit q) (\<lambda>_. at v)"
    and search_summaries: "0 < sq_Limit q \<Longrightarrow> hoare (at v) (rs_SearchSummaries S q)
      (\<lambda>hits s. at v s \<and> mh_Summary ` set hits \<subseteq> rv_summaries v \<and> int (length hits) \<le> sq_Limit q) (\<lambda>_. at v)"

text \<open>What a hit stands for.\<close>

definition message_recalled :: "message \<Rightarrow> recall_hit \<Rightarrow> bool" where
  "message_recalled m h \<longleftrightarrow> rh_Kind h = RecallMessage \<and> rh_ID h = ms_ID m \<and> rh_ConversationID h = ms_ConversationID m
     \<and> rh_Role h = ms_Role m \<and> rh_Content h = ms_Content m \<and> rh_Seq h = ms_Seq m \<and> rh_TokenCount h = ms_TokenCount m"

definition summary_recalled :: "summary \<Rightarrow> recall_hit \<Rightarrow> bool" where
  "summary_recalled s h \<longleftrightarrow> rh_Kind h = RecallSummary \<and> rh_ID h = sm_ID s \<and> rh_ConversationID h = sm_ConversationID s
     \<and> rh_Content h = sm_Content s \<and> rh_EarliestSeq h = sm_EarliestSeq s \<and> rh_LatestSeq h = sm_LatestSeq s
     \<and> rh_Depth h = sm_Depth s"

lemma kinds_differ [simp]: "RecallMessage \<noteq> RecallSummary" "RecallSummary \<noteq> RecallMessage"
  by (simp_all add: RecallMessage_def RecallSummary_def)

lemma MessageRecallHits_stored:
  "h \<in> set (MessageRecallHits hits X) \<Longrightarrow> \<exists>m \<in> sh_Message ` set hits. message_recalled m h \<and> ms_ID m \<notin> X"
  by (fastforce simp: MessageRecallHits_def message_recalled_def Let_def in_set_enumerate_eq)

lemma SummaryRecallHits_stored:
  "h \<in> set (SummaryRecallHits hits) \<Longrightarrow> \<exists>s \<in> mh_Summary ` set hits. summary_recalled s h"
  by (fastforce simp: SummaryRecallHits_def summary_recalled_def Let_def in_set_enumerate_eq)

lemma RecallCandidateLimits_bounds:
  "RecallCandidateLimits limit = (m, s) \<Longrightarrow> 0 < m \<and> 0 < s \<and> s \<le> MaxSummaryCandidates \<and> m + s \<le> MaxRecallCandidates"
proof -
  assume l: "RecallCandidateLimits limit = (m, s)"
  define T where "T = min MaxRecallCandidates (max limit 1 * 10)"
  have T: "10 \<le> T" "T \<le> 50" by (auto simp: T_def MaxRecallCandidates_def)
  have "s = min MaxSummaryCandidates (max (T div 5) 1)" "m = T - s"
    using l T by (simp_all add: RecallCandidateLimits_def Let_def T_def [symmetric] go_div_nonneg)
  then show ?thesis using T by (auto simp: MaxSummaryCandidates_def MaxRecallCandidates_def min_def max_def)
qed

lemma RankRecall_subset:
  "set (RankRecall U hits terms cid now limit) \<subseteq> set hits
    \<and> int (length (RankRecall U hits terms cid now limit)) \<le> min (max limit 0) MaxRecallItems
    \<and> int (length (filter (\<lambda>h. rh_Kind h = RecallSummary) (RankRecall U hits terms cid now limit))) \<le> MaxSummaryResults"
proof -
  obtain picks where p: "RankRecall U hits terms cid now limit = map ((!) hits) picks"
    "well_ranked hits (map (\<lambda>hit. recallScore U hit terms cid now) hits) (max limit 0) picks"
    "int (length picks) \<le> min (max limit 0) MaxRecallItems"
    using RankRecall_ranked by blast
  have "int (length (filter (\<lambda>h. rh_Kind h = RecallSummary) (map ((!) hits) picks))) = summaries_in hits picks"
    by (simp add: summaries_in_def filter_map o_def)
  with p show ?thesis by (auto simp: well_ranked_def subset_iff)
qed

definition recall_sound :: "recall_view \<Rightarrow> string list \<Rightarrow> int \<Rightarrow> recall_hit list \<Rightarrow> bool" where
  "recall_sound v tail limit hits \<longleftrightarrow>
     (\<forall>h \<in> set hits. (\<exists>m \<in> rv_messages v. message_recalled m h \<and> ms_ID m \<notin> set tail)
        \<or> (\<exists>s \<in> rv_summaries v. summary_recalled s h))
     \<and> int (length hits) \<le> limit
     \<and> int (length (filter (\<lambda>h. rh_Kind h = RecallSummary) hits)) \<le> MaxSummaryResults"

context recall_store
begin

lemma AutomaticRecall_ok:
  "hoare (at v) (AutomaticRecall H U S req)
    (\<lambda>hits s. at v s \<and> recall_sound v (take (nat MaxFreshTailRows) (rv_tail v (DeriveConversationID H (rr_Agent req) (rr_SessionID req))
        (rr_FreshTailMessages req) (rr_FreshTailTokens req))) (rr_Limit req) hits) (\<lambda>_. at v)"
  (is "hoare _ _ (\<lambda>hits s. at v s \<and> recall_sound v ?tail _ hits) _")
proof -
  let ?cid = "DeriveConversationID H (rr_Agent req) (rr_SessionID req)"
  let ?terms = "RecallTerms U (rr_Prompt req)"
  obtain ml sl where lim: "RecallCandidateLimits (rr_Limit req) = (ml, sl)" by force
  let ?q = "\<lparr>sq_Text = Join ?terms '' '', sq_Mode = SearchFTS, sq_ConversationID = [], sq_Limit = ml, sq_Any = True\<rparr>"
  have pos: "0 < sq_Limit ?q" "0 < sq_Limit (?q\<lparr>sq_Limit := sl\<rparr>)"
    using RecallCandidateLimits_bounds [OF lim] by auto
  have tail: "hoare (at v) (automaticFreshTail S ?cid req) (\<lambda>X s. at v s \<and> X = set ?tail) (\<lambda>_. at v)"
    unfolding automaticFreshTail_def
    by (rule hoare_bind [OF hoare_wrap [OF recent]]) (auto simp: hoare_def ret_def)
  have rank: "recall_sound v ?tail (rr_Limit req)
      (RankRecall U (MessageRecallHits ms (set ?tail) @ SummaryRecallHits ss) ?terms ?cid (rr_Now req) (rr_Limit req))"
    if "0 \<le> rr_Limit req" "sh_Message ` set ms \<subseteq> rv_messages v" "mh_Summary ` set ss \<subseteq> rv_summaries v" for ms :: "search_hit list" and ss :: "summary_hit list"
  proof -
    let ?hits = "RankRecall U (MessageRecallHits ms (set ?tail) @ SummaryRecallHits ss) ?terms ?cid (rr_Now req) (rr_Limit req)"
    have sub: "set ?hits \<subseteq> set (MessageRecallHits ms (set ?tail)) \<union> set (SummaryRecallHits ss)"
      and len: "int (length ?hits) \<le> rr_Limit req"
        "int (length (filter (\<lambda>h. rh_Kind h = RecallSummary) ?hits)) \<le> MaxSummaryResults"
      using RankRecall_subset [of U "MessageRecallHits ms (set ?tail) @ SummaryRecallHits ss" ?terms ?cid "rr_Now req" "rr_Limit req"] that(1)
      by auto
    have "(\<exists>m \<in> rv_messages v. message_recalled m h \<and> ms_ID m \<notin> set ?tail) \<or> (\<exists>s \<in> rv_summaries v. summary_recalled s h)"
      if "h \<in> set ?hits" for h
      using sub that MessageRecallHits_stored [of h ms "set ?tail"] SummaryRecallHits_stored [of h ss]
        \<open>sh_Message ` set ms \<subseteq> rv_messages v\<close> \<open>mh_Summary ` set ss \<subseteq> rv_summaries v\<close> by blast
    with len show ?thesis by (simp add: recall_sound_def)
  qed
  show ?thesis
    unfolding AutomaticRecall_def Let_def lim prod.case
  proof (intro hoare_if hoare_bind_fact [OF tail] hoare_bind_fact [OF hoare_wrap [OF search_messages [OF pos(1)]]]
      hoare_bind_fact [OF hoare_wrap [OF search_summaries [OF pos(2)]]])
    assume "\<not> (rr_Limit req < 0 \<or> MaxRecallItems < rr_Limit req \<or> rr_FreshTailMessages req < 0 \<or> rr_FreshTailTokens req < 0)"
    then have n: "0 \<le> rr_Limit req" by simp
    then show "hoare (at v) (ret []) (\<lambda>hits s. at v s \<and> recall_sound v ?tail (rr_Limit req) hits) (\<lambda>_. at v)"
      by (intro hoare_ret) (simp add: recall_sound_def MaxSummaryResults_def)
    fix X and ms :: "search_hit list" and ss :: "summary_hit list"
    assume "X = set ?tail" "sh_Message ` set ms \<subseteq> rv_messages v \<and> int (length ms) \<le> sq_Limit ?q"
      "mh_Summary ` set ss \<subseteq> rv_summaries v \<and> int (length ss) \<le> sq_Limit (?q\<lparr>sq_Limit := sl\<rparr>)"
    then show "hoare (at v) (ret (RankRecall U (MessageRecallHits ms X @ SummaryRecallHits ss) ?terms ?cid (rr_Now req) (rr_Limit req)))
        (\<lambda>hits s. at v s \<and> recall_sound v ?tail (rr_Limit req) hits) (\<lambda>_. at v)"
      using rank [OF n] by (intro hoare_ret) simp
  qed (rule hoare_fail, assumption)
qed

end

end
