(* ===== verification/Config.thy ===== *)
theory Config
  imports Prelude
begin

text \<open>
  \<open>internal/engine/config.go\<close> and the configuration of \<open>engine.go\<close>.  A finite \<open>float64\<close> is
  a pair (mantissa, exponent) that stands for \<open>mantissa * 2 ^ exponent\<close>; conversion from \<open>int\<close>,
  product and truncation back to \<open>int\<close> follow IEEE 754 (53 bits, round to nearest, ties to even).
  Underflow, infinities and NaN are outside the model.
\<close>

section \<open>Double precision\<close>

type_synonym float64 = "int \<times> int"

fun bit_length :: "nat \<Rightarrow> nat" where
  "bit_length n = (if n = 0 then 0 else Suc (bit_length (n div 2)))"

declare bit_length.simps [simp del]

definition round53 :: "nat \<times> int \<Rightarrow> nat \<times> int" where
  "round53 me =
     (let (m, e) = me; n = bit_length m in
      if n \<le> 53 then (m, e)
      else let k = n - 53; q = m div 2 ^ k; r = m mod 2 ^ k; half = 2 ^ (k - 1) in
           (if r > half \<or> (r = half \<and> odd q) then q + 1 else q, e + int k))"

definition float_of_int :: "int \<Rightarrow> float64" where
  "float_of_int i = (let (m, e) = round53 (nat \<bar>i\<bar>, 0) in (sgn i * int m, e))"

definition float_mul :: "float64 \<Rightarrow> float64 \<Rightarrow> float64" where
  "float_mul a b =
     (let p = fst a * fst b; (m, e) = round53 (nat \<bar>p\<bar>, snd a + snd b) in (sgn p * int m, e))"

text \<open>The conversion \<open>int(f)\<close> drops the fraction.\<close>

definition int_of_float :: "float64 \<Rightarrow> int" where
  "int_of_float f =
     (if snd f \<ge> 0 then fst f * 2 ^ nat (snd f) else go_div (fst f) (2 ^ nat (- snd f)))"

definition float_le :: "float64 \<Rightarrow> float64 \<Rightarrow> bool" where
  "float_le a b \<longleftrightarrow>
     (if snd a \<le> snd b then fst a \<le> fst b * 2 ^ nat (snd b - snd a)
      else fst a * 2 ^ nat (snd a - snd b) \<le> fst b)"

section \<open>The configuration\<close>

record config =
  cf_ModelContextTokens :: int
  cf_SoftFraction :: float64
  cf_HardFraction :: float64
  cf_FreshTailMessages :: int
  cf_FreshTailTokens :: int
  cf_LeafChunkTokens :: int
  cf_LeafTargetTokens :: int
  cf_CondensedTargetTokens :: int
  cf_CondenseFanout :: int
  cf_CondenseChunkTokens :: int
  cf_MaxDepth :: int
  cf_TruncateTokens :: int
  cf_LargeFileThreshold :: int
  cf_MaxIterations :: int

text \<open>The literals 0.6 and 0.8 as doubles.\<close>

definition DefaultConfig :: config where
  "DefaultConfig = \<lparr>cf_ModelContextTokens = 200000,
     cf_SoftFraction = (5404319552844595, -53), cf_HardFraction = (7205759403792794, -53),
     cf_FreshTailMessages = 8, cf_FreshTailTokens = 4000, cf_LeafChunkTokens = 4000,
     cf_LeafTargetTokens = 600, cf_CondensedTargetTokens = 1000, cf_CondenseFanout = 4,
     cf_CondenseChunkTokens = 8000, cf_MaxDepth = 3, cf_TruncateTokens = 512,
     cf_LargeFileThreshold = 25000, cf_MaxIterations = 200\<rparr>"

definition maxCondenseFanout :: int where "maxCondenseFanout = 64"
definition maxSummaryDepth :: int where "maxSummaryDepth = 32"
definition maxIterations :: int where "maxIterations = 10000"

definition soft_budget :: "config \<Rightarrow> int" where
  "soft_budget cfg = int_of_float (float_mul (cf_SoftFraction cfg) (float_of_int (cf_ModelContextTokens cfg)))"

definition hard_budget :: "config \<Rightarrow> int" where
  "hard_budget cfg = int_of_float (float_mul (cf_HardFraction cfg) (float_of_int (cf_ModelContextTokens cfg)))"

definition validateBudget :: "config \<Rightarrow> error option" where
  "validateBudget cfg =
     (if cf_ModelContextTokens cfg \<le> 0
      then Some (Errorf ''engine: model context tokens must be positive'' [])
      else if float_le (cf_SoftFraction cfg) (0, 0) \<or> float_le (1, 0) (cf_SoftFraction cfg)
      then Some (Errorf ''engine: soft fraction must be between 0 and 1'' [])
      else if float_le (cf_HardFraction cfg) (cf_SoftFraction cfg) \<or> \<not> float_le (cf_HardFraction cfg) (1, 0)
      then Some (Errorf ''engine: hard fraction must be greater than soft fraction and at most 1'' [])
      else let softTokens = soft_budget cfg in
           if cf_LeafTargetTokens cfg \<ge> softTokens \<or> cf_CondensedTargetTokens cfg \<ge> softTokens
           then Some (Errorf ''engine: summary targets must be smaller than the soft budget'' [])
           else None)"

definition validateChunking :: "config \<Rightarrow> error option" where
  "validateChunking cfg =
     (if cf_LeafChunkTokens cfg \<le> 0 \<or> cf_LeafTargetTokens cfg \<le> 0 \<or> cf_LeafTargetTokens cfg \<ge> cf_LeafChunkTokens cfg
      then Some (Errorf ''engine: leaf target must be positive and smaller than leaf chunk'' [])
      else if cf_CondenseChunkTokens cfg \<le> 0 \<or> cf_CondensedTargetTokens cfg \<le> 0
              \<or> cf_CondensedTargetTokens cfg \<ge> cf_CondenseChunkTokens cfg
      then Some (Errorf ''engine: condensed target must be positive and smaller than condensed chunk'' [])
      else if cf_TruncateTokens cfg \<le> 0
              \<or> cf_TruncateTokens cfg \<ge> min (cf_LeafChunkTokens cfg) (cf_CondenseChunkTokens cfg)
      then Some (Errorf ''engine: truncate tokens must be positive and smaller than both chunk limits'' [])
      else None)"

definition validateBounds :: "config \<Rightarrow> error option" where
  "validateBounds cfg =
     (if cf_FreshTailMessages cfg < 0 \<or> cf_FreshTailTokens cfg < 0 \<or> cf_LargeFileThreshold cfg < 0
      then Some (Errorf ''engine: fresh-tail and large-file limits cannot be negative'' [])
      else if cf_CondenseFanout cfg < 2 \<or> cf_CondenseFanout cfg > maxCondenseFanout
      then Some (Errorf ''engine: condense fanout must be between 2 and 64'' [])
      else if cf_MaxDepth cfg \<le> 0 \<or> cf_MaxDepth cfg > maxSummaryDepth
      then Some (Errorf ''engine: max depth must be between 1 and 32'' [])
      else if cf_MaxIterations cfg \<le> 0 \<or> cf_MaxIterations cfg > maxIterations
      then Some (Errorf ''engine: max iterations must be between 1 and 10000'' [])
      else None)"

definition Validate :: "config \<Rightarrow> error option" where
  "Validate cfg = (case validateBudget cfg of Some e \<Rightarrow> Some e
     | None \<Rightarrow> (case validateChunking cfg of Some e \<Rightarrow> Some e | None \<Rightarrow> validateBounds cfg))"

lemma Validate_None:
  assumes "Validate cfg = None"
  shows "0 < cf_ModelContextTokens cfg" "0 < cf_LeafTargetTokens cfg" "cf_LeafTargetTokens cfg < cf_LeafChunkTokens cfg"
    "0 < cf_CondensedTargetTokens cfg" "cf_CondensedTargetTokens cfg < cf_CondenseChunkTokens cfg"
    "cf_LeafTargetTokens cfg < soft_budget cfg" "cf_CondensedTargetTokens cfg < soft_budget cfg"
    "0 < cf_TruncateTokens cfg" "cf_TruncateTokens cfg < cf_LeafChunkTokens cfg"
    "cf_TruncateTokens cfg < cf_CondenseChunkTokens cfg"
    "0 \<le> cf_FreshTailMessages cfg" "0 \<le> cf_FreshTailTokens cfg" "0 \<le> cf_LargeFileThreshold cfg"
    "2 \<le> cf_CondenseFanout cfg" "cf_CondenseFanout cfg \<le> 64" "0 < cf_MaxDepth cfg" "cf_MaxDepth cfg \<le> 32"
    "0 < cf_MaxIterations cfg" "cf_MaxIterations cfg \<le> 10000"
  using assms by (auto simp: Validate_def validateBudget_def validateChunking_def validateBounds_def Let_def
      maxCondenseFanout_def maxSummaryDepth_def maxIterations_def split: if_splits)

end
