(* ===== verification/Engine.thy ===== *)
theory Engine
  imports Cover Config
begin

text \<open>
  \<open>internal/engine/engine.go\<close>: the compactor over its store interface.  The store, the
  summarizer, the token counter, the content explorer and the file system are fields of the
  compactor, as in the source; log output is left out.
\<close>

section \<open>The compactor\<close>

record 'st engine_store =
  es_ListMessages :: "string \<Rightarrow> int \<Rightarrow> int \<Rightarrow> ('st, message list) prog"
  es_GetMessage :: "string \<Rightarrow> ('st, message) prog"
  es_GetSummary :: "string \<Rightarrow> ('st, summary) prog"
  es_CreateLeafSummary :: "leaf_summary_input \<Rightarrow> ('st, summary) prog"
  es_CreateCondensedSummary :: "condensed_summary_input \<Rightarrow> ('st, summary) prog"
  es_SummaryMessages :: "string \<Rightarrow> ('st, message list) prog"
  es_SummaryChildren :: "string \<Rightarrow> ('st, summary list) prog"
  es_MarkSummaryExpanded :: "string \<Rightarrow> ('st, unit) prog"
  es_ListContextItems :: "string \<Rightarrow> ('st, context_item list) prog"
  es_ReplaceContextItems :: "string \<Rightarrow> context_item list \<Rightarrow> ('st, unit) prog"
  es_CreateLargeFile :: "large_file \<Rightarrow> ('st, large_file) prog"

record 'st compactor =
  cp_store :: "'st engine_store"
  cp_summarizer :: "summarize_input \<Rightarrow> ('st, string) prog"
  cp_counter :: "string \<Rightarrow> int"
  cp_cfg :: config
  cp_filesDir :: string
  cp_describe :: "string \<Rightarrow> (string \<times> string) option"
  cp_MkdirAll :: "string \<Rightarrow> ('st, unit) prog"
  cp_WriteFile :: "string \<Rightarrow> string \<Rightarrow> ('st, unit) prog"

record compact_result =
  cr_BeforeTokens :: int
  cr_AfterTokens :: int
  cr_Leaves :: int
  cr_Condensed :: int
  cr_Compacted :: bool

section \<open>Loading the window\<close>

definition load_item :: "'st compactor \<Rightarrow> context_item \<Rightarrow> ('st, window_item) prog" where
  "load_item C it =
     (if ci_Type it = ContextMessage
      then bindE (es_GetMessage (cp_store C) (ci_RefID it)) (\<lambda>m. ret (message_item m))
      else if ci_Type it = ContextSummary
      then bindE (es_GetSummary (cp_store C) (ci_RefID it)) (\<lambda>s. ret (summary_item s))
      else fail (Errorf ''engine: unknown context item type'' [ci_Type it]))"

definition buildWindow :: "'st compactor \<Rightarrow> string \<Rightarrow> ('st, window_item list) prog" where
  "buildWindow C conv =
     bindE (es_ListContextItems (cp_store C) conv) (\<lambda>items.
     bindE (mapE (load_item C) items) (\<lambda>w.
     let lastSeq = fold max (map wi_latestSeq w) 0 in
     bindE (es_ListMessages (cp_store C) conv lastSeq 0) (\<lambda>msgs.
     ret (w @ map message_item msgs))))"

definition window_refs :: "window_item list \<Rightarrow> context_item list" where
  "window_refs w = map (\<lambda>(i, it). \<lparr>ci_Ordinal = int i, ci_Type = wi_typ it, ci_RefID = wi_refID it\<rparr>) (enumerate 0 w)"

definition persist :: "'st compactor \<Rightarrow> string \<Rightarrow> window_item list \<Rightarrow> ('st, unit) prog" where
  "persist C conv w = es_ReplaceContextItems (cp_store C) conv (window_refs w)"

section \<open>Source texts and offload\<close>

definition offload :: "'st compactor \<Rightarrow> message \<Rightarrow> ('st, large_file) prog" where
  "offload C m =
     (let dir = path_Join [cp_filesDir C, ms_ConversationID m];
          path = path_Join [dir, ms_ID m @ ''.txt''] in
      bindE (wrapE ''engine: create files dir'' (cp_MkdirAll C dir)) (\<lambda>_.
      bindE (wrapE ''engine: write large file'' (cp_WriteFile C path (ms_Content m))) (\<lambda>_.
      bindE (case cp_describe C (ms_Content m) of
               Some (exploration, extractor) \<Rightarrow> ret (exploration, extractor)
             | None \<Rightarrow>
                 bindE (tryE (cp_summarizer C \<lparr>si_Kind = SummaryLeaf, si_Depth = 0,
                                si_Sources = [ms_Content m], si_TargetTokens = 200\<rparr>)) (\<lambda>r.
                 case r of
                   Inr exploration \<Rightarrow> ret (exploration, ''summarizer'')
                 | Inl _ \<Rightarrow> (case truncateToTokens (ms_Content m) 200 of
                     Some exploration \<Rightarrow> ret (exploration, ''truncation'')
                   | None \<Rightarrow> fail (GoPanic ''slice bounds out of range''))))
        (\<lambda>(exploration, extractor).
      es_CreateLargeFile (cp_store C)
        \<lparr>lf_ID = [], lf_ConversationID = ms_ConversationID m, lf_MessageID = ms_ID m, lf_StorageURI = path,
         lf_ByteSize = int (length (ms_Content m)), lf_TokenCount = ms_TokenCount m,
         lf_ExplorationSummary = exploration, lf_Extractor = extractor, lf_CreatedAt = 0\<rparr>))))"

definition offload_text :: "message \<Rightarrow> large_file \<Rightarrow> string" where
  "offload_text m lf = ms_Role m @ '': [large content offloaded -> '' @ lf_ID lf @ '' (~'' @ itoa (lf_TokenCount lf)
     @ '' tokens) at '' @ lf_StorageURI lf @ '']'' @ [CHR 0x0A] @ ''exploration: '' @ lf_ExplorationSummary lf"

definition sourceText :: "'st compactor \<Rightarrow> message \<Rightarrow> ('st, string) prog" where
  "sourceText C m =
     (if cf_LargeFileThreshold (cp_cfg C) > 0 \<and> ms_TokenCount m > cf_LargeFileThreshold (cp_cfg C)
      then bindE (offload C m) (\<lambda>lf. ret (offload_text m lf))
      else ret (ms_Role m @ '': '' @ ms_Content m))"

section \<open>Summarization\<close>

definition summarizeWithGuard ::
  "'st compactor \<Rightarrow> summary_kind \<Rightarrow> int \<Rightarrow> string list \<Rightarrow> int \<Rightarrow> ('st, string \<times> int) prog" where
  "summarizeWithGuard C kind depth sources target =
     (let inputTokens = sum_list (map (cp_counter C) sources);
          req = (\<lambda>t. \<lparr>si_Kind = kind, si_Depth = depth, si_Sources = sources, si_TargetTokens = t\<rparr>) in
      bindE (wrapE ''engine: summarize'' (cp_summarizer C (req target))) (\<lambda>normal.
      if cp_counter C normal < inputTokens then ret (normal, cp_counter C normal)
      else bindE (wrapE ''engine: summarize (aggressive)''
                    (cp_summarizer C (req (max (go_div target 2) (cf_TruncateTokens (cp_cfg C)))))) (\<lambda>aggressive.
      if cp_counter C aggressive < inputTokens then ret (aggressive, cp_counter C aggressive)
      else case truncateToTokens (Join sources [CHR 0x0A]) (cf_TruncateTokens (cp_cfg C)) of
             Some truncated \<Rightarrow> ret (truncated, cp_counter C truncated)
           | None \<Rightarrow> fail (GoPanic ''slice bounds out of range''))))"

section \<open>Folding a block\<close>

definition makeLeaf :: "'st compactor \<Rightarrow> string \<Rightarrow> window_item list \<Rightarrow> ('st, window_item) prog" where
  "makeLeaf C conv block =
     bindE (mapE (\<lambda>it. bindE (es_GetMessage (cp_store C) (wi_refID it)) (\<lambda>m.
                        bindE (sourceText C m) (\<lambda>src. ret (ms_ID m, src)))) block) (\<lambda>srcs.
     bindE (summarizeWithGuard C SummaryLeaf 0 (map snd srcs) (cf_LeafTargetTokens (cp_cfg C))) (\<lambda>(content, tokens).
     bindE (es_CreateLeafSummary (cp_store C)
              \<lparr>li_ConversationID = conv, li_Content = content, li_TokenCount = tokens,
               li_SourceMessageIDs = map fst srcs, li_EarliestSeq = wi_earliestSeq (hd block),
               li_LatestSeq = wi_latestSeq (last block), li_DescendantMessageCount = int (length block)\<rparr>) (\<lambda>s.
     ret ((summary_item s)\<lparr>wi_depth := 0\<rparr>))))"

definition makeCondensed :: "'st compactor \<Rightarrow> string \<Rightarrow> window_item list \<Rightarrow> ('st, window_item) prog" where
  "makeCondensed C conv block =
     bindE (mapE (\<lambda>it. es_GetSummary (cp_store C) (wi_refID it)) block) (\<lambda>children.
     let depth = wi_depth (hd block) + 1 in
     bindE (summarizeWithGuard C SummaryCondensed depth (map sm_Content children)
              (cf_CondensedTargetTokens (cp_cfg C))) (\<lambda>(content, tokens).
     bindE (es_CreateCondensedSummary (cp_store C)
              \<lparr>co_ConversationID = conv, co_Depth = depth, co_Content = content, co_TokenCount = tokens,
               co_ChildSummaryIDs = map sm_ID children, co_EarliestSeq = wi_earliestSeq (hd block),
               co_LatestSeq = wi_latestSeq (last block),
               co_DescendantMessageCount = sum_list (map sm_DescendantMessageCount children)\<rparr>) (\<lambda>s.
     ret ((summary_item s)\<lparr>wi_depth := depth\<rparr>))))"

section \<open>The compaction loop\<close>

text \<open>What an iteration does next: fold messages, condense summaries, or stop.\<close>

datatype fold_step = FoldMessages nat nat | FoldSummaries nat nat | Stop

definition next_step :: "config \<Rightarrow> bool \<Rightarrow> window_item list \<Rightarrow> fold_step" where
  "next_step cfg archiveAll w =
     (if \<not> archiveAll \<and> windowTokens w \<le> soft_budget cfg then Stop
      else let protected = protectedSet w (cf_FreshTailMessages cfg) (cf_FreshTailTokens cfg) in
           case findMessageBlock w protected (cf_LeafChunkTokens cfg) of
             Some (i, j) \<Rightarrow> FoldMessages i j
           | None \<Rightarrow>
               (case condenseRun w (cf_CondenseFanout cfg) (cf_MaxDepth cfg) (cf_CondenseChunkTokens cfg) of
                  Some (i, j) \<Rightarrow> FoldSummaries i j
                | None \<Rightarrow> Stop))"

fun compact_loop ::
  "'st compactor \<Rightarrow> string \<Rightarrow> bool \<Rightarrow> nat \<Rightarrow> window_item list \<Rightarrow> int \<Rightarrow> int \<Rightarrow> ('st, window_item list \<times> int \<times> int) prog" where
  "compact_loop C conv archiveAll 0 w leaves condensed = ret (w, leaves, condensed)"
| "compact_loop C conv archiveAll (Suc n) w leaves condensed =
     (case next_step (cp_cfg C) archiveAll w of
        Stop \<Rightarrow> ret (w, leaves, condensed)
      | FoldMessages i j \<Rightarrow>
          bindE (makeLeaf C conv (slice i j w)) (\<lambda>leaf.
            compact_loop C conv archiveAll n (replaceRange w i j leaf) (leaves + 1) condensed)
      | FoldSummaries i j \<Rightarrow>
          bindE (makeCondensed C conv (slice i j w)) (\<lambda>cond.
            compact_loop C conv archiveAll n (replaceRange w i j cond) leaves (condensed + 1)))"

definition compactWindow :: "'st compactor \<Rightarrow> string \<Rightarrow> bool \<Rightarrow> ('st, compact_result) prog" where
  "compactWindow C conv archiveAll =
     (case Validate (cp_cfg C) of
        Some e \<Rightarrow> fail e
      | None \<Rightarrow>
          bindE (buildWindow C conv) (\<lambda>w0.
          bindE (compact_loop C conv archiveAll (nat (cf_MaxIterations (cp_cfg C))) w0 0 0)
            (\<lambda>(w, leaves, condensed).
          bindE (persist C conv w) (\<lambda>_.
          ret \<lparr>cr_BeforeTokens = windowTokens w0, cr_AfterTokens = windowTokens w,
               cr_Leaves = leaves, cr_Condensed = condensed,
               cr_Compacted = (leaves > 0 \<or> condensed > 0)\<rparr>))))"

definition Compact :: "'st compactor \<Rightarrow> string \<Rightarrow> ('st, compact_result) prog" where
  "Compact C conv = compactWindow C conv False"

definition ArchiveToFreshTail :: "'st compactor \<Rightarrow> string \<Rightarrow> ('st, compact_result) prog" where
  "ArchiveToFreshTail C conv = compactWindow C conv True"

text \<open>
  The summary keys a run of the loop asks the store for, read off the run itself.  A theorem about
  the identity of summaries assumes that the digests of these keys differ, and of no others.
\<close>

definition leaf_key :: "string \<Rightarrow> window_item list \<Rightarrow> string" where
  "leaf_key conv block = summary_key conv SummaryLeaf 0 (map wi_refID block)"

definition condensed_key :: "string \<Rightarrow> window_item list \<Rightarrow> string" where
  "condensed_key conv block = summary_key conv SummaryCondensed (wi_depth (hd block) + 1) (map wi_refID block)"

fun loop_keys :: "'st compactor \<Rightarrow> string \<Rightarrow> bool \<Rightarrow> nat \<Rightarrow> window_item list \<Rightarrow> 'st \<Rightarrow> string list" where
  "loop_keys C conv archiveAll 0 w s = []"
| "loop_keys C conv archiveAll (Suc n) w s =
     (case next_step (cp_cfg C) archiveAll w of
        Stop \<Rightarrow> []
      | FoldMessages i j \<Rightarrow> leaf_key conv (slice i j w) #
          (case makeLeaf C conv (slice i j w) s of
             (Inr leaf, s') \<Rightarrow> loop_keys C conv archiveAll n (replaceRange w i j leaf) s'
           | (Inl e, s') \<Rightarrow> [])
      | FoldSummaries i j \<Rightarrow> condensed_key conv (slice i j w) #
          (case makeCondensed C conv (slice i j w) s of
             (Inr cond, s') \<Rightarrow> loop_keys C conv archiveAll n (replaceRange w i j cond) s'
           | (Inl e, s') \<Rightarrow> []))"

definition run_keys :: "'st compactor \<Rightarrow> string \<Rightarrow> bool \<Rightarrow> 'st \<Rightarrow> string list" where
  "run_keys C conv archiveAll s =
     (case buildWindow C conv s of
        (Inr w, s') \<Rightarrow> loop_keys C conv archiveAll (nat (cf_MaxIterations (cp_cfg C))) w s'
      | (Inl e, s') \<Rightarrow> [])"

end
