(* ===== verification/Engine_Store.thy ===== *)
theory Engine_Store
  imports Engine
begin

text \<open>
  The contract between the engine and its store, as a locale: what each of the eleven operations of
  the \<open>Store\<close> interface does to the view, on success and on error.  The engine's lemmas are
  proved once from these laws.  \<open>at b v\<close> says that the state shows the view \<open>v\<close> and, if \<open>b\<close>
  is set, that no call to the database fails from here on.
\<close>

definition leaf_created :: "hash \<Rightarrow> leaf_summary_input \<Rightarrow> dag_view \<Rightarrow> summary \<Rightarrow> dag_view \<Rightarrow> bool" where
  "leaf_created H i v s v' \<longleftrightarrow>
     (let sid = DeriveSummaryID H (li_ConversationID i) SummaryLeaf 0 (li_SourceMessageIDs i) in
      (v' = v \<and> find_summary v sid = Some s)
      \<or> (sid \<notin> summary_ids v \<and> (\<exists>now. s = leaf_summary H i now) \<and> v' = add_leaf s (li_SourceMessageIDs i) v))"

definition condensed_created :: "hash \<Rightarrow> condensed_summary_input \<Rightarrow> dag_view \<Rightarrow> summary \<Rightarrow> dag_view \<Rightarrow> bool" where
  "condensed_created H i v s v' \<longleftrightarrow>
     (let sid = DeriveSummaryID H (co_ConversationID i) SummaryCondensed (co_Depth i) (co_ChildSummaryIDs i) in
      (v' = v \<and> find_summary v sid = Some s)
      \<or> (sid \<notin> summary_ids v \<and> (\<exists>now. s = condensed_summary H i now) \<and> v' = add_condensed s (co_ChildSummaryIDs i) v))"

definition source_messages :: "dag_view \<Rightarrow> string \<Rightarrow> message list" where
  "source_messages v sid =
     concat (map (\<lambda>mid. filter (\<lambda>m. ms_ID m = mid) (dv_messages v)) (sources_of v sid))"

definition child_summaries :: "dag_view \<Rightarrow> string \<Rightarrow> summary list" where
  "child_summaries v sid =
     concat (map (\<lambda>cid. filter (\<lambda>s. sm_ID s = cid) (dv_summaries v)) (children_of v sid))"

locale engine_store =
  fixes S :: "'st engine_store" and H :: hash and at :: "bool \<Rightarrow> dag_view \<Rightarrow> 'st \<Rightarrow> bool"
  assumes list_messages: "hoare (at b v) (es_ListMessages S c a 0)
      (\<lambda>r s. at b v s \<and> r = sort_key ms_Seq (filter (\<lambda>m. ms_Seq m > a) (log_of v c))) (\<lambda>_ s. at b v s \<and> \<not> b)"
    and get_message: "hoare (at b v) (es_GetMessage S i)
      (\<lambda>m s. at b v s \<and> find_message v i = Some m) (\<lambda>_ s. at b v s \<and> (\<not> b \<or> find_message v i = None))"
    and get_summary: "hoare (at b v) (es_GetSummary S i)
      (\<lambda>x s. at b v s \<and> find_summary v i = Some x) (\<lambda>_ s. at b v s \<and> (\<not> b \<or> find_summary v i = None))"
    and create_leaf: "distinct (li_SourceMessageIDs li) \<Longrightarrow> hoare (at b v) (es_CreateLeafSummary S li)
      (\<lambda>x s. \<exists>v'. at b v' s \<and> leaf_created H li v x v')
      (\<lambda>_ s. at b v s \<and> (\<not> b \<or> \<not> set (li_SourceMessageIDs li) \<subseteq> ms_ID ` set (dv_messages v)
         \<or> log_of v (li_ConversationID li) = []))"
    and create_condensed: "distinct (co_ChildSummaryIDs co) \<Longrightarrow> hoare (at b v) (es_CreateCondensedSummary S co)
      (\<lambda>x s. \<exists>v'. at b v' s \<and> condensed_created H co v x v')
      (\<lambda>_ s. at b v s \<and> (\<not> b \<or> \<not> set (co_ChildSummaryIDs co) \<subseteq> summary_ids v
         \<or> log_of v (co_ConversationID co) = []))"
    and summary_messages: "hoare (at b v) (es_SummaryMessages S i)
      (\<lambda>r s. at b v s \<and> r = sort_key ms_Seq (source_messages v i)) (\<lambda>_ s. at b v s \<and> \<not> b)"
    and summary_children: "hoare (at b v) (es_SummaryChildren S i)
      (\<lambda>r s. at b v s \<and> r = sort_key sm_EarliestSeq (child_summaries v i)) (\<lambda>_ s. at b v s \<and> \<not> b)"
    and mark_expanded: "hoare (at b v) (es_MarkSummaryExpanded S i)
      (\<lambda>_. at b v) (\<lambda>_ s. at b v s \<and> (\<not> b \<or> i \<notin> summary_ids v))"
    and list_items: "hoare (at b v) (es_ListContextItems S c)
      (\<lambda>r s. at b v s \<and> map (\<lambda>it. (ci_Type it, ci_RefID it)) r = dv_window v c) (\<lambda>_ s. at b v s \<and> \<not> b)"
    and replace_items: "hoare (at b v) (es_ReplaceContextItems S c items)
      (\<lambda>_. at b (set_window c (map (\<lambda>it. (ci_Type it, ci_RefID it)) items) v))
      (\<lambda>_ s. at b v s \<and> (\<not> b \<or> (items \<noteq> [] \<and> log_of v c = [])))"
    and create_file: "hoare (at b v) (es_CreateLargeFile S f)
      (\<lambda>_. at b v) (\<lambda>_ s. at b v s \<and> (\<not> b \<or> log_of v (lf_ConversationID f) = []))"

text \<open>
  A compactor on such a store whose summarizer and file system leave the database alone.  A
  healthy run (\<open>b\<close>) also needs those two not to fail.
\<close>

locale engine = engine_store S H at
  for S :: "'st engine_store" and H and at +
  fixes C :: "'st compactor"
  assumes store: "cp_store C = S"
    and summarizer: "hoare (at b v) (cp_summarizer C r) (\<lambda>_. at b v) (\<lambda>_ s. at b v s \<and> \<not> b)"
    and mkdir: "hoare (at b v) (cp_MkdirAll C p) (\<lambda>_. at b v) (\<lambda>_ s. at b v s \<and> \<not> b)"
    and write_file: "hoare (at b v) (cp_WriteFile C p x) (\<lambda>_. at b v) (\<lambda>_ s. at b v s \<and> \<not> b)"

section \<open>A created summary stands for its block\<close>

definition stored_keys :: "dag_view \<Rightarrow> string set" where
  "stored_keys v = own_key v ` set (dv_summaries v)"

definition folded ::
  "hash \<Rightarrow> dag_view \<Rightarrow> string \<Rightarrow> window_item list \<Rightarrow> nat \<Rightarrow> string \<Rightarrow> window_item list \<Rightarrow> summary \<Rightarrow> dag_view \<Rightarrow> bool" where
  "folded H v c w n k w' s v' \<longleftrightarrow> extends v v' \<and> dv_window v' = dv_window v \<and> dag_inv H v'
     \<and> covers v' c w' n \<and> s \<in> set (dv_summaries v') \<and> sm_ConversationID s = c
     \<and> set (dv_summaries v') \<subseteq> insert s (set (dv_summaries v))
     \<and> stored_keys v' \<subseteq> insert k (stored_keys v)"

lemma no_clash_keys:
  assumes "dag_sound H v" "collision_free H (insert k (stored_keys v))"
  shows "no_clash H v k"
  unfolding no_clash_def
proof (intro ballI impI)
  fix s assume s: "s \<in> set (dv_summaries v)" and eq: "sm_ID s = key_id H k"
  have "key_id H (own_key v s) = key_id H k"
    using assms(1) s eq unfolding dag_sound_def by metis
  moreover have "own_key v s \<in> insert k (stored_keys v)" using s by (simp add: stored_keys_def)
  ultimately show "own_key v s = k"
    using assms(2) unfolding collision_free_def by (metis inj_onD insertI1)
qed

lemma windows_ok_extends:
  assumes "windows_ok v" "extends v v'" "dv_window v' = dv_window v"
  shows "windows_ok v'"
  using assms covers_extends [OF assms(2)] unfolding windows_ok_def by metis

lemma nul_free_conv: "dag_wf H v \<Longrightarrow> log_of v c \<noteq> [] \<Longrightarrow> nul_free c"
  by (cases "log_of v c") (auto simp: dag_wf_def log_of_def filter_eq_Cons_iff)

lemma nul_free_kinds: "nul_free SummaryLeaf" "nul_free SummaryCondensed"
  by (simp_all add: nul_free_def SummaryLeaf_def SummaryCondensed_def NUL_def)

lemma sources_nul_free: "dag_wf H v \<Longrightarrow> x \<in> set (sources_of v s) \<Longrightarrow> nul_free x"
  by (auto simp: set_links dag_wf_def)

lemma children_nul_free: "dag_wf H v \<Longrightarrow> x \<in> set (children_of v s) \<Longrightarrow> nul_free x"
  by (auto simp: set_links dag_wf_def summary_ids_def)

lemma own_key_cases:
  assumes wf: "dag_wf H v" and s: "s \<in> set (dv_summaries v)"
    and k: "own_key v s = summary_key c k d ids" and "nul_free c" "nul_free k" "\<forall>i \<in> set ids. nul_free i"
    and depth: "depth_ok v s"
  shows "sm_ConversationID s = c \<and> sm_Kind s = k \<and> sm_Depth s = d
    \<and> (if k = SummaryLeaf then sources_of v (sm_ID s) else children_of v (sm_ID s)) = ids"
proof -
  have kind: "nul_free (sm_Kind s)"
    using depth nul_free_kinds by (auto simp: depth_ok_def split: if_splits)
  have conv: "nul_free (sm_ConversationID s)" using wf s by (simp add: dag_wf_def)
  have ids: "\<forall>i \<in> set (if sm_Kind s = SummaryLeaf then sources_of v (sm_ID s) else children_of v (sm_ID s)). nul_free i"
    using sources_nul_free [OF wf] children_nul_free [OF wf] by simp
  from summary_key_inj [OF conv kind ids assms(4-6) k [unfolded own_key_def]]
  show ?thesis by auto
qed

lemma covers_refs_distinct:
  assumes wf: "dag_wf H v" and "list_all2 (item_expands v c) B b" "\<forall>it \<in> set B. is_message it"
    and "span_of v c k (concat b)"
  shows "distinct (map wi_refID B) \<and> set (map wi_refID B) \<subseteq> ms_ID ` set (dv_messages v)"
proof -
  have "map wi_refID B = take (length (concat b)) (drop k (log_ids v c))"
    using message_block [OF assms(2,3)] assms(4) by (auto simp: span_of_def)
  moreover have "set (log_ids v c) \<subseteq> ms_ID ` set (dv_messages v)" by (auto simp: log_ids_def log_of_def)
  ultimately show ?thesis
    using distinct_log [OF wf, of c] by (auto dest!: in_set_takeD in_set_dropD)
qed

lemma covers_block:
  assumes wf: "dag_wf H v" and sound: "dag_sound H v" and cov: "covers v c w n" and ij: "i < j" "j \<le> length w"
  obtains k b where "list_all2 (item_expands v c) (slice i j w) b" "span_of v c k (concat b)"
    "concat b \<noteq> []" "wi_earliestSeq (hd (slice i j w)) = int k + 1"
    "wi_latestSeq (last (slice i j w)) = int k + int (length (concat b))"
proof -
  let ?B = "slice i j w"
  have ne: "?B \<noteq> []" using ij by (simp add: slice_hd)
  have cov': "covers v c (take i w @ ?B @ drop j w) n" using cov slice_split [of i j w] ij by simp
  obtain a b z where "list_all2 (item_expands v c) (take i w) a" "list_all2 (item_expands v c) (drop j w) z"
    "concat a @ concat b @ concat z = take n (log_ids v c)"
    and b: "list_all2 (item_expands v c) ?B b" "span_of v c (length (concat a)) (concat b)"
    and e: "?B \<noteq> [] \<Longrightarrow> concat b \<noteq> [] \<and> wi_earliestSeq (hd ?B) = int (length (concat a)) + 1
       \<and> wi_latestSeq (last ?B) = int (length (concat a)) + int (length (concat b))"
    using covers_split [OF wf sound cov'] by metis
  from e [OF ne] show ?thesis using that [OF b] by simp
qed

text \<open>Folding messages: whether the summary is new or was there, the window keeps its cover.\<close>

lemma leaf_folded:
  assumes inv: "dag_inv H v" and cov: "covers v c w n" and ij: "i < j" "j \<le> length w"
    and msgs: "\<forall>it \<in> set (slice i j w). is_message it"
    and clash: "no_clash H v (leaf_key c (slice i j w))"
    and cr: "leaf_created H li v s v'"
    and li: "li_ConversationID li = c" "li_SourceMessageIDs li = map wi_refID (slice i j w)"
      "li_EarliestSeq li = wi_earliestSeq (hd (slice i j w))" "li_LatestSeq li = wi_latestSeq (last (slice i j w))"
      "li_DescendantMessageCount li = int (length (slice i j w))"
  shows "folded H v c w n (leaf_key c (slice i j w)) (replaceRange w i j (summary_item s)) s v' \<and> sm_Depth s = 0"
proof -
  let ?B = "slice i j w" and ?key = "leaf_key c (slice i j w)"
  have wf: "dag_wf H v" and sound: "dag_sound H v" and hex: "hex_hash H" and win: "windows_ok v"
    using inv by (simp_all add: dag_inv_def)
  have Bne: "?B \<noteq> []" using ij by (simp add: slice_hd)
  obtain k b where b: "list_all2 (item_expands v c) ?B b" "span_of v c k (concat b)"
    "concat b \<noteq> []" "wi_earliestSeq (hd ?B) = int k + 1"
    "wi_latestSeq (last ?B) = int k + int (length (concat b))"
    by (rule covers_block [OF wf sound cov ij])
  have ids: "concat b = map wi_refID ?B" by (rule message_block [OF b(1) msgs])
  have sub: "set (map wi_refID ?B) \<subseteq> ms_ID ` set (dv_messages v)"
    using covers_refs_distinct [OF wf b(1) msgs b(2)] by blast
  have c: "nul_free c"
    using b(2,3) by (intro nul_free_conv [OF wf]) (auto simp: span_of_def)
  have sid: "DeriveSummaryID H c SummaryLeaf 0 (map wi_refID ?B) = key_id H ?key"
    by (simp add: DeriveSummaryID_key key_id_def leaf_key_def)
  have replace: "covers v'' c (replaceRange w i j (summary_item s)) n"
    if "extends v v''" "item_expands v'' c (summary_item s) (concat b)" for v''
    using that ij block_unique [OF wf b(1)] by (intro covers_replace [OF cov _ _ _ b(1)]) auto
  from cr consider (old) "v' = v" "find_summary v (key_id H ?key) = Some s"
    | (new) now where "key_id H ?key \<notin> summary_ids v" "s = leaf_summary H li now" "v' = add_leaf s (map wi_refID ?B) v"
    unfolding leaf_created_def Let_def li(1,2) sid by blast
  then show ?thesis
  proof cases
    case old
    have s: "s \<in> set (dv_summaries v)" "sm_ID s = key_id H ?key" using find_summary_Some [OF old(2)] by auto
    have "own_key v s = ?key" using clash s by (simp add: no_clash_def)
    moreover have "depth_ok v s" using sound s by (simp add: dag_sound_def)
    moreover have "\<forall>i \<in> set (map wi_refID ?B). nul_free i" using sub wf by (auto simp: dag_wf_def)
    ultimately have k: "sm_ConversationID s = c" "sm_Kind s = SummaryLeaf" "sm_Depth s = 0"
      "sources_of v (sm_ID s) = map wi_refID ?B"
      using own_key_cases [OF wf s(1) _ c nul_free_kinds(1)] unfolding leaf_key_def by auto
    have "expands v (sm_ID s) (concat b)"
      using expands.leaf [of v "sm_ID s" s] old(2) s(2) k ids by simp
    then have "item_expands v c (summary_item s) (concat b)"
      using s(1) k(1) by (auto simp: item_expands_def)
    from replace [OF extends_refl this] show ?thesis
      using inv s(1) k old(1) by (auto simp: folded_def extends_refl)
  next
    case new
    have id: "sm_ID s = key_id H (summary_key (sm_ConversationID s) SummaryLeaf 0 (map wi_refID ?B))"
      by (simp add: new(2) leaf_summary_def li DeriveSummaryID_key key_id_def)
    have idk: "sm_ID s = key_id H ?key" using id by (simp add: new(2) li leaf_key_def)
    then have fresh: "sm_ID s \<notin> summary_ids v" using new(1) by simp
    have f: "sm_Kind s = SummaryLeaf" "sm_Depth s = 0" "sm_ConversationID s = c" by (simp_all add: new(2) li)
    have node: "dag_sound H v' \<and> expands v' (sm_ID s) (map wi_refID ?B)"
      unfolding new(3)
      using b ids by (intro add_leaf_node [OF wf sound fresh id f(1,2), where k = k])
        (simp_all add: new(2) li f)
    have wf': "dag_wf H v'"
      unfolding new(3) using sub c by (intro dag_wf_add_leaf [OF wf hex fresh idk]) (simp_all add: f)
    have ext: "extends v v'" unfolding new(3) by (rule extends_add_leaf [OF wf fresh])
    have s': "s \<in> set (dv_summaries v')" "dv_window v' = dv_window v" "dv_summaries v' = dv_summaries v @ [s]"
      by (simp_all add: new(3) add_leaf_def)
    have "item_expands v' c (summary_item s) (concat b)"
      using s'(1) f node ids by (auto simp: item_expands_def)
    then have cov': "covers v' c (replaceRange w i j (summary_item s)) n" by (rule replace [OF ext])
    have "own_key v' s = ?key"
      using f links_fresh [OF wf fresh] by (simp add: own_key_def leaf_key_def new(3) add_leaf_def del: map_map)
    moreover have "own_key v' x = own_key v x" if "x \<in> set (dv_summaries v)" for x
      using that by (intro own_key_extends [OF ext]) (simp add: summary_ids_def)
    ultimately have "stored_keys v' \<subseteq> insert ?key (stored_keys v)" by (auto simp: stored_keys_def s'(3))
    then show ?thesis
      using hex wf' node windows_ok_extends [OF win ext s'(2)] ext s' cov' f
      by (auto simp: folded_def dag_inv_def)
  qed
qed

text \<open>The summaries of a block: their parts, their distinct identifiers, their counts.\<close>

lemma summary_block:
  assumes wf: "dag_wf H v" and sound: "dag_sound H v"
    and b: "list_all2 (item_expands v c) B b" and sums: "\<forall>it \<in> set B. is_summary it"
    and ch: "list_all2 (\<lambda>it s. find_summary v (wi_refID it) = Some s) B children"
  shows "map sm_ID children = map wi_refID B \<and> list_all2 (expands v) (map wi_refID B) b
    \<and> sum_list (map sm_DescendantMessageCount children) = int (length (concat b))
    \<and> (\<forall>it \<in> set B. \<exists>s. find_summary v (wi_refID it) = Some s \<and> it = summary_item s \<and> sm_ConversationID s = c)"
  using b ch sums
proof (induction B b arbitrary: children rule: list_all2_induct)
  case (Cons it B ids b)
  then obtain s children' where ch: "children = s # children'" "find_summary v (wi_refID it) = Some s"
    "list_all2 (\<lambda>it s. find_summary v (wi_refID it) = Some s) B children'"
    by (auto simp: list_all2_Cons1)
  have "is_summary it" using Cons.prems by simp
  with Cons.hyps(1) obtain s' where s': "s' \<in> set (dv_summaries v)" "sm_ConversationID s' = c" "it = summary_item s'"
    "expands v (sm_ID s') ids" by (auto simp: item_expands_def)
  have "distinct (map sm_ID (dv_summaries v))" using wf by (simp add: dag_wf_def)
  then have "find_summary v (wi_refID it) = Some s'" using s' by (simp add: find_summary_iff)
  with ch(2) have [simp]: "s' = s" by simp
  obtain ids' where "summary_sound v s ids'" using sound s'(1) by (auto simp: dag_sound_def)
  then have "sm_DescendantMessageCount s = int (length ids)"
    using s'(4) by (auto simp: summary_sound_def dest: expands_det)
  with Cons.IH [OF ch(3)] Cons.prems s' ch show ?case by auto
qed simp

lemma summary_refs_distinct:
  assumes wf: "dag_wf H v" and "list_all2 (expands v) refs b" "distinct (concat b)" "\<forall>x \<in> set b. x \<noteq> []"
  shows "distinct refs"
  using assms(2-4)
proof (induction refs b rule: list_all2_induct)
  case (Cons r refs i b)
  have "r \<notin> set refs"
  proof
    assume "r \<in> set refs"
    then obtain k where k: "k < length refs" "refs ! k = r" by (auto simp: in_set_conv_nth)
    then have "expands v r (b ! k)" "k < length b" using Cons.hyps(2) by (auto simp: list_all2_conv_all_nth)
    then have "i \<in> set b" using expands_det [OF Cons.hyps(1)] by (metis nth_mem)
    with Cons.prems show False by (cases i) auto
  qed
  with Cons show ?case by simp
qed simp

lemma item_parts_nonempty:
  assumes sound: "dag_sound H v" and b: "list_all2 (item_expands v c) B b"
  shows "\<forall>x \<in> set b. x \<noteq> []"
  using b
proof (induction B b rule: list_all2_induct)
  case (Cons it B ids b)
  have "ids \<noteq> []"
  proof (cases "\<exists>m \<in> set (log_of v c). it = message_item m \<and> ids = [ms_ID m]")
    case False
    then obtain s where s: "s \<in> set (dv_summaries v)" "expands v (sm_ID s) ids"
      using Cons.hyps(1) by (auto simp: item_expands_def)
    then obtain ids' where "summary_sound v s ids'" using sound by (auto simp: dag_sound_def)
    with s(2) show ?thesis by (auto simp: summary_sound_def dest: expands_det)
  qed auto
  with Cons.IH show ?case by simp
qed simp

lemma condensed_folded:
  assumes inv: "dag_inv H v" and cov: "covers v c w n" and ij: "i < j" "j \<le> length w"
    and run: "\<forall>it \<in> set (slice i j w). is_summary it \<and> wi_depth it = d" and d: "0 \<le> d"
    and clash: "no_clash H v (condensed_key c (slice i j w))"
    and cr: "condensed_created H co v s v'"
    and ch: "list_all2 (\<lambda>it s. find_summary v (wi_refID it) = Some s) (slice i j w) children"
    and co: "co_ConversationID co = c" "co_Depth co = d + 1" "co_ChildSummaryIDs co = map sm_ID children"
      "co_EarliestSeq co = wi_earliestSeq (hd (slice i j w))" "co_LatestSeq co = wi_latestSeq (last (slice i j w))"
      "co_DescendantMessageCount co = sum_list (map sm_DescendantMessageCount children)"
  shows "folded H v c w n (condensed_key c (slice i j w)) (replaceRange w i j (summary_item s)) s v' \<and> sm_Depth s = d + 1"
proof -
  let ?B = "slice i j w" and ?key = "condensed_key c (slice i j w)"
  have wf: "dag_wf H v" and sound: "dag_sound H v" and hex: "hex_hash H" and win: "windows_ok v"
    using inv by (simp_all add: dag_inv_def)
  obtain k b where b: "list_all2 (item_expands v c) ?B b" "span_of v c k (concat b)"
    "concat b \<noteq> []" "wi_earliestSeq (hd ?B) = int k + 1"
    "wi_latestSeq (last ?B) = int k + int (length (concat b))"
    by (rule covers_block [OF wf sound cov ij])
  have blk: "map sm_ID children = map wi_refID ?B" "list_all2 (expands v) (map wi_refID ?B) b"
    "sum_list (map sm_DescendantMessageCount children) = int (length (concat b))"
    "\<forall>it \<in> set ?B. \<exists>s. find_summary v (wi_refID it) = Some s \<and> it = summary_item s \<and> sm_ConversationID s = c"
    using summary_block [OF wf sound b(1) _ ch] run by auto
  have c: "nul_free c" using b(2,3) by (intro nul_free_conv [OF wf]) (auto simp: span_of_def)
  have refs: "set (map wi_refID ?B) \<subseteq> summary_ids v" using blk(4) by (auto dest: in_summary_ids)
  have hd: "wi_depth (hd ?B) = d" using run ij by (simp add: slice_hd)
  have key: "?key = summary_key c SummaryCondensed (d + 1) (map wi_refID ?B)" by (simp add: condensed_key_def hd)
  have sid: "DeriveSummaryID H c SummaryCondensed (d + 1) (map wi_refID ?B) = key_id H ?key"
    by (simp add: DeriveSummaryID_key key_id_def key)
  have deep: "\<forall>x \<in> set (map wi_refID ?B). \<exists>s'. find_summary v x = Some s' \<and> sm_Depth s' = d \<and> sm_ConversationID s' = c"
    using blk(4) run by fastforce
  have replace: "covers v'' c (replaceRange w i j (summary_item s)) n"
    if "extends v v''" "item_expands v'' c (summary_item s) (concat b)" for v''
    using that ij block_unique [OF wf b(1)] by (intro covers_replace [OF cov _ _ _ b(1)]) auto
  from cr consider (old) "v' = v" "find_summary v (key_id H ?key) = Some s"
    | (new) now where "key_id H ?key \<notin> summary_ids v" "s = condensed_summary H co now" "v' = add_condensed s (map wi_refID ?B) v"
    unfolding condensed_created_def Let_def co(1,2,3) blk(1) sid by blast
  then show ?thesis
  proof cases
    case old
    have s: "s \<in> set (dv_summaries v)" "sm_ID s = key_id H ?key" using find_summary_Some [OF old(2)] by auto
    have "own_key v s = ?key" using clash s by (simp add: no_clash_def)
    moreover have "depth_ok v s" using sound s by (simp add: dag_sound_def)
    moreover have "\<forall>i \<in> set (map wi_refID ?B). nul_free i" using refs wf by (auto simp: dag_wf_def summary_ids_def)
    ultimately have k: "sm_ConversationID s = c" "sm_Kind s = SummaryCondensed" "sm_Depth s = d + 1"
      "children_of v (sm_ID s) = map wi_refID ?B"
      using own_key_cases [OF wf s(1) _ c nul_free_kinds(2)] unfolding key by auto
    have "expands v (sm_ID s) (concat b)"
      using expands.condensed [of v "sm_ID s" s b] old(2) s(2) k blk(2) by simp
    then have "item_expands v c (summary_item s) (concat b)"
      using s(1) k(1) by (auto simp: item_expands_def)
    from replace [OF extends_refl this] show ?thesis
      using inv s(1) k old(1) by (auto simp: folded_def extends_refl)
  next
    case new
    have f: "sm_Kind s = SummaryCondensed" "sm_Depth s = d + 1" "sm_ConversationID s = c" by (simp_all add: new(2) co)
    have id: "sm_ID s = key_id H (summary_key (sm_ConversationID s) SummaryCondensed (sm_Depth s) (map wi_refID ?B))"
      unfolding f by (simp add: new(2) condensed_summary_def co blk(1) DeriveSummaryID_key key_id_def)
    have idk: "sm_ID s = key_id H ?key" using id unfolding f key .
    then have fresh: "sm_ID s \<notin> summary_ids v" using new(1) by simp
    have node: "dag_sound H v' \<and> expands v' (sm_ID s) (concat b)"
      unfolding new(3)
      using b blk deep d by (intro add_condensed_node [OF wf sound fresh id f(1), where k = k])
        (simp_all add: f, simp_all add: new(2) co)
    have wf': "dag_wf H v'"
      unfolding new(3) using refs c by (intro dag_wf_add_condensed [OF wf hex fresh idk]) (simp_all add: f)
    have ext: "extends v v'" unfolding new(3) by (rule extends_add_condensed [OF wf fresh])
    have s': "s \<in> set (dv_summaries v')" "dv_window v' = dv_window v" "dv_summaries v' = dv_summaries v @ [s]"
      by (simp_all add: new(3) add_condensed_def)
    have "item_expands v' c (summary_item s) (concat b)"
      using s'(1) f node by (auto simp: item_expands_def)
    then have cov': "covers v' c (replaceRange w i j (summary_item s)) n" by (rule replace [OF ext])
    have "own_key v' s = ?key"
      using f links_fresh [OF wf fresh] by (simp add: own_key_def key new(3) add_condensed_def del: map_map)
    moreover have "own_key v' x = own_key v x" if "x \<in> set (dv_summaries v)" for x
      using that by (intro own_key_extends [OF ext]) (simp add: summary_ids_def)
    ultimately have "stored_keys v' \<subseteq> insert ?key (stored_keys v)" by (auto simp: stored_keys_def s'(3))
    then show ?thesis
      using hex wf' node windows_ok_extends [OF win ext s'(2)] ext s' cov' f
      by (auto simp: folded_def dag_inv_def)
  qed
qed

section \<open>The engine over a store that keeps its laws\<close>

definition resolves :: "dag_view \<Rightarrow> context_item_type \<times> string \<Rightarrow> window_item \<Rightarrow> bool" where
  "resolves v r it \<longleftrightarrow>
     (fst r = ContextMessage \<and> (\<exists>m. find_message v (snd r) = Some m \<and> it = message_item m))
     \<or> (fst r = ContextSummary \<and> (\<exists>s. find_summary v (snd r) = Some s \<and> it = summary_item s))"

lemma resolves_det: "resolves v r x \<Longrightarrow> resolves v r y \<Longrightarrow> y = x"
  by (auto simp: resolves_def)

lemma covers_resolves:
  assumes wf: "dag_wf H v" and "covers v c w n" "it \<in> set w"
  shows "resolves v (item_ref it) it"
proof -
  have d: "distinct (map ms_ID (dv_messages v))" "distinct (map sm_ID (dv_summaries v))"
    using wf by (simp_all add: dag_wf_def)
  from covers_item [OF assms(2,3)] show ?thesis
    by (auto simp: resolves_def find_message_iff [OF d(1)] find_summary_iff [OF d(2)] log_of_def)
qed

lemma truncateToTokens_ok: "0 \<le> t \<Longrightarrow> t < 2 ^ 61 \<Longrightarrow> truncateToTokens s t \<noteq> None"
  by (simp add: truncateToTokens_def Let_def wrap64_id)

text \<open>The window a pass begins with: the stored one, then every message behind it.\<close>

definition resumed :: "dag_view \<Rightarrow> string \<Rightarrow> window_item list \<Rightarrow> bool" where
  "resumed v c w \<longleftrightarrow> (\<exists>w0 n. map item_ref w0 = dv_window v c \<and> covers v c w0 n
     \<and> w = w0 @ map message_item (drop n (log_of v c)))"

text \<open>An error of a healthy run has this cause: the truncation limit overflows.\<close>

definition overflow :: "config \<Rightarrow> bool" where
  "overflow cfg \<longleftrightarrow> \<not> (0 \<le> cf_TruncateTokens cfg \<and> cf_TruncateTokens cfg < 2 ^ 61)"

context engine
begin

abbreviation stuck :: "bool \<Rightarrow> dag_view \<Rightarrow> error \<Rightarrow> 'st \<Rightarrow> bool" where
  "stuck b v \<equiv> \<lambda>_ s. at b v s \<and> (\<not> b \<or> overflow (cp_cfg C))"

lemma load_item_ok:
  assumes "resolves v (ci_Type it, ci_RefID it) x"
  shows "hoare (at b v) (load_item C it) (\<lambda>y s. at b v s \<and> y = x) (\<lambda>_ s. at b v s \<and> \<not> b)"
proof (cases "ci_Type it = ContextMessage")
  case True
  with assms obtain m where m: "find_message v (ci_RefID it) = Some m" "x = message_item m"
    by (auto simp: resolves_def)
  have "hoare (at b v) (bindE (es_GetMessage S (ci_RefID it)) (\<lambda>m. ret (message_item m)))
      (\<lambda>y s. at b v s \<and> y = x) (\<lambda>_ s. at b v s \<and> \<not> b)"
    by (rule hoare_bind_fact [OF hoare_err [OF get_message]]) (auto simp: m intro: hoare_ret)
  with True show ?thesis by (simp add: load_item_def store)
next
  case False
  with assms obtain s where s: "find_summary v (ci_RefID it) = Some s" "x = summary_item s" "ci_Type it = ContextSummary"
    by (auto simp: resolves_def)
  have "hoare (at b v) (bindE (es_GetSummary S (ci_RefID it)) (\<lambda>s. ret (summary_item s)))
      (\<lambda>y s. at b v s \<and> y = x) (\<lambda>_ s. at b v s \<and> \<not> b)"
    by (rule hoare_bind_fact [OF hoare_err [OF get_summary]]) (auto simp: s intro: hoare_ret)
  with False s(3) show ?thesis by (simp add: load_item_def store)
qed

lemma load_window:
  assumes wf: "dag_wf H v" and cov: "covers v c w n"
    and items: "map (\<lambda>it. (ci_Type it, ci_RefID it)) items = map item_ref w"
  shows "hoare (at b v) (mapE (load_item C) items) (\<lambda>r s. at b v s \<and> r = w) (\<lambda>_ s. at b v s \<and> \<not> b)"
proof -
  let ?R = "\<lambda>it x. resolves v (ci_Type it, ci_RefID it) x"
  have len: "length items = length w" using items by (metis length_map)
  have res: "?R (items ! k) (w ! k)" if "k < length w" for k
  proof -
    have "(ci_Type (items ! k), ci_RefID (items ! k)) = item_ref (w ! k)"
      using arg_cong [OF items, of "\<lambda>xs. xs ! k"] that len by simp
    then show ?thesis using covers_resolves [OF wf cov nth_mem [OF that]] by simp
  qed
  have each: "hoare (at b v) (load_item C it) (\<lambda>x s. at b v s \<and> ?R it x) (\<lambda>_ s. at b v s \<and> \<not> b)"
    if "it \<in> set items" for it
  proof -
    from that obtain k where k: "k < length w" "it = items ! k" by (auto simp: in_set_conv_nth len)
    show ?thesis by (rule hoare_conseq [OF load_item_ok [OF res [OF k(1), folded k(2)]]]) (auto simp: k res)
  qed
  have "r = w" if "list_all2 ?R items r" for r
  proof (rule nth_equalityI)
    show "length r = length w" using that len by (simp add: list_all2_conv_all_nth)
    show "r ! k = w ! k" if "k < length r" for k
      using that \<open>list_all2 ?R items r\<close> len res by (intro resolves_det [of v _ "w ! k"]) (auto simp: list_all2_conv_all_nth)
  qed
  then show ?thesis by (intro hoare_conseq [OF hoare_mapE [OF each]]) auto
qed

lemma buildWindow_ok:
  assumes inv: "dag_inv H v"
  shows "hoare (at b v) (buildWindow C c)
    (\<lambda>w s. at b v s \<and> covers v c w (length (log_of v c)) \<and> resumed v c w)
    (\<lambda>_ s. at b v s \<and> \<not> b)"
proof -
  have wf: "dag_wf H v" and sound: "dag_sound H v" using inv by (simp_all add: dag_inv_def)
  obtain w0 n where w0: "map item_ref w0 = dv_window v c" "covers v c w0 n"
    using inv unfolding dag_inv_def windows_ok_def by blast
  show ?thesis
    unfolding buildWindow_def store
  proof (rule hoare_bind_fact [OF list_items])
    fix items :: "context_item list"
    assume "map (\<lambda>it. (ci_Type it, ci_RefID it)) items = dv_window v c"
    with w0 have items: "map (\<lambda>it. (ci_Type it, ci_RefID it)) items = map item_ref w0" by simp
    show "hoare (at b v) (bindE (mapE (load_item C) items) (\<lambda>w.
        let lastSeq = fold max (map wi_latestSeq w) 0 in
        bindE (es_ListMessages S c lastSeq 0) (\<lambda>msgs. ret (w @ map message_item msgs))))
      (\<lambda>w s. at b v s \<and> covers v c w (length (log_of v c)) \<and> resumed v c w)
      (\<lambda>_ s. at b v s \<and> \<not> b)"
    proof (rule hoare_bind_fact [OF load_window [OF wf w0(2) items]])
      fix r assume [simp]: "r = w0"
      have last: "fold max (map wi_latestSeq w0) 0 = int n" by (rule fold_max_latest [OF wf sound w0(2)])
      show "hoare (at b v) (let lastSeq = fold max (map wi_latestSeq r) 0 in
          bindE (es_ListMessages S c lastSeq 0) (\<lambda>msgs. ret (r @ map message_item msgs)))
        (\<lambda>w s. at b v s \<and> covers v c w (length (log_of v c)) \<and> resumed v c w)
        (\<lambda>_ s. at b v s \<and> \<not> b)"
        unfolding Let_def last \<open>r = w0\<close>
        by (rule hoare_bind_fact [OF list_messages], rule hoare_ret)
          (use covers_more [OF w0(2)] w0 log_after [OF wf, of n c] in \<open>auto simp: resumed_def\<close>)
    qed
  qed
qed

lemma summarizer_ok: "hoare (at b v) (cp_summarizer C r) (\<lambda>_. at b v) (stuck b v)"
  by (rule hoare_err [OF summarizer]) auto

lemma mkdir_ok: "hoare (at b v) (cp_MkdirAll C p) (\<lambda>_. at b v) (stuck b v)"
  by (rule hoare_err [OF mkdir]) auto

lemma write_ok: "hoare (at b v) (cp_WriteFile C p x) (\<lambda>_. at b v) (stuck b v)"
  by (rule hoare_err [OF write_file]) auto

lemma summarize_ok:
  "hoare (at b v) (summarizeWithGuard C kind depth sources target) (\<lambda>_. at b v) (stuck b v)"
proof -
  have "hoare (at b v) (case truncateToTokens x (cf_TruncateTokens (cp_cfg C)) of
             Some truncated \<Rightarrow> ret (truncated, cp_counter C truncated)
           | None \<Rightarrow> fail (GoPanic ''slice bounds out of range'')) (\<lambda>_. at b v) (stuck b v)" for x
    using truncateToTokens_ok [of "cf_TruncateTokens (cp_cfg C)" x]
    by (cases "truncateToTokens x (cf_TruncateTokens (cp_cfg C))")
      (auto simp: overflow_def intro!: hoare_ret hoare_fail)
  then show ?thesis
    unfolding summarizeWithGuard_def Let_def
    by (intro hoare_bind [OF hoare_wrap [OF summarizer_ok]] hoare_if hoare_ret)
qed

lemma offload_ok:
  assumes m: "log_of v (ms_ConversationID m) \<noteq> []"
  shows "hoare (at b v) (offload C m) (\<lambda>_. at b v) (stuck b v)"
proof -
  have trunc: "truncateToTokens x 200 \<noteq> None" for x by (rule truncateToTokens_ok) simp_all
  have descr: "hoare (at b v) (case cp_describe C x of
               Some (exploration, extractor) \<Rightarrow> ret (exploration, extractor)
             | None \<Rightarrow> bindE (tryE (cp_summarizer C r)) (\<lambda>r. case r of
                   Inr exploration \<Rightarrow> ret (exploration, ''summarizer'')
                 | Inl _ \<Rightarrow> (case truncateToTokens x 200 of
                     Some exploration \<Rightarrow> ret (exploration, ''truncation'')
                   | None \<Rightarrow> fail (GoPanic ''slice bounds out of range''))))
      (\<lambda>_. at b v) (stuck b v)" for x r
  proof (cases "cp_describe C x")
    case None
    have "hoare (at b v) (tryE (cp_summarizer C r)) (\<lambda>_. at b v) (stuck b v)"
      by (rule hoare_try, rule hoare_err [OF summarizer]) auto
    then show ?thesis
      using None trunc [of x] by (auto intro!: hoare_bind hoare_ret split: sum.split option.split)
  qed (auto intro: hoare_ret)
  have create: "hoare (at b v) (es_CreateLargeFile S f) (\<lambda>_. at b v) (stuck b v)"
    if "lf_ConversationID f = ms_ConversationID m" for f
    by (rule hoare_err [OF create_file]) (auto simp: that m)
  have "hoare (at b v) (case e of (exploration, extractor) \<Rightarrow> es_CreateLargeFile S
        \<lparr>lf_ID = [], lf_ConversationID = ms_ConversationID m, lf_MessageID = ms_ID m, lf_StorageURI = p,
         lf_ByteSize = n, lf_TokenCount = k, lf_ExplorationSummary = exploration, lf_Extractor = extractor,
         lf_CreatedAt = 0\<rparr>) (\<lambda>_. at b v) (stuck b v)" for e p n k
    by (cases e, simp only: prod.case, rule create, simp)
  then show ?thesis
    unfolding offload_def Let_def store
    by (intro hoare_bind [OF hoare_wrap [OF mkdir_ok]] hoare_bind [OF hoare_wrap [OF write_ok]] hoare_bind [OF descr])
qed

lemma sourceText_ok:
  assumes m: "log_of v (ms_ConversationID m) \<noteq> []"
  shows "hoare (at b v) (sourceText C m) (\<lambda>_. at b v) (stuck b v)"
  unfolding sourceText_def by (intro hoare_if hoare_bind [OF offload_ok [OF m]] hoare_ret) auto

end

end
