(* ===== verification/Compaction.thy ===== *)
theory Compaction
  imports Engine_Store
begin

text \<open>
  The compaction loop over a store that keeps its laws: every fold keeps the window a cover of the
  log and the fresh tail in place, on every exit; the loop ends for a reason.
\<close>

section \<open>What the next step may be\<close>

abbreviation tail_of :: "config \<Rightarrow> window_item list \<Rightarrow> window_item list" where
  "tail_of cfg \<equiv> fresh_tail (cf_FreshTailMessages cfg) (cf_FreshTailTokens cfg)"

lemma next_step_messages:
  assumes "next_step cfg arch w = FoldMessages i j"
  shows "i < j" "j \<le> length w" "\<forall>it \<in> set (slice i j w). is_message it"
    "{i..<j} \<inter> protectedSet w (cf_FreshTailMessages cfg) (cf_FreshTailTokens cfg) = {}"
    "2 \<le> fold_measure (slice i j w)"
proof -
  have f: "findMessageBlock w (protectedSet w (cf_FreshTailMessages cfg) (cf_FreshTailTokens cfg)) (cf_LeafChunkTokens cfg) = Some (i, j)"
    using assms by (auto simp: next_step_def Let_def split: if_splits option.splits)
  note s = findMessageBlock_Some [OF f]
  show "i < j" "j \<le> length w" using s(1,2) by auto
  show "2 \<le> fold_measure (slice i j w)" using s by (intro fold_measure_messages) auto
  show "\<forall>it \<in> set (slice i j w). is_message it" using s by (auto simp: set_slice)
  show "{i..<j} \<inter> protectedSet w (cf_FreshTailMessages cfg) (cf_FreshTailTokens cfg) = {}" using s(3) by auto
qed

lemma next_step_summaries:
  assumes "next_step cfg arch w = FoldSummaries i j" and "2 \<le> cf_CondenseFanout cfg"
  obtains d where "d < cf_MaxDepth cfg" "i + 2 \<le> j" "j \<le> length w"
    "\<forall>it \<in> set (slice i j w). is_summary it \<and> wi_depth it = d"
    "{i..<j} \<inter> protectedSet w (cf_FreshTailMessages cfg) (cf_FreshTailTokens cfg) = {}"
proof -
  have f: "condenseRun w (cf_CondenseFanout cfg) (cf_MaxDepth cfg) (cf_CondenseChunkTokens cfg) = Some (i, j)"
    using assms(1) by (auto simp: next_step_def Let_def split: if_splits option.splits)
  obtain d where d: "d < cf_MaxDepth cfg" "i + 2 \<le> j" "j \<le> length w"
    "\<And>k. i \<le> k \<Longrightarrow> k < j \<Longrightarrow> is_summary (w ! k) \<and> wi_depth (w ! k) = d"
    using condenseRun_Some [OF f assms(2)] by metis
  have "k \<notin> protectedSet w (cf_FreshTailMessages cfg) (cf_FreshTailTokens cfg)" if "i \<le> k" "k < j" for k
    using protected_conversational [of k w] d(4) [OF that] by (auto simp: isConversationalMessage_def)
  then show ?thesis using d by (intro that [of d]) (auto simp: set_slice)
qed

text \<open>
  What a run has achieved when it stands at view \<open>v'\<close> and window \<open>w'\<close>: the log is untouched and
  still covered, nodes were only added, the fresh tail is the same, depths stay in bounds.
\<close>

definition compacted ::
  "hash \<Rightarrow> config \<Rightarrow> dag_view \<Rightarrow> string \<Rightarrow> window_item list \<Rightarrow> nat \<Rightarrow> dag_view \<Rightarrow> window_item list \<Rightarrow> bool" where
  "compacted H cfg v c w n v' w' \<longleftrightarrow> extends v v' \<and> dv_window v' = dv_window v \<and> dag_inv H v' \<and> covers v' c w' n
     \<and> tail_of cfg w' = tail_of cfg w
     \<and> (\<forall>s \<in> set (dv_summaries v'). s \<in> set (dv_summaries v) \<or> 0 \<le> sm_Depth s \<and> sm_Depth s \<le> cf_MaxDepth cfg)"

lemma compacted_refl: "dag_inv H v \<Longrightarrow> covers v c w n \<Longrightarrow> compacted H cfg v c w n v w"
  by (simp add: compacted_def extends_refl)

lemma compacted_trans:
  assumes 1: "compacted H cfg u c w n v w'" and 2: "compacted H cfg v c w' n v' w''"
  shows "compacted H cfg u c w n v' w''"
  using 1 2 extends_trans unfolding compacted_def by metis

lemma folded_compacted:
  assumes f: "folded H v c w n k (replaceRange w i j (summary_item s)) s v'"
    and ij: "i \<le> j" "j \<le> length w" and d: "0 \<le> sm_Depth s" "sm_Depth s \<le> cf_MaxDepth cfg"
    and free: "{i..<j} \<inter> protectedSet w (cf_FreshTailMessages cfg) (cf_FreshTailTokens cfg) = {}"
  shows "compacted H cfg v c w n v' (replaceRange w i j (summary_item s))"
  using f d fresh_tail_replaceRange [OF ij free, of "summary_item s"]
  by (auto simp: compacted_def folded_def)

context engine
begin

lemma get_message_item:
  assumes wf: "dag_wf H v" and m: "m \<in> set (log_of v c)"
  shows "hoare (at b v) (es_GetMessage S (ms_ID m)) (\<lambda>x s. at b v s \<and> x = m) (stuck b v)"
proof -
  have "find_message v (ms_ID m) = Some m"
    using wf m find_message_iff [of v] by (auto simp: dag_wf_def log_of_def)
  then show ?thesis by (intro hoare_conseq [OF get_message]) auto
qed

lemma leaf_sources:
  assumes wf: "dag_wf H v" and it: "\<exists>m \<in> set (log_of v c). it = message_item m"
  shows "hoare (at b v) (bindE (es_GetMessage (cp_store C) (wi_refID it)) (\<lambda>m.
      bindE (sourceText C m) (\<lambda>src. ret (ms_ID m, src))))
    (\<lambda>p s. at b v s \<and> fst p = wi_refID it) (stuck b v)"
proof -
  obtain m where m: "m \<in> set (log_of v c)" "it = message_item m" using it by blast
  then have "ms_ConversationID m = c" by (simp add: log_of_def)
  moreover have "log_of v c \<noteq> []" using m(1) by (cases "log_of v c") auto
  ultimately have src: "hoare (at b v) (sourceText C m) (\<lambda>_. at b v) (stuck b v)" by (intro sourceText_ok) simp
  have cont: "hoare (at b v) (bindE (sourceText C m) (\<lambda>src. ret (ms_ID m, src)))
      (\<lambda>p s. at b v s \<and> fst p = ms_ID m) (stuck b v)"
    by (rule hoare_bind [OF src], rule hoare_ret) simp
  have "hoare (at b v) (bindE (es_GetMessage S (ms_ID m)) (\<lambda>m. bindE (sourceText C m) (\<lambda>src. ret (ms_ID m, src))))
      (\<lambda>p s. at b v s \<and> fst p = ms_ID m) (stuck b v)"
  proof (rule hoare_bind_fact [OF get_message_item [OF wf m(1)]])
    fix x assume "x = m"
    with cont show "hoare (at b v) (bindE (sourceText C x) (\<lambda>src. ret (ms_ID x, src)))
      (\<lambda>p s. at b v s \<and> fst p = ms_ID m) (stuck b v)" by simp
  qed
  then show ?thesis by (simp add: store m(2))
qed

lemma covers_block_items:
  assumes "covers v c w n" "i < j" "j \<le> length w" "it \<in> set (slice i j w)"
  shows "(is_message it \<longrightarrow> (\<exists>m \<in> set (log_of v c). it = message_item m))
    \<and> (is_summary it \<longrightarrow> (\<exists>s \<in> set (dv_summaries v). sm_ConversationID s = c \<and> it = summary_item s))"
proof -
  have "it \<in> set w" using assms(3,4) by (auto simp: set_slice)
  from covers_item [OF assms(1) this] show ?thesis by auto
qed

lemma block_log:
  assumes inv: "dag_inv H v" and cov: "covers v c w n" and ij: "i < j" "j \<le> length w"
  shows "log_of v c \<noteq> []"
proof -
  have wf: "dag_wf H v" and sound: "dag_sound H v" using inv by (simp_all add: dag_inv_def)
  obtain k b where "span_of v c k (concat b)" "concat b \<noteq> []"
    by (rule covers_block [OF wf sound cov ij])
  then show ?thesis by (auto simp: span_of_def)
qed

lemma makeLeaf_ok:
  assumes inv: "dag_inv H v" and cov: "covers v c w n" and ij: "i < j" "j \<le> length w"
    and msgs: "\<forall>it \<in> set (slice i j w). is_message it"
    and clash: "no_clash H v (leaf_key c (slice i j w))"
  shows "hoare (at b v) (makeLeaf C c (slice i j w))
    (\<lambda>it st. \<exists>s v'. at b v' st \<and> it = summary_item s \<and> sm_Depth s = 0
       \<and> folded H v c w n (leaf_key c (slice i j w)) (replaceRange w i j it) s v') (stuck b v)"
proof -
  let ?B = "slice i j w"
  let ?Q = "\<lambda>it st. \<exists>s v'. at b v' st \<and> it = summary_item s \<and> sm_Depth s = 0
       \<and> folded H v c w n (leaf_key c ?B) (replaceRange w i j it) s v'"
  have wf: "dag_wf H v" and sound: "dag_sound H v" using inv by (simp_all add: dag_inv_def)
  have log: "log_of v c \<noteq> []" by (rule block_log [OF inv cov ij])
  have srcs: "hoare (at b v) (mapE (\<lambda>it. bindE (es_GetMessage (cp_store C) (wi_refID it)) (\<lambda>m.
        bindE (sourceText C m) (\<lambda>src. ret (ms_ID m, src)))) ?B)
      (\<lambda>srcs s. at b v s \<and> map fst srcs = map wi_refID ?B) (stuck b v)"
  proof (rule hoare_post [OF hoare_mapE [where R = "\<lambda>it p. fst p = wi_refID it"]])
    show "hoare (at b v) (bindE (es_GetMessage (cp_store C) (wi_refID it)) (\<lambda>m.
        bindE (sourceText C m) (\<lambda>src. ret (ms_ID m, src)))) (\<lambda>p s. at b v s \<and> fst p = wi_refID it) (stuck b v)"
      if "it \<in> set ?B" for it
      using covers_block_items [OF cov ij that] msgs that by (intro leaf_sources [OF wf]) auto
  qed (auto simp: list_all2_conv_all_nth intro: nth_equalityI)
  obtain k p where p: "list_all2 (item_expands v c) ?B p" "span_of v c k (concat p)"
    by (rule covers_block [OF wf sound cov ij])
  note refs = covers_refs_distinct [OF wf p(1) msgs p(2)]
  have create: "hoare (at b v) (bindE (es_CreateLeafSummary S li) (\<lambda>s. ret ((summary_item s)\<lparr>wi_depth := 0\<rparr>))) ?Q (stuck b v)"
    if li: "li_ConversationID li = c" "li_SourceMessageIDs li = map wi_refID ?B"
      "li_EarliestSeq li = wi_earliestSeq (hd ?B)" "li_LatestSeq li = wi_latestSeq (last ?B)"
      "li_DescendantMessageCount li = int (length ?B)" for li
  proof (rule hoare_bind)
    show "hoare (at b v) (es_CreateLeafSummary S li) (\<lambda>x s. \<exists>v'. at b v' s \<and> leaf_created H li v x v') (stuck b v)"
      using refs log by (intro hoare_err [OF create_leaf]) (auto simp: li)
    show "hoare (\<lambda>s. \<exists>v'. at b v' s \<and> leaf_created H li v x v') (ret ((summary_item x)\<lparr>wi_depth := 0\<rparr>)) ?Q (stuck b v)" for x
    proof (rule hoare_ret)
      fix s assume "\<exists>v'. at b v' s \<and> leaf_created H li v x v'"
      then obtain v' where v': "at b v' s" "leaf_created H li v x v'" by blast
      note f = leaf_folded [OF inv cov ij msgs clash v'(2) li]
      then have eq: "(summary_item x)\<lparr>wi_depth := 0\<rparr> = summary_item x" by (simp add: summary_item_def)
      show "?Q ((summary_item x)\<lparr>wi_depth := 0\<rparr>) s" unfolding eq using f v'(1) by blast
    qed
  qed
  show ?thesis
    unfolding makeLeaf_def
  proof (rule hoare_bind_fact [OF srcs])
    fix srcs :: "(string \<times> string) list"
    assume ids: "map fst srcs = map wi_refID ?B"
    show "hoare (at b v) (bindE (summarizeWithGuard C SummaryLeaf 0 (map snd srcs) (cf_LeafTargetTokens (cp_cfg C)))
        (\<lambda>(content, tokens). bindE (es_CreateLeafSummary (cp_store C)
              \<lparr>li_ConversationID = c, li_Content = content, li_TokenCount = tokens,
               li_SourceMessageIDs = map fst srcs, li_EarliestSeq = wi_earliestSeq (hd ?B),
               li_LatestSeq = wi_latestSeq (last ?B), li_DescendantMessageCount = int (length ?B)\<rparr>) (\<lambda>s.
          ret ((summary_item s)\<lparr>wi_depth := 0\<rparr>)))) ?Q (stuck b v)"
      unfolding store
      by (rule hoare_bind [OF summarize_ok], simp only: split_beta, rule create) (simp_all add: ids)
  qed
qed

lemma makeCondensed_ok:
  assumes inv: "dag_inv H v" and cov: "covers v c w n" and ij: "i < j" "j \<le> length w"
    and run: "\<forall>it \<in> set (slice i j w). is_summary it \<and> wi_depth it = d"
    and clash: "no_clash H v (condensed_key c (slice i j w))"
  shows "hoare (at b v) (makeCondensed C c (slice i j w))
    (\<lambda>it st. \<exists>s v'. at b v' st \<and> it = summary_item s \<and> sm_Depth s = d + 1
       \<and> folded H v c w n (condensed_key c (slice i j w)) (replaceRange w i j it) s v') (stuck b v)"
proof -
  let ?B = "slice i j w"
  let ?Q = "\<lambda>it st. \<exists>s v'. at b v' st \<and> it = summary_item s \<and> sm_Depth s = d + 1
       \<and> folded H v c w n (condensed_key c ?B) (replaceRange w i j it) s v'"
  let ?R = "\<lambda>it s. find_summary v (wi_refID it) = Some s"
  have wf: "dag_wf H v" and sound: "dag_sound H v" using inv by (simp_all add: dag_inv_def)
  have log: "log_of v c \<noteq> []" by (rule block_log [OF inv cov ij])
  have Bne: "?B \<noteq> []" using ij by (simp add: slice_hd)
  have depth: "wi_depth (hd ?B) = d" using run Bne by simp
  have found: "\<exists>s. ?R it s" if it: "it \<in> set ?B" for it
  proof -
    obtain s where "s \<in> set (dv_summaries v)" "it = summary_item s"
      using covers_block_items [OF cov ij it] run it by auto
    then show ?thesis using find_summary_iff [of v] wf by (auto simp: dag_wf_def)
  qed
  have d0: "0 \<le> d"
  proof -
    obtain s where "s \<in> set (dv_summaries v)" "hd ?B = summary_item s"
      using covers_block_items [OF cov ij hd_in_set [OF Bne]] run Bne by auto
    then show ?thesis using sound depth by (auto simp: dag_sound_def depth_ok_def split: if_splits)
  qed
  have children: "hoare (at b v) (mapE (\<lambda>it. es_GetSummary (cp_store C) (wi_refID it)) ?B)
      (\<lambda>children s. at b v s \<and> list_all2 ?R ?B children) (stuck b v)"
    unfolding store
    by (rule hoare_mapE, rule hoare_err [OF get_summary]) (use found in fastforce)
  obtain k p where p: "list_all2 (item_expands v c) ?B p" "span_of v c k (concat p)"
    by (rule covers_block [OF wf sound cov ij])
  have create: "hoare (at b v) (bindE (es_CreateCondensedSummary S co) (\<lambda>s. ret ((summary_item s)\<lparr>wi_depth := d + 1\<rparr>)))
      ?Q (stuck b v)"
    if ch: "list_all2 ?R ?B children" and co: "co_ConversationID co = c" "co_Depth co = d + 1"
      "co_ChildSummaryIDs co = map sm_ID children"
      "co_EarliestSeq co = wi_earliestSeq (hd ?B)" "co_LatestSeq co = wi_latestSeq (last ?B)"
      "co_DescendantMessageCount co = sum_list (map sm_DescendantMessageCount children)" for co children
  proof (rule hoare_bind)
    have blk: "map sm_ID children = map wi_refID ?B" "list_all2 (expands v) (map wi_refID ?B) p"
      "\<forall>it \<in> set ?B. \<exists>s. find_summary v (wi_refID it) = Some s \<and> it = summary_item s \<and> sm_ConversationID s = c"
      using summary_block [OF wf sound p(1) _ ch] run by auto
    have "distinct (concat p)"
      using p(2) distinct_log [OF wf, of c] unfolding span_of_def by (metis distinct_drop distinct_take)
    then have "distinct (map wi_refID ?B)"
      by (rule summary_refs_distinct [OF wf blk(2) _ item_parts_nonempty [OF sound p(1)]])
    moreover have "set (map wi_refID ?B) \<subseteq> summary_ids v" using blk(3) by (auto dest: in_summary_ids)
    ultimately show "hoare (at b v) (es_CreateCondensedSummary S co)
        (\<lambda>x s. \<exists>v'. at b v' s \<and> condensed_created H co v x v') (stuck b v)"
      using log by (intro hoare_err [OF create_condensed]) (auto simp: co blk(1))
    show "hoare (\<lambda>s. \<exists>v'. at b v' s \<and> condensed_created H co v x v') (ret ((summary_item x)\<lparr>wi_depth := d + 1\<rparr>)) ?Q (stuck b v)" for x
    proof (rule hoare_ret)
      fix s assume "\<exists>v'. at b v' s \<and> condensed_created H co v x v'"
      then obtain v' where v': "at b v' s" "condensed_created H co v x v'" by blast
      note f = condensed_folded [OF inv cov ij run d0 clash v'(2) ch co]
      then have eq: "(summary_item x)\<lparr>wi_depth := d + 1\<rparr> = summary_item x" by (simp add: summary_item_def)
      show "?Q ((summary_item x)\<lparr>wi_depth := d + 1\<rparr>) s" unfolding eq using f v'(1) by blast
    qed
  qed
  show ?thesis
    unfolding makeCondensed_def Let_def depth
  proof (rule hoare_bind_fact [OF children])
    fix children assume ch: "list_all2 ?R ?B children"
    show "hoare (at b v) (bindE (summarizeWithGuard C SummaryCondensed (d + 1) (map sm_Content children)
              (cf_CondensedTargetTokens (cp_cfg C))) (\<lambda>(content, tokens).
        bindE (es_CreateCondensedSummary (cp_store C)
              \<lparr>co_ConversationID = c, co_Depth = d + 1, co_Content = content, co_TokenCount = tokens,
               co_ChildSummaryIDs = map sm_ID children, co_EarliestSeq = wi_earliestSeq (hd ?B),
               co_LatestSeq = wi_latestSeq (last ?B),
               co_DescendantMessageCount = sum_list (map sm_DescendantMessageCount children)\<rparr>) (\<lambda>s.
          ret ((summary_item s)\<lparr>wi_depth := d + 1\<rparr>)))) ?Q (stuck b v)"
      unfolding store
      by (rule hoare_bind [OF summarize_ok], simp only: split_beta, rule create [OF ch]) simp_all
  qed
qed

text \<open>One fold: the run stands at a compacted window with a smaller measure.\<close>

definition after_fold where
  "after_fold b v c w n i j k it st \<longleftrightarrow> (\<exists>v'. at b v' st
     \<and> compacted H (cp_cfg C) v c w n v' (replaceRange w i j it)
     \<and> fold_measure (replaceRange w i j it) < fold_measure w \<and> stored_keys v' \<subseteq> insert k (stored_keys v))"

lemma after_foldI:
  assumes "at b v' st" "it = summary_item s" and f: "folded H v c w n k (replaceRange w i j it) s v'"
    and ij: "i < j" "j \<le> length w" and d: "0 \<le> sm_Depth s" "sm_Depth s \<le> cf_MaxDepth (cp_cfg C)"
    and free: "{i..<j} \<inter> protectedSet w (cf_FreshTailMessages (cp_cfg C)) (cf_FreshTailTokens (cp_cfg C)) = {}"
    and big: "2 \<le> fold_measure (slice i j w)"
  shows "after_fold b v c w n i j k it st"
  unfolding after_fold_def
proof (intro exI conjI)
  show "at b v' st" by (rule assms(1))
  show "compacted H (cp_cfg C) v c w n v' (replaceRange w i j it)"
    unfolding assms(2) using f ij d free by (intro folded_compacted) (simp_all add: assms(2))
  show "fold_measure (replaceRange w i j it) < fold_measure w"
    by (rule fold_measure_replaceRange [OF ij _ big]) (simp add: assms(2))
  show "stored_keys v' \<subseteq> insert k (stored_keys v)" using f by (simp add: folded_def)
qed

lemma fold_messages_ok:
  assumes inv: "dag_inv H v" and cov: "covers v c w n" and depth: "0 < cf_MaxDepth (cp_cfg C)"
    and step: "next_step (cp_cfg C) arch w = FoldMessages i j" and clash: "no_clash H v (leaf_key c (slice i j w))"
  shows "hoare (at b v) (makeLeaf C c (slice i j w)) (after_fold b v c w n i j (leaf_key c (slice i j w))) (stuck b v)"
proof (rule hoare_post [OF makeLeaf_ok [OF inv cov _ _ _ clash]])
  note n = next_step_messages [OF step]
  show "i < j" "j \<le> length w" "\<forall>it \<in> set (slice i j w). is_message it" by (rule n)+
  fix it st
  assume "\<exists>s v'. at b v' st \<and> it = summary_item s \<and> sm_Depth s = 0
    \<and> folded H v c w n (leaf_key c (slice i j w)) (replaceRange w i j it) s v'"
  then obtain s v' where r: "at b v' st" "it = summary_item s" "sm_Depth s = 0"
    "folded H v c w n (leaf_key c (slice i j w)) (replaceRange w i j it) s v'" by blast
  show "after_fold b v c w n i j (leaf_key c (slice i j w)) it st"
    by (rule after_foldI [OF r(1,2,4) n(1,2) _ _ n(4,5)]) (use r(3) depth in simp_all)
qed

lemma fold_summaries_ok:
  assumes inv: "dag_inv H v" and cov: "covers v c w n" and fan: "2 \<le> cf_CondenseFanout (cp_cfg C)"
    and step: "next_step (cp_cfg C) arch w = FoldSummaries i j" and clash: "no_clash H v (condensed_key c (slice i j w))"
  shows "hoare (at b v) (makeCondensed C c (slice i j w)) (after_fold b v c w n i j (condensed_key c (slice i j w))) (stuck b v)"
proof -
  obtain d where n: "d < cf_MaxDepth (cp_cfg C)" "i + 2 \<le> j" "j \<le> length w"
    "\<forall>it \<in> set (slice i j w). is_summary it \<and> wi_depth it = d"
    "{i..<j} \<inter> protectedSet w (cf_FreshTailMessages (cp_cfg C)) (cf_FreshTailTokens (cp_cfg C)) = {}"
    by (rule next_step_summaries [OF step fan])
  have ij: "i < j" using n(2) by simp
  show ?thesis
  proof (rule hoare_post [OF makeCondensed_ok [OF inv cov ij n(3,4) clash]])
    fix it st
    assume "\<exists>s v'. at b v' st \<and> it = summary_item s \<and> sm_Depth s = d + 1
      \<and> folded H v c w n (condensed_key c (slice i j w)) (replaceRange w i j it) s v'"
    then obtain s v' where r: "at b v' st" "it = summary_item s" "sm_Depth s = d + 1"
      "folded H v c w n (condensed_key c (slice i j w)) (replaceRange w i j it) s v'" by blast
    have "0 \<le> sm_Depth s"
      using r(4) by (auto simp: folded_def dag_inv_def dag_sound_def depth_ok_def split: if_splits)
    then show "after_fold b v c w n i j (condensed_key c (slice i j w)) it st"
      using n(1) r(3) by (intro after_foldI [OF r(1,2,4) ij n(3) _ _ n(5) fold_measure_run [OF n(2,3)]]) simp_all
  qed
qed

text \<open>
  The loop.  Its result covers the log; it stopped because nothing was left to do, or because it
  used up its iterations, each of which brought the measure down.  Its error exit leaves a sound
  store too.
\<close>

definition loop_post where
  "loop_post b v c w n N arch st r st' \<longleftrightarrow> (case r of
       Inr (w', l', k') \<Rightarrow> (\<exists>v'. at b v' st' \<and> compacted H (cp_cfg C) v c w n v' w'
         \<and> (next_step (cp_cfg C) arch w' = Stop \<or> fold_measure w' + N \<le> fold_measure w))
     | Inl e \<Rightarrow> (\<exists>v' w'. at b v' st' \<and> compacted H (cp_cfg C) v c w n v' w' \<and> (\<not> b \<or> overflow (cp_cfg C))))"

lemma loop_post_trans:
  assumes c: "compacted H (cp_cfg C) v c w n v1 w1" and m: "fold_measure w1 < fold_measure w"
    and r: "loop_post b v1 c w1 n N arch st1 r st'"
  shows "loop_post b v c w n (Suc N) arch st r st'"
proof (cases r)
  case (Inl e)
  with r show ?thesis using compacted_trans [OF c] by (auto simp: loop_post_def)
next
  case (Inr x)
  then obtain w' l' k' where x: "r = Inr (w', l', k')" by (cases x) auto
  from r obtain v' where v': "at b v' st'" "compacted H (cp_cfg C) v1 c w1 n v' w'"
    "next_step (cp_cfg C) arch w' = Stop \<or> fold_measure w' + N \<le> fold_measure w1"
    by (auto simp: loop_post_def x)
  with compacted_trans [OF c v'(2)] m show ?thesis by (auto simp: loop_post_def x)
qed

lemma loop_post_error:
  assumes "dag_inv H v" "covers v c w n" "at b v st'" "\<not> b \<or> overflow (cp_cfg C)"
  shows "loop_post b v c w n N arch st (Inl e) st'"
  using assms compacted_refl [OF assms(1,2), of "cp_cfg C"] unfolding loop_post_def by (simp, blast)

text \<open>A fold that succeeded or failed, then the rest of the loop.\<close>

lemma loop_step:
  assumes inv: "dag_inv H v" and cov: "covers v c w n" and at: "at b v st"
    and t: "hoare (at b v) m (after_fold b v c w n i j k) (stuck b v)"
    and run: "bindE m rest st = (r, st')"
    and IH: "\<And>it v1 s1. m st = (Inr it, s1) \<Longrightarrow> at b v1 s1 \<Longrightarrow> dag_inv H v1 \<Longrightarrow> covers v1 c (replaceRange w i j it) n \<Longrightarrow>
      stored_keys v1 \<subseteq> insert k (stored_keys v) \<Longrightarrow> rest it s1 = (r, st') \<Longrightarrow>
      loop_post b v1 c (replaceRange w i j it) n N arch s1 r st'"
  shows "loop_post b v c w n (Suc N) arch st r st'"
proof -
  obtain rl s1 where m: "m st = (rl, s1)" by force
  show ?thesis
  proof (cases rl)
    case (Inl e)
    with m run have "r = Inl e" "st' = s1" by (simp_all add: bindE_def)
    moreover have "stuck b v e s1" by (rule hoare_errD [OF t at m [unfolded Inl]])
    ultimately show ?thesis by (simp add: loop_post_error [OF inv cov])
  next
    case (Inr it)
    then obtain v1 where v1: "at b v1 s1" "compacted H (cp_cfg C) v c w n v1 (replaceRange w i j it)"
      "fold_measure (replaceRange w i j it) < fold_measure w" "stored_keys v1 \<subseteq> insert k (stored_keys v)"
      using hoare_okD [OF t at] m unfolding after_fold_def by blast
    have "dag_inv H v1" "covers v1 c (replaceRange w i j it) n" using v1(2) by (simp_all add: compacted_def)
    moreover have "rest it s1 = (r, st')" using run m Inr by (simp add: bindE_def)
    ultimately have "loop_post b v1 c (replaceRange w i j it) n N arch s1 r st'"
      using IH m Inr v1(1,4) by blast
    then show ?thesis by (rule loop_post_trans [OF v1(2,3)])
  qed
qed

lemma compact_loop_ok:
  assumes fan: "2 \<le> cf_CondenseFanout (cp_cfg C)" and depth: "0 < cf_MaxDepth (cp_cfg C)"
  shows "dag_inv H v \<Longrightarrow> covers v c w n \<Longrightarrow> at b v st \<Longrightarrow>
    collision_free H (stored_keys v \<union> set (loop_keys C c arch N w st)) \<Longrightarrow>
    compact_loop C c arch N w l k st = (r, st') \<Longrightarrow> loop_post b v c w n N arch st r st'"
proof (induction N arbitrary: v w st l k)
  case 0
  then show ?case using compacted_refl [of H v c w n "cp_cfg C"] by (auto simp: loop_post_def ret_def)
next
  case (Suc N)
  note inv = Suc.prems(1) and cov = Suc.prems(2) and at = Suc.prems(3) and free = Suc.prems(4)
  have sound: "dag_sound H v" using inv by (simp add: dag_inv_def)
  have sub: "collision_free H K" if "K \<subseteq> stored_keys v \<union> set (loop_keys C c arch (Suc N) w st)" for K
    using free that unfolding collision_free_def by (rule inj_on_subset)
  show ?case
  proof (cases "next_step (cp_cfg C) arch w")
    case Stop
    then show ?thesis
      using Suc.prems compacted_refl [of H v c w n "cp_cfg C"] by (auto simp: loop_post_def ret_def)
  next
    case (FoldMessages i j)
    have clash: "no_clash H v (leaf_key c (slice i j w))"
      by (rule no_clash_keys [OF sound sub]) (auto simp: FoldMessages)
    have run: "bindE (makeLeaf C c (slice i j w)) (\<lambda>leaf. compact_loop C c arch N (replaceRange w i j leaf) (l + 1) k) st = (r, st')"
      using Suc.prems(5) by (simp add: FoldMessages)
    show ?thesis
    proof (rule loop_step [OF inv cov at fold_messages_ok [OF inv cov depth FoldMessages clash] run])
      fix it v1 s1
      assume h: "makeLeaf C c (slice i j w) st = (Inr it, s1)" "at b v1 s1" "dag_inv H v1"
        "covers v1 c (replaceRange w i j it) n" "stored_keys v1 \<subseteq> insert (leaf_key c (slice i j w)) (stored_keys v)"
        "compact_loop C c arch N (replaceRange w i j it) (l + 1) k s1 = (r, st')"
      have "collision_free H (stored_keys v1 \<union> set (loop_keys C c arch N (replaceRange w i j it) s1))"
        using h(1,5) by (intro sub) (auto simp: FoldMessages)
      then show "loop_post b v1 c (replaceRange w i j it) n N arch s1 r st'" by (rule Suc.IH [OF h(3,4,2) _ h(6)])
    qed
  next
    case (FoldSummaries i j)
    have clash: "no_clash H v (condensed_key c (slice i j w))"
      by (rule no_clash_keys [OF sound sub]) (auto simp: FoldSummaries)
    have run: "bindE (makeCondensed C c (slice i j w)) (\<lambda>cond. compact_loop C c arch N (replaceRange w i j cond) l (k + 1)) st = (r, st')"
      using Suc.prems(5) by (simp add: FoldSummaries)
    show ?thesis
    proof (rule loop_step [OF inv cov at fold_summaries_ok [OF inv cov fan FoldSummaries clash] run])
      fix it v1 s1
      assume h: "makeCondensed C c (slice i j w) st = (Inr it, s1)" "at b v1 s1" "dag_inv H v1"
        "covers v1 c (replaceRange w i j it) n" "stored_keys v1 \<subseteq> insert (condensed_key c (slice i j w)) (stored_keys v)"
        "compact_loop C c arch N (replaceRange w i j it) l (k + 1) s1 = (r, st')"
      have "collision_free H (stored_keys v1 \<union> set (loop_keys C c arch N (replaceRange w i j it) s1))"
        using h(1,5) by (intro sub) (auto simp: FoldSummaries)
      then show "loop_post b v1 c (replaceRange w i j it) n N arch s1 r st'" by (rule Suc.IH [OF h(3,4,2) _ h(6)])
    qed
  qed
qed

text \<open>
  A whole pass.  \<open>pass_ok\<close>: the new window covers the whole log and is the stored one, its fresh tail
  is that of the window the pass began with, and it stopped at the budget, with nothing left to
  fold, or out of iterations.  \<open>pass_failed\<close>: summaries may have been added, the stored windows are
  the old ones.
\<close>

definition pass_ok where
  "pass_ok b v c arch r st' \<longleftrightarrow> (\<exists>v' w w0. at b v' st' \<and> dag_inv H v' \<and> extends v v'
     \<and> dv_window v' = (dv_window v)(c := map item_ref w)
     \<and> covers v' c w (length (log_of v c)) \<and> covers v c w0 (length (log_of v c)) \<and> resumed v c w0
     \<and> tail_of (cp_cfg C) w = tail_of (cp_cfg C) w0
     \<and> (\<forall>s \<in> set (dv_summaries v'). s \<in> set (dv_summaries v) \<or> 0 \<le> sm_Depth s \<and> sm_Depth s \<le> cf_MaxDepth (cp_cfg C))
     \<and> cr_BeforeTokens r = windowTokens w0 \<and> cr_AfterTokens r = windowTokens w
     \<and> (next_step (cp_cfg C) arch w = Stop
        \<or> fold_measure w + nat (cf_MaxIterations (cp_cfg C)) \<le> fold_measure w0))"

definition pass_failed where
  "pass_failed b v st' \<longleftrightarrow> (\<exists>v'. at b v' st' \<and> dag_inv H v' \<and> extends v v' \<and> dv_window v' = dv_window v)
     \<and> (\<not> b \<or> overflow (cp_cfg C))"

lemma persist_ok:
  assumes inv: "dag_inv H v" and cov: "covers v c w n"
  shows "hoare (at b v) (persist C c w) (\<lambda>_. at b (set_window c (map item_ref w) v)) (\<lambda>_ s. at b v s \<and> \<not> b)"
proof -
  have refs: "map (\<lambda>it. (ci_Type it, ci_RefID it)) (window_refs w) = map item_ref w"
    using map_enumerate_snd [of item_ref 0 w] by (simp add: window_refs_def item_ref_def split_beta o_def)
  have "log_of v c \<noteq> []" if "window_refs w \<noteq> []"
    using block_log [OF inv cov, of 0 1] that by (cases w) (auto simp: window_refs_def)
  then show ?thesis
    unfolding persist_def store by (intro hoare_conseq [OF replace_items]) (auto simp: refs)
qed

lemma compactWindow_ok:
  assumes valid: "Validate (cp_cfg C) = None" and inv: "dag_inv H v" and at: "at b v st"
    and free: "collision_free H (stored_keys v \<union> set (run_keys C c arch st))"
    and run: "compactWindow C c arch st = (r, st')"
  shows "case r of Inr res \<Rightarrow> pass_ok b v c arch res st' | Inl e \<Rightarrow> pass_failed b v st'"
proof -
  note V = Validate_None [OF valid]
  let ?n = "length (log_of v c)" and ?N = "nat (cf_MaxIterations (cp_cfg C))"
  let ?finish = "\<lambda>w0 (w, leaves, condensed). bindE (persist C c w) (\<lambda>_.
      ret \<lparr>cr_BeforeTokens = windowTokens w0, cr_AfterTokens = windowTokens w,
           cr_Leaves = leaves, cr_Condensed = condensed, cr_Compacted = (leaves > 0 \<or> condensed > 0)\<rparr>)"
  have run': "bindE (buildWindow C c) (\<lambda>w0. bindE (compact_loop C c arch ?N w0 0 0) (?finish w0)) st = (r, st')"
    using run by (simp add: compactWindow_def valid)
  obtain rw s1 where w: "buildWindow C c st = (rw, s1)" by force
  show ?thesis
  proof (cases rw)
    case (Inl e)
    with w run' have "r = Inl e" "st' = s1" by (simp_all add: bindE_def)
    moreover have "at b v s1 \<and> \<not> b" by (rule hoare_errD [OF buildWindow_ok [OF inv] at w [unfolded Inl]])
    ultimately show ?thesis using inv by (auto simp: pass_failed_def extends_refl)
  next
    case (Inr w0)
    have w0: "at b v s1" "covers v c w0 ?n" "resumed v c w0"
      using hoare_okD [OF buildWindow_ok [OF inv] at w [unfolded Inr]] by auto
    obtain rl s2 where l: "compact_loop C c arch ?N w0 0 0 s1 = (rl, s2)" by force
    have "run_keys C c arch st = loop_keys C c arch ?N w0 s1" by (simp add: run_keys_def w Inr)
    with free have post: "loop_post b v c w0 ?n ?N arch s1 rl s2"
      by (intro compact_loop_ok [OF V(14,16) inv w0(2,1) _ l]) simp
    show ?thesis
    proof (cases rl)
      case (Inl e)
      with l run' w \<open>rw = Inr w0\<close> have "r = Inl e" "st' = s2" by (simp_all add: bindE_def)
      with post Inl show ?thesis by (auto simp: loop_post_def pass_failed_def compacted_def)
    next
      case (Inr x)
      obtain w' l' k' where x: "rl = Inr (w', l', k')" using Inr by (cases x) auto
      obtain v1 where v1: "at b v1 s2" "compacted H (cp_cfg C) v c w0 ?n v1 w'"
        "next_step (cp_cfg C) arch w' = Stop \<or> fold_measure w' + ?N \<le> fold_measure w0"
        using post by (auto simp: loop_post_def x)
      have c1: "extends v v1" "dv_window v1 = dv_window v" "dag_inv H v1" "covers v1 c w' ?n"
        using v1(2) by (simp_all add: compacted_def)
      have fin: "?finish w0 (w', l', k') s2 = (r, st')"
        using run' by (simp add: bindE_def w \<open>rw = Inr w0\<close> l x)
      obtain rp s3 where p: "persist C c w' s2 = (rp, s3)" by force
      show ?thesis
      proof (cases rp)
        case (Inl e)
        with p fin have "r = Inl e" "st' = s3" by (simp_all add: bindE_def)
        moreover have "at b v1 s3 \<and> \<not> b" by (rule hoare_errD [OF persist_ok [OF c1(3,4)] v1(1) p [unfolded Inl]])
        ultimately show ?thesis using c1 by (auto simp: pass_failed_def)
      next
        case (Inr u)
        have at3: "at b (set_window c (map item_ref w') v1) s3"
          by (rule hoare_okD [OF persist_ok [OF c1(3,4)] v1(1) p [unfolded Inr]])
        have st3: "st' = s3" and r: "r = Inr \<lparr>cr_BeforeTokens = windowTokens w0, cr_AfterTokens = windowTokens w',
           cr_Leaves = l', cr_Condensed = k', cr_Compacted = (l' > 0 \<or> k' > 0)\<rparr>"
          using fin p Inr by (simp_all add: bindE_def ret_def)
        show ?thesis
          unfolding r st3 sum.case pass_ok_def
          by (intro exI [of _ "set_window c (map item_ref w') v1"] exI [of _ w'] exI [of _ w0])
            (use at3 v1 c1 w0(2,3) dag_inv_set_window [OF c1(3,4)] in \<open>simp add: compacted_def\<close>)
      qed
    qed
  qed
qed

end

end
