(* ===== verification/Engine_Sqlite.thy ===== *)
theory Engine_Sqlite
  imports Store_Lifecycle Compaction
begin

text \<open>
  The SQLite store as the engine's store: \<open>view_of\<close> reads the engine's view off the tables, and
  every operation of \<open>internal/store\<close> the engine calls keeps the laws of \<open>engine_store\<close>.
\<close>

definition view_of :: "tables \<Rightarrow> dag_view" where
  "view_of t = \<lparr>dv_messages = t_messages t, dv_summaries = t_summaries t,
     dv_sources = t_summary_messages t, dv_children = t_summary_parents t,
     dv_window = (\<lambda>c. map (\<lambda>it. (ci_Type it, ci_RefID it)) (window_items t c))\<rparr>"

definition sqlite_store :: "hash \<Rightarrow> world engine_store" where
  "sqlite_store H = \<lparr>es_ListMessages = ListMessages, es_GetMessage = GetMessage, es_GetSummary = GetSummary,
     es_CreateLeafSummary = CreateLeafSummary H, es_CreateCondensedSummary = CreateCondensedSummary H,
     es_SummaryMessages = SummaryMessages, es_SummaryChildren = SummaryChildren,
     es_MarkSummaryExpanded = MarkSummaryExpanded, es_ListContextItems = ListContextItems,
     es_ReplaceContextItems = ReplaceContextItems, es_CreateLargeFile = CreateLargeFile H\<rparr>"

definition sqlite_at :: "hash \<Rightarrow> bool \<Rightarrow> dag_view \<Rightarrow> world \<Rightarrow> bool" where
  "sqlite_at H b v = on_db b (\<lambda>t. wf_tables H t \<and> view_of t = v)"

lemma view_simps [simp]:
  "dv_messages (view_of t) = t_messages t" "dv_summaries (view_of t) = t_summaries t"
  "dv_sources (view_of t) = t_summary_messages t" "dv_children (view_of t) = t_summary_parents t"
  "dv_window (view_of t) c = map (\<lambda>it. (ci_Type it, ci_RefID it)) (window_items t c)"
  by (simp_all add: view_of_def)

lemma view_reads:
  "log_of (view_of t) c = conversation_log t c"
  "find_message (view_of t) i = find (\<lambda>m. ms_ID m = i) (t_messages t)"
  "find_summary (view_of t) i = find (\<lambda>s. sm_ID s = i) (t_summaries t)"
  "summary_ids (view_of t) = sm_ID ` set (t_summaries t)"
  by (simp_all add: log_of_def conversation_log_def find_message_def find_summary_def summary_ids_def)

lemma linked_view:
  "linked_messages t sid = source_messages (view_of t) sid"
  "linked_children t sid = child_summaries (view_of t) sid"
proof -
  have f: "concat (map (\<lambda>x. if P x then [x] else []) xs) = filter P xs" for P :: "'x \<Rightarrow> bool" and xs
    by (induction xs) auto
  have "[m. (s, mid) \<leftarrow> es, s = sid, m \<leftarrow> t_messages t, ms_ID m = mid]
      = concat (map (\<lambda>mid. filter (\<lambda>m. ms_ID m = mid) (t_messages t)) (links es sid))" for es
    by (induction es) (auto simp: f)
  then show "linked_messages t sid = source_messages (view_of t) sid"
    by (simp add: linked_messages_def source_messages_def)
  have "[c. (s, cid) \<leftarrow> es, s = sid, c \<leftarrow> t_summaries t, sm_ID c = cid]
      = concat (map (\<lambda>cid. filter (\<lambda>c. sm_ID c = cid) (t_summaries t)) (links es sid))" for es
    by (induction es) (auto simp: f)
  then show "linked_children t sid = child_summaries (view_of t) sid"
    by (simp add: linked_children_def child_summaries_def)
qed

lemma sqlite_atI: "wf_tables H t \<Longrightarrow> view_of t = v \<Longrightarrow> at_db b t w \<Longrightarrow> sqlite_at H b v w"
  by (simp add: sqlite_at_def at_db_def on_db_def)

text \<open>A law is proved from known tables.\<close>

lemma sqlite_law:
  assumes "\<And>t. wf_tables H t \<Longrightarrow> view_of t = v \<Longrightarrow> hoare (at_db b t) m Q E"
  shows "hoare (sqlite_at H b v) m Q E"
  unfolding sqlite_at_def using assms by (intro hoare_at_db) blast

lemma log_conversation: "wf_tables H t \<Longrightarrow> conversation_log t c \<noteq> [] \<Longrightarrow> c \<in> conversation_ids t"
  by (cases "conversation_log t c")
    (auto simp: wf_tables_def wf_messages_def conversation_log_def filter_eq_Cons_iff)

section \<open>Reading\<close>

lemma rows_at:
  assumes "wf_tables H t" "view_of t = v"
  shows "hoare (at_db b t) (sql_rows msg imsg q) (\<lambda>r w. sqlite_at H b v w \<and> r = q t) (\<lambda>_ w. sqlite_at H b v w \<and> \<not> b)"
proof -
  have "hoare (at_db b t) (sql_rows msg imsg q) (\<lambda>r. on_db b (\<lambda>t'. t' = t \<and> r = q t')) (\<lambda>_ w. on_db b (\<lambda>t'. t' = t) w \<and> \<not> b)"
    unfolding at_db_on_db by (rule sql_rows_hoare)
  then show ?thesis by (rule hoare_conseq) (use assms in \<open>auto simp: sqlite_at_def on_db_def\<close>)
qed

lemma list_messages_law:
  "hoare (sqlite_at H b v) (ListMessages c a 0)
     (\<lambda>r s. sqlite_at H b v s \<and> r = sort_key ms_Seq (filter (\<lambda>m. ms_Seq m > a) (log_of v c)))
     (\<lambda>_ s. sqlite_at H b v s \<and> \<not> b)"
  unfolding ListMessages_def
  by (intro sqlite_law hoare_post [OF rows_at]) (auto simp: view_reads)

lemma get_row_law:
  assumes "\<And>t. view_of t = v \<Longrightarrow> q t = x"
  shows "hoare (sqlite_at H b v) (bindE (sql_query msg q) (\<lambda>row. case row of None \<Rightarrow> fail ErrNotFound | Some m \<Rightarrow> ret m))
     (\<lambda>m s. sqlite_at H b v s \<and> x = Some m) (\<lambda>_ s. sqlite_at H b v s \<and> (\<not> b \<or> x = None))"
proof (rule sqlite_law, rule bind_query)
  fix t assume t: "wf_tables H t" "view_of t = v"
  show "hoare (at_db b t) (case q t of None \<Rightarrow> fail ErrNotFound | Some m \<Rightarrow> ret m)
     (\<lambda>m s. sqlite_at H b v s \<and> x = Some m) (\<lambda>_ s. sqlite_at H b v s \<and> (\<not> b \<or> x = None))"
    using assms [OF t(2)] sqlite_atI [OF t] by (cases x) (auto intro: hoare_ret hoare_fail)
qed (auto intro: sqlite_atI)

lemma get_message_law:
  "hoare (sqlite_at H b v) (GetMessage i) (\<lambda>m s. sqlite_at H b v s \<and> find_message v i = Some m)
     (\<lambda>_ s. sqlite_at H b v s \<and> (\<not> b \<or> find_message v i = None))"
  unfolding GetMessage_def by (rule get_row_law) (auto simp: view_reads)

lemma get_summary_law:
  "hoare (sqlite_at H b v) (GetSummary i) (\<lambda>m s. sqlite_at H b v s \<and> find_summary v i = Some m)
     (\<lambda>_ s. sqlite_at H b v s \<and> (\<not> b \<or> find_summary v i = None))"
  unfolding GetSummary_def by (rule get_row_law) (auto simp: view_reads)

lemma summary_messages_law:
  "hoare (sqlite_at H b v) (SummaryMessages i)
     (\<lambda>r s. sqlite_at H b v s \<and> r = sort_key ms_Seq (source_messages v i)) (\<lambda>_ s. sqlite_at H b v s \<and> \<not> b)"
  unfolding SummaryMessages_def
  by (intro sqlite_law hoare_post [OF rows_at]) (auto simp: linked_view)

lemma summary_children_law:
  "hoare (sqlite_at H b v) (SummaryChildren i)
     (\<lambda>r s. sqlite_at H b v s \<and> r = sort_key sm_EarliestSeq (child_summaries v i)) (\<lambda>_ s. sqlite_at H b v s \<and> \<not> b)"
  unfolding SummaryChildren_def
  by (intro sqlite_law hoare_post [OF rows_at]) (auto simp: linked_view)

lemma list_items_law:
  "hoare (sqlite_at H b v) (ListContextItems c)
     (\<lambda>r s. sqlite_at H b v s \<and> map (\<lambda>it. (ci_Type it, ci_RefID it)) r = dv_window v c) (\<lambda>_ s. sqlite_at H b v s \<and> \<not> b)"
  unfolding ListContextItems_def
  by (intro sqlite_law hoare_post [OF rows_at]) auto

section \<open>Writing rows the view does not show\<close>

lemma view_frame:
  assumes "t_messages t' = t_messages t" "t_summaries t' = t_summaries t" "t_context_items t' = t_context_items t"
    "t_summary_messages t' = t_summary_messages t" "t_summary_parents t' = t_summary_parents t"
  shows "view_of t' = view_of t"
  using assms by (simp add: view_of_def window_items_def window_rows_def)

lemma mark_expanded_law:
  "hoare (sqlite_at H b v) (MarkSummaryExpanded i) (\<lambda>_. sqlite_at H b v)
     (\<lambda>_ s. sqlite_at H b v s \<and> (\<not> b \<or> i \<notin> summary_ids v))"
  unfolding MarkSummaryExpanded_def
proof (intro sqlite_law bind_clock)
  fix t now assume t: "wf_tables H t" "view_of t = v"
  have "view_of t2 = v" if "upsert_expansion i now t = Some t2" for t2
    using that t(2) by (auto simp: upsert_expansion_def split: if_splits intro: view_frame)
  moreover have "i \<notin> summary_ids v" if "upsert_expansion i now t = None"
    using that by (auto simp: upsert_expansion_def has_summary_def t(2) [symmetric] view_reads split: if_splits)
  ultimately show "hoare (at_db b t) (sql_exec ''store: mark summary expanded'' (upsert_expansion i now))
      (\<lambda>_. sqlite_at H b v) (\<lambda>_ s. sqlite_at H b v s \<and> (\<not> b \<or> i \<notin> summary_ids v))"
    unfolding sqlite_at_def
    by (intro hoare_err [OF exec_last [where X = "i \<notin> summary_ids v"]])
      (auto intro: wf_upsert_expansion [OF t(1)] simp: at_db_def on_db_def t)
qed

lemma create_file_law:
  "hoare (sqlite_at H b v) (CreateLargeFile H f) (\<lambda>_. sqlite_at H b v)
     (\<lambda>_ s. sqlite_at H b v s \<and> (\<not> b \<or> log_of v (lf_ConversationID f) = []))"
  unfolding CreateLargeFile_def
proof (rule sqlite_law, rule bind_clock, unfold Let_def, rule bind_exec)
  fix t now
  let ?f = "(if lf_ID f = [] then f\<lparr>lf_ID := DeriveFileID H (lf_ConversationID f) (lf_MessageID f)\<rparr> else f)"
  assume t: "wf_tables H t" "view_of t = v"
  {
    fix t2 assume up: "upsert_large_file (?f\<lparr>lf_CreatedAt := now\<rparr>) t = Some t2"
    have "view_of t2 = v"
      using up t(2) by (auto simp: upsert_large_file_def split: if_splits intro: view_frame)
    then show "hoare (at_db b t2) (\<lambda>w. (Inr (?f\<lparr>lf_CreatedAt := (case find (\<lambda>x. lf_ID x = lf_ID ?f) (t_large_files (w_db w)) of
         None \<Rightarrow> now | Some x \<Rightarrow> lf_CreatedAt x)\<rparr>), w)) (\<lambda>_. sqlite_at H b v)
        (\<lambda>_ s. sqlite_at H b v s \<and> (\<not> b \<or> log_of v (lf_ConversationID f) = []))"
      using wf_upsert_large_file [OF t(1) up] by (intro hoareI) (auto intro: sqlite_atI)
  next
    fix e w assume w: "at_db b t w" "\<not> b \<or> upsert_large_file (?f\<lparr>lf_CreatedAt := now\<rparr>) t = None"
    have "log_of v (lf_ConversationID f) = []" if "upsert_large_file (?f\<lparr>lf_CreatedAt := now\<rparr>) t = None"
      using that log_conversation [OF t(1), of "lf_ConversationID f"]
      by (auto simp: upsert_large_file_def has_conversation_ids t(2) [symmetric] view_reads split: if_splits)
    with w sqlite_atI [OF t w(1)] show "sqlite_at H b v w \<and> (\<not> b \<or> log_of v (lf_ConversationID f) = [])" by blast
  }
qed

section \<open>The window\<close>

lemma replace_items_law:
  "hoare (sqlite_at H b v) (ReplaceContextItems c items)
     (\<lambda>_. sqlite_at H b (set_window c (map (\<lambda>it. (ci_Type it, ci_RefID it)) items) v))
     (\<lambda>_ s. sqlite_at H b v s \<and> (\<not> b \<or> items \<noteq> [] \<and> log_of v c = []))"
proof (rule sqlite_law)
  fix t assume t: "wf_tables H t" "view_of t = v"
  let ?ins = "\<lambda>(i, it). insert_context_item c (int i) (ci_Type it) (ci_RefID it)"
  let ?v = "set_window c (map (\<lambda>it. (ci_Type it, ci_RefID it)) items) v"
  let ?X = "\<not> b \<or> items \<noteq> [] \<and> log_of v c = []"
  have body: "hoare (at_db b t) (bindE (sql_exec ''store: clear context items'' (clear_context_items c)) (\<lambda>_.
        exec_each ''store: insert context item'' ?ins (enumerate 0 items)))
      (\<lambda>_. on_db b (\<lambda>t'. wf_tables H t' \<and> view_of t' = ?v)) (\<lambda>_ w. (b \<longrightarrow> healthy w) \<and> ?X)"
  proof (rule bind_exec)
    fix t1 assume t1: "clear_context_items c t = Some t1"
    have wf1: "wf_tables H t1" "window_rows t1 c = []" using wf_clear_items [OF t(1) t1] by auto
    have t1': "t1 = t\<lparr>t_context_items := filter (\<lambda>r. cx_conversation_id r \<noteq> c) (t_context_items t)\<rparr>"
      using t1 by (simp add: clear_context_items_def)
    let ?rows = "map (\<lambda>(i, it). \<lparr>cx_conversation_id = c, cx_ordinal = int i, cx_item_type = ci_Type it,
        cx_ref_id = ci_RefID it\<rparr>) (enumerate 0 items)"
    have res: "fold_stmts ?ins (enumerate 0 items) t1 =
        (if items = [] \<or> has_conversation t1 c then Some (t1\<lparr>t_context_items := t_context_items t1 @ ?rows\<rparr>) else None)"
      by (rule insert_items_result) (simp add: t1')
    have sorted: "sort_key cx_ordinal ?rows = ?rows"
    proof (rule sorted_wrt_less_sort_key, unfold sorted_wrt_map)
      have "sorted_wrt (\<lambda>p q. fst p < fst q) (enumerate 0 items)"
        by (simp add: sorted_wrt_iff_nth_less nth_enumerate_eq)
      then show "sorted_wrt (\<lambda>x y. cx_ordinal (case x of (i, it) \<Rightarrow> \<lparr>cx_conversation_id = c, cx_ordinal = int i,
            cx_item_type = ci_Type it, cx_ref_id = ci_RefID it\<rparr>)
          < cx_ordinal (case y of (i, it) \<Rightarrow> \<lparr>cx_conversation_id = c, cx_ordinal = int i,
            cx_item_type = ci_Type it, cx_ref_id = ci_RefID it\<rparr>)) (enumerate 0 items)"
        by (rule sorted_wrt_mono_rel [rotated]) (auto split: prod.splits)
    qed
    have view: "view_of (t1\<lparr>t_context_items := t_context_items t1 @ ?rows\<rparr>) = ?v"
    proof -
      have rows: "filter (\<lambda>r. cx_conversation_id r = d) ?rows = (if d = c then ?rows else [])" for d
        by (auto simp: filter_empty_conv intro!: filter_True)
      have "filter (\<lambda>r. cx_conversation_id r = d) (filter (\<lambda>r. cx_conversation_id r \<noteq> c) (t_context_items t))
          = (if d = c then [] else window_rows t d)" for d
        by (auto simp: window_rows_def filter_empty_conv intro!: filter_cong)
      with rows have "window_rows (t1\<lparr>t_context_items := t_context_items t1 @ ?rows\<rparr>) d = (if d = c then ?rows else window_rows t d)" for d
        by (simp add: window_rows_def t1' del: filter_filter)
      then have "map (\<lambda>it. (ci_Type it, ci_RefID it)) (window_items (t1\<lparr>t_context_items := t_context_items t1 @ ?rows\<rparr>) d)
          = (if d = c then map (\<lambda>it. (ci_Type it, ci_RefID it)) items
             else map (\<lambda>it. (ci_Type it, ci_RefID it)) (window_items t d))" for d
        using map_enumerate_snd [of "\<lambda>it. (ci_Type it, ci_RefID it)" 0 items]
        by (simp add: window_items_def sorted split_beta o_def)
      then show ?thesis by (auto simp: view_of_def set_window_def t(2) [symmetric] t1')
    qed
    have none: "log_of v c = []" if "\<not> has_conversation t1 c"
      using that log_conversation [OF t(1), of c]
      by (auto simp: t1' has_conversation_def t(2) [symmetric] view_reads conversation_ids_def)
    show "hoare (at_db b t1) (exec_each ''store: insert context item'' ?ins (enumerate 0 items))
      (\<lambda>_. on_db b (\<lambda>t'. wf_tables H t' \<and> view_of t' = ?v)) (\<lambda>_ w. (b \<longrightarrow> healthy w) \<and> ?X)"
    proof (rule hoare_conseq [OF exec_each_at])
      fix u :: unit and w
      assume w: "on_db b (\<lambda>t'. fold_stmts ?ins (enumerate 0 items) t1 = Some t') w"
      then have "wf_tables H (w_db w)"
        using wf_insert_items [OF wf1(1), of c 0 items] wf1(2) by (simp add: on_db_def)
      with w view res show "on_db b (\<lambda>t'. wf_tables H t' \<and> view_of t' = ?v) w"
        by (auto simp: on_db_def split: if_splits)
    qed (use res none in \<open>auto split: if_splits\<close>)
  qed (auto simp: at_db_def clear_context_items_def)
  show "hoare (at_db b t) (ReplaceContextItems c items) (\<lambda>_. sqlite_at H b ?v)
     (\<lambda>_ s. sqlite_at H b v s \<and> ?X)"
    unfolding ReplaceContextItems_def sqlite_at_def
    by (rule hoare_conseq [OF in_tx_at [OF body]]) (auto simp: at_db_def on_db_def t)
qed

section \<open>Summaries\<close>

text \<open>The inserts of a new summary with its links.\<close>

lemma insert_summary_at:
  assumes t: "wf_tables H t" and new: "sm_ID s \<notin> sm_ID ` set (t_summaries t)"
    and wf: "\<And>t1 t2. wf_tables H t1 \<Longrightarrow> fold_stmts (link (sm_ID s)) ids t1 = Some t2 \<Longrightarrow> wf_tables H t2"
    and Q: "\<And>t1 t2. t1 = t\<lparr>t_summaries := t_summaries t @ [s], t_summaries_fts := t_summaries_fts t @ [summary_fts s]\<rparr>
      \<Longrightarrow> fold_stmts (link (sm_ID s)) ids t1 = Some t2 \<Longrightarrow> wf_tables H t2 \<Longrightarrow> Q t2"
    and X: "\<And>t1. t1 = t\<lparr>t_summaries := t_summaries t @ [s], t_summaries_fts := t_summaries_fts t @ [summary_fts s]\<rparr>
      \<Longrightarrow> sm_ConversationID s \<in> conversation_ids t \<Longrightarrow> fold_stmts (link (sm_ID s)) ids t1 = None \<Longrightarrow> X"
      "sm_ConversationID s \<notin> conversation_ids t \<Longrightarrow> X"
  shows "hoare (at_db b t) (bindE (insertSummary s) (\<lambda>_. bindE (exec_each msg (link (sm_ID s)) ids) (\<lambda>_. ret s)))
    (\<lambda>r. on_db b (\<lambda>t'. r = s \<and> Q t')) (\<lambda>_ w. (b \<longrightarrow> healthy w) \<and> (\<not> b \<or> X))"
proof -
  let ?t = "t\<lparr>t_summaries := t_summaries t @ [s], t_summaries_fts := t_summaries_fts t @ [summary_fts s]\<rparr>"
  have none: "sm_ConversationID s \<notin> conversation_ids t" if "insert_summary_row s t = None"
    using that new by (auto simp: insert_summary_row_def has_summary_def has_conversation_ids split: if_splits)
  have some: "t2 = ?t \<and> wf_tables H ?t \<and> sm_ConversationID s \<in> conversation_ids t"
    if "insert_summary_row s t = Some t1" "index_summary s t1 = Some t2" for t1 t2
    using wf_add_summary [OF t that] that
    by (auto simp: insert_summary_row_def index_summary_def has_conversation_ids split: if_splits)
  have ins: "hoare (at_db b t) (insertSummary s)
      (\<lambda>_ w. (wf_tables H ?t \<and> sm_ConversationID s \<in> conversation_ids t) \<and> at_db b ?t w)
      (\<lambda>_ w. (b \<longrightarrow> healthy w) \<and> (\<not> b \<or> X))"
    unfolding insertSummary_def
  proof (intro bind_exec ret_at)
    show "(wf_tables H ?t \<and> sm_ConversationID s \<in> conversation_ids t) \<and> at_db b ?t w"
      if "insert_summary_row s t = Some t1" "index_summary s t1 = Some t2" "at_db b t2 w" for t1 t2 w
      using some [OF that(1,2)] that(3) by blast
  qed (use none X(2) in \<open>auto simp: at_db_def index_summary_def\<close>)
  show ?thesis
  proof (rule hoare_bind [OF ins], rule hoare_pure)
    assume wf1: "wf_tables H ?t \<and> sm_ConversationID s \<in> conversation_ids t"
    show "hoare (at_db b ?t) (bindE (exec_each msg (link (sm_ID s)) ids) (\<lambda>_. ret s))
        (\<lambda>r. on_db b (\<lambda>t'. r = s \<and> Q t')) (\<lambda>_ w. (b \<longrightarrow> healthy w) \<and> (\<not> b \<or> X))"
    proof (rule hoare_bind [OF hoare_err [OF exec_each_at]])
      show "(b \<longrightarrow> healthy w) \<and> (\<not> b \<or> X)"
        if "(b \<longrightarrow> healthy w) \<and> (\<not> b \<or> fold_stmts (link (sm_ID s)) ids ?t = None)" for w
        using that X(1) [OF refl] wf1 by blast
      show "hoare (on_db b (\<lambda>t'. fold_stmts (link (sm_ID s)) ids ?t = Some t')) (ret s)
          (\<lambda>r. on_db b (\<lambda>t'. r = s \<and> Q t')) (\<lambda>_ w. (b \<longrightarrow> healthy w) \<and> (\<not> b \<or> X))"
        using wf wf1 Q [OF refl] by (intro hoare_ret) (auto simp: on_db_def)
    qed
  qed
qed

lemma create_leaf_law:
  assumes d: "distinct (li_SourceMessageIDs i)"
  shows "hoare (sqlite_at H b v) (CreateLeafSummary H i)
     (\<lambda>x s. \<exists>v'. sqlite_at H b v' s \<and> leaf_created H i v x v')
     (\<lambda>_ s. sqlite_at H b v s \<and> (\<not> b \<or> \<not> set (li_SourceMessageIDs i) \<subseteq> ms_ID ` set (dv_messages v)
        \<or> log_of v (li_ConversationID i) = []))"
proof (rule sqlite_law)
  fix t assume t: "wf_tables H t" "view_of t = v"
  let ?ids = "li_SourceMessageIDs i" and ?c = "li_ConversationID i"
  let ?sid = "DeriveSummaryID H ?c SummaryLeaf 0 ?ids"
  let ?X = "\<not> set ?ids \<subseteq> ms_ID ` set (dv_messages v) \<or> log_of v ?c = []"
  let ?Q = "\<lambda>x t'. wf_tables H t' \<and> leaf_created H i v x (view_of t')"
  have body: "hoare (at_db b t) (bindE (sql_query ''store: probe summary'' (\<lambda>t. find (\<lambda>s. sm_ID s = ?sid) (t_summaries t)))
          (\<lambda>existing. case existing of
             Some s \<Rightarrow> ret s
           | None \<Rightarrow>
               bindE clock_Now (\<lambda>now.
               let s = leaf_summary H i now in
               bindE (insertSummary s) (\<lambda>_.
               bindE (exec_each ''store: link message'' (link_message ?sid) ?ids) (\<lambda>_.
               ret s))))) (\<lambda>x. on_db b (?Q x)) (\<lambda>_ w. (b \<longrightarrow> healthy w) \<and> (\<not> b \<or> ?X))"
  proof (rule bind_query)
    show "hoare (at_db b t) (case find (\<lambda>s. sm_ID s = ?sid) (t_summaries t) of
             None \<Rightarrow> bindE clock_Now (\<lambda>now. let s = leaf_summary H i now in
               bindE (insertSummary s) (\<lambda>_. bindE (exec_each ''store: link message'' (link_message ?sid) ?ids) (\<lambda>_. ret s)))
           | Some s \<Rightarrow> ret s) (\<lambda>x. on_db b (?Q x)) (\<lambda>_ w. (b \<longrightarrow> healthy w) \<and> (\<not> b \<or> ?X))"
    proof (cases "find (\<lambda>s. sm_ID s = ?sid) (t_summaries t)")
      case (Some s)
      then show ?thesis
        by (simp only: Some option.case)
          (rule ret_at, auto simp: leaf_created_def Let_def t Some view_reads(3) [of t, unfolded t(2)] intro!: at_db_imp_on_db)
    next
      case None
      have new: "?sid \<notin> sm_ID ` set (t_summaries t)" using None by (auto simp: find_None_iff)
      have id: "sm_ID (leaf_summary H i now) = ?sid" for now by (simp add: leaf_summary_def)
      have fresh: "\<forall>m \<in> set ?ids. (?sid, m) \<notin> set (t_summary_messages t)"
        using t(1) new by (auto simp: wf_tables_def wf_links_def has_summary_def)
      have "hoare (at_db b t) (bindE (insertSummary (leaf_summary H i now)) (\<lambda>_.
          bindE (exec_each ''store: link message'' (link_message (sm_ID (leaf_summary H i now))) ?ids) (\<lambda>_. ret (leaf_summary H i now))))
          (\<lambda>x. on_db b (\<lambda>t'. x = leaf_summary H i now \<and> ?Q (leaf_summary H i now) t')) (\<lambda>_ w. (b \<longrightarrow> healthy w) \<and> (\<not> b \<or> ?X))" for now
      proof (rule insert_summary_at [OF t(1)])
        let ?s = "leaf_summary H i now"
        let ?t = "t\<lparr>t_summaries := t_summaries t @ [?s], t_summaries_fts := t_summaries_fts t @ [summary_fts ?s]\<rparr>"
        have res: "fold_stmts (link_message ?sid) ?ids ?t =
            (if ?ids = [] \<or> has_summary ?t ?sid \<and> (\<forall>m \<in> set ?ids. has_message ?t m)
             then Some (?t\<lparr>t_summary_messages := t_summary_messages ?t @ map (Pair ?sid) ?ids\<rparr>) else None)"
          using fresh by (intro link_messages_result d) simp
        have s: "has_summary ?t ?sid" by (simp add: has_summary_def id)
        show "sm_ID ?s \<notin> sm_ID ` set (t_summaries t)" using new by (simp add: id)
        show "wf_tables H t2" if "wf_tables H t1" "fold_stmts (link_message (sm_ID ?s)) ?ids t1 = Some t2" for t1 t2
          using wf_link_message by (rule fold_stmts_wf [OF _ that])
        show "?Q ?s t2" if "t1 = ?t" "fold_stmts (link_message (sm_ID ?s)) ?ids t1 = Some t2" "wf_tables H t2" for t1 t2
        proof -
          have t2: "t2 = ?t\<lparr>t_summary_messages := t_summary_messages ?t @ map (Pair ?sid) ?ids\<rparr>"
            using that(1,2) res by (simp add: id split: if_splits)
          have "view_of t2 = add_leaf ?s ?ids v"
            by (simp add: t2 view_of_def add_leaf_def id t(2) [symmetric] window_items_def window_rows_def)
          with that(3) new show ?thesis
            by (auto simp: leaf_created_def Let_def summary_ids_def t(2) [symmetric])
        qed
        show ?X if "t1 = ?t" "fold_stmts (link_message (sm_ID ?s)) ?ids t1 = None" for t1
          using that res s by (auto simp: id has_message_def t(2) [symmetric] split: if_splits)
        show ?X if "sm_ConversationID ?s \<notin> conversation_ids t"
          using that log_conversation [OF t(1), of ?c] by (auto simp: t(2) [symmetric] view_reads)
      qed
      from hoare_post [OF this, where Q = "\<lambda>x. on_db b (?Q x)"] show ?thesis
        unfolding None option.case Let_def by (intro bind_clock) (simp add: id on_db_def)
    qed
  qed (auto simp: at_db_def)
  show "hoare (at_db b t) (CreateLeafSummary H i) (\<lambda>x s. \<exists>v'. sqlite_at H b v' s \<and> leaf_created H i v x v')
     (\<lambda>_ s. sqlite_at H b v s \<and> (\<not> b \<or> ?X))"
    unfolding CreateLeafSummary_def Let_def sqlite_at_def
    by (rule hoare_conseq [OF in_tx_at [OF body [unfolded Let_def]]]) (auto simp: at_db_def on_db_def t)
qed

lemma create_condensed_law:
  assumes d: "distinct (co_ChildSummaryIDs i)"
  shows "hoare (sqlite_at H b v) (CreateCondensedSummary H i)
     (\<lambda>x s. \<exists>v'. sqlite_at H b v' s \<and> condensed_created H i v x v')
     (\<lambda>_ s. sqlite_at H b v s \<and> (\<not> b \<or> \<not> set (co_ChildSummaryIDs i) \<subseteq> summary_ids v
        \<or> log_of v (co_ConversationID i) = []))"
proof (rule sqlite_law)
  fix t assume t: "wf_tables H t" "view_of t = v"
  let ?ids = "co_ChildSummaryIDs i" and ?c = "co_ConversationID i"
  let ?sid = "DeriveSummaryID H ?c SummaryCondensed (co_Depth i) ?ids"
  let ?X = "\<not> set ?ids \<subseteq> summary_ids v \<or> log_of v ?c = []"
  let ?Q = "\<lambda>x t'. wf_tables H t' \<and> condensed_created H i v x (view_of t')"
  have body: "hoare (at_db b t) (bindE (sql_query ''store: probe summary'' (\<lambda>t. find (\<lambda>s. sm_ID s = ?sid) (t_summaries t)))
          (\<lambda>existing. case existing of
             Some s \<Rightarrow> ret s
           | None \<Rightarrow>
               bindE clock_Now (\<lambda>now.
               let s = condensed_summary H i now in
               bindE (insertSummary s) (\<lambda>_.
               bindE (exec_each ''store: link child summary'' (link_child ?sid) ?ids) (\<lambda>_.
               ret s))))) (\<lambda>x. on_db b (?Q x)) (\<lambda>_ w. (b \<longrightarrow> healthy w) \<and> (\<not> b \<or> ?X))"
  proof (rule bind_query)
    show "hoare (at_db b t) (case find (\<lambda>s. sm_ID s = ?sid) (t_summaries t) of
             None \<Rightarrow> bindE clock_Now (\<lambda>now. let s = condensed_summary H i now in
               bindE (insertSummary s) (\<lambda>_. bindE (exec_each ''store: link child summary'' (link_child ?sid) ?ids) (\<lambda>_. ret s)))
           | Some s \<Rightarrow> ret s) (\<lambda>x. on_db b (?Q x)) (\<lambda>_ w. (b \<longrightarrow> healthy w) \<and> (\<not> b \<or> ?X))"
    proof (cases "find (\<lambda>s. sm_ID s = ?sid) (t_summaries t)")
      case (Some s)
      then show ?thesis
        by (simp only: Some option.case)
          (rule ret_at, auto simp: condensed_created_def Let_def t Some view_reads(3) [of t, unfolded t(2)] intro!: at_db_imp_on_db)
    next
      case None
      have new: "?sid \<notin> sm_ID ` set (t_summaries t)" using None by (auto simp: find_None_iff)
      have id: "sm_ID (condensed_summary H i now) = ?sid" for now by (simp add: condensed_summary_def)
      have fresh: "\<forall>m \<in> set ?ids. (?sid, m) \<notin> set (t_summary_parents t)"
        using t(1) new by (auto simp: wf_tables_def wf_links_def has_summary_def)
      have "hoare (at_db b t) (bindE (insertSummary (condensed_summary H i now)) (\<lambda>_.
          bindE (exec_each ''store: link child summary'' (link_child (sm_ID (condensed_summary H i now))) ?ids) (\<lambda>_. ret (condensed_summary H i now))))
          (\<lambda>x. on_db b (\<lambda>t'. x = condensed_summary H i now \<and> ?Q (condensed_summary H i now) t')) (\<lambda>_ w. (b \<longrightarrow> healthy w) \<and> (\<not> b \<or> ?X))" for now
      proof (rule insert_summary_at [OF t(1)])
        let ?s = "condensed_summary H i now"
        let ?t = "t\<lparr>t_summaries := t_summaries t @ [?s], t_summaries_fts := t_summaries_fts t @ [summary_fts ?s]\<rparr>"
        have res: "fold_stmts (link_child ?sid) ?ids ?t =
            (if ?ids = [] \<or> has_summary ?t ?sid \<and> (\<forall>m \<in> set ?ids. has_summary ?t m)
             then Some (?t\<lparr>t_summary_parents := t_summary_parents ?t @ map (Pair ?sid) ?ids\<rparr>) else None)"
          using fresh by (intro link_children_result d) simp
        have s: "has_summary ?t ?sid" "sm_ID ` set (t_summaries t) \<subseteq> {x. has_summary ?t x}"
          by (auto simp: has_summary_def id)
        show "sm_ID ?s \<notin> sm_ID ` set (t_summaries t)" using new by (simp add: id)
        show "wf_tables H t2" if "wf_tables H t1" "fold_stmts (link_child (sm_ID ?s)) ?ids t1 = Some t2" for t1 t2
          using wf_link_child by (rule fold_stmts_wf [OF _ that])
        show "?Q ?s t2" if "t1 = ?t" "fold_stmts (link_child (sm_ID ?s)) ?ids t1 = Some t2" "wf_tables H t2" for t1 t2
        proof -
          have t2: "t2 = ?t\<lparr>t_summary_parents := t_summary_parents ?t @ map (Pair ?sid) ?ids\<rparr>"
            using that(1,2) res by (simp add: id split: if_splits)
          have "view_of t2 = add_condensed ?s ?ids v"
            by (simp add: t2 view_of_def add_condensed_def id t(2) [symmetric] window_items_def window_rows_def)
          with that(3) new show ?thesis
            by (auto simp: condensed_created_def Let_def summary_ids_def t(2) [symmetric])
        qed
        show ?X if "t1 = ?t" "fold_stmts (link_child (sm_ID ?s)) ?ids t1 = None" for t1
          using that res s by (auto simp: id summary_ids_def has_summary_def t(2) [symmetric] split: if_splits)
        show ?X if "sm_ConversationID ?s \<notin> conversation_ids t"
          using that log_conversation [OF t(1), of ?c] by (auto simp: t(2) [symmetric] view_reads)
      qed
      from hoare_post [OF this, where Q = "\<lambda>x. on_db b (?Q x)"] show ?thesis
        unfolding None option.case Let_def by (intro bind_clock) (simp add: id on_db_def)
    qed
  qed (auto simp: at_db_def)
  show "hoare (at_db b t) (CreateCondensedSummary H i) (\<lambda>x s. \<exists>v'. sqlite_at H b v' s \<and> condensed_created H i v x v')
     (\<lambda>_ s. sqlite_at H b v s \<and> (\<not> b \<or> ?X))"
    unfolding CreateCondensedSummary_def Let_def sqlite_at_def
    by (rule hoare_conseq [OF in_tx_at [OF body [unfolded Let_def]]]) (auto simp: at_db_def on_db_def t)
qed

section \<open>The interpretation\<close>

interpretation sqlite: engine_store "sqlite_store H" H "sqlite_at H"
  by (unfold_locales; unfold sqlite_store_def engine_store.simps)
    (rule list_messages_law get_message_law get_summary_law create_leaf_law create_condensed_law
      summary_messages_law summary_children_law mark_expanded_law list_items_law replace_items_law
      create_file_law; assumption?)+

text \<open>
  The views of well-formed tables are well-formed, so the engine's invariant needs only the
  soundness of the summaries and of the windows beyond the store's own invariant.
\<close>

lemma dag_wf_view:
  assumes wf: "wf_tables H t" and hex: "hex_hash H" and sound: "dag_sound H (view_of t)"
  shows "dag_wf H (view_of t)"
proof -
  have nf: "nul_free (hashID H p ids)" if "nul_free p" for p ids
    using hex that by (auto simp: hashID_def digest_def hex_hash_def nul_free_def NUL_def dest: in_set_takeD)
  have conv: "nul_free c" if "c \<in> conversation_ids t" for c
    using wf that nf [of "''conv''"]
    by (auto simp: wf_tables_def wf_conversations_def conversation_ids_def DeriveConversationID_def nul_free_def NUL_def)
  have msg: "nul_free (ms_ID m) \<and> nul_free (ms_ConversationID m)" if "m \<in> set (t_messages t)" for m
    using wf that conv nf [of "''msg''"]
    by (auto simp: wf_tables_def wf_messages_def message_identity_def DeriveMessageID_def nul_free_def NUL_def)
  have sum: "nul_free (sm_ID s) \<and> nul_free (sm_ConversationID s)" if "s \<in> set (t_summaries t)" for s
    using wf that conv sound key_id_nul_free [OF hex, of "own_key (view_of t) s"]
    by (auto simp: wf_tables_def wf_summaries_def dag_sound_def)
  have seq: "map ms_Seq (conversation_log t c) = map int [1..<Suc (length (conversation_log t c))]" for c
    using wf log_conversation [OF wf, of c]
    by (cases "conversation_log t c = []") (auto simp: wf_tables_def wf_messages_def)
  from wf show ?thesis
    using msg sum seq
    by (auto simp: dag_wf_def wf_tables_def wf_messages_def wf_summaries_def wf_links_def view_reads
        has_summary_def has_message_def)
qed

end
