(* ===== verification/Assemble.thy ===== *)
theory Assemble
  imports Compaction
begin

text \<open>
  \<open>internal/engine/assemble.go\<close>: rendering the active window, and the way back from a summary to
  the messages it stands for.  The recursive walk is bounded by fuel; running out of it stands for
  Go's stack overflow, and the theorems show that depth plus one is always enough.
\<close>

section \<open>Rendering the window\<close>

record rendered_item =
  ri_Type :: context_item_type
  ri_RefID :: string
  ri_Role :: role
  ri_Content :: string
  ri_Tokens :: int
  ri_RenderedTokens :: int
  ri_Depth :: int
  ri_EarliestSeq :: int
  ri_LatestSeq :: int
  ri_RepresentedMessages :: int
  ri_IsSummary :: bool
  ri_HasOffloadReference :: bool

definition hasOffloadReference :: "string \<Rightarrow> bool" where
  "hasOffloadReference content = Contains content ''[large content offloaded ->''"

definition messageItem :: "'st compactor \<Rightarrow> message \<Rightarrow> rendered_item" where
  "messageItem C m = \<lparr>ri_Type = ContextMessage, ri_RefID = ms_ID m, ri_Role = ms_Role m, ri_Content = ms_Content m,
     ri_Tokens = ms_TokenCount m, ri_RenderedTokens = cp_counter C (ms_Content m), ri_Depth = 0,
     ri_EarliestSeq = ms_Seq m, ri_LatestSeq = ms_Seq m, ri_RepresentedMessages = 1, ri_IsSummary = False,
     ri_HasOffloadReference = hasOffloadReference (ms_Content m)\<rparr>"

definition renderSummary :: "unicode \<Rightarrow> summary \<Rightarrow> string" where
  "renderSummary U s =
     ''<summary id='' @ Quote U (sm_ID s) @ '' depth='' @ itoa (sm_Depth s) @ '' messages='' @ itoa (sm_DescendantMessageCount s)
     @ '' seq='' @ itoa (sm_EarliestSeq s) @ ''-'' @ itoa (sm_LatestSeq s) @ ''>'' @ [CHR 0x0A] @ sm_Content s @ [CHR 0x0A]
     @ ''</summary>''"

definition summaryItem :: "unicode \<Rightarrow> 'st compactor \<Rightarrow> summary \<Rightarrow> rendered_item" where
  "summaryItem U C s = (let content = renderSummary U s in
     \<lparr>ri_Type = ContextSummary, ri_RefID = sm_ID s, ri_Role = RoleUser, ri_Content = content,
      ri_Tokens = sm_TokenCount s, ri_RenderedTokens = cp_counter C content, ri_Depth = sm_Depth s,
      ri_EarliestSeq = sm_EarliestSeq s, ri_LatestSeq = sm_LatestSeq s,
      ri_RepresentedMessages = sm_DescendantMessageCount s, ri_IsSummary = True,
      ri_HasOffloadReference = hasOffloadReference content\<rparr>)"

definition render_item :: "unicode \<Rightarrow> 'st compactor \<Rightarrow> window_item \<Rightarrow> ('st, rendered_item) prog" where
  "render_item U C it =
     (if wi_typ it = ContextMessage
      then bindE (es_GetMessage (cp_store C) (wi_refID it)) (\<lambda>m. ret (messageItem C m))
      else if wi_typ it = ContextSummary
      then bindE (es_GetSummary (cp_store C) (wi_refID it)) (\<lambda>s. ret (summaryItem U C s))
      else fail (Errorf ''engine: unknown context item type'' [wi_typ it]))"

definition Assemble :: "unicode \<Rightarrow> 'st compactor \<Rightarrow> string \<Rightarrow> ('st, rendered_item list) prog" where
  "Assemble U C conv = bindE (buildWindow C conv) (mapE (render_item U C))"

section \<open>Expanding a summary\<close>

record expansion =
  ex_Summary :: summary
  ex_Messages :: "message list"
  ex_Children :: "summary list"

definition Expand :: "'st compactor \<Rightarrow> string \<Rightarrow> ('st, expansion) prog" where
  "Expand C sid =
     bindE (es_GetSummary (cp_store C) sid) (\<lambda>s.
     if sm_Kind s = SummaryLeaf
     then bindE (es_SummaryMessages (cp_store C) sid) (\<lambda>msgs.
          bindE (es_MarkSummaryExpanded (cp_store C) sid) (\<lambda>_.
          ret \<lparr>ex_Summary = s, ex_Messages = msgs, ex_Children = []\<rparr>))
     else bindE (es_SummaryChildren (cp_store C) sid) (\<lambda>children.
          bindE (es_MarkSummaryExpanded (cp_store C) sid) (\<lambda>_.
          ret \<lparr>ex_Summary = s, ex_Messages = [], ex_Children = children\<rparr>)))"

text \<open>The variables \<open>seen\<close> and \<open>out\<close> of the walk, and its two loops.\<close>

type_synonym walk_state = "string set \<times> message list"

definition collect :: "message \<Rightarrow> walk_state \<Rightarrow> walk_state" where
  "collect m st = (case st of (seen, out) \<Rightarrow>
     if ms_ID m \<in> seen then (seen, out) else (insert (ms_ID m) seen, out @ [m]))"

fun walk :: "'st compactor \<Rightarrow> nat \<Rightarrow> string \<Rightarrow> walk_state \<Rightarrow> ('st, walk_state) prog" where
  "walk C 0 sid acc = fail (GoPanic ''stack overflow'')"
| "walk C (Suc n) sid acc =
     bindE (es_GetSummary (cp_store C) sid) (\<lambda>s.
     if sm_Kind s = SummaryLeaf
     then bindE (es_SummaryMessages (cp_store C) sid) (\<lambda>msgs. ret (fold collect msgs acc))
     else bindE (es_SummaryChildren (cp_store C) sid) (\<lambda>children.
          foldE (\<lambda>ch. walk C n (sm_ID ch)) children acc))"

definition ExpandToMessages :: "'st compactor \<Rightarrow> nat \<Rightarrow> string \<Rightarrow> ('st, message list) prog" where
  "ExpandToMessages C fuel sid =
     bindE (walk C fuel sid ({}, [])) (\<lambda>(seen, out).
     bindE (es_MarkSummaryExpanded (cp_store C) sid) (\<lambda>_.
     ret (sort_key ms_Seq out)))"

definition ExpandQuery :: "unicode \<Rightarrow> 'st compactor \<Rightarrow> nat \<Rightarrow> string \<Rightarrow> string \<Rightarrow> ('st, message list) prog" where
  "ExpandQuery U C fuel sid query =
     bindE (ExpandToMessages C fuel sid) (\<lambda>msgs.
     if query = [] then ret msgs
     else ret (filter (\<lambda>m. Contains (ToLower U (ms_Content m)) (ToLower U query)) msgs))"

section \<open>The links give back the log\<close>

text \<open>The messages a summary's own fields claim: those of its conversation with a number in its range.\<close>

definition span_messages :: "dag_view \<Rightarrow> summary \<Rightarrow> message list" where
  "span_messages v s =
     filter (\<lambda>m. sm_EarliestSeq s \<le> ms_Seq m \<and> ms_Seq m \<le> sm_LatestSeq s) (log_of v (sm_ConversationID s))"

lemma span_slice:
  assumes wf: "dag_wf H v" and sound: "summary_sound v s ids"
  shows "span_messages v s = take (length ids) (drop (nat (sm_EarliestSeq s - 1)) (log_of v (sm_ConversationID s)))"
    and "map ms_ID (span_messages v s) = ids"
proof -
  let ?L = "log_of v (sm_ConversationID s)" and ?k = "nat (sm_EarliestSeq s - 1)"
  let ?P = "\<lambda>m. sm_EarliestSeq s \<le> ms_Seq m \<and> ms_Seq m \<le> sm_LatestSeq s"
  have s: "ids \<noteq> []" "span_of v (sm_ConversationID s) ?k ids" "1 \<le> sm_EarliestSeq s"
    "sm_LatestSeq s = sm_EarliestSeq s + int (length ids) - 1"
    using sound by (simp_all add: summary_sound_def)
  have len: "?k + length ids \<le> length ?L" and ids: "ids = take (length ids) (drop ?k (log_ids v (sm_ConversationID s)))"
    using s(2) by (simp_all add: span_of_def)
  have a: "filter ?P (take ?k ?L) = []"
    using log_seq [OF wf, of _ "sm_ConversationID s"] s(3) by (fastforce simp: filter_empty_conv in_set_conv_nth)
  have b: "filter ?P (take (length ids) (drop ?k ?L)) = take (length ids) (drop ?k ?L)"
    using log_seq [OF wf, of _ "sm_ConversationID s"] s(3,4) len by (fastforce simp: filter_id_conv in_set_conv_nth)
  have c: "filter ?P (drop (length ids) (drop ?k ?L)) = []"
    using log_seq [OF wf, of _ "sm_ConversationID s"] s(3,4) len by (fastforce simp: filter_empty_conv in_set_conv_nth)
  have "?L = take ?k ?L @ take (length ids) (drop ?k ?L) @ drop (length ids) (drop ?k ?L)"
    by (simp only: append_take_drop_id)
  then have "filter ?P ?L = filter ?P (take ?k ?L) @ filter ?P (take (length ids) (drop ?k ?L))
      @ filter ?P (drop (length ids) (drop ?k ?L))" by (metis filter_append)
  then show eq: "span_messages v s = take (length ids) (drop ?k ?L)"
    by (simp add: span_messages_def a b c del: drop_drop)
  show "map ms_ID (span_messages v s) = ids"
    unfolding eq using ids by (simp add: log_ids_def take_map drop_map)
qed

lemma sorted_span: "dag_wf H v \<Longrightarrow> sorted_wrt (\<lambda>a b. ms_Seq a < ms_Seq b) (span_messages v s)"
proof -
  assume wf: "dag_wf H v"
  have "sorted_wrt (\<lambda>a b. ms_Seq a < ms_Seq b) (log_of v (sm_ConversationID s))"
    using log_seq [OF wf] by (auto simp: sorted_wrt_iff_nth_less)
  then show ?thesis unfolding span_messages_def by (rule sorted_wrt_filter)
qed

lemma sort_span: "dag_wf H v \<Longrightarrow> sort_key ms_Seq (span_messages v s) = span_messages v s"
  by (rule sorted_wrt_less_sort_key [OF sorted_span])

lemma span_in_messages: "set (span_messages v s) \<subseteq> set (dv_messages v)"
  by (auto simp: span_messages_def log_of_def)

text \<open>The rows a leaf and a condensed summary are joined with.\<close>

lemma source_messages_links:
  assumes wf: "dag_wf H v" and ids: "sources_of v sid = map ms_ID msgs" "set msgs \<subseteq> set (dv_messages v)"
  shows "source_messages v sid = msgs"
proof -
  have "distinct (map ms_ID (dv_messages v))" using wf by (simp add: dag_wf_def)
  then have "concat (map (\<lambda>mid. filter (\<lambda>m. ms_ID m = mid) (dv_messages v)) (map ms_ID msgs)) = msgs"
    using ids(2) by (induction msgs) (simp_all add: filter_key_unique)
  then show ?thesis by (simp add: source_messages_def ids(1))
qed

lemma child_summaries_links:
  assumes wf: "dag_wf H v" and ids: "children_of v sid = map sm_ID ss" "set ss \<subseteq> set (dv_summaries v)"
  shows "child_summaries v sid = ss"
proof -
  have "distinct (map sm_ID (dv_summaries v))" using wf by (simp add: dag_wf_def)
  then have "concat (map (\<lambda>i. filter (\<lambda>m. sm_ID m = i) (dv_summaries v)) (map sm_ID ss)) = ss"
    using ids(2) by (induction ss) (simp_all add: filter_key_unique)
  then show ?thesis by (simp add: child_summaries_def ids(1))
qed

text \<open>Adjacent sound summaries: their ranges follow each other and their messages concatenate.\<close>

lemma adjacent_spans:
  assumes wf: "dag_wf H v" and sound: "dag_sound H v"
    and ss: "list_all2 (\<lambda>s p. s \<in> set (dv_summaries v) \<and> sm_ConversationID s = c \<and> summary_sound v s p) ss parts"
    and L: "log_ids v c = A @ concat parts @ B"
  shows "sorted_wrt (\<lambda>a b. sm_EarliestSeq a < sm_EarliestSeq b) ss
    \<and> (\<forall>s \<in> set ss. int (length A) < sm_EarliestSeq s)
    \<and> concat (map (span_messages v) ss) = take (length (concat parts)) (drop (length A) (log_of v c))"
  using ss L
proof (induction ss parts arbitrary: A rule: list_all2_induct)
  case (Cons s ss p parts)
  have s: "s \<in> set (dv_summaries v)" "sm_ConversationID s = c" "summary_sound v s p" using Cons.hyps(1) by auto
  have "item_expands v c (summary_item s) p" using s by (auto simp: item_expands_def summary_sound_def)
  then have pos: "sm_EarliestSeq s = int (length A) + 1"
    using item_position [OF wf sound, of c "summary_item s" p A "concat parts @ B"] Cons.prems by simp
  have "log_ids v c = (A @ p) @ concat parts @ B" using Cons.prems by simp
  from Cons.IH [OF this] have ih: "sorted_wrt (\<lambda>a b. sm_EarliestSeq a < sm_EarliestSeq b) ss"
    "\<forall>s \<in> set ss. int (length A + length p) < sm_EarliestSeq s"
    "concat (map (span_messages v) ss) = take (length (concat parts)) (drop (length A + length p) (log_of v c))" by auto
  have "span_messages v s = take (length p) (drop (length A) (log_of v c))"
    using span_slice(1) [OF wf s(3)] pos s(2) by simp
  moreover have "sm_EarliestSeq s < sm_EarliestSeq x" if "x \<in> set ss" for x
  proof -
    have "1 \<le> length p" using s(3) by (cases p) (auto simp: summary_sound_def)
    moreover have "int (length A + length p) < sm_EarliestSeq x" using ih(2) that by blast
    ultimately show ?thesis using pos by linarith
  qed
  moreover have "int (length A) < sm_EarliestSeq x" if "x \<in> set ss" for x
    using ih(2) that by fastforce
  ultimately show ?case
    using ih pos by (simp add: take_add add.commute)
qed simp

section \<open>The walk\<close>

lemma fold_collect:
  assumes "distinct (map ms_ID ms)" "\<forall>m \<in> set ms. ms_ID m \<notin> seen"
  shows "fold collect ms (seen, out) = (seen \<union> ms_ID ` set ms, out @ ms)"
  using assms
proof (induction ms arbitrary: seen out)
  case (Cons m ms)
  have "\<forall>x \<in> set ms. ms_ID x \<notin> insert (ms_ID m) seen" using Cons.prems by (force simp: image_iff)
  with Cons.IH [of "insert (ms_ID m) seen" "out @ [m]"] Cons.prems show ?case by (simp add: collect_def)
qed simp

context engine
begin

lemma get_known_summary:
  assumes "find_summary v sid = Some s"
  shows "hoare (at b v) (es_GetSummary (cp_store C) sid) (\<lambda>x st. at b v st \<and> x = s) (\<lambda>_ st. at b v st \<and> \<not> b)"
  unfolding store by (rule hoare_conseq [OF get_summary]) (auto simp: assms)

lemma leaf_rows:
  assumes inv: "dag_inv H v" and s: "find_summary v sid = Some s" "sm_Kind s = SummaryLeaf"
  shows "sort_key ms_Seq (source_messages v sid) = span_messages v s"
proof -
  have wf: "dag_wf H v" and sound: "dag_sound H v" using inv by (simp_all add: dag_inv_def)
  have s': "s \<in> set (dv_summaries v)" "sm_ID s = sid" using find_summary_Some [OF s(1)] by auto
  then obtain ids where ids: "summary_sound v s ids" using sound by (auto simp: dag_sound_def)
  have "sources_of v sid = map ms_ID (span_messages v s)"
    using ids s' expands_leaf_iff [OF s] span_slice(2) [OF wf ids] by (simp add: summary_sound_def)
  then show ?thesis
    using source_messages_links [OF wf _ span_in_messages] sort_span [OF wf] by simp
qed

lemma condensed_rows:
  assumes inv: "dag_inv H v" and s: "find_summary v sid = Some s" "sm_Kind s \<noteq> SummaryLeaf"
  obtains ss where "sort_key sm_EarliestSeq (child_summaries v sid) = ss"
    "concat (map (span_messages v) ss) = span_messages v s"
    "\<forall>x \<in> set ss. find_summary v (sm_ID x) = Some x \<and> nat (sm_Depth x) < nat (sm_Depth s)
       \<and> set (span_messages v x) \<subseteq> set (span_messages v s)"
proof -
  have wf: "dag_wf H v" and sound: "dag_sound H v" using inv by (simp_all add: dag_inv_def)
  have s': "s \<in> set (dv_summaries v)" "sm_ID s = sid" using find_summary_Some [OF s(1)] by auto
  obtain ids where ids: "summary_sound v s ids" and depth: "depth_ok v s" using sound s' by (auto simp: dag_sound_def)
  let ?c = "sm_ConversationID s"
  have "expands v sid ids" using ids s' by (simp add: summary_sound_def)
  then obtain parts where parts: "list_all2 (expands v) (children_of v sid) parts" "ids = concat parts"
    using s by (auto elim: expands.cases)
  have deep: "\<forall>x \<in> set (children_of v sid). \<exists>y. find_summary v x = Some y \<and> sm_Depth y = sm_Depth s - 1
      \<and> sm_ConversationID y = ?c" and d: "1 \<le> sm_Depth s"
    using depth s(2) s'(2) by (simp_all add: depth_ok_def)
  define ss where "ss = map (\<lambda>x. the (find_summary v x)) (children_of v sid)"
  have child: "find_summary v x = Some (the (find_summary v x)) \<and> sm_ID (the (find_summary v x)) = x
      \<and> the (find_summary v x) \<in> set (dv_summaries v)" if "x \<in> set (children_of v sid)" for x
    using deep that find_summary_Some by fastforce
  have ids_ss: "children_of v sid = map sm_ID ss" using child by (simp add: ss_def map_idI)
  have sub: "set ss \<subseteq> set (dv_summaries v)" using child by (auto simp: ss_def)
  have rel: "list_all2 (\<lambda>s p. s \<in> set (dv_summaries v) \<and> sm_ConversationID s = ?c \<and> summary_sound v s p) ss parts"
  proof -
    have "list_all2 (\<lambda>x p. the (find_summary v x) \<in> set (dv_summaries v) \<and> sm_ConversationID (the (find_summary v x)) = ?c
        \<and> summary_sound v (the (find_summary v x)) p) (children_of v sid) parts"
    proof (rule list.rel_mono_strong [OF parts(1)])
      fix x p assume x: "x \<in> set (children_of v sid)" "expands v x p"
      have y: "the (find_summary v x) \<in> set (dv_summaries v)" "sm_ID (the (find_summary v x)) = x" using child [OF x(1)] by auto
      then obtain q where q: "summary_sound v (the (find_summary v x)) q" using sound by (auto simp: dag_sound_def)
      with x(2) y have "q = p" by (auto simp: summary_sound_def dest: expands_det)
      with q y deep x(1) show "the (find_summary v x) \<in> set (dv_summaries v) \<and> sm_ConversationID (the (find_summary v x)) = ?c
        \<and> summary_sound v (the (find_summary v x)) p" by auto
    qed
    then show ?thesis by (simp add: ss_def list_all2_map1)
  qed
  let ?k = "nat (sm_EarliestSeq s - 1)"
  have sp: "?k + length ids \<le> length (log_ids v ?c)" "ids = take (length ids) (drop ?k (log_ids v ?c))"
    using ids by (simp_all add: summary_sound_def span_of_def)
  have L: "log_ids v ?c = take ?k (log_ids v ?c) @ concat parts @ drop (length ids) (drop ?k (log_ids v ?c))"
    using sp(2) parts(2) by (metis append_take_drop_id)
  have len: "length (take ?k (log_ids v ?c)) = ?k" using sp(1) by simp
  note adj = adjacent_spans [OF wf sound rel L, unfolded len]
  have all: "concat (map (span_messages v) ss) = span_messages v s"
    using adj span_slice(1) [OF wf ids] parts(2) by simp
  show ?thesis
  proof
    show "sort_key sm_EarliestSeq (child_summaries v sid) = ss"
      unfolding child_summaries_links [OF wf ids_ss sub] using adj by (intro sorted_wrt_less_sort_key) simp
    show "concat (map (span_messages v) ss) = span_messages v s" by (rule all)
    show "\<forall>x \<in> set ss. find_summary v (sm_ID x) = Some x \<and> nat (sm_Depth x) < nat (sm_Depth s)
       \<and> set (span_messages v x) \<subseteq> set (span_messages v s)"
    proof
      fix x assume x: "x \<in> set ss"
      have "set (span_messages v x) \<subseteq> set (span_messages v s)" using x unfolding all [symmetric] by auto
      moreover obtain i where i: "i \<in> set (children_of v sid)" "x = the (find_summary v i)" using x by (auto simp: ss_def)
      have "find_summary v (sm_ID x) = Some x" using child [OF i(1)] i(2) by metis
      moreover have "sm_Depth x = sm_Depth s - 1" using deep i by fastforce
      ultimately show "find_summary v (sm_ID x) = Some x \<and> nat (sm_Depth x) < nat (sm_Depth s)
        \<and> set (span_messages v x) \<subseteq> set (span_messages v s)" using d by simp
    qed
  qed
qed

lemma walk_ok:
  assumes inv: "dag_inv H v"
  shows "find_summary v sid = Some s \<Longrightarrow> nat (sm_Depth s) < n \<Longrightarrow> \<forall>m \<in> set (span_messages v s). ms_ID m \<notin> fst acc \<Longrightarrow>
    hoare (at b v) (walk C n sid acc)
      (\<lambda>r st. at b v st \<and> r = (fst acc \<union> ms_ID ` set (span_messages v s), snd acc @ span_messages v s))
      (\<lambda>_ st. at b v st \<and> \<not> b)"
proof (induction n arbitrary: sid s acc)
  case (Suc n)
  have wf: "dag_wf H v" using inv by (simp add: dag_inv_def)
  let ?Q = "\<lambda>r st. at b v st \<and> r = (fst acc \<union> ms_ID ` set (span_messages v s), snd acc @ span_messages v s)"
  have ids: "distinct (map ms_ID (span_messages v s))" for s
    using wf by (simp add: dag_wf_def span_messages_def log_of_def distinct_map_filter)
  show ?case
    unfolding walk.simps
  proof (rule hoare_bind_fact [OF get_known_summary [OF Suc.prems(1)]])
    fix x assume x: "x = s"
    show "hoare (at b v) (if sm_Kind x = SummaryLeaf
        then bindE (es_SummaryMessages (cp_store C) sid) (\<lambda>msgs. ret (fold collect msgs acc))
        else bindE (es_SummaryChildren (cp_store C) sid) (\<lambda>children. foldE (\<lambda>ch. walk C n (sm_ID ch)) children acc))
        ?Q (\<lambda>_ st. at b v st \<and> \<not> b)"
      unfolding x
    proof (rule hoare_if)
      assume leaf: "sm_Kind s = SummaryLeaf"
      show "hoare (at b v) (bindE (es_SummaryMessages (cp_store C) sid) (\<lambda>msgs. ret (fold collect msgs acc))) ?Q
          (\<lambda>_ st. at b v st \<and> \<not> b)"
        unfolding store
      proof (rule hoare_bind_fact [OF summary_messages])
        fix r assume "r = sort_key ms_Seq (source_messages v sid)"
        then have r: "r = span_messages v s" using leaf_rows [OF inv Suc.prems(1) leaf] by simp
        have "fold collect r acc = (fst acc \<union> ms_ID ` set (span_messages v s), snd acc @ span_messages v s)"
          using fold_collect [OF ids Suc.prems(3), of "snd acc"] by (simp add: r)
        then show "hoare (at b v) (ret (fold collect r acc)) ?Q (\<lambda>_ st. at b v st \<and> \<not> b)" by (auto intro: hoare_ret)
      qed
    next
      assume cond: "sm_Kind s \<noteq> SummaryLeaf"
      obtain ss where ss: "sort_key sm_EarliestSeq (child_summaries v sid) = ss"
        "concat (map (span_messages v) ss) = span_messages v s"
        "\<forall>x \<in> set ss. find_summary v (sm_ID x) = Some x \<and> nat (sm_Depth x) < nat (sm_Depth s)
           \<and> set (span_messages v x) \<subseteq> set (span_messages v s)"
        by (rule condensed_rows [OF inv Suc.prems(1) cond])
      let ?done = "\<lambda>ys. concat (map (span_messages v) ys)"
      let ?I = "\<lambda>ys r st. at b v st \<and> r = (fst acc \<union> ms_ID ` set (?done ys), snd acc @ ?done ys)"
      have step: "hoare (?I ys r) (walk C n (sm_ID x) r) (?I (ys @ [x])) (\<lambda>_ st. at b v st \<and> \<not> b)"
        if xs: "ss = ys @ x # zs" for ys x zs r
      proof (rule hoare_assume [where b = "r = (fst acc \<union> ms_ID ` set (?done ys), snd acc @ ?done ys)"], blast)
        assume r: "r = (fst acc \<union> ms_ID ` set (?done ys), snd acc @ ?done ys)"
        have x: "x \<in> set ss" by (simp add: xs)
        have "distinct (map ms_ID (?done ys @ span_messages v x @ ?done zs))"
          using ids [of s] unfolding ss(2) [symmetric] xs by simp
        then have "ms_ID ` set (?done ys) \<inter> ms_ID ` set (span_messages v x) = {}" by (simp add: Int_Un_distrib)
        moreover have "set (span_messages v x) \<subseteq> set (span_messages v s)" using ss(3) x by blast
        ultimately have fresh: "\<forall>m \<in> set (span_messages v x). ms_ID m \<notin> fst r"
          using Suc.prems(3) unfolding r by auto
        have "hoare (at b v) (walk C n (sm_ID x) r)
            (\<lambda>r' st. at b v st \<and> r' = (fst r \<union> ms_ID ` set (span_messages v x), snd r @ span_messages v x)) (\<lambda>_ st. at b v st \<and> \<not> b)"
          using ss(3) x Suc.prems(2) by (intro Suc.IH fresh) auto
        then show ?thesis by (rule hoare_conseq) (auto simp: r)
      qed
      have "hoare (?I [] acc) (foldE (\<lambda>ch. walk C n (sm_ID ch)) ss acc) (?I ss) (\<lambda>_ st. at b v st \<and> \<not> b)"
        by (rule hoare_foldE) (rule step)
      then have all: "hoare (at b v) (foldE (\<lambda>ch. walk C n (sm_ID ch)) ss acc) ?Q (\<lambda>_ st. at b v st \<and> \<not> b)"
        unfolding ss(2) by (rule hoare_conseq) auto
      show "hoare (at b v) (bindE (es_SummaryChildren (cp_store C) sid)
          (\<lambda>children. foldE (\<lambda>ch. walk C n (sm_ID ch)) children acc)) ?Q (\<lambda>_ st. at b v st \<and> \<not> b)"
        unfolding store by (rule hoare_bind_fact [OF summary_children]) (simp add: ss(1) all)
    qed
  qed
qed simp

lemma mark_known:
  assumes "find_summary v sid = Some s"
  shows "hoare (at b v) (es_MarkSummaryExpanded (cp_store C) sid) (\<lambda>_. at b v) (\<lambda>_ st. at b v st \<and> \<not> b)"
  unfolding store by (rule hoare_conseq [OF mark_expanded]) (use in_summary_ids [OF assms] in auto)

lemma ExpandToMessages_ok:
  assumes inv: "dag_inv H v" and s: "find_summary v sid = Some s" and fuel: "nat (sm_Depth s) < fuel"
  shows "hoare (at b v) (ExpandToMessages C fuel sid) (\<lambda>r st. at b v st \<and> r = span_messages v s) (\<lambda>_ st. at b v st \<and> \<not> b)"
  unfolding ExpandToMessages_def
proof (rule hoare_bind_fact [OF walk_ok [OF inv s fuel]])
  have wf: "dag_wf H v" using inv by (simp add: dag_inv_def)
  fix r assume r: "r = (fst ({} :: string set, [] :: message list) \<union> ms_ID ` set (span_messages v s), snd ({} :: string set, []) @ span_messages v s)"
  show "hoare (at b v) (case r of (seen, out) \<Rightarrow> bindE (es_MarkSummaryExpanded (cp_store C) sid) (\<lambda>_. ret (sort_key ms_Seq out)))
      (\<lambda>r st. at b v st \<and> r = span_messages v s) (\<lambda>_ st. at b v st \<and> \<not> b)"
    by (simp add: r) (rule hoare_bind [OF mark_known [OF s]], rule hoare_ret, simp add: sort_span [OF wf])
qed simp

text \<open>One level: the messages of a leaf, the children of a condensed summary, in order.\<close>

lemma Expand_ok:
  assumes inv: "dag_inv H v" and s: "find_summary v sid = Some s"
  shows "hoare (at b v) (Expand C sid)
    (\<lambda>r st. at b v st \<and> ex_Summary r = s
       \<and> (if sm_Kind s = SummaryLeaf then ex_Messages r = span_messages v s \<and> ex_Children r = []
          else ex_Messages r = [] \<and> concat (map (span_messages v) (ex_Children r)) = span_messages v s))
    (\<lambda>_ st. at b v st \<and> \<not> b)" (is "hoare _ _ ?Q ?E")
  unfolding Expand_def
proof (rule hoare_bind_fact [OF get_known_summary [OF s]])
  fix x assume x: "x = s"
  have mark: "hoare (at b v) (bindE (es_MarkSummaryExpanded (cp_store C) sid) (\<lambda>_. ret r)) ?Q ?E"
    if "ex_Summary r = s" "if sm_Kind s = SummaryLeaf then ex_Messages r = span_messages v s \<and> ex_Children r = []
          else ex_Messages r = [] \<and> concat (map (span_messages v) (ex_Children r)) = span_messages v s" for r
    by (rule hoare_bind [OF mark_known [OF s]], rule hoare_ret) (use that in simp)
  show "hoare (at b v) (if sm_Kind x = SummaryLeaf
     then bindE (es_SummaryMessages (cp_store C) sid) (\<lambda>msgs. bindE (es_MarkSummaryExpanded (cp_store C) sid) (\<lambda>_.
          ret \<lparr>ex_Summary = x, ex_Messages = msgs, ex_Children = []\<rparr>))
     else bindE (es_SummaryChildren (cp_store C) sid) (\<lambda>children. bindE (es_MarkSummaryExpanded (cp_store C) sid) (\<lambda>_.
          ret \<lparr>ex_Summary = x, ex_Messages = [], ex_Children = children\<rparr>))) ?Q ?E"
    unfolding x
  proof (rule hoare_if)
    assume leaf: "sm_Kind s = SummaryLeaf"
    show "hoare (at b v) (bindE (es_SummaryMessages (cp_store C) sid) (\<lambda>msgs. bindE (es_MarkSummaryExpanded (cp_store C) sid) (\<lambda>_.
          ret \<lparr>ex_Summary = s, ex_Messages = msgs, ex_Children = []\<rparr>))) ?Q ?E"
      unfolding store
      by (rule hoare_bind_fact [OF summary_messages], rule mark [unfolded store])
        (simp_all add: leaf leaf_rows [OF inv s leaf])
  next
    assume cond: "sm_Kind s \<noteq> SummaryLeaf"
    obtain ss where ss: "sort_key sm_EarliestSeq (child_summaries v sid) = ss"
      "concat (map (span_messages v) ss) = span_messages v s" by (rule condensed_rows [OF inv s cond])
    show "hoare (at b v) (bindE (es_SummaryChildren (cp_store C) sid) (\<lambda>children. bindE (es_MarkSummaryExpanded (cp_store C) sid) (\<lambda>_.
          ret \<lparr>ex_Summary = s, ex_Messages = [], ex_Children = children\<rparr>))) ?Q ?E"
      unfolding store
      by (rule hoare_bind_fact [OF summary_children], rule mark [unfolded store])
        (simp_all add: cond ss)
  qed
qed

section \<open>The assembled window\<close>

text \<open>A rendered item carries the reference and the message count of its window item.\<close>

definition renders :: "unicode \<Rightarrow> dag_view \<Rightarrow> window_item \<Rightarrow> rendered_item \<Rightarrow> bool" where
  "renders U v it r \<longleftrightarrow>
     (\<exists>m \<in> set (dv_messages v). it = message_item m \<and> r = messageItem C m)
     \<or> (\<exists>s \<in> set (dv_summaries v). it = summary_item s \<and> r = summaryItem U C s)"

lemma render_item_ok:
  assumes wf: "dag_wf H v" and it: "resolves v (item_ref it) it"
  shows "hoare (at b v) (render_item U C it) (\<lambda>r st. at b v st \<and> renders U v it r) (\<lambda>_ st. at b v st \<and> \<not> b)"
proof -
  from it consider m where "find_message v (ms_ID m) = Some m" "it = message_item m"
    | s where "find_summary v (sm_ID s) = Some s" "it = summary_item s"
    by (auto simp: resolves_def)
  then show ?thesis
  proof cases
    case 1
    have m: "m \<in> set (dv_messages v)" using find_message_Some [OF 1(1)] by simp
    have get: "hoare (at b v) (es_GetMessage S (ms_ID m)) (\<lambda>x st. at b v st \<and> x = m) (\<lambda>_ st. at b v st \<and> \<not> b)"
      by (rule hoare_conseq [OF get_message]) (auto simp: 1(1))
    have "hoare (at b v) (bindE (es_GetMessage S (ms_ID m)) (\<lambda>m. ret (messageItem C m)))
        (\<lambda>r st. at b v st \<and> renders U v it r) (\<lambda>_ st. at b v st \<and> \<not> b)"
      by (rule hoare_bind_fact [OF get]) (rule hoare_ret, use m 1 in \<open>auto simp: renders_def\<close>)
    then show ?thesis by (simp add: render_item_def store 1(2))
  next
    case 2
    have s: "s \<in> set (dv_summaries v)" using find_summary_Some [OF 2(1)] by simp
    have get: "hoare (at b v) (es_GetSummary S (sm_ID s)) (\<lambda>x st. at b v st \<and> x = s) (\<lambda>_ st. at b v st \<and> \<not> b)"
      by (rule hoare_conseq [OF get_summary]) (auto simp: 2(1))
    have "hoare (at b v) (bindE (es_GetSummary S (sm_ID s)) (\<lambda>s. ret (summaryItem U C s)))
        (\<lambda>r st. at b v st \<and> renders U v it r) (\<lambda>_ st. at b v st \<and> \<not> b)"
      by (rule hoare_bind_fact [OF get]) (rule hoare_ret, use s 2 in \<open>auto simp: renders_def\<close>)
    then show ?thesis by (simp add: render_item_def store 2(2))
  qed
qed

lemma Assemble_ok:
  assumes inv: "dag_inv H v"
  shows "hoare (at b v) (Assemble U C c)
    (\<lambda>r st. at b v st \<and> (\<exists>w. resumed v c w \<and> covers v c w (length (log_of v c)) \<and> list_all2 (renders U v) w r))
    (\<lambda>_ st. at b v st \<and> \<not> b)"
  unfolding Assemble_def
proof (rule hoare_bind_fact)
  have wf: "dag_wf H v" using inv by (simp add: dag_inv_def)
  show "hoare (at b v) (buildWindow C c) (\<lambda>w st. at b v st \<and> covers v c w (length (log_of v c)) \<and> resumed v c w)
      (\<lambda>_ st. at b v st \<and> \<not> b)"
    by (rule buildWindow_ok [OF inv])
  fix w assume w: "covers v c w (length (log_of v c)) \<and> resumed v c w"
  have "hoare (at b v) (mapE (render_item U C) w) (\<lambda>r st. at b v st \<and> list_all2 (renders U v) w r) (\<lambda>_ st. at b v st \<and> \<not> b)"
    by (rule hoare_mapE) (use w covers_resolves [OF wf] in \<open>auto intro: render_item_ok [OF wf]\<close>)
  then show "hoare (at b v) (mapE (render_item U C) w)
      (\<lambda>r st. at b v st \<and> (\<exists>w. resumed v c w \<and> covers v c w (length (log_of v c)) \<and> list_all2 (renders U v) w r))
      (\<lambda>_ st. at b v st \<and> \<not> b)"
    by (rule hoare_post) (use w in auto)
qed

end

end
