(* ===== verification/Summarize.thy ===== *)
theory Summarize
  imports Database Tokens
begin

text \<open>
  Package \<open>internal/summarize\<close>: the deterministic digest, the summarizer that runs the host
  agent's command line with the digest as its fallback, and the bounded reader of an agent's event
  stream.  What a child process prints, and whether it fails, is the parameter \<open>command_run\<close>.
\<close>

section \<open>The deterministic digest\<close>

definition previewLine :: "string \<Rightarrow> int \<Rightarrow> string" where
  "previewLine s maxChars = cut_runes (nat (if maxChars < 1 then 1 else maxChars)) ellipsis (Join (Fields s) '' '')"

definition Deterministic_Summarize :: "summarize_input \<Rightarrow> string" where
  "Deterministic_Summarize inp =
     (if si_Sources inp = [] then []
      else let n = int (length (si_Sources inp));
               target = (if si_TargetTokens inp \<le> 0 then 512 else si_TargetTokens inp);
               perSourceChars = max (go_div target n) 8 * 4
           in Join ((''['' @ si_Kind inp @ '' summary depth='' @ itoa (si_Depth inp) @ '' sources='' @ itoa n @ '']'')
                    # map (\<lambda>src. ''- '' @ previewLine src perSourceChars) (si_Sources inp)) [CHR 0x0A])"

definition deterministic :: "summarize_input \<Rightarrow> ('st, string) prog" where
  "deterministic inp = ret (Deterministic_Summarize inp)"

section \<open>Child processes\<close>

text \<open>
  The outcome of running a command with some standard input: its standard output, or the error of
  \<open>cmd.Run\<close> with what it wrote to standard error, or the error of an expired context.  The
  outcome may differ from call to call (\<open>nat\<close> is the world's tick).
\<close>

datatype command_result = CommandOK string | CommandErr error string | CommandExpired error

type_synonym command_run = "string list \<Rightarrow> string \<Rightarrow> duration \<Rightarrow> nat \<Rightarrow> command_result"

definition DefaultModelCallTimeout :: duration where "DefaultModelCallTimeout = 120000000000"

definition execRunner :: "command_run \<Rightarrow> string list \<Rightarrow> string \<Rightarrow> duration \<Rightarrow> (world, string) prog" where
  "execRunner X argv stdin timeout =
     (if argv = [] then fail (Errorf ''summarize: empty command'' [])
      else if timeout \<le> 0 then fail (Errorf ''summarize: model timeout must be positive'' [])
      else (\<lambda>w. let w' = w\<lparr>w_tick := Suc (w_tick w)\<rparr> in
        case X argv stdin timeout (w_tick w) of
          CommandOK out \<Rightarrow> (Inr out, w')
        | CommandExpired e \<Rightarrow> (Inl (ErrWrap (''summarize: exec '' @ hd argv) e), w')
        | CommandErr e errBuf \<Rightarrow>
            (Inl (ErrWrap (''summarize: exec '' @ hd argv @ '': %w: '' @ TrimSpace errBuf) e), w')))"

definition ExecRunner :: "command_run \<Rightarrow> string list \<Rightarrow> string \<Rightarrow> (world, string) prog" where
  "ExecRunner X argv stdin = execRunner X argv stdin DefaultModelCallTimeout"

section \<open>Prompts\<close>

definition depthGuidance :: "int \<Rightarrow> string" where
  "depthGuidance depth =
     (if depth \<le> 0 then ''Preserve key decisions, identifiers, file paths, commands, error messages, and unresolved questions. ''
      else if depth = 1 then ''Summarize the arc of work: goals, decisions and their outcomes, files touched, and anything still unresolved. Drop step-by-step detail. ''
      else ''Produce a durable, self-contained narrative: the goal, the final outcome, lasting decisions, and what carries forward. Drop transient detail. '')"

definition source_blocks :: "string list \<Rightarrow> string" where
  "source_blocks sources =
     concat (map (\<lambda>(i, s). ''--- source '' @ itoa (int i + 1) @ '' ---'' @ [CHR 0x0A] @ s @ [CHR 0x0A]) (enumerate 0 sources))"

definition buildPrompt :: "summarize_input \<Rightarrow> string" where
  "buildPrompt inp =
     ''Compress the following '' @ si_Kind inp @ '' context into at most '' @ itoa (si_TargetTokens inp) @ '' tokens. ''
     @ depthGuidance (si_Depth inp)
     @ ''Output only the summary, no preamble.'' @ [CHR 0x0A, CHR 0x0A]
     @ source_blocks (si_Sources inp)"

definition buildAnswerPrompt :: "string \<Rightarrow> string list \<Rightarrow> int \<Rightarrow> string" where
  "buildAnswerPrompt question sources maxTokens =
     ''Answer the question below using ONLY the sources that follow, in at most '' @ itoa maxTokens @ '' tokens. ''
     @ ''Cite the message ids (msg_...) you drew on. ''
     @ ''If the sources do not contain the answer, say so plainly. Output only the answer, no preamble.'' @ [CHR 0x0A, CHR 0x0A]
     @ ''QUESTION: '' @ question @ [CHR 0x0A, CHR 0x0A]
     @ source_blocks sources"

section \<open>The command-line summarizer\<close>

record 'st cli_summarizer =
  cl_argv :: "string list"
  cl_promptOnStdin :: bool
  cl_run :: "string list \<Rightarrow> string \<Rightarrow> ('st, string) prog"
  cl_fallback :: "summarize_input \<Rightarrow> ('st, string) prog"

definition Claude :: "(string list \<Rightarrow> string \<Rightarrow> ('st, string) prog) \<Rightarrow> (summarize_input \<Rightarrow> ('st, string) prog) \<Rightarrow> 'st cli_summarizer" where
  "Claude run fallback = \<lparr>cl_argv = [''claude'', ''-p'', ''--model'', ''haiku'', ''--output-format'', ''text''],
     cl_promptOnStdin = True, cl_run = run, cl_fallback = fallback\<rparr>"

definition Codex :: "(string list \<Rightarrow> string \<Rightarrow> ('st, string) prog) \<Rightarrow> (summarize_input \<Rightarrow> ('st, string) prog) \<Rightarrow> 'st cli_summarizer" where
  "Codex run fallback = \<lparr>cl_argv = [''codex'', ''exec'', ''-c'', ''model=gpt-5.4-mini''],
     cl_promptOnStdin = False, cl_run = run, cl_fallback = fallback\<rparr>"

definition run_prompt :: "'st cli_summarizer \<Rightarrow> string \<Rightarrow> ('st, string) prog" where
  "run_prompt c prompt =
     (if cl_promptOnStdin c then cl_run c (cl_argv c) prompt else cl_run c (cl_argv c @ [prompt]) [])"

definition CLI_Summarize :: "'st cli_summarizer \<Rightarrow> summarize_input \<Rightarrow> ('st, string) prog" where
  "CLI_Summarize c inp =
     bindE (tryE (run_prompt c (buildPrompt inp))) (\<lambda>out.
     case out of
       Inl _ \<Rightarrow> cl_fallback c inp
     | Inr text \<Rightarrow> if TrimSpace text = [] then cl_fallback c inp else ret (TrimSpace text))"

definition Answer :: "'st cli_summarizer \<Rightarrow> string \<Rightarrow> string list \<Rightarrow> int \<Rightarrow> ('st, string) prog" where
  "Answer c question sources maxTokens =
     bindE (wrapE ''summarize: answer'' (run_prompt c (buildAnswerPrompt question sources maxTokens))) (\<lambda>text.
     if TrimSpace text = [] then fail (Errorf ''summarize: answer: empty model output'' []) else ret (TrimSpace text))"

text \<open>\<open>summarizerByName\<close> of the command line.\<close>

definition summarizerByName :: "unicode \<Rightarrow> command_run \<Rightarrow> string \<Rightarrow> error + (summarize_input \<Rightarrow> (world, string) prog)" where
  "summarizerByName U X name =
     (if name = '''' \<or> name = ''deterministic'' then Inr deterministic
      else if name = ''claude'' then Inr (CLI_Summarize (Claude (ExecRunner X) deterministic))
      else if name = ''codex'' then Inr (CLI_Summarize (Codex (ExecRunner X) deterministic))
      else Inl (Errorf ''unknown summarizer %q (want deterministic|claude|codex)'' [Quote U name]))"

section \<open>Event streams\<close>

definition maxStreamingEvents :: int where "maxStreamingEvents = 10000"

definition maxStreamingLineBytes :: int where "maxStreamingLineBytes = 8388608"

definition validateStreamRequest :: "string list \<Rightarrow> duration \<Rightarrow> int \<Rightarrow> int \<Rightarrow> bool \<Rightarrow> error option" where
  "validateStreamRequest argv timeout maxEvents maxLineBytes has_handler =
     (if argv = [] \<or> \<not> has_handler then Some (Errorf ''summarize: streaming command and handler are required'' [])
      else if timeout \<le> 0 \<or> maxEvents < 1 \<or> maxEvents > maxStreamingEvents \<or> maxLineBytes < 1 \<or> maxLineBytes > maxStreamingLineBytes
      then Some (Errorf ''summarize: invalid streaming execution limits'' [])
      else None)"

text \<open>
  \<open>bufio.Scanner\<close> with its line splitter over an output that ends with \<open>endErr\<close> (\<open>None\<close> for
  end of file): a line and its terminator must fit the buffer, a final carriage return is dropped,
  a last line without terminator counts.
\<close>

datatype scan = ScanLine string string | ScanEnd "error option"

definition drop_cr :: "string \<Rightarrow> string" where
  "drop_cr l = (if l \<noteq> [] \<and> last l = CHR 0x0D then butlast l else l)"

definition scan_line :: "nat \<Rightarrow> error option \<Rightarrow> string \<Rightarrow> scan" where
  "scan_line limit endErr text =
     (let line = takeWhile (\<lambda>c. c \<noteq> CHR 0x0A) text in
      if text = [] then ScanEnd endErr
      else if length line \<ge> limit then ScanEnd (Some (Errorf ''bufio.Scanner: token too long'' []))
      else ScanLine (drop_cr line) (drop (Suc (length line)) text))"

definition scannerError :: "error option \<Rightarrow> ('st, unit) prog" where
  "scannerError e = (case e of None \<Rightarrow> ret () | Some x \<Rightarrow> fail (ErrWrap ''summarize: read agent events'' x))"

fun consumeEvents :: "nat \<Rightarrow> nat \<Rightarrow> nat \<Rightarrow> error option \<Rightarrow> (string \<Rightarrow> ('st, unit) prog) \<Rightarrow> string \<Rightarrow> ('st, unit) prog" where
  "consumeEvents maxEvents 0 limit endErr handler text =
     (case scan_line limit endErr text of
        ScanLine _ _ \<Rightarrow> fail (Errorf ''summarize: agent emitted more than %d events'' [itoa (int maxEvents)])
      | ScanEnd e \<Rightarrow> scannerError e)"
| "consumeEvents maxEvents (Suc left) limit endErr handler text =
     (case scan_line limit endErr text of
        ScanLine line rest \<Rightarrow> bindE (handler line) (\<lambda>_. consumeEvents maxEvents left limit endErr handler rest)
      | ScanEnd e \<Rightarrow> scannerError e)"

text \<open>Which of the three errors of a streamed run is reported.\<close>

definition streamRunError :: "error option \<Rightarrow> string \<Rightarrow> error option \<Rightarrow> error option \<Rightarrow> string \<Rightarrow> error option" where
  "streamRunError ctxErr binary scanErr waitErr stderr =
     (case scanErr of Some e \<Rightarrow> Some e | None \<Rightarrow>
      (case ctxErr of Some e \<Rightarrow> Some (ErrWrap (''summarize: exec '' @ binary) e) | None \<Rightarrow>
       (case waitErr of Some e \<Rightarrow> Some (ErrWrap (''summarize: exec '' @ binary @ '': %w: '' @ TrimSpace stderr) e)
        | None \<Rightarrow> None)))"

record bounded_buffer =
  bb_buffer :: string
  bb_limit :: int

definition boundedBuffer_Write :: "bounded_buffer \<Rightarrow> string \<Rightarrow> int \<times> bounded_buffer" where
  "boundedBuffer_Write b content =
     (let remaining = bb_limit b - int (length (bb_buffer b)) in
      (int (length content),
       if remaining > 0 then b\<lparr>bb_buffer := bb_buffer b @ take (nat (min remaining (int (length content)))) content\<rparr>
       else b))"

section \<open>Lemmas\<close>

lemma previewLine_runes: "int (length (runes (previewLine s n))) \<le> max n 1 + 1"
proof -
  have "length (runes (previewLine s n)) \<le> nat (max n 1) + length (runes ellipsis)"
    using length_cut_runes [of "nat (if n < 1 then 1 else n)" ellipsis "Join (Fields s) '' ''"]
    by (auto simp: previewLine_def max_def)
  then show ?thesis unfolding runes_ellipsis by linarith
qed

lemma boundedBuffer_writes:
  "bb_buffer (fold (\<lambda>c b. snd (boundedBuffer_Write b c)) cs \<lparr>bb_buffer = take (nat n) s, bb_limit = n\<rparr>)
     = take (nat n) (s @ concat cs)"
proof (induction cs arbitrary: s)
  case (Cons c cs)
  have "snd (boundedBuffer_Write \<lparr>bb_buffer = take (nat n) s, bb_limit = n\<rparr> c) = \<lparr>bb_buffer = take (nat n) (s @ c), bb_limit = n\<rparr>"
    by (auto simp: boundedBuffer_Write_def Let_def min_def nat_diff_distrib)
  with Cons [of "s @ c"] show ?case by simp
qed simp

text \<open>Running the agent leaves the database alone and only moves the tick.\<close>

lemma ExecRunner_at: "hoare (on_db b P) (ExecRunner X argv stdin) (\<lambda>_. on_db b P) (\<lambda>_. on_db b P)"
  by (rule hoareI) (auto simp: ExecRunner_def execRunner_def Let_def on_db_def healthy_def fail_def
      split: if_splits command_result.splits)

text \<open>With the digest as its fallback the summarizer of a command line never fails.\<close>

lemma CLI_Summarize_at:
  assumes run: "\<And>argv stdin. hoare P (cl_run c argv stdin) (\<lambda>_. P) (\<lambda>_. P)" and fb: "cl_fallback c = deterministic"
  shows "hoare P (CLI_Summarize c inp) (\<lambda>_. P) (\<lambda>_ _. False)"
proof -
  have "hoare P (tryE (run_prompt c p)) (\<lambda>_. P) (\<lambda>_ _. False)" for p
    unfolding run_prompt_def by (rule hoare_try, intro hoare_if run)
  then show ?thesis
    unfolding CLI_Summarize_def fb deterministic_def
    by (rule hoare_bind) (auto split: sum.split intro!: hoare_if hoare_ret)
qed

lemma summarizerByName_at:
  assumes "summarizerByName U X name = Inr sm"
  shows "hoare (on_db b P) (sm inp) (\<lambda>_. on_db b P) (\<lambda>_ _. False)"
proof -
  have cli: "hoare (on_db b P) (CLI_Summarize c inp) (\<lambda>_. on_db b P) (\<lambda>_ _. False)"
    if "cl_run c = ExecRunner X" "cl_fallback c = deterministic" for c
    by (rule CLI_Summarize_at [OF _ that(2)]) (simp add: that(1) ExecRunner_at)
  show ?thesis
    using assms by (auto simp: summarizerByName_def Claude_def Codex_def deterministic_def split: if_splits
        intro!: cli hoare_ret)
qed

end
