(* ===== verification/Acm_Engine.thy ===== *)
theory Acm_Engine
  imports Engine_Sqlite Assemble Summarize
begin

text \<open>
  The engine as the command line builds it (\<open>newCompactor\<close> of \<open>internal/cli/root.go\<close>): the SQLite
  store, the summarizer chosen by name, the heuristic token counter, the file system.  It is an
  instance of the locale \<open>engine\<close>, so the engine's lemmas hold of it.
\<close>

section \<open>The file system\<close>

definition os_MkdirAll :: "string \<Rightarrow> (world, unit) prog" where
  "os_MkdirAll path = driver ''mkdir''"

definition os_WriteFile :: "string \<Rightarrow> string \<Rightarrow> (world, unit) prog" where
  "os_WriteFile path data = bindE (driver ''write'') (\<lambda>_ w. (Inr (), w\<lparr>w_files := (w_files w)(path \<mapsto> data)\<rparr>))"

lemma os_at:
  "hoare (on_db b P) (os_MkdirAll p) (\<lambda>_. on_db b P) (\<lambda>_ w. on_db b P w \<and> \<not> b)"
  "hoare (on_db b P) (os_WriteFile p x) (\<lambda>_. on_db b P) (\<lambda>_ w. on_db b P w \<and> \<not> b)"
  unfolding os_MkdirAll_def os_WriteFile_def
  by (rule driver_hoare, rule hoare_bind [OF driver_hoare], rule hoareI) (auto simp: on_db_def healthy_def)

section \<open>The compactor\<close>

definition newCompactor ::
  "hash \<Rightarrow> (string \<Rightarrow> (string \<times> string) option) \<Rightarrow> config \<Rightarrow> string
   \<Rightarrow> (summarize_input \<Rightarrow> (world, string) prog) option \<Rightarrow> world compactor" where
  "newCompactor H describe cfg DBPath summarizer =
     \<lparr>cp_store = sqlite_store H, cp_summarizer = (case summarizer of None \<Rightarrow> deterministic | Some s \<Rightarrow> s),
      cp_counter = Heuristic_Count, cp_cfg = cfg, cp_filesDir = path_Join [path_Dir DBPath, ''files''],
      cp_describe = describe, cp_MkdirAll = os_MkdirAll, cp_WriteFile = os_WriteFile\<rparr>"

text \<open>The summarizer the flag \<open>--summarizer\<close> selects.\<close>

definition named_summarizer :: "unicode \<Rightarrow> command_run \<Rightarrow> string \<Rightarrow> (summarize_input \<Rightarrow> (world, string) prog) option" where
  "named_summarizer U X name = (case summarizerByName U X name of Inl _ \<Rightarrow> None | Inr s \<Rightarrow> Some s)"

definition acm_compactor ::
  "hash \<Rightarrow> unicode \<Rightarrow> command_run \<Rightarrow> (string \<Rightarrow> (string \<times> string) option) \<Rightarrow> string \<Rightarrow> config \<Rightarrow> string \<Rightarrow> world compactor" where
  "acm_compactor H U X describe name cfg DBPath =
     newCompactor H describe cfg DBPath (named_summarizer U X name)"

interpretation acm: engine "sqlite_store H" H "sqlite_at H" "acm_compactor H U X describe name cfg DBPath"
proof unfold_locales
  fix b v r p x
  show "cp_store (acm_compactor H U X describe name cfg DBPath) = sqlite_store H"
    by (simp add: acm_compactor_def newCompactor_def)
  show "hoare (sqlite_at H b v) (cp_summarizer (acm_compactor H U X describe name cfg DBPath) r)
      (\<lambda>_. sqlite_at H b v) (\<lambda>_ s. sqlite_at H b v s \<and> \<not> b)"
    by (auto simp: acm_compactor_def newCompactor_def named_summarizer_def sqlite_at_def deterministic_def
        split: sum.split intro!: hoare_ret hoare_err [OF summarizerByName_at])
  show "hoare (sqlite_at H b v) (cp_MkdirAll (acm_compactor H U X describe name cfg DBPath) p)
      (\<lambda>_. sqlite_at H b v) (\<lambda>_ s. sqlite_at H b v s \<and> \<not> b)"
    by (simp add: acm_compactor_def newCompactor_def sqlite_at_def os_at)
  show "hoare (sqlite_at H b v) (cp_WriteFile (acm_compactor H U X describe name cfg DBPath) p x)
      (\<lambda>_. sqlite_at H b v) (\<lambda>_ s. sqlite_at H b v s \<and> \<not> b)"
    by (simp add: acm_compactor_def newCompactor_def sqlite_at_def os_at)
qed

text \<open>The store's and the engine's invariant, on the tables.\<close>

definition store_inv :: "hash \<Rightarrow> tables \<Rightarrow> bool" where
  "store_inv H t \<longleftrightarrow> wf_tables H t \<and> dag_inv H (view_of t)"

lemma store_inv_no_summaries:
  assumes "wf_tables H t" "hex_hash H" "t_summaries t = []" "t_context_items t = []"
  shows "store_inv H t"
proof -
  have sound: "dag_sound H (view_of t)" by (simp add: dag_sound_def assms)
  have "windows_ok (view_of t)"
    unfolding windows_ok_def
    by (intro allI exI [of _ "[]"] exI [of _ "0::nat"]) (simp add: window_items_def window_rows_def assms covers_def)
  with dag_wf_view [OF assms(1,2) sound] sound assms show ?thesis by (simp add: store_inv_def dag_inv_def)
qed

text \<open>The keys whose digests must differ: those of the stored summaries and of the summaries this run asks for.\<close>

definition keys_distinct :: "hash \<Rightarrow> world compactor \<Rightarrow> string \<Rightarrow> bool \<Rightarrow> world \<Rightarrow> bool" where
  "keys_distinct H C c archive w \<longleftrightarrow>
     collision_free H (stored_keys (view_of (w_db w)) \<union> set (run_keys C c archive w))"

definition stored_window :: "tables \<Rightarrow> string \<Rightarrow> (context_item_type \<times> string) list" where
  "stored_window t c = map (\<lambda>it. (ci_Type it, ci_RefID it)) (window_items t c)"

definition window_expands :: "tables \<Rightarrow> string \<Rightarrow> window_item list \<Rightarrow> bool" where
  "window_expands t c w \<longleftrightarrow> map item_ref w = stored_window t c
     \<and> (\<exists>parts. list_all2 (item_expands (view_of t) c) w parts \<and> concat parts = map ms_ID (conversation_log t c))"

end
