(* ===== verification/Sample.thy ===== *)
theory Sample
  imports Acm_Engine
begin

text \<open>
  A small concrete installation that the examples evaluate: a digest that spells its key backwards,
  one conversation with three messages, a configuration with small limits, the deterministic
  summarizer.
\<close>

definition sample_hash :: hash where
  "sample_hash k = map (\<lambda>c. if c = NUL then CHR ''0'' else c) (rev k)"

definition empty_world :: world where
  "empty_world = \<lparr>w_db = empty_tables, w_files = (\<lambda>_. None), w_tick = 0, w_fault = (\<lambda>_. False), w_now = (\<lambda>n. int n)\<rparr>"

definition sample_conversation :: conversation_input where
  "sample_conversation = \<lparr>in_Agent = AgentClaude, in_SessionID = ''s1'', in_Title = ''demo''\<rparr>"

definition sample_conv :: string where
  "sample_conv = DeriveConversationID sample_hash AgentClaude ''s1''"

definition sample_input :: "role \<Rightarrow> string \<Rightarrow> message_input" where
  "sample_input r x = \<lparr>mi_ConversationID = sample_conv, mi_Role = r, mi_Content = x, mi_TokenCount = 100,
     mi_ToolName = [], mi_ExternalID = [], mi_Raw = []\<rparr>"

definition sample_setup :: "(world, unit) prog" where
  "sample_setup = bindE (EnsureConversation sample_hash sample_conversation) (\<lambda>_.
    bindE (mapE (\<lambda>(r, x). AppendMessage sample_hash (sample_input r x))
      [(RoleUser, ''alpha''), (RoleAssistant, ''beta''), (RoleUser, ''gamma'')]) (\<lambda>_. ret ()))"

definition sample_world :: world where
  "sample_world = snd (sample_setup empty_world)"

definition sample_config :: config where
  "sample_config = DefaultConfig\<lparr>cf_ModelContextTokens := 300, cf_SoftFraction := (1, -1), cf_HardFraction := (3, -2),
     cf_FreshTailMessages := 1, cf_FreshTailTokens := 0, cf_LeafChunkTokens := 100, cf_LeafTargetTokens := 20,
     cf_CondensedTargetTokens := 40, cf_CondenseFanout := 2, cf_CondenseChunkTokens := 100, cf_TruncateTokens := 20,
     cf_MaxIterations := 20\<rparr>"

definition quiet_commands :: command_run where
  "quiet_commands argv stdin timeout n = CommandOK ''''"

definition no_describe :: "string \<Rightarrow> (string \<times> string) option" where
  "no_describe content = None"

definition sample_db_path :: string where
  "sample_db_path = ''/p/.acm/acm.db''"

abbreviation sample_compactor :: "world compactor" where
  "sample_compactor \<equiv> acm_compactor sample_hash ascii_only quiet_commands no_describe ''deterministic'' sample_config sample_db_path"

lemma sample_hex: "hex_hash sample_hash"
  by (auto simp: hex_hash_def nul_free_def sample_hash_def NUL_def)

lemma sample_wf: "wf_tables sample_hash (w_db sample_world)"
  by code_simp

lemma sample_no_summaries: "t_summaries (w_db sample_world) = [] \<and> t_context_items (w_db sample_world) = []"
  by code_simp

lemma sample_inv: "store_inv sample_hash (w_db sample_world)"
  using sample_wf sample_hex sample_no_summaries by (simp add: store_inv_no_summaries)

lemma sample_healthy: "healthy sample_world"
proof -
  have "w_fault sample_world n = False" for n by code_simp
  then show ?thesis by (simp add: healthy_def)
qed

lemma sample_valid: "Validate sample_config = None \<and> \<not> overflow sample_config"
  by code_simp

lemma sample_stored_keys: "stored_keys (view_of (w_db sample_world)) = {}"
  using sample_no_summaries by (simp add: stored_keys_def)

text \<open>The digests of the keys a pass asks for differ.\<close>

lemma sample_keys: "keys_distinct sample_hash sample_compactor sample_conv archive sample_world"
proof -
  have "distinct (map (key_id sample_hash) (run_keys sample_compactor sample_conv False sample_world))"
    "distinct (map (key_id sample_hash) (run_keys sample_compactor sample_conv True sample_world))"
    by code_simp+
  then have "inj_on (key_id sample_hash) (set (run_keys sample_compactor sample_conv archive sample_world))"
    by (cases archive) (simp_all add: distinct_map)
  then show ?thesis by (simp add: keys_distinct_def collision_free_def sample_stored_keys)
qed

text \<open>Compacting the sample folds two messages; archiving also condenses the two leaves.\<close>

lemma sample_compacted:
  obtains r w' where "compactWindow sample_compactor sample_conv False sample_world = (Inr r, w')"
    "cr_Leaves r = 2" "cr_Condensed r = 0"
proof -
  have "case compactWindow sample_compactor sample_conv False sample_world of
      (Inr r, w') \<Rightarrow> cr_Leaves r = 2 \<and> cr_Condensed r = 0 | _ \<Rightarrow> False" by code_simp
  then show ?thesis using that by (auto split: prod.splits sum.splits)
qed

lemma sample_archived:
  obtains r w' where "compactWindow sample_compactor sample_conv True sample_world = (Inr r, w')"
    "cr_Leaves r = 2" "cr_Condensed r = 1"
proof -
  have "case compactWindow sample_compactor sample_conv True sample_world of
      (Inr r, w') \<Rightarrow> cr_Leaves r = 2 \<and> cr_Condensed r = 1 | _ \<Rightarrow> False" by code_simp
  then show ?thesis using that by (auto split: prod.splits sum.splits)
qed

text \<open>The same installation with a driver that fails from the fortieth call on.\<close>

definition failing_world :: world where
  "failing_world = sample_world\<lparr>w_fault := (\<lambda>n. n \<ge> 40)\<rparr>"

lemma failing_inv: "store_inv sample_hash (w_db failing_world)"
  using sample_inv by (simp add: failing_world_def)

lemma failing_keys: "keys_distinct sample_hash sample_compactor sample_conv False failing_world"
proof -
  have "distinct (map (key_id sample_hash) (run_keys sample_compactor sample_conv False failing_world))" by code_simp
  then show ?thesis
    using sample_stored_keys by (simp add: keys_distinct_def collision_free_def distinct_map failing_world_def)
qed

lemma failing_pass:
  obtains e w' where "compactWindow sample_compactor sample_conv False failing_world = (Inl e, w')"
    "w_tick w' = 41"
proof -
  have "case compactWindow sample_compactor sample_conv False failing_world of
      (Inl e, w') \<Rightarrow> w_tick w' = 41 | _ \<Rightarrow> False" by code_simp
  then show ?thesis using that by (auto split: prod.splits sum.splits)
qed

end
