(* ===== verification/Frame.thy ===== *)
theory Frame
  imports Acm_Engine
begin

text \<open>
  What programs leave alone.  A program moves the state along a preorder when its final state is above
  its initial one, whatever it returns; keeping a reading of the state is the special case of an
  equality.  The rules for programs and the compaction pass are proved once for any preorder and used for
  two: the messages, and everything that a pass must not touch.
\<close>

section \<open>Programs that move along a preorder\<close>

definition moves :: "('s \<Rightarrow> 's \<Rightarrow> bool) \<Rightarrow> ('s, 'a) prog \<Rightarrow> bool" where
  "moves R m \<longleftrightarrow> (\<forall>s. R s (snd (m s)))"

lemma movesD: "moves R m \<Longrightarrow> m s = (r, s') \<Longrightarrow> R s s'"
  by (metis moves_def snd_conv)

lemma movesI: "(\<And>s r s'. m s = (r, s') \<Longrightarrow> R s s') \<Longrightarrow> moves R m"
  unfolding moves_def by (metis prod.collapse)

locale preorder_rel =
  fixes R :: "'s \<Rightarrow> 's \<Rightarrow> bool"
  assumes refl: "R s s" and trans: "R s s1 \<Longrightarrow> R s1 s2 \<Longrightarrow> R s s2"
begin

lemma moves_ret: "moves R (ret x)"
  by (simp add: moves_def ret_def refl)

lemma moves_fail: "moves R (fail e)"
  by (simp add: moves_def fail_def refl)

lemma moves_bind:
  assumes m: "moves R m" and f: "\<And>x. moves R (f x)"
  shows "moves R (bindE m f)"
proof (rule movesI)
  fix s r s' assume run: "bindE m f s = (r, s')"
  obtain x s1 where 1: "m s = (x, s1)" by force
  show "R s s'"
  proof (cases x)
    case (Inl e)
    with run 1 movesD [OF m 1] show ?thesis by (simp add: bindE_def)
  next
    case (Inr y)
    with run 1 have "f y s1 = (r, s')" by (simp add: bindE_def)
    from trans [OF movesD [OF m 1] movesD [OF f this]] show ?thesis .
  qed
qed

lemma moves_wrap: "moves R m \<Longrightarrow> moves R (wrapE msg m)"
  unfolding moves_def wrapE_def by (auto split: prod.split sum.split) (metis snd_conv)+

lemma moves_try: "moves R m \<Longrightarrow> moves R (tryE m)"
  unfolding moves_def tryE_def by (auto split: prod.split) (metis snd_conv)

lemma moves_if: "(b \<Longrightarrow> moves R m) \<Longrightarrow> (\<not> b \<Longrightarrow> moves R n) \<Longrightarrow> moves R (if b then m else n)"
  by simp

lemma moves_cases:
  "(\<And>a b. p = (a, b) \<Longrightarrow> moves R (f a b)) \<Longrightarrow> moves R (case p of (a, b) \<Rightarrow> f a b)"
  "moves R m \<Longrightarrow> (\<And>x. moves R (h x)) \<Longrightarrow> moves R (case x of None \<Rightarrow> m | Some x \<Rightarrow> h x)"
  "(\<And>a. moves R (k a)) \<Longrightarrow> (\<And>b. moves R (l b)) \<Longrightarrow> moves R (case s of Inl a \<Rightarrow> k a | Inr b \<Rightarrow> l b)"
  by (simp_all split: prod.split option.split sum.split)

lemma moves_let: "moves R (f x) \<Longrightarrow> moves R (Let x f)"
  by simp

lemmas moves_rules = moves_ret moves_fail moves_bind moves_wrap moves_try moves_if moves_cases moves_let

lemma moves_mapE: "(\<And>x. moves R (f x)) \<Longrightarrow> moves R (mapE f xs)"
  by (induction xs) (auto intro!: moves_rules)

lemma moves_foldE: "(\<And>x r. moves R (f x r)) \<Longrightarrow> moves R (foldE f xs r)"
  by (induction xs arbitrary: r) (auto intro!: moves_rules)

end

section \<open>A compaction pass\<close>

text \<open>What a pass over the conversation \<open>c\<close> relies on: each call it makes moves along the preorder.\<close>

locale moving_engine = preorder_rel R for R :: "'st \<Rightarrow> 'st \<Rightarrow> bool" +
  fixes C :: "'st compactor" and c :: string
  assumes reads: "moves R (es_ListMessages (cp_store C) d n l)" "moves R (es_GetMessage (cp_store C) i)"
      "moves R (es_GetSummary (cp_store C) i)" "moves R (es_ListContextItems (cp_store C) d)"
    and writes: "li_ConversationID li = c \<Longrightarrow> moves R (es_CreateLeafSummary (cp_store C) li)"
      "co_ConversationID ci = c \<Longrightarrow> moves R (es_CreateCondensedSummary (cp_store C) ci)"
      "moves R (es_ReplaceContextItems (cp_store C) c its)" "moves R (es_CreateLargeFile (cp_store C) lf)"
    and others: "moves R (cp_summarizer C inp)" "moves R (cp_MkdirAll C p)" "moves R (cp_WriteFile C p x)"
begin

lemma load_item_moves: "moves R (load_item C it)"
  unfolding load_item_def by (intro moves_rules reads)

lemma buildWindow_moves: "moves R (buildWindow C c)"
  unfolding buildWindow_def by (intro moves_rules moves_mapE reads load_item_moves)

lemma sourceText_moves: "moves R (sourceText C m)"
  unfolding sourceText_def offload_def by (intro moves_rules writes(4) others)

lemma summarize_moves: "moves R (summarizeWithGuard C kind depth sources target)"
  unfolding summarizeWithGuard_def by (intro moves_rules others)

lemma makeLeaf_moves: "moves R (makeLeaf C c block)"
  unfolding makeLeaf_def by (intro moves_rules moves_mapE reads writes(1) sourceText_moves summarize_moves) simp

lemma makeCondensed_moves: "moves R (makeCondensed C c block)"
  unfolding makeCondensed_def by (intro moves_rules moves_mapE reads writes(2) summarize_moves) simp

lemma compact_loop_moves: "moves R (compact_loop C c archive n w leaves condensed)"
proof (induction n arbitrary: w leaves condensed)
  case (Suc n)
  then show ?case
    by (cases "next_step (cp_cfg C) archive w") (auto intro!: moves_rules makeLeaf_moves makeCondensed_moves)
qed (simp add: moves_ret)

lemma compactWindow_moves: "moves R (compactWindow C c archive)"
  unfolding compactWindow_def persist_def by (intro moves_rules writes(3) buildWindow_moves compact_loop_moves)

end

section \<open>Preorders on the tables\<close>

abbreviation db_moves :: "(tables \<Rightarrow> tables \<Rightarrow> bool) \<Rightarrow> (world, 'a) prog \<Rightarrow> bool" where
  "db_moves P \<equiv> moves (\<lambda>w w'. P (w_db w) (w_db w'))"

lemma in_tx_moves:
  assumes pre: "preorder_rel R" and body: "moves R body" and driver: "\<And>op. moves R (driver op)"
    and reset: "\<And>w1 w2. R w1 w2 \<Longrightarrow> R w1 (w2\<lparr>w_db := w_db w1\<rparr>)"
  shows "moves R (in_tx b c body)"
proof (rule movesI)
  fix w r w' assume run: "in_tx b c body w = (r, w')"
  note rules = preorder_rel.moves_rules [OF pre]
  let ?inner = "bindE body (\<lambda>x. bindE (wrapE c (driver ''commit'')) (\<lambda>_. ret x))"
  have inner: "moves R ?inner" and outer: "moves R (wrapE b (driver ''begin''))"
    by (intro rules body driver)+
  obtain r1 w1 where 1: "wrapE b (driver ''begin'') w = (r1, w1)" by force
  obtain r2 w2 where 2: "?inner w1 = (r2, w2)" by force
  have "R w w1" by (rule movesD [OF outer 1])
  moreover have "R w1 w2" by (rule movesD [OF inner 2])
  moreover have "w' \<in> {w1, w2, w2\<lparr>w_db := w_db w1\<rparr>}"
    using run by (cases r1; cases r2) (simp_all add: in_tx_def 1 2)
  ultimately show "R w w'" using reset [of w1 w2] preorder_rel.trans [OF pre, of w w1] by auto
qed

locale table_preorder =
  fixes P :: "tables \<Rightarrow> tables \<Rightarrow> bool"
  assumes P_refl: "P t t" and P_trans: "P t t1 \<Longrightarrow> P t1 t2 \<Longrightarrow> P t t2"

sublocale table_preorder \<subseteq> preorder_rel "\<lambda>w w'. P (w_db w) (w_db w')"
  by unfold_locales (auto intro: P_refl P_trans)

context table_preorder
begin

lemma moves_still: "(\<And>w. w_db (snd (m w)) = w_db w) \<Longrightarrow> db_moves P m"
  by (simp add: moves_def P_refl)

lemma moves_driver: "db_moves P (driver op)"
  by (rule moves_still) (simp add: driver_def)

lemma moves_clock: "db_moves P clock_Now"
  by (rule moves_still) (simp add: clock_Now_def)

lemma moves_query: "db_moves P (sql_query msg q)"
  unfolding sql_query_def by (intro moves_rules moves_driver) (simp add: moves_still)

lemma moves_rows: "db_moves P (sql_rows qmsg imsg rows)"
  unfolding sql_rows_def by (intro moves_rules moves_driver moves_query)

lemma moves_exec: "(\<And>t t'. stmt t = Some t' \<Longrightarrow> P t t') \<Longrightarrow> db_moves P (sql_exec msg stmt)"
  unfolding sql_exec_def by (intro moves_rules moves_driver) (auto simp: moves_def P_refl split: option.split)

lemma moves_exec_each: "(\<And>x t t'. stmt x t = Some t' \<Longrightarrow> P t t') \<Longrightarrow> db_moves P (exec_each msg stmt xs)"
  by (induction xs) (auto intro!: moves_rules moves_exec)

lemma moves_in_tx: "db_moves P body \<Longrightarrow> db_moves P (in_tx b c body)"
  by (rule in_tx_moves) (simp_all add: preorder_rel_axioms moves_driver P_refl)

lemmas moves_sql = moves_rules moves_driver moves_clock moves_query moves_rows moves_in_tx

end

section \<open>The statements of a pass\<close>

text \<open>A preorder that every statement of a pass over \<open>c\<close> respects; then the whole pass does.\<close>

locale pass_preorder = table_preorder P for P :: "tables \<Rightarrow> tables \<Rightarrow> bool" +
  fixes c :: string
  assumes stmts: "sm_ConversationID s = c \<Longrightarrow> insert_summary_row s t = Some t' \<Longrightarrow> P t t'"
      "sm_ConversationID s = c \<Longrightarrow> index_summary s t = Some t' \<Longrightarrow> P t t'"
      "link_message p x t = Some t' \<Longrightarrow> P t t'" "link_child p x t = Some t' \<Longrightarrow> P t t'"
      "clear_context_items c t = Some t' \<Longrightarrow> P t t'" "insert_context_item c i ty r t = Some t' \<Longrightarrow> P t t'"
      "upsert_large_file f t = Some t' \<Longrightarrow> P t t'"
begin

lemma insertSummary_moves: "sm_ConversationID s = c \<Longrightarrow> db_moves P (insertSummary s)"
  unfolding insertSummary_def by (intro moves_sql moves_exec stmts)

lemma leaf_moves: "li_ConversationID li = c \<Longrightarrow> db_moves P (CreateLeafSummary H li)"
  unfolding CreateLeafSummary_def Let_def
  by (intro moves_sql insertSummary_moves moves_exec_each) (auto dest: stmts simp: leaf_summary_def)

lemma condensed_moves: "co_ConversationID ci = c \<Longrightarrow> db_moves P (CreateCondensedSummary H ci)"
  unfolding CreateCondensedSummary_def Let_def
  by (intro moves_sql insertSummary_moves moves_exec_each) (auto dest: stmts simp: condensed_summary_def)

lemma window_moves: "db_moves P (ReplaceContextItems c its)"
  unfolding ReplaceContextItems_def
  by (intro moves_sql moves_exec moves_exec_each) (auto dest: stmts split: prod.splits)

lemma file_moves: "db_moves P (CreateLargeFile H lf)"
  unfolding CreateLargeFile_def Let_def
  by (intro moves_sql moves_exec) (auto dest: stmts intro: moves_still)

lemma ExecRunner_moves: "db_moves P (ExecRunner X argv stdin)"
  by (rule moves_still) (auto simp: ExecRunner_def execRunner_def Let_def fail_def split: command_result.splits)

lemma named_summarizer_moves: "named_summarizer U X name = Some f \<Longrightarrow> db_moves P (f inp)"
  by (auto simp: named_summarizer_def summarizerByName_def CLI_Summarize_def run_prompt_def Claude_def Codex_def deterministic_def
      intro!: moves_rules ExecRunner_moves split: sum.splits if_splits)

lemma compactor_moves:
  assumes "\<And>f inp. s = Some f \<Longrightarrow> db_moves P (f inp)"
  shows "moving_engine (\<lambda>w w'. P (w_db w) (w_db w')) (newCompactor H describe cfg path s) c"
proof unfold_locales
  note defs = newCompactor_def sqlite_store_def
  fix d n l i li ci its lf inp q x
  let ?C = "newCompactor H describe cfg path s"
  show "db_moves P (es_ListMessages (cp_store ?C) d n l)" "db_moves P (es_ListContextItems (cp_store ?C) d)"
    by (simp_all add: defs ListMessages_def ListContextItems_def moves_rows)
  show "db_moves P (es_GetMessage (cp_store ?C) i)" "db_moves P (es_GetSummary (cp_store ?C) i)"
    by (auto simp: defs GetMessage_def GetSummary_def intro!: moves_sql)
  show "db_moves P (es_CreateLeafSummary (cp_store ?C) li)" if "li_ConversationID li = c"
    using leaf_moves [OF that] by (simp add: defs)
  show "db_moves P (es_CreateCondensedSummary (cp_store ?C) ci)" if "co_ConversationID ci = c"
    using condensed_moves [OF that] by (simp add: defs)
  show "db_moves P (es_ReplaceContextItems (cp_store ?C) c its)" "db_moves P (es_CreateLargeFile (cp_store ?C) lf)"
    by (simp_all add: defs window_moves file_moves)
  show "db_moves P (cp_summarizer ?C inp)"
    using assms by (auto simp: defs deterministic_def moves_ret split: option.split)
  show "db_moves P (cp_MkdirAll ?C q)" "db_moves P (cp_WriteFile ?C q x)"
    by (simp_all add: defs os_MkdirAll_def os_WriteFile_def moves_driver) (intro moves_sql, simp add: moves_still)
qed

lemma compactWindow_moves:
  assumes "\<And>f inp. s = Some f \<Longrightarrow> db_moves P (f inp)"
  shows "db_moves P (compactWindow (newCompactor H describe cfg path s) c archive)"
  by (rule moving_engine.compactWindow_moves [OF compactor_moves]) (rule assms)

lemma acm_pass_moves: "db_moves P (compactWindow (acm_compactor H U X describe name cfg path) c archive)"
  unfolding acm_compactor_def by (rule compactWindow_moves) (rule named_summarizer_moves)

end

section \<open>What a pass leaves alone\<close>

lemma statements_keep_messages:
  "insert_summary_row s t = Some t' \<Longrightarrow> t_messages t' = t_messages t"
  "index_summary s t = Some t' \<Longrightarrow> t_messages t' = t_messages t"
  "link_message p x t = Some t' \<Longrightarrow> t_messages t' = t_messages t"
  "link_child p x t = Some t' \<Longrightarrow> t_messages t' = t_messages t"
  "clear_context_items c t = Some t' \<Longrightarrow> t_messages t' = t_messages t"
  "insert_context_item c i ty r t = Some t' \<Longrightarrow> t_messages t' = t_messages t"
  "upsert_large_file f t = Some t' \<Longrightarrow> t_messages t' = t_messages t"
  by (auto simp: insert_summary_row_def index_summary_def link_message_def link_child_def clear_context_items_def
      insert_context_item_def upsert_large_file_def Let_def split: if_splits option.splits)

interpretation log: pass_preorder "\<lambda>t t'. t_messages t' = t_messages t" c for c
  by unfold_locales (auto dest: statements_keep_messages)

text \<open>
  Everything but the window of \<open>c\<close>: the rows that exist stay, in every table.  New are summaries of
  \<open>c\<close>, their links and index rows, and rows for offloaded files; of a file that was offloaded before,
  identity, owner and time stay.
\<close>

definition file_identity :: "large_file \<Rightarrow> string \<times> string \<times> string \<times> time" where
  "file_identity f = (lf_ID f, lf_ConversationID f, lf_MessageID f, lf_CreatedAt f)"

definition pass_frame :: "string \<Rightarrow> tables \<Rightarrow> tables \<Rightarrow> bool" where
  "pass_frame c t t' \<longleftrightarrow> t_conversations t' = t_conversations t \<and> t_messages t' = t_messages t
     \<and> t_messages_fts t' = t_messages_fts t \<and> t_conversation_pins t' = t_conversation_pins t
     \<and> t_summary_expansions t' = t_summary_expansions t
     \<and> (\<exists>new. t_summaries t' = t_summaries t @ new \<and> (\<forall>s \<in> set new. sm_ConversationID s = c))
     \<and> (\<exists>new. t_summaries_fts t' = t_summaries_fts t @ new \<and> (\<forall>r \<in> set new. fr_conversation_id r = c))
     \<and> (\<exists>new. t_summary_messages t' = t_summary_messages t @ new)
     \<and> (\<exists>new. t_summary_parents t' = t_summary_parents t @ new)
     \<and> filter (\<lambda>r. cx_conversation_id r \<noteq> c) (t_context_items t') = filter (\<lambda>r. cx_conversation_id r \<noteq> c) (t_context_items t)
     \<and> (\<exists>new. map file_identity (t_large_files t') = map file_identity (t_large_files t) @ new)"

lemma pass_frame_refl: "pass_frame c t t"
  by (simp add: pass_frame_def)

lemma pass_frame_trans: "pass_frame c t t1 \<Longrightarrow> pass_frame c t1 t2 \<Longrightarrow> pass_frame c t t2"
  unfolding pass_frame_def by (elim conjE exE) (intro conjI; fastforce)

lemma upsert_keeps_identity:
  assumes "upsert_large_file f t = Some t'"
  obtains new fs where "t' = t\<lparr>t_large_files := fs\<rparr>" "map file_identity fs = map file_identity (t_large_files t) @ new"
proof -
  let ?u = "\<lambda>x. if lf_ID x = lf_ID f
             then x\<lparr>lf_StorageURI := lf_StorageURI f, lf_ByteSize := lf_ByteSize f,
                    lf_TokenCount := lf_TokenCount f, lf_ExplorationSummary := lf_ExplorationSummary f,
                    lf_Extractor := lf_Extractor f\<rparr> else x"
  have u: "map file_identity (map ?u fs) = map file_identity fs" for fs by (simp add: file_identity_def)
  show ?thesis
  proof (cases "\<exists>x \<in> set (t_large_files t). lf_ID x = lf_ID f")
    case True
    with assms have "t' = t\<lparr>t_large_files := map ?u (t_large_files t)\<rparr>" by (simp add: upsert_large_file_def)
    then show ?thesis by (rule that [of _ "[]"]) (simp only: u append_Nil2)
  next
    case False
    with assms have "t' = t\<lparr>t_large_files := t_large_files t @ [f]\<rparr>" by (simp add: upsert_large_file_def split: if_splits)
    then show ?thesis by (rule that) simp
  qed
qed

lemma statements_frame:
  "sm_ConversationID s = c \<Longrightarrow> insert_summary_row s t = Some t' \<Longrightarrow> pass_frame c t t'"
  "sm_ConversationID s = c \<Longrightarrow> index_summary s t = Some t' \<Longrightarrow> pass_frame c t t'"
  "link_message p x t = Some t' \<Longrightarrow> pass_frame c t t'"
  "link_child p x t = Some t' \<Longrightarrow> pass_frame c t t'"
  "clear_context_items c t = Some t' \<Longrightarrow> pass_frame c t t'"
  "insert_context_item c i ty r t = Some t' \<Longrightarrow> pass_frame c t t'"
  "upsert_large_file f t = Some t' \<Longrightarrow> pass_frame c t t'"
  by (auto simp: pass_frame_def insert_summary_row_def index_summary_def summary_fts_def link_message_def link_child_def
      clear_context_items_def insert_context_item_def split: if_splits elim!: upsert_keeps_identity)

interpretation rest: pass_preorder "pass_frame c" c for c
  by unfold_locales (fact pass_frame_refl pass_frame_trans statements_frame | erule pass_frame_trans)+

interpretation acm_rest: moving_engine "\<lambda>w w'. pass_frame c (w_db w) (w_db w')" "acm_compactor H U X describe name cfg path" c
  unfolding acm_compactor_def by (rule rest.compactor_moves) (rule rest.named_summarizer_moves)

end
