(* ===== verification/Engine_Props.thy ===== *)
theory Engine_Props
  imports Sample Frame
begin

text \<open>
  The compaction pass of the command line's compactor on the SQLite store: what a successful pass
  and a failed one leave in the tables.  Everything is a consequence of the locale \<open>engine\<close>
  through the interpretation \<open>acm\<close>.
\<close>

section \<open>Windows and their length\<close>

lemma list_all2_lengths:
  assumes "list_all2 P w parts" "\<forall>x \<in> set parts. x \<noteq> []"
  shows "length w \<le> length (concat parts)"
  using assms
proof (induction w parts rule: list_all2_induct)
  case (Cons x xs y ys)
  then have "1 \<le> length y" by (cases y) auto
  with Cons show ?case by simp
qed simp

lemma covers_length:
  assumes inv: "dag_inv H v" and cov: "covers v c w n"
  shows "length w \<le> n"
proof -
  obtain parts where p: "list_all2 (item_expands v c) w parts" "concat parts = take n (log_ids v c)"
    using cov by (auto simp: covers_def)
  have "\<forall>x \<in> set parts. x \<noteq> []"
    using inv item_parts_nonempty [OF _ p(1), of H] by (simp add: dag_inv_def)
  from list_all2_lengths [OF p(1) this] p(2) show ?thesis by simp
qed

lemma covers_count:
  assumes wf: "dag_wf H v" and "covers v c w n" "covers v c w m"
  shows "m = n"
proof -
  obtain p where p: "list_all2 (item_expands v c) w p" "concat p = take n (log_ids v c)" "n \<le> length (log_ids v c)"
    using assms(2) by (auto simp: covers_def)
  obtain q where q: "list_all2 (item_expands v c) w q" "concat q = take m (log_ids v c)" "m \<le> length (log_ids v c)"
    using assms(3) by (auto simp: covers_def)
  have "q = p" by (rule block_unique [OF wf p(1) q(1)])
  then have "length (take m (log_ids v c)) = length (take n (log_ids v c))" using p(2) q(2) by simp
  with p(3) q(3) show ?thesis by simp
qed

text \<open>A stored window that covers the whole log is the one the next pass begins with.\<close>

lemma resumed_full:
  assumes wf: "dag_wf H v" and w: "dv_window v c = map item_ref w" "covers v c w (length (log_of v c))"
    and r: "resumed v c w'"
  shows "w' = w"
proof -
  obtain w0 n where w0: "map item_ref w0 = map item_ref w" "covers v c w0 n"
    "w' = w0 @ map message_item (drop n (log_of v c))"
    using r w(1) by (auto simp: resumed_def)
  have len: "length w0 = length w" using w0(1) by (metis length_map)
  have "w0 = w"
  proof (rule nth_equalityI [OF len])
    fix i assume i: "i < length w0"
    have "item_ref (w0 ! i) = item_ref (w ! i)"
      using arg_cong [OF w0(1), of "\<lambda>xs. xs ! i"] i len by simp
    then show "w0 ! i = w ! i"
      using covers_resolves [OF wf w0(2), of "w0 ! i"] covers_resolves [OF wf w(2), of "w ! i"] i len
      by (auto dest: resolves_det)
  qed
  with covers_count [OF wf w(2) w0(2) [unfolded \<open>w0 = w\<close>]] w0(3) show ?thesis by simp
qed

context engine
begin

text \<open>A pass over a window with nothing to do changes nothing.\<close>

lemma compactWindow_stop:
  assumes valid: "Validate (cp_cfg C) = None" and inv: "dag_inv H v" and at: "at True v st"
    and w: "dv_window v c = map item_ref w" "covers v c w (length (log_of v c))"
    and stop: "next_step (cp_cfg C) arch w = Stop"
  shows "\<exists>st'. compactWindow C c arch st = (Inr \<lparr>cr_BeforeTokens = windowTokens w, cr_AfterTokens = windowTokens w,
      cr_Leaves = 0, cr_Condensed = 0, cr_Compacted = False\<rparr>, st') \<and> at True v st'"
proof -
  have wf: "dag_wf H v" using inv by (simp add: dag_inv_def)
  have N: "nat (cf_MaxIterations (cp_cfg C)) = Suc (nat (cf_MaxIterations (cp_cfg C)) - 1)"
    using Validate_None(18) [OF valid] by simp
  have loop: "compact_loop C c arch (nat (cf_MaxIterations (cp_cfg C))) w 0 0 = ret (w, 0, 0)"
    by (subst N) (simp add: stop)
  have same: "set_window c (map item_ref w) v = v" using w(1) by (simp add: set_window_def fun_upd_idem)
  have "hoare (at True v) (compactWindow C c arch) (\<lambda>r s. at True v s \<and> r = \<lparr>cr_BeforeTokens = windowTokens w,
      cr_AfterTokens = windowTokens w, cr_Leaves = 0, cr_Condensed = 0, cr_Compacted = False\<rparr>) (\<lambda>_ _. False)"
    unfolding compactWindow_def valid option.case
  proof (rule hoare_bind_fact)
    show "hoare (at True v) (buildWindow C c) (\<lambda>r s. at True v s \<and> r = w) (\<lambda>_ _. False)"
      by (rule hoare_conseq [OF buildWindow_ok [OF inv]]) (auto intro: resumed_full [OF wf w])
    fix w0 assume "w0 = w"
    have persist: "hoare (at True v) (persist C c w) (\<lambda>_. at True v) (\<lambda>_ _. False)"
      using persist_ok [OF inv w(2), of True] by (simp add: same)
    show "hoare (at True v) (bindE (compact_loop C c arch (nat (cf_MaxIterations (cp_cfg C))) w0 0 0)
        (\<lambda>(w, leaves, condensed). bindE (persist C c w) (\<lambda>_.
          ret \<lparr>cr_BeforeTokens = windowTokens w0, cr_AfterTokens = windowTokens w,
               cr_Leaves = leaves, cr_Condensed = condensed, cr_Compacted = (leaves > 0 \<or> condensed > 0)\<rparr>)))
        (\<lambda>r s. at True v s \<and> r = \<lparr>cr_BeforeTokens = windowTokens w,
          cr_AfterTokens = windowTokens w, cr_Leaves = 0, cr_Condensed = 0, cr_Compacted = False\<rparr>) (\<lambda>_ _. False)"
      unfolding \<open>w0 = w\<close> loop
    proof (rule hoare_bind_fact)
      show "hoare (at True v) (ret (w, 0, 0)) (\<lambda>r s. at True v s \<and> r = (w, 0, 0)) (\<lambda>_ _. False)"
        by (rule hoare_ret) simp
      show "hoare (at True v) (case r of (w', leaves, condensed) \<Rightarrow> bindE (persist C c w') (\<lambda>_.
          ret \<lparr>cr_BeforeTokens = windowTokens w, cr_AfterTokens = windowTokens w',
               cr_Leaves = leaves, cr_Condensed = condensed, cr_Compacted = (leaves > 0 \<or> condensed > 0)\<rparr>))
        (\<lambda>r s. at True v s \<and> r = \<lparr>cr_BeforeTokens = windowTokens w,
          cr_AfterTokens = windowTokens w, cr_Leaves = 0, cr_Condensed = 0, cr_Compacted = False\<rparr>) (\<lambda>_ _. False)"
        if "r = (w, 0, 0)" for r
        by (simp add: that) (rule hoare_bind [OF persist], rule hoare_ret, simp)
    qed
  qed
  from hoare_totalD [OF this at] show ?thesis by blast
qed

end

section \<open>From the view to the tables\<close>

lemma sqlite_at_iff: "sqlite_at H b v w \<longleftrightarrow> wf_tables H (w_db w) \<and> view_of (w_db w) = v \<and> (b \<longrightarrow> healthy w)"
  by (auto simp: sqlite_at_def on_db_def)

lemma extends_messages: "extends (view_of t) (view_of t') \<Longrightarrow> t_messages t' = t_messages t"
  by (simp add: extends_def)

lemma dv_window_stored: "dv_window (view_of t) = stored_window t"
  by (simp add: stored_window_def fun_eq_iff)

lemma store_inv_at: "store_inv H t \<Longrightarrow> dag_inv H (view_of t)"
  by (simp add: store_inv_def)

lemma acm_cfg: "cp_cfg (acm_compactor H U X describe name cfg path) = cfg"
  by (simp add: acm_compactor_def newCompactor_def)

text \<open>What the engine's lemma says of one pass of this compactor.\<close>

definition pass_result ::
  "hash \<Rightarrow> config \<Rightarrow> string \<Rightarrow> bool \<Rightarrow> tables \<Rightarrow> compact_result \<Rightarrow> tables \<Rightarrow> window_item list \<Rightarrow> window_item list \<Rightarrow> bool" where
  "pass_result H cfg c arch t r t' w0 w \<longleftrightarrow> store_inv H t' \<and> t_messages t' = t_messages t
     \<and> extends (view_of t) (view_of t')
     \<and> stored_window t' = (stored_window t)(c := map item_ref w) \<and> window_expands t' c w
     \<and> resumed (view_of t) c w0 \<and> covers (view_of t) c w0 (length (conversation_log t c))
     \<and> tail_of cfg w = tail_of cfg w0
     \<and> (\<forall>s \<in> set (t_summaries t'). s \<in> set (t_summaries t) \<or> 0 \<le> sm_Depth s \<and> sm_Depth s \<le> cf_MaxDepth cfg)
     \<and> cr_BeforeTokens r = windowTokens w0 \<and> cr_AfterTokens r = windowTokens w
     \<and> (next_step cfg arch w = Stop \<or> fold_measure w + nat (cf_MaxIterations cfg) \<le> fold_measure w0)"

lemma pass_okD:
  assumes ok: "engine.pass_ok H (sqlite_at H) (acm_compactor H U X describe name cfg path) b (view_of t) c arch r w'"
  shows "\<exists>w0 w. pass_result H cfg c arch t r (w_db w') w0 w"
proof -
  obtain v' w w0 where v': "sqlite_at H b v' w'" "dag_inv H v'" "extends (view_of t) v'"
    "dv_window v' = (dv_window (view_of t))(c := map item_ref w)"
    and w: "covers v' c w (length (log_of (view_of t) c))" "covers (view_of t) c w0 (length (log_of (view_of t) c))"
    "resumed (view_of t) c w0" "tail_of cfg w = tail_of cfg w0"
    "\<forall>s \<in> set (dv_summaries v'). s \<in> set (t_summaries t) \<or> 0 \<le> sm_Depth s \<and> sm_Depth s \<le> cf_MaxDepth cfg"
    "cr_BeforeTokens r = windowTokens w0" "cr_AfterTokens r = windowTokens w"
    "next_step cfg arch w = Stop \<or> fold_measure w + nat (cf_MaxIterations cfg) \<le> fold_measure w0"
    using ok unfolding engine.pass_ok_def [OF acm.engine_axioms] acm_cfg by auto
  have t': "wf_tables H (w_db w')" "v' = view_of (w_db w')" using v'(1) by (auto simp: sqlite_at_iff)
  have log: "conversation_log (w_db w') c = conversation_log t c"
    using extends_messages [of t "w_db w'"] v'(3) t'(2) by (simp add: conversation_log_def)
  have win: "stored_window (w_db w') = (stored_window t)(c := map item_ref w)"
    using v'(4) by (simp add: t'(2) dv_window_stored)
  have "window_expands (w_db w') c w"
    using w(1) win by (auto simp: window_expands_def covers_def log_ids_def view_reads t'(2) log)
  with v' w t' show ?thesis
    unfolding pass_result_def
    by (intro exI [of _ w0] exI [of _ w]) (use win in \<open>simp add: store_inv_def extends_messages view_reads\<close>)
qed

lemma acm_pass:
  assumes valid: "Validate cfg = None" and inv: "store_inv H (w_db w)"
    and free: "keys_distinct H (acm_compactor H U X describe name cfg path) c arch w"
    and run: "compactWindow (acm_compactor H U X describe name cfg path) c arch w = (Inr r, w')"
  shows "\<exists>w0 win. pass_result H cfg c arch (w_db w) r (w_db w') w0 win"
proof (rule pass_okD)
  show "engine.pass_ok H (sqlite_at H) (acm_compactor H U X describe name cfg path) False (view_of (w_db w)) c arch r w'"
    using acm.compactWindow_ok [OF _ _ _ _ run, where b = False and v = "view_of (w_db w)"] valid inv free
    by (simp add: acm_cfg store_inv_def sqlite_at_iff keys_distinct_def)
qed

lemma acm_pass_error:
  assumes valid: "Validate cfg = None" and inv: "store_inv H (w_db w)"
    and free: "keys_distinct H (acm_compactor H U X describe name cfg path) c arch w"
    and run: "compactWindow (acm_compactor H U X describe name cfg path) c arch w = (Inl e, w')"
    and b: "b \<longrightarrow> healthy w"
  shows "store_inv H (w_db w') \<and> t_messages (w_db w') = t_messages (w_db w)
    \<and> stored_window (w_db w') = stored_window (w_db w)
    \<and> set (t_summaries (w_db w)) \<subseteq> set (t_summaries (w_db w')) \<and> (\<not> b \<or> overflow cfg)"
proof -
  have "engine.pass_failed H (sqlite_at H) (acm_compactor H U X describe name cfg path) b (view_of (w_db w)) w'"
    using acm.compactWindow_ok [OF _ _ _ _ run, where b = b and v = "view_of (w_db w)"] valid inv free b
    by (simp add: acm_cfg store_inv_def sqlite_at_iff keys_distinct_def)
  then show ?thesis
    unfolding engine.pass_failed_def [OF acm.engine_axioms] acm_cfg sqlite_at_iff
    by (auto simp: store_inv_def dv_window_stored extends_def)
qed

section \<open>The properties\<close>

text \<open>C1. Compaction is lossless.  After any successful pass, automatic or explicit, the tables are
  well-formed and sound, and the stored window of the conversation expands, through the summary links,
  to exactly the identifiers of all its messages in order.  What a pass adds are summaries of this
  conversation, their index rows and links, and rows for offloaded files (of a message that was
  offloaded before, the file's description is renewed).  Everything else stays: conversations, messages
  and their index, pins, expansion marks, every stored summary and what it links to, and the window of
  every other conversation.\<close>

theorem compaction_lossless:
  assumes "Validate cfg = None" and "store_inv H (w_db w)"
    and "keys_distinct H (acm_compactor H U X describe name cfg path) c archive w"
    and "compactWindow (acm_compactor H U X describe name cfg path) c archive w = (Inr r, w')"
  shows "store_inv H (w_db w') \<and> t_messages (w_db w') = t_messages (w_db w)
    \<and> (\<exists>win. window_expands (w_db w') c win \<and> cr_AfterTokens r = windowTokens win)
    \<and> (\<forall>d. d \<noteq> c \<longrightarrow> stored_window (w_db w') d = stored_window (w_db w) d)
    \<and> pass_frame c (w_db w) (w_db w')
    \<and> (\<forall>s \<in> sm_ID ` set (t_summaries (w_db w)). links (t_summary_messages (w_db w')) s = links (t_summary_messages (w_db w)) s
         \<and> links (t_summary_parents (w_db w')) s = links (t_summary_parents (w_db w)) s)"
proof -
  obtain w0 win where p: "pass_result H cfg c archive (w_db w) r (w_db w') w0 win" using acm_pass [OF assms] by blast
  then have "extends (view_of (w_db w)) (view_of (w_db w'))" by (simp add: pass_result_def)
  moreover have "pass_frame c (w_db w) (w_db w')" by (rule movesD [OF rest.acm_pass_moves assms(4)])
  ultimately show ?thesis using p by (auto simp: pass_result_def extends_def view_reads)
qed

theorem compaction_lossless_witness:
  "\<exists>r w'. compactWindow sample_compactor sample_conv True sample_world = (Inr r, w') \<and> cr_Condensed r = 1
    \<and> (\<exists>win. window_expands (w_db w') sample_conv win) \<and> pass_frame sample_conv (w_db sample_world) (w_db w')"
proof -
  obtain r w' where run: "compactWindow sample_compactor sample_conv True sample_world = (Inr r, w')" "cr_Condensed r = 1"
    by (rule sample_archived)
  note kept = compaction_lossless [OF conjunct1 [OF sample_valid] sample_inv sample_keys run(1)]
  have "\<exists>win. window_expands (w_db w') sample_conv win" using kept by (elim conjE exE) (rule exI)
  moreover have "pass_frame sample_conv (w_db sample_world) (w_db w')" using kept by (elim conjE)
  ultimately show ?thesis using run by blast
qed

text \<open>C2. The fresh tail stays raw.  The protected newest conversational messages of the window a
  pass leaves are those of the window it began with (the stored window and every message behind
  it): the same raw messages, in the same order.\<close>

theorem fresh_tail_kept:
  assumes "Validate cfg = None" and "store_inv H (w_db w)"
    and "keys_distinct H (acm_compactor H U X describe name cfg path) c archive w"
    and "compactWindow (acm_compactor H U X describe name cfg path) c archive w = (Inr r, w')"
  shows "\<exists>w0 win. resumed (view_of (w_db w)) c w0 \<and> window_expands (w_db w') c win
    \<and> fresh_tail (cf_FreshTailMessages cfg) (cf_FreshTailTokens cfg) win
      = fresh_tail (cf_FreshTailMessages cfg) (cf_FreshTailTokens cfg) w0"
  using acm_pass [OF assms] by (auto simp: pass_result_def)

theorem fresh_tail_kept_witness:
  "\<exists>(w' :: world) w0 win. resumed (view_of (w_db sample_world)) sample_conv w0 \<and> window_expands (w_db w') sample_conv win
    \<and> fresh_tail 1 0 win = fresh_tail 1 0 w0"
proof -
  obtain r w' where run: "compactWindow sample_compactor sample_conv False sample_world = (Inr r, w')"
    by (rule sample_compacted)
  have cf: "cf_FreshTailMessages sample_config = 1" "cf_FreshTailTokens sample_config = 0" by (simp_all add: sample_config_def)
  from fresh_tail_kept [OF conjunct1 [OF sample_valid] sample_inv sample_keys run, unfolded cf] show ?thesis by (rule exI)
qed

text \<open>C3. A pass that fails part-way, wherever the driver, the file system or the summarizer failed,
  leaves a sound store: no message is touched, no summary lost, and every stored window, that of
  the conversation included, is the old one.\<close>

theorem failed_pass_sound:
  assumes "Validate cfg = None" and "store_inv H (w_db w)"
    and "keys_distinct H (acm_compactor H U X describe name cfg path) c archive w"
    and "compactWindow (acm_compactor H U X describe name cfg path) c archive w = (Inl e, w')"
  shows "store_inv H (w_db w') \<and> t_messages (w_db w') = t_messages (w_db w)
    \<and> stored_window (w_db w') = stored_window (w_db w)
    \<and> set (t_summaries (w_db w)) \<subseteq> set (t_summaries (w_db w'))"
  using acm_pass_error [OF assms, of False] by simp

theorem failed_pass_sound_witness:
  "\<exists>e w'. compactWindow sample_compactor sample_conv False failing_world = (Inl e, w') \<and> w_tick w' = 41
    \<and> store_inv sample_hash (w_db w') \<and> stored_window (w_db w') = stored_window (w_db failing_world)"
proof -
  obtain e w' where run: "compactWindow sample_compactor sample_conv False failing_world = (Inl e, w')" "w_tick w' = 41"
    by (rule failing_pass)
  from failed_pass_sound [OF conjunct1 [OF sample_valid] failing_inv failing_keys run(1)] run show ?thesis by blast
qed

text \<open>C4. A pass makes progress: with a driver that does not fail and a truncation limit below
  \<open>2 ^ 61\<close>, it returns a result, whatever the agent's command prints or how it fails.\<close>

theorem healthy_pass_succeeds:
  assumes "Validate cfg = None" and "store_inv H (w_db w)" and "healthy w" and "cf_TruncateTokens cfg < 2 ^ 61"
    and "keys_distinct H (acm_compactor H U X describe name cfg path) c archive w"
  shows "\<exists>r w'. compactWindow (acm_compactor H U X describe name cfg path) c archive w = (Inr r, w')"
proof (cases "compactWindow (acm_compactor H U X describe name cfg path) c archive w")
  case (Pair x w')
  show ?thesis
  proof (cases x)
    case (Inl e)
    have "\<not> overflow cfg" using assms(1,4) Validate_None(8) [of cfg] by (simp add: overflow_def)
    then show ?thesis using acm_pass_error [OF assms(1,2,5) Pair [unfolded Inl], of True] assms(3) by simp
  qed (use Pair in blast)
qed

theorem healthy_pass_succeeds_witness:
  "\<exists>r w'. compactWindow sample_compactor sample_conv True sample_world = (Inr r, w')"
  by (rule healthy_pass_succeeds [OF conjunct1 [OF sample_valid] sample_inv sample_healthy _ sample_keys])
    (simp add: sample_config_def DefaultConfig_def)

text \<open>C5. The loop ends with its work done.  When \<open>MaxIterations\<close> exceeds twice the number of
  messages, every automatic pass ends within the soft budget or with no block left to fold: no
  unprotected raw message and no run of summaries that could be condensed.\<close>

theorem compaction_reaches_budget:
  assumes "Validate cfg = None" and "store_inv H (w_db w)"
    and "keys_distinct H (acm_compactor H U X describe name cfg path) c False w"
    and "Compact (acm_compactor H U X describe name cfg path) c w = (Inr r, w')"
    and "2 * int (length (conversation_log (w_db w) c)) < cf_MaxIterations cfg"
  shows "cr_AfterTokens r \<le> soft_budget cfg
    \<or> (\<exists>win. window_expands (w_db w') c win
        \<and> findMessageBlock win (protectedSet win (cf_FreshTailMessages cfg) (cf_FreshTailTokens cfg)) (cf_LeafChunkTokens cfg) = None
        \<and> condenseRun win (cf_CondenseFanout cfg) (cf_MaxDepth cfg) (cf_CondenseChunkTokens cfg) = None)"
proof -
  obtain w0 win where p: "pass_result H cfg c False (w_db w) r (w_db w') w0 win"
    using acm_pass [OF assms(1-3) assms(4) [unfolded Compact_def]] by blast
  have "length w0 \<le> length (conversation_log (w_db w) c)"
    using p assms(2) by (intro covers_length [of H]) (auto simp: pass_result_def store_inv_def)
  then have "fold_measure w0 < nat (cf_MaxIterations cfg)" using fold_measure_bound [of w0] assms(5) by linarith
  then have "next_step cfg False win = Stop" using p by (auto simp: pass_result_def)
  then have "windowTokens win \<le> soft_budget cfg
      \<or> findMessageBlock win (protectedSet win (cf_FreshTailMessages cfg) (cf_FreshTailTokens cfg)) (cf_LeafChunkTokens cfg) = None
        \<and> condenseRun win (cf_CondenseFanout cfg) (cf_MaxDepth cfg) (cf_CondenseChunkTokens cfg) = None"
    by (auto simp: next_step_def Let_def split: if_splits option.splits)
  then show ?thesis using p by (auto simp: pass_result_def)
qed

theorem compaction_reaches_budget_witness:
  "\<exists>r w'. Compact sample_compactor sample_conv sample_world = (Inr r, w')
    \<and> (cr_AfterTokens r \<le> soft_budget sample_config
       \<or> (\<exists>win. window_expands (w_db w') sample_conv win
           \<and> findMessageBlock win (protectedSet win (cf_FreshTailMessages sample_config) (cf_FreshTailTokens sample_config))
               (cf_LeafChunkTokens sample_config) = None
           \<and> condenseRun win (cf_CondenseFanout sample_config) (cf_MaxDepth sample_config) (cf_CondenseChunkTokens sample_config) = None))"
proof -
  obtain r w' where run: "Compact sample_compactor sample_conv sample_world = (Inr r, w')"
    unfolding Compact_def by (rule sample_compacted)
  have "2 * int (length (conversation_log (w_db sample_world) sample_conv)) < cf_MaxIterations sample_config" by code_simp
  from compaction_reaches_budget [OF conjunct1 [OF sample_valid] sample_inv sample_keys run this] run show ?thesis by blast
qed

text \<open>C6. Archiving folds everything outside the fresh tail: with enough iterations (more than two for
  each message of the conversation) the window an explicit pass leaves holds summaries and protected
  messages only.\<close>

theorem archive_leaves_fresh_tail:
  assumes "Validate cfg = None" and "store_inv H (w_db w)"
    and "keys_distinct H (acm_compactor H U X describe name cfg path) c True w"
    and "ArchiveToFreshTail (acm_compactor H U X describe name cfg path) c w = (Inr r, w')"
    and "2 * int (length (conversation_log (w_db w) c)) < cf_MaxIterations cfg"
  shows "\<exists>win. window_expands (w_db w') c win
    \<and> (\<forall>k < length win. is_message (win ! k) \<longrightarrow>
        k \<in> protectedSet win (cf_FreshTailMessages cfg) (cf_FreshTailTokens cfg))"
proof -
  obtain w0 win where p: "pass_result H cfg c True (w_db w) r (w_db w') w0 win"
    using acm_pass [OF assms(1-3) assms(4) [unfolded ArchiveToFreshTail_def]] by blast
  have "length w0 \<le> length (conversation_log (w_db w) c)"
    using p assms(2) by (intro covers_length [of H]) (auto simp: pass_result_def store_inv_def)
  then have "fold_measure w0 < nat (cf_MaxIterations cfg)" using fold_measure_bound [of w0] assms(5) by linarith
  then have "next_step cfg True win = Stop" using p by (auto simp: pass_result_def)
  then have "findMessageBlock win (protectedSet win (cf_FreshTailMessages cfg) (cf_FreshTailTokens cfg)) (cf_LeafChunkTokens cfg) = None"
    by (auto simp: next_step_def Let_def split: if_splits option.splits)
  then show ?thesis using p by (auto simp: pass_result_def findMessageBlock_None)
qed

theorem archive_leaves_fresh_tail_witness:
  "\<exists>r w' win. ArchiveToFreshTail sample_compactor sample_conv sample_world = (Inr r, w') \<and> window_expands (w_db w') sample_conv win
    \<and> (\<forall>k < length win. is_message (win ! k) \<longrightarrow> k \<in> protectedSet win 1 0)"
proof -
  obtain r w' where run: "ArchiveToFreshTail sample_compactor sample_conv sample_world = (Inr r, w')"
    unfolding ArchiveToFreshTail_def by (rule sample_archived)
  have "2 * int (length (conversation_log (w_db sample_world) sample_conv)) < cf_MaxIterations sample_config" by code_simp
  moreover have "cf_FreshTailMessages sample_config = 1" "cf_FreshTailTokens sample_config = 0" by (simp_all add: sample_config_def)
  ultimately show ?thesis
    using archive_leaves_fresh_tail [OF conjunct1 [OF sample_valid] sample_inv sample_keys run] run by auto
qed

text \<open>C7. A new summary is never deeper than \<open>MaxDepth\<close>, which configuration validation keeps
  at 32 or less, so following the links down always ends within 33 steps.\<close>

theorem summary_depth_bounded:
  assumes "Validate cfg = None" and "store_inv H (w_db w)"
    and "keys_distinct H (acm_compactor H U X describe name cfg path) c archive w"
    and "compactWindow (acm_compactor H U X describe name cfg path) c archive w = (Inr r, w')"
    and "s \<in> set (t_summaries (w_db w'))" and "s \<notin> set (t_summaries (w_db w))"
  shows "0 \<le> sm_Depth s \<and> sm_Depth s \<le> cf_MaxDepth cfg \<and> sm_Depth s \<le> 32"
  using acm_pass [OF assms(1-4)] assms(5,6) Validate_None(17) [OF assms(1)]
  by (fastforce simp: pass_result_def)

theorem summary_depth_bounded_witness:
  "\<exists>r w' s. compactWindow sample_compactor sample_conv True sample_world = (Inr r, w')
    \<and> s \<in> set (t_summaries (w_db w')) \<and> 0 \<le> sm_Depth s \<and> sm_Depth s \<le> 32"
proof -
  obtain r w' where run: "compactWindow sample_compactor sample_conv True sample_world = (Inr r, w')"
    by (rule sample_archived)
  have "t_summaries (w_db (snd (compactWindow sample_compactor sample_conv True sample_world))) \<noteq> []" by code_simp
  then obtain s where "s \<in> set (t_summaries (w_db w'))" using run by (cases "t_summaries (w_db w')") auto
  with summary_depth_bounded [OF conjunct1 [OF sample_valid] sample_inv sample_keys run this] sample_no_summaries run
  show ?thesis by auto
qed

text \<open>C8. Compaction is idempotent: a pass over a stored window that covers the log and needs no
  work writes the same window back and reports that nothing was compacted.\<close>

theorem settled_window_stays:
  assumes "Validate cfg = None" and "store_inv H (w_db w)" and "healthy w"
    and "window_expands (w_db w) c win" and "next_step cfg archive win = Stop"
  shows "\<exists>w'. compactWindow (acm_compactor H U X describe name cfg path) c archive w
      = (Inr \<lparr>cr_BeforeTokens = windowTokens win, cr_AfterTokens = windowTokens win,
              cr_Leaves = 0, cr_Condensed = 0, cr_Compacted = False\<rparr>, w')
    \<and> view_of (w_db w') = view_of (w_db w)"
proof -
  have at: "sqlite_at H True (view_of (w_db w)) w" using assms(2,3) by (simp add: sqlite_at_iff store_inv_def)
  have win: "dv_window (view_of (w_db w)) c = map item_ref win"
    "covers (view_of (w_db w)) c win (length (log_of (view_of (w_db w)) c))"
    using assms(4) by (auto simp: window_expands_def dv_window_stored covers_def log_ids_def view_reads)
  show ?thesis
    using acm.compactWindow_stop [where DBPath = path and U = U and X = X and describe = describe and name = name,
        OF _ store_inv_at [OF assms(2)] at win, unfolded acm_cfg, OF assms(1,5)]
    by (auto simp: sqlite_at_iff)
qed

theorem settled_window_stays_witness:
  "\<exists>w'. compactWindow sample_compactor ''conv_none'' True sample_world
      = (Inr \<lparr>cr_BeforeTokens = 0, cr_AfterTokens = 0, cr_Leaves = 0, cr_Condensed = 0, cr_Compacted = False\<rparr>, w')
    \<and> view_of (w_db w') = view_of (w_db sample_world)"
proof -
  have "conversation_log (w_db sample_world) ''conv_none'' = []" "stored_window (w_db sample_world) ''conv_none'' = []"
    by code_simp+
  then have win: "window_expands (w_db sample_world) ''conv_none'' []" by (simp add: window_expands_def)
  have stop: "next_step sample_config True [] = Stop" by code_simp
  show ?thesis
    using settled_window_stays [OF conjunct1 [OF sample_valid] sample_inv sample_healthy win stop] by (simp add: windowTokens_def)
qed

end
