(* ===== verification/System.thy ===== *)
theory System
  imports Engine_Props Service
begin

text \<open>
  The store over its whole life: every operation of acm that writes to the database as a step, in any
  order, each ending normally or with an error at any point, and the invariant every reachable
  database satisfies.
\<close>

section \<open>Deletion keeps the other conversations sound\<close>

lemma links_filter:
  assumes "\<And>e. e \<in> set es \<Longrightarrow> fst e = a \<Longrightarrow> P e"
  shows "links (filter P es) a = links es a"
  using assms by (induction es) (auto simp: links_def)


lemma purge_find:
  assumes inv: "store_inv H t" and f: "find_summary (view_of t) sid = Some s" and c: "sm_ConversationID s \<noteq> c"
  shows "find_summary (view_of (purge_tables c t)) sid = Some s"
proof -
  have "distinct (map sm_ID (t_summaries t))" using inv by (simp add: store_inv_def wf_tables_def wf_summaries_def)
  then have "distinct (map sm_ID (dv_summaries (view_of (purge_tables c t))))"
    by (simp add: purge_tables_def Let_def distinct_map_filter)
  from find_summary_iff [OF this] find_summary_Some [OF f] c show ?thesis
    by (simp add: purge_tables_def Let_def)
qed

lemma purge_kept:
  assumes inv: "store_inv H t" and f: "find_summary (view_of t) sid = Some s" and c: "sm_ConversationID s \<noteq> c"
  shows "\<forall>x \<in> set (t_summaries t). sm_ID x = sid \<longrightarrow> sm_ConversationID x \<noteq> c"
proof (intro ballI impI)
  have d: "distinct (map sm_ID (dv_summaries (view_of t)))"
    using inv by (simp add: store_inv_def wf_tables_def wf_summaries_def)
  fix x assume "x \<in> set (t_summaries t)" "sm_ID x = sid"
  then have "find_summary (view_of t) sid = Some x" by (simp add: find_summary_iff [OF d])
  with f c show "sm_ConversationID x \<noteq> c" by simp
qed

lemma purge_log_of: "d \<noteq> c \<Longrightarrow> log_of (view_of (purge_tables c t)) d = log_of (view_of t) d"
  by (simp add: view_reads purge_log)

lemma purge_span: "d \<noteq> c \<Longrightarrow> span_of (view_of (purge_tables c t)) d = span_of (view_of t) d"
  by (simp add: span_of_def log_ids_def purge_log_of fun_eq_iff)

lemma purge_sources:
  assumes inv: "store_inv H t" and s: "find_summary (view_of t) sid = Some s" "sm_ConversationID s \<noteq> c" "sm_Kind s = SummaryLeaf"
  shows "sources_of (view_of (purge_tables c t)) sid = sources_of (view_of t) sid"
proof -
  have dag: "dag_sound H (view_of t)" "distinct (map ms_ID (t_messages t))"
    using inv by (simp_all add: store_inv_def dag_inv_def wf_tables_def wf_messages_def)
  have s': "s \<in> set (dv_summaries (view_of t))" "sm_ID s = sid" using find_summary_Some [OF s(1)] by auto
  then obtain ids where ids: "summary_sound (view_of t) s ids" using dag(1) by (auto simp: dag_sound_def)
  then have "sources_of (view_of t) sid = ids"
    using expands_leaf_iff [OF s(1,3)] s' by (simp add: summary_sound_def)
  moreover have "set ids \<subseteq> set (log_ids (view_of t) (sm_ConversationID s))"
    using ids set_take_subset [of "length ids" "drop _ _"] set_drop_subset
    unfolding summary_sound_def span_of_def by (metis subset_trans)
  ultimately have src: "\<exists>x \<in> set (t_messages t). ms_ID x = m \<and> ms_ConversationID x = sm_ConversationID s"
    if "(sid, m) \<in> set (t_summary_messages t)" for m
    using that set_links [of m "dv_sources (view_of t)" sid] by (force simp: log_ids_def log_of_def)
  have keep: "\<forall>m. (sid, m) \<in> set (t_summary_messages t) \<longrightarrow>
      (\<forall>x \<in> set (t_messages t). ms_ID x = m \<longrightarrow> ms_ConversationID x \<noteq> c)"
    using src s(2) dag(2) by (metis distinct_map inj_onD)
  show ?thesis
    using purge_kept [OF inv s(1,2)] keep unfolding purge_tables_def Let_def view_simps tables.simps
    by (intro links_filter) (simp add: split_beta, metis prod.collapse)
qed

lemma purge_children:
  assumes inv: "store_inv H t" and s: "find_summary (view_of t) sid = Some s" "sm_ConversationID s \<noteq> c" "sm_Kind s \<noteq> SummaryLeaf"
  shows "children_of (view_of (purge_tables c t)) sid = children_of (view_of t) sid"
    and "\<And>x. x \<in> set (children_of (view_of t) sid) \<Longrightarrow>
      \<exists>s'. find_summary (view_of t) x = Some s' \<and> sm_ConversationID s' \<noteq> c"
proof -
  have "dag_sound H (view_of t)" using inv by (simp add: store_inv_def dag_inv_def)
  then have "depth_ok (view_of t) s" "sm_ID s = sid" using find_summary_Some [OF s(1)] by (auto simp: dag_sound_def)
  then show ch: "\<exists>s'. find_summary (view_of t) x = Some s' \<and> sm_ConversationID s' \<noteq> c"
    if "x \<in> set (children_of (view_of t) sid)" for x
    using s(2,3) that by (force simp: depth_ok_def)
  have keep: "\<forall>x. (sid, x) \<in> set (t_summary_parents t) \<longrightarrow>
      (\<forall>y \<in> set (t_summaries t). sm_ID y = x \<longrightarrow> sm_ConversationID y \<noteq> c)"
    using ch purge_kept [OF inv] by (simp add: set_links) metis
  show "children_of (view_of (purge_tables c t)) sid = children_of (view_of t) sid"
    using purge_kept [OF inv s(1,2)] keep unfolding purge_tables_def Let_def view_simps tables.simps
    by (intro links_filter) (simp add: split_beta, metis prod.collapse)
qed

lemma purge_expands:
  assumes inv: "store_inv H t" and ex: "expands (view_of t) sid ids"
  shows "find_summary (view_of t) sid = Some s \<Longrightarrow> sm_ConversationID s \<noteq> c \<Longrightarrow> expands (view_of (purge_tables c t)) sid ids"
  using ex
proof (induction arbitrary: s rule: expands.induct)
  case (leaf sid s')
  then have [simp]: "s' = s" by simp
  have "expands (view_of (purge_tables c t)) sid (sources_of (view_of (purge_tables c t)) sid)"
    using leaf purge_find [OF inv] by (intro expands.leaf) auto
  with purge_sources [OF inv leaf.prems(1,2)] leaf.hyps(2) show ?case by simp
next
  case (condensed sid s' parts)
  then have [simp]: "s' = s" by simp
  have kind: "sm_Kind s \<noteq> SummaryLeaf" using condensed.hyps(2) by simp
  note ch = purge_children [OF inv condensed.prems(1,2) kind]
  have "list_all2 (expands (view_of (purge_tables c t))) (children_of (view_of t) sid) parts"
  proof (rule list.rel_mono_strong [OF condensed.IH])
    fix x p
    assume x: "x \<in> set (children_of (view_of t) sid)" and ih: "expands (view_of t) x p \<and>
      (\<forall>s. find_summary (view_of t) x = Some s \<longrightarrow> sm_ConversationID s \<noteq> c \<longrightarrow> expands (view_of (purge_tables c t)) x p)"
    with ch(2) [OF x] show "expands (view_of (purge_tables c t)) x p" by blast
  qed
  then show ?case
    using purge_find [OF inv condensed.prems(1,2)] kind ch(1) by (intro expands.condensed) auto
qed

lemma purge_sound:
  assumes inv: "store_inv H t"
  shows "dag_sound H (view_of (purge_tables c t))"
  unfolding dag_sound_def
proof
  let ?v = "view_of t" and ?v' = "view_of (purge_tables c t)"
  have sound: "dag_sound H ?v" and d: "distinct (map sm_ID (dv_summaries ?v))"
    using inv by (simp_all add: store_inv_def dag_inv_def wf_tables_def wf_summaries_def)
  fix s assume "s \<in> set (dv_summaries ?v')"
  then have s: "s \<in> set (dv_summaries ?v)" "sm_ConversationID s \<noteq> c" by (auto simp: purge_tables_def Let_def)
  have f: "find_summary ?v (sm_ID s) = Some s" using s(1) by (simp add: find_summary_iff [OF d])
  obtain ids where n: "sm_ID s = key_id H (own_key ?v s)" "depth_ok ?v s" "summary_sound ?v s ids"
    using sound s(1) by (auto simp: dag_sound_def)
  have "own_key ?v' s = own_key ?v s"
    using purge_sources [OF inv f s(2)] purge_children(1) [OF inv f s(2)] by (auto simp: own_key_def)
  moreover have "depth_ok ?v' s"
  proof (cases "sm_Kind s = SummaryLeaf")
    case False
    note ch = purge_children [OF inv f s(2) False]
    have "\<exists>s'. find_summary ?v' x = Some s' \<and> sm_Depth s' = sm_Depth s - 1 \<and> sm_ConversationID s' = sm_ConversationID s"
      if "x \<in> set (children_of ?v (sm_ID s))" for x
    proof -
      obtain s' where "find_summary ?v x = Some s'" "sm_Depth s' = sm_Depth s - 1" "sm_ConversationID s' = sm_ConversationID s"
        using n(2) False \<open>x \<in> _\<close> by (auto simp: depth_ok_def)
      with purge_find [OF inv, of x s'] s(2) show ?thesis by auto
    qed
    with n(2) False ch(1) show ?thesis by (simp add: depth_ok_def)
  qed (use n(2) in \<open>simp add: depth_ok_def\<close>)
  moreover have "summary_sound ?v' s ids"
    using n(3) purge_expands [OF inv _ f s(2)] purge_span [OF s(2)] by (simp add: summary_sound_def)
  ultimately show "sm_ID s = key_id H (own_key ?v' s) \<and> depth_ok ?v' s \<and> (\<exists>ids. summary_sound ?v' s ids)"
    using n(1) by auto
qed

lemma purge_windows:
  assumes inv: "store_inv H t"
  shows "windows_ok (view_of (purge_tables c t))"
  unfolding windows_ok_def
proof
  let ?v = "view_of t" and ?v' = "view_of (purge_tables c t)"
  fix d
  have win: "dv_window ?v' d = (if d = c then [] else dv_window ?v d)"
  proof (cases "d = c")
    case True
    have "window_rows (purge_tables c t) c = []" by (auto simp: window_rows_def purge_tables_def Let_def filter_empty_conv)
    with True show ?thesis by (simp add: window_items_def)
  qed (simp add: window_items_def purge_window)
  show "\<exists>w n. map item_ref w = dv_window ?v' d \<and> covers ?v' d w n"
  proof (cases "d = c")
    case True
    then have "dv_window ?v' d = []" using win by (simp del: view_simps)
    then show ?thesis by (intro exI [of _ "[]"] exI [of _ "0::nat"]) (simp add: covers_def del: view_simps)
  next
    case False
    have sums: "distinct (map sm_ID (dv_summaries ?v))"
      using inv by (simp add: store_inv_def wf_tables_def wf_summaries_def)
    obtain w n where w: "map item_ref w = dv_window ?v d" "covers ?v d w n"
      using inv unfolding store_inv_def dag_inv_def windows_ok_def by blast
    have item: "item_expands ?v' d it ids" if "item_expands ?v d it ids" for it ids
      using that unfolding item_expands_def purge_log_of [OF False]
    proof (elim disjE bexE conjE)
      fix s assume s: "s \<in> set (dv_summaries ?v)" "sm_ConversationID s = d" "it = summary_item s" "expands ?v (sm_ID s) ids"
      have f: "find_summary ?v (sm_ID s) = Some s" using s(1) by (simp add: find_summary_iff [OF sums])
      have "s \<in> set (dv_summaries ?v')" using s(1,2) False by (simp add: purge_tables_def Let_def)
      moreover have "expands ?v' (sm_ID s) ids" using purge_expands [OF inv s(4) f] s(2) False by simp
      ultimately show "(\<exists>m \<in> set (log_of ?v d). it = message_item m \<and> ids = [ms_ID m])
        \<or> (\<exists>s \<in> set (dv_summaries ?v'). sm_ConversationID s = d \<and> it = summary_item s \<and> expands ?v' (sm_ID s) ids)"
        using s(2,3) by blast
    qed blast
    obtain parts where "list_all2 (item_expands ?v d) w parts" "concat parts = take n (log_ids ?v d)" "n \<le> length (log_ids ?v d)"
      using w(2) by (auto simp: covers_def)
    moreover from this(1) have "list_all2 (item_expands ?v' d) w parts" by (rule list_all2_mono) (rule item)
    moreover have "log_ids ?v' d = log_ids ?v d" by (simp add: log_ids_def purge_log_of [OF False])
    ultimately have "covers ?v' d w n" unfolding covers_def by auto
    with w(1) False show ?thesis by (auto simp: win simp del: view_simps)
  qed
qed

lemma store_inv_purge:
  assumes inv: "store_inv H t"
  shows "store_inv H (purge_tables c t)"
proof -
  have hex: "hex_hash H" and wf: "wf_tables H t" using inv by (simp_all add: store_inv_def dag_inv_def)
  show ?thesis
    using wf_purge [OF wf] hex dag_wf_view [OF wf_purge [OF wf] hex purge_sound [OF inv]] purge_sound [OF inv] purge_windows [OF inv]
    by (simp add: store_inv_def dag_inv_def)
qed

lemma store_inv_fold_purge: "store_inv H t \<Longrightarrow> store_inv H (fold purge_tables ids t)"
  by (induction ids arbitrary: t) (auto intro: store_inv_purge)

section \<open>Appending keeps every summary and window sound\<close>

lemma store_inv_same_view: "store_inv H t \<Longrightarrow> wf_tables H t' \<Longrightarrow> view_of t' = view_of t \<Longrightarrow> store_inv H t'"
  by (simp add: store_inv_def)

lemma view_append: "view_of (append_tables m now t) = add_message m (view_of t)"
  by (simp add: view_of_def append_tables_def add_message_def window_items_def window_rows_def)

lemma store_inv_appended:
  assumes inv: "store_inv H t" and a: "appended H inp t r t'"
  shows "store_inv H t'"
proof (cases "snd r")
  case False
  with a inv show ?thesis by (simp add: appended_def)
next
  case True
  then obtain now where t': "t' = append_tables (fst r) now t" using a by (auto simp: appended_def)
  have hex: "hex_hash H" and wf: "wf_tables H t" and sound: "dag_sound H (view_of t)" and win: "windows_ok (view_of t)"
    using inv by (simp_all add: store_inv_def dag_inv_def)
  have wf': "wf_tables H t'" by (rule appended_wf [OF wf a])
  have sound': "dag_sound H (view_of t')" unfolding t' view_append by (rule dag_sound_add_message [OF sound])
  have "windows_ok (view_of t')"
    unfolding windows_ok_def
  proof
    fix c
    obtain w n where "map item_ref w = dv_window (view_of t) c" "covers (view_of t) c w n"
      using win unfolding windows_ok_def by blast
    then have "map item_ref w = dv_window (view_of t') c \<and> covers (view_of t') c w n"
      unfolding t' view_append by (simp add: covers_add_message) (simp add: add_message_def)
    then show "\<exists>w n. map item_ref w = dv_window (view_of t') c \<and> covers (view_of t') c w n" by blast
  qed
  with wf' sound' hex dag_wf_view [OF wf' hex sound'] show ?thesis by (simp add: store_inv_def dag_inv_def)
qed

section \<open>Reading and marking never change the view\<close>

context engine
begin

lemma walk_keeps: "hoare (at b v) (walk C n sid acc) (\<lambda>_. at b v) (\<lambda>_. at b v)"
proof (induction n arbitrary: sid acc)
  case (Suc n)
  have sum: "hoare (at b v) (es_GetSummary S sid) (\<lambda>_. at b v) (\<lambda>_. at b v)"
    by (rule hoare_conseq [OF get_summary]) auto
  have msgs: "hoare (at b v) (es_SummaryMessages S sid) (\<lambda>_. at b v) (\<lambda>_. at b v)"
    by (rule hoare_conseq [OF summary_messages]) auto
  have ch: "hoare (at b v) (es_SummaryChildren S sid) (\<lambda>_. at b v) (\<lambda>_. at b v)"
    by (rule hoare_conseq [OF summary_children]) auto
  have loop: "hoare (at b v) (foldE (\<lambda>ch. walk C n (sm_ID ch)) xs acc) (\<lambda>_. at b v) (\<lambda>_. at b v)" for xs :: "summary list"
    by (rule hoare_foldE [where I = "\<lambda>_ _. at b v"]) (rule Suc)
  show ?case
    unfolding walk.simps store
    by (intro hoare_bind [OF sum] hoare_if hoare_bind [OF msgs] hoare_bind [OF ch] loop hoare_ret)
qed (simp add: hoare_fail)

lemma ExpandToMessages_keeps: "hoare (at b v) (ExpandToMessages C n sid) (\<lambda>_. at b v) (\<lambda>_. at b v)"
proof -
  have mark: "hoare (at b v) (es_MarkSummaryExpanded S sid) (\<lambda>_. at b v) (\<lambda>_. at b v)"
    by (rule hoare_conseq [OF mark_expanded]) auto
  have "hoare (at b v) (case r of (seen :: string set, out) \<Rightarrow> bindE (es_MarkSummaryExpanded S sid) (\<lambda>_. ret (sort_key ms_Seq out)))
      (\<lambda>_. at b v) (\<lambda>_. at b v)" for r
    by (cases r) (simp, intro hoare_bind [OF mark] hoare_ret)
  then show ?thesis unfolding ExpandToMessages_def store by (rule hoare_bind [OF walk_keeps])
qed

lemma Expand_keeps: "hoare (at b v) (Expand C sid) (\<lambda>_. at b v) (\<lambda>_. at b v)"
proof -
  have sum: "hoare (at b v) (es_GetSummary S sid) (\<lambda>_. at b v) (\<lambda>_. at b v)"
    by (rule hoare_conseq [OF get_summary]) auto
  have msgs: "hoare (at b v) (es_SummaryMessages S sid) (\<lambda>_. at b v) (\<lambda>_. at b v)"
    by (rule hoare_conseq [OF summary_messages]) auto
  have ch: "hoare (at b v) (es_SummaryChildren S sid) (\<lambda>_. at b v) (\<lambda>_. at b v)"
    by (rule hoare_conseq [OF summary_children]) auto
  have mark: "hoare (at b v) (es_MarkSummaryExpanded S sid) (\<lambda>_. at b v) (\<lambda>_. at b v)"
    by (rule hoare_conseq [OF mark_expanded]) auto
  show ?thesis
    unfolding Expand_def store
    by (intro hoare_bind [OF sum] hoare_if hoare_bind [OF msgs] hoare_bind [OF ch] hoare_bind [OF mark] hoare_ret)
qed

end

section \<open>Steps\<close>

text \<open>
  One call of acm.  \<open>snd\<close> is the world after the call, whether it returned a result or an error; the
  environment may in between touch anything but the database (files, the clock, which calls fail).
\<close>

inductive acm_step :: "hash \<Rightarrow> world \<Rightarrow> world \<Rightarrow> bool" for H where
  environment: "w_db w' = w_db w \<Longrightarrow> acm_step H w w'"
| ensure: "acm_step H w (snd (EnsureConversation H i w))"
| append: "acm_step H w (snd (AppendMessage H inp w))"
| compact: "keys_distinct H (acm_compactor H U X describe name cfg path) c archive w \<Longrightarrow>
    acm_step H w (snd (compactWindow (acm_compactor H U X describe name cfg path) c archive w))"
| expand: "acm_step H w (snd (Expand (acm_compactor H U X describe name cfg path) sid w))"
| expand_all: "acm_step H w (snd (ExpandToMessages (acm_compactor H U X describe name cfg path) fuel sid w))"
| pin: "acm_step H w (snd (SetConversationPin c pinned w))"
| delete: "acm_step H w (snd (DeleteConversations ids w))"

inductive_cases acm_stepE: "acm_step H w w'"

lemma hoare_snd:
  assumes "hoare P m (\<lambda>_. Q) (\<lambda>_. Q)" "P w"
  shows "Q (snd (m w))"
  using assms by (cases "m w"; cases "fst (m w)") (auto simp: hoare_def)

definition log_extended :: "tables \<Rightarrow> tables \<Rightarrow> bool" where
  "log_extended t t' \<longleftrightarrow> (\<forall>c. (\<exists>new. conversation_log t' c = conversation_log t c @ new)
     \<or> c \<notin> conversation_ids t' \<and> conversation_log t' c = [])"

lemma log_extended_refl: "t_messages t' = t_messages t \<Longrightarrow> log_extended t t'"
  by (simp add: log_extended_def conversation_log_def)

lemma log_extended_append: "t_messages t' = t_messages t @ new \<Longrightarrow> log_extended t t'"
  by (simp add: log_extended_def conversation_log_def)

lemma fold_purge_ids: "conversation_ids (fold purge_tables ids t) = conversation_ids t - set ids"
  by (induction ids arbitrary: t) (auto simp: purge_ids)

text \<open>What a step keeps: the invariant, and every log unless its conversation is deleted.\<close>

definition kept :: "hash \<Rightarrow> tables \<Rightarrow> world \<Rightarrow> bool" where
  "kept H t w \<longleftrightarrow> store_inv H (w_db w) \<and> log_extended t (w_db w)"

lemma kept_view:
  assumes "store_inv H t" "wf_tables H (w_db w)" "view_of (w_db w) = view_of t"
  shows "kept H t w"
proof -
  have "t_messages (w_db w) = t_messages t" using arg_cong [OF assms(3), of dv_messages] by simp
  with assms show ?thesis by (simp add: kept_def store_inv_same_view log_extended_refl)
qed

lemma purge_conversation_log: "conversation_log (purge_tables x t) c = (if c = x then [] else conversation_log t c)"
proof (cases "c = x")
  case True
  have "filter (\<lambda>m. ms_ConversationID m = x) (filter (\<lambda>m. ms_ConversationID m \<noteq> x) ms) = []" for ms
    by (simp add: filter_empty_conv)
  with True show ?thesis by (simp add: conversation_log_def purge_tables_def Let_def)
qed (simp add: purge_log)

lemma fold_purge_log:
  "conversation_log (fold purge_tables ids t) c = (if c \<in> set ids then [] else conversation_log t c)"
  by (induction ids arbitrary: t) (simp_all add: purge_conversation_log)

lemma pin_kept:
  assumes inv: "store_inv H t"
  shows "hoare (at_db False t) (SetConversationPin c p) (\<lambda>_. kept H t) (\<lambda>_. kept H t)"
proof -
  have wf: "wf_tables H t" using inv by (simp add: store_inv_def)
  have same: "kept H t w" if "at_db False t w" for w
    using that by (intro kept_view [OF inv]) (simp_all add: at_db_def wf)
  have pin: "kept H t w" if "wf_tables H t2" "at_db False t2 w" "t2 = t\<lparr>t_conversation_pins := ps\<rparr>" for t2 w ps
    using that by (intro kept_view [OF inv]) (auto simp: at_db_def intro: view_frame)
  have ins: "hoare (at_db False t) (sql_exec msg (insert_pin c now)) (\<lambda>_. kept H t) (\<lambda>_. kept H t)" for msg now
  proof (rule hoare_conseq [OF exec_at [where E = "\<lambda>_. kept H t"]])
    show "kept H t w" if p: "\<exists>t2. insert_pin c now t = Some t2 \<and> at_db False t2 w" for w
    proof -
      obtain t2 where t2: "insert_pin c now t = Some t2" "at_db False t2 w" using p by blast
      then have "t2 = t \<or> (\<exists>ps. t2 = t\<lparr>t_conversation_pins := ps\<rparr>)" by (auto simp: insert_pin_def split: if_splits)
      then show ?thesis using pin [OF wf_insert_pin [OF wf t2(1)] t2(2)] same t2(2) by blast
    qed
  qed (auto intro: same)
  have del: "hoare (at_db False t) (sql_exec msg (delete_pin c)) (\<lambda>_. kept H t) (\<lambda>_. kept H t)" for msg
  proof (rule hoare_conseq [OF exec_at [where E = "\<lambda>_. kept H t"]])
    show "kept H t w" if "\<exists>t2. delete_pin c t = Some t2 \<and> at_db False t2 w" for w
      using that pin wf_delete_pin [OF wf] by (auto simp: delete_pin_def)
  qed (auto intro: same)
  show ?thesis
    unfolding SetConversationPin_def ConversationByID_def
  proof (rule hoare_bind [where R = "\<lambda>_. at_db False t"])
    show "hoare (at_db False t) (bindE (sql_query ''store: load conversation by id'' (\<lambda>t. find (\<lambda>x. cv_ID x = c) (t_conversations t)))
        (\<lambda>row. case row of None \<Rightarrow> fail ErrNotFound | Some x \<Rightarrow> ret x)) (\<lambda>_. at_db False t) (\<lambda>_. kept H t)"
      by (rule bind_query) (auto split: option.split intro!: ret_at fail_at same)
  qed (intro hoare_if del bind_clock ins)
qed

lemma step_kept:
  assumes step: "acm_step H w w'" and inv: "store_inv H (w_db w)"
  shows "kept H (w_db w) w'"
proof -
  have wf: "wf_tables H (w_db w)" using inv by (simp add: store_inv_def)
  have at: "at_db False (w_db w) w" by (simp add: at_db_def)
  have sat: "sqlite_at H False (view_of (w_db w)) w" using wf by (simp add: sqlite_at_iff)
  have same: "kept H (w_db w) w2" if "w_db w2 = w_db w" for w2
    using that wf by (intro kept_view [OF inv]) simp_all
  have view: "kept H (w_db w) w2" if "sqlite_at H False (view_of (w_db w)) w2" for w2
    using that by (intro kept_view [OF inv]) (simp_all add: sqlite_at_iff)
  from step show ?thesis
  proof (cases rule: acm_step.cases)
    case (ensure i)
    have ens: "kept H (w_db w) w2" if "on_db False (ensured H i (w_db w)) w2" for w2
      using that by (intro kept_view [OF inv]) (auto simp: on_db_def ensured_def intro!: view_frame)
    have "hoare (at_db False (w_db w)) (EnsureConversation H i) (\<lambda>_. kept H (w_db w)) (\<lambda>_. kept H (w_db w))"
    proof (rule hoare_conseq [OF EnsureConversation_at [OF wf]])
      show "kept H (w_db w) w2" if "on_db False (\<lambda>t'. ensured H i (w_db w) t' \<and> cv_ID c = DeriveConversationID H (in_Agent i) (in_SessionID i)
          \<and> c \<in> set (t_conversations t')) w2" for c w2
        using that by (intro ens) (simp add: on_db_def)
    qed (auto simp: at_db_def intro: ens same)
    then show ?thesis unfolding ensure by (rule hoare_snd) (rule at)
  next
    case (append inp)
    have "hoare (at_db False (w_db w)) (AppendMessage H inp) (\<lambda>_. kept H (w_db w)) (\<lambda>_. kept H (w_db w))"
    proof (rule hoare_conseq [OF AppendMessage_at [OF wf]])
      fix r w2 assume "on_db False (appended H inp (w_db w) r) w2"
      then have a: "appended H inp (w_db w) r (w_db w2)" by (simp add: on_db_def)
      show "kept H (w_db w) w2"
        using store_inv_appended [OF inv a] log_extended_append [OF appended_messages(1) [OF a]] by (simp add: kept_def)
    qed (auto simp: at_db_def intro: same)
    then show ?thesis unfolding append by (rule hoare_snd) (rule at)
  next
    case (compact U X describe name cfg path c archive)
    let ?C = "acm_compactor H U X describe name cfg path"
    show ?thesis
    proof (cases "Validate cfg")
      case (Some e)
      then have "compactWindow ?C c archive w = (Inl e, w)"
        by (simp add: compactWindow_def acm_cfg fail_def)
      with compact(1) show ?thesis by (simp add: same)
    next
      case None
      obtain r w2 where run: "compactWindow ?C c archive w = (r, w2)" by force
      show ?thesis
      proof (cases r)
        case (Inl e)
        from acm_pass_error [OF None inv compact(2) run [unfolded Inl], of False] compact(1) run show ?thesis
          by (simp add: kept_def log_extended_refl)
      next
        case (Inr x)
        obtain w0 win where "pass_result H cfg c archive (w_db w) x (w_db w2) w0 win"
          using acm_pass [OF None inv compact(2) run [unfolded Inr]] by blast
        with compact(1) run show ?thesis by (simp add: kept_def pass_result_def log_extended_refl)
      qed
    qed
  next
    case (expand U X describe name cfg path sid)
    show ?thesis unfolding expand by (rule view, rule hoare_snd [OF acm.Expand_keeps sat])
  next
    case (expand_all U X describe name cfg path fuel sid)
    show ?thesis unfolding expand_all by (rule view, rule hoare_snd [OF acm.ExpandToMessages_keeps sat])
  next
    case (pin c pinned)
    show ?thesis unfolding pin by (rule hoare_snd [OF pin_kept [OF inv] at])
  next
    case (delete ids)
    have "hoare (at_db False (w_db w)) (DeleteConversations ids) (\<lambda>_. kept H (w_db w)) (\<lambda>_. kept H (w_db w))"
    proof (rule hoare_conseq [OF DeleteConversations_at])
      show "kept H (w_db w) w2" if "on_db False (\<lambda>t'. t' = fold purge_tables ids (w_db w)) w2" for w2
        using that store_inv_fold_purge [OF inv] by (auto simp: on_db_def kept_def log_extended_def fold_purge_log fold_purge_ids)
    qed (auto simp: at_db_def intro: same)
    then show ?thesis unfolding delete by (rule hoare_snd) (rule at)
  qed (auto intro: same)
qed

end
