(* ===== verification/Acm_Props.thy ===== *)
theory Acm_Props
  imports System
begin

text \<open>
  Properties that span components: the whole life of the store, expansion as the inverse of
  compaction, the assembled window, ingestion.
\<close>

section \<open>The whole life of the store\<close>

lemma reachable_inv:
  assumes "(acm_step H)\<^sup>*\<^sup>* w0 w" "store_inv H (w_db w0)"
  shows "store_inv H (w_db w)"
  using assms by (induction rule: rtranclp_induct) (auto dest: step_kept simp: kept_def)

text \<open>C9. Every database acm can reach from an empty one, by any sequence of its operations with any
  failures in between, is well-formed and sound: unique keys, foreign keys, search indexes equal to
  their tables, gapless message numbers, every summary standing for exactly the messages its fields
  claim, every stored window a lossless cover of a prefix of its log.\<close>

theorem reachable_store_sound:
  assumes "hex_hash H" and "w_db w0 = empty_tables" and "(acm_step H)\<^sup>*\<^sup>* w0 w"
  shows "store_inv H (w_db w)"
proof (rule reachable_inv [OF assms(3)])
  show "store_inv H (w_db w0)"
    unfolding assms(2) by (rule store_inv_no_summaries [OF wf_empty assms(1)]) (simp_all add: empty_tables_def)
qed

lemma sample_reachable: "(acm_step sample_hash)\<^sup>*\<^sup>* empty_world (snd (compactWindow sample_compactor sample_conv True sample_world))"
proof -
  let ?a = "\<lambda>r x w. snd (AppendMessage sample_hash (sample_input r x) w)"
  let ?w = "?a RoleUser ''gamma'' (?a RoleAssistant ''beta'' (?a RoleUser ''alpha''
      (snd (EnsureConversation sample_hash sample_conversation empty_world))))"
  have "(acm_step sample_hash)\<^sup>*\<^sup>* empty_world ?w"
    by (rule rtranclp.intros acm_step.intros)+
  moreover have "w_db sample_world = w_db ?w" by code_simp
  then have "acm_step sample_hash ?w sample_world" by (rule acm_step.environment)
  moreover have "acm_step sample_hash sample_world (snd (compactWindow sample_compactor sample_conv True sample_world))"
    by (rule acm_step.compact) (rule sample_keys)
  ultimately show ?thesis by (meson rtranclp.rtrancl_into_rtrancl)
qed

theorem reachable_store_sound_witness:
  "store_inv sample_hash (w_db (snd (compactWindow sample_compactor sample_conv True sample_world)))"
  by (rule reachable_store_sound [OF sample_hex _ sample_reachable]) (simp add: empty_world_def)

text \<open>C10. The log is append-only.  One step of acm leaves every conversation's messages as a prefix
  of what they were extended by, or removes the whole conversation; no message is ever changed,
  reordered or dropped on its own.\<close>

theorem log_append_only:
  assumes "store_inv H (w_db w)" and "acm_step H w w'"
  shows "(\<exists>new. conversation_log (w_db w') c = conversation_log (w_db w) c @ new)
    \<or> (c \<notin> conversation_ids (w_db w') \<and> conversation_log (w_db w') c = [])"
  using step_kept [OF assms(2,1)] by (auto simp: kept_def log_extended_def)

theorem log_append_only_witness:
  "\<exists>new. conversation_log (w_db (snd (AppendMessage sample_hash (sample_input RoleUser ''delta'') sample_world))) sample_conv
     = conversation_log (w_db sample_world) sample_conv @ new"
proof -
  have "sample_conv \<in> conversation_ids (w_db (snd (AppendMessage sample_hash (sample_input RoleUser ''delta'') sample_world)))"
    by code_simp
  with log_append_only [OF sample_inv acm_step.append, where inp1 = "sample_input RoleUser ''delta''"] show ?thesis by blast
qed

section \<open>Expansion is the inverse of compaction\<close>

lemma view_span: "span_messages (view_of t) s
    = filter (\<lambda>m. sm_EarliestSeq s \<le> ms_Seq m \<and> ms_Seq m \<le> sm_LatestSeq s) (conversation_log t (sm_ConversationID s))"
  by (simp add: span_messages_def view_reads)

lemma stored_summary_found:
  assumes "store_inv H t" "s \<in> set (t_summaries t)"
  shows "find_summary (view_of t) (sm_ID s) = Some s"
proof -
  have "distinct (map sm_ID (dv_summaries (view_of t)))"
    using assms(1) by (simp add: store_inv_def wf_tables_def wf_summaries_def)
  with assms(2) show ?thesis by (simp add: find_summary_iff)
qed

text \<open>C11. Lossless recovery.  Expanding any stored summary to its messages returns exactly the
  verbatim messages of its conversation numbered \<open>EarliestSeq\<close> to \<open>LatestSeq\<close>, in order and once
  each; recursion ends for every fuel above the summary's depth, and with a driver that does not
  fail it always succeeds.\<close>

theorem expand_recovers_messages:
  assumes "store_inv H (w_db w)" and "healthy w" and "s \<in> set (t_summaries (w_db w))" and "nat (sm_Depth s) < fuel"
  shows "\<exists>w'. ExpandToMessages (acm_compactor H U X describe name cfg path) fuel (sm_ID s) w
      = (Inr (filter (\<lambda>m. sm_EarliestSeq s \<le> ms_Seq m \<and> ms_Seq m \<le> sm_LatestSeq s)
                (conversation_log (w_db w) (sm_ConversationID s))), w')
    \<and> view_of (w_db w') = view_of (w_db w)"
proof -
  have at: "sqlite_at H True (view_of (w_db w)) w" using assms(1,2) by (simp add: sqlite_at_iff store_inv_def)
  have "hoare (sqlite_at H True (view_of (w_db w))) (ExpandToMessages (acm_compactor H U X describe name cfg path) fuel (sm_ID s))
      (\<lambda>r st. sqlite_at H True (view_of (w_db w)) st \<and> r = span_messages (view_of (w_db w)) s) (\<lambda>_ _. False)"
    by (rule hoare_err [OF acm.ExpandToMessages_ok [OF store_inv_at [OF assms(1)] stored_summary_found [OF assms(1,3)] assms(4)]])
      simp
  from hoare_totalD [OF this at] show ?thesis by (auto simp: view_span sqlite_at_iff)
qed

definition archived_world :: world where
  "archived_world = snd (compactWindow sample_compactor sample_conv True sample_world)"

text \<open>Facts of the archived world are computed by one run of the pass.\<close>

lemma archived_eval:
  assumes "case compactWindow sample_compactor sample_conv True sample_world of (Inr r, w') \<Rightarrow> P w' | _ \<Rightarrow> False"
  shows "P archived_world"
  using assms by (auto simp: archived_world_def split: prod.splits sum.splits)

lemma archived_inv: "store_inv sample_hash (w_db archived_world)"
  unfolding archived_world_def
  by (rule reachable_inv [OF sample_reachable]) (simp add: empty_world_def empty_tables_def store_inv_no_summaries [OF wf_empty sample_hex, unfolded empty_tables_def])

lemma archived_healthy: "healthy archived_world"
proof -
  have "w_fault archived_world n = False" for n by (rule archived_eval) code_simp
  then show ?thesis by (simp add: healthy_def)
qed

definition archived_summary :: summary where
  "archived_summary = last (t_summaries (w_db archived_world))"

lemma archived_summary_fields:
  "archived_summary \<in> set (t_summaries (w_db archived_world))" "sm_Depth archived_summary = 1"
  "sm_EarliestSeq archived_summary = 1" "sm_LatestSeq archived_summary = 2"
  "sm_ConversationID archived_summary = sample_conv"
proof -
  have "map (\<lambda>s. (sm_Depth s, sm_EarliestSeq s, sm_LatestSeq s, sm_ConversationID s = sample_conv))
      (t_summaries (w_db archived_world)) = [(0, 1, 1, True), (0, 2, 2, True), (1, 1, 2, True)]"
    by (rule archived_eval) code_simp
  then obtain x y where "t_summaries (w_db archived_world) = [x, y, archived_summary]"
    "sm_Depth archived_summary = 1 \<and> sm_EarliestSeq archived_summary = 1 \<and> sm_LatestSeq archived_summary = 2
      \<and> sm_ConversationID archived_summary = sample_conv"
    by (auto simp: archived_summary_def map_eq_Cons_conv)
  then show "archived_summary \<in> set (t_summaries (w_db archived_world))" "sm_Depth archived_summary = 1"
    "sm_EarliestSeq archived_summary = 1" "sm_LatestSeq archived_summary = 2"
    "sm_ConversationID archived_summary = sample_conv" by simp_all
qed

theorem expand_recovers_messages_witness:
  "\<exists>msgs w'. ExpandToMessages sample_compactor 2 (sm_ID archived_summary) archived_world = (Inr msgs, w')
    \<and> map ms_Content msgs = [''alpha'', ''beta'']"
proof -
  have "map ms_Content (filter (\<lambda>m. 1 \<le> ms_Seq m \<and> ms_Seq m \<le> 2) (conversation_log (w_db archived_world) sample_conv))
      = [''alpha'', ''beta'']"
    by (rule archived_eval) code_simp
  moreover obtain w' where "ExpandToMessages sample_compactor 2 (sm_ID archived_summary) archived_world
      = (Inr (filter (\<lambda>m. 1 \<le> ms_Seq m \<and> ms_Seq m \<le> 2) (conversation_log (w_db archived_world) sample_conv)), w')"
    using expand_recovers_messages [OF archived_inv archived_healthy archived_summary_fields(1), where fuel = 2
        and U = ascii_only and X = quiet_commands and describe = no_describe and name = "''deterministic''"
        and cfg = sample_config and path = sample_db_path]
    by (auto simp: archived_summary_fields)
  ultimately show ?thesis by (intro exI conjI)
qed

text \<open>C12. One level of expansion.  A leaf expands to its messages, a condensed summary to children
  whose own spans, one after the other, are exactly its span.\<close>

theorem expand_one_level:
  assumes "store_inv H (w_db w)" and "s \<in> set (t_summaries (w_db w))"
    and "Expand (acm_compactor H U X describe name cfg path) (sm_ID s) w = (Inr r, w')"
  shows "ex_Summary r = s \<and>
    (if sm_Kind s = SummaryLeaf
     then ex_Messages r = span_messages (view_of (w_db w)) s \<and> ex_Children r = []
     else ex_Messages r = []
       \<and> concat (map (span_messages (view_of (w_db w))) (ex_Children r)) = span_messages (view_of (w_db w)) s)"
proof -
  have at: "sqlite_at H False (view_of (w_db w)) w" using assms(1) by (simp add: sqlite_at_iff store_inv_def)
  from hoare_okD [OF acm.Expand_ok [OF store_inv_at [OF assms(1)] stored_summary_found [OF assms(1,2)]] at assms(3)]
  show ?thesis by simp
qed

theorem expand_one_level_witness:
  "\<exists>r w'. Expand sample_compactor (sm_ID archived_summary) archived_world = (Inr r, w') \<and> ex_Summary r = archived_summary
    \<and> length (ex_Children r) = 2"
proof -
  have "case Expand sample_compactor (sm_ID archived_summary) archived_world of (Inr r, w') \<Rightarrow> length (ex_Children r) = 2 | _ \<Rightarrow> False"
    unfolding archived_summary_def by (rule archived_eval) code_simp
  then obtain r w' where r: "Expand sample_compactor (sm_ID archived_summary) archived_world = (Inr r, w')" "length (ex_Children r) = 2"
    by (auto split: prod.splits sum.splits)
  from expand_one_level [OF archived_inv archived_summary_fields(1) r(1)] r show ?thesis by blast
qed

section \<open>The assembled window\<close>

lemma represented_count:
  assumes sound: "dag_sound H v"
    and parts: "list_all2 (item_expands v c) w parts" and r: "list_all2 (engine.renders C U v) w items"
    and eng: "engine S H at C"
  shows "sum_list (map ri_RepresentedMessages items) = int (length (concat parts))
    \<and> map (\<lambda>i. (ri_Type i, ri_RefID i)) items = map item_ref w"
  using parts r
proof (induction w parts arbitrary: items rule: list_all2_induct)
  case (Cons it w ids parts)
  then obtain i items' where i: "items = i # items'" "engine.renders C U v it i" "list_all2 (engine.renders C U v) w items'"
    by (auto simp: list_all2_Cons1)
  from i(2) have "(\<exists>m \<in> set (dv_messages v). it = message_item m \<and> i = messageItem C m)
      \<or> (\<exists>s \<in> set (dv_summaries v). it = summary_item s \<and> i = summaryItem U C s)"
    by (simp add: engine.renders_def [OF eng])
  then have "ri_RepresentedMessages i = int (length ids) \<and> (ri_Type i, ri_RefID i) = item_ref it"
  proof (elim disjE bexE conjE)
    fix m assume m: "it = message_item m" "i = messageItem C m"
    with Cons.hyps(1) have "ids = [ms_ID m]" by (auto simp: item_expands_def message_item_def summary_item_def)
    with m show ?thesis by (simp add: messageItem_def)
  next
    fix s assume s: "s \<in> set (dv_summaries v)" "it = summary_item s" "i = summaryItem U C s"
    with Cons.hyps(1) obtain s' where s': "s' \<in> set (dv_summaries v)" "summary_item s = summary_item s'" "expands v (sm_ID s') ids"
      by (auto simp: item_expands_def message_item_def summary_item_def)
    obtain ids' where n: "summary_sound v s ids'" using sound s(1) by (auto simp: dag_sound_def)
    have "sm_ID s' = sm_ID s" using s'(2) by (simp add: summary_item_def)
    with n s'(3) have "ids' = ids" by (auto simp: summary_sound_def dest: expands_det)
    with n s show ?thesis by (simp add: summaryItem_def Let_def summary_sound_def)
  qed
  with Cons.IH [OF i(3)] i(1) show ?case by simp
qed simp

text \<open>C13. The assembled window accounts for every message exactly once: its items are those of the
  active window, in order, and the messages they represent add up to the length of the log.\<close>

theorem assemble_accounts:
  assumes "store_inv H (w_db w)"
    and "Assemble U (acm_compactor H U X describe name cfg path) c w = (Inr items, w')"
  shows "\<exists>win. resumed (view_of (w_db w)) c win
    \<and> map (\<lambda>i. (ri_Type i, ri_RefID i)) items = map item_ref win
    \<and> sum_list (map ri_RepresentedMessages items) = int (length (conversation_log (w_db w) c))"
proof -
  let ?v = "view_of (w_db w)" and ?C = "acm_compactor H U X describe name cfg path"
  have at: "sqlite_at H False ?v w" using assms(1) by (simp add: sqlite_at_iff store_inv_def)
  obtain win where win: "resumed ?v c win" "covers ?v c win (length (log_of ?v c))" "list_all2 (engine.renders ?C U ?v) win items"
    using hoare_okD [OF acm.Assemble_ok [OF store_inv_at [OF assms(1)]] at assms(2)] by auto
  obtain parts where parts: "list_all2 (item_expands ?v c) win parts" "concat parts = log_ids ?v c"
    using win(2) by (auto simp: covers_def)
  have "dag_sound H ?v" using assms(1) by (simp add: store_inv_def dag_inv_def)
  from represented_count [OF this parts(1) win(3) acm.engine_axioms] parts(2) win(1) show ?thesis
    by (auto simp: view_reads)
qed

theorem assemble_accounts_witness:
  "\<exists>items w'. Assemble ascii_only sample_compactor sample_conv archived_world = (Inr items, w') \<and> length items = 2
    \<and> sum_list (map ri_RepresentedMessages items) = 3"
proof -
  have "case Assemble ascii_only sample_compactor sample_conv archived_world of (Inr items, w') \<Rightarrow> length items = 2 | _ \<Rightarrow> False"
    by (rule archived_eval) code_simp
  then obtain items w' where r: "Assemble ascii_only sample_compactor sample_conv archived_world = (Inr items, w')" "length items = 2"
    by (auto split: prod.splits sum.splits)
  have "length (conversation_log (w_db archived_world) sample_conv) = 3" by (rule archived_eval) code_simp
  with assemble_accounts [OF archived_inv r(1)] r show ?thesis by auto
qed

section \<open>Ingestion\<close>

text \<open>The service without a policy, on which that of the commands rests: \<open>Privacy_Props\<close> reduces a run
  under a policy to a run of this service on what the policy lets through.\<close>

abbreviation acm_service :: "hash \<Rightarrow> unicode \<Rightarrow> fts_engine \<Rightarrow> world service" where
  "acm_service H U F \<equiv> NewService (sqlite_core H U F) Heuristic_Count []"

definition fresh_result :: "string \<Rightarrow> ingest_result" where
  "fresh_result cid = \<lparr>ir_ConversationID = cid, ir_Appended = 0, ir_Deduped = 0, ir_Tokens = 0, ir_Excluded = 0, ir_Redacted = 0\<rparr>"

abbreviation request_conversation :: "hash \<Rightarrow> ingest_request \<Rightarrow> string" where
  "request_conversation H req \<equiv> DeriveConversationID H (iq_Agent req) (iq_SessionID req)"

abbreviation request_keys :: "hash \<Rightarrow> ingest_request \<Rightarrow> string set" where
  "request_keys H req \<equiv> message_key H (request_conversation H req) ` set (iq_Messages req)"

lemma ingest_loop_run:
  "hoare (core_at H False (insert cid cs) M) (ingest_loop U (acm_service H U F) cid 0 ms (fresh_result cid))
    (\<lambda>r s. wf_tables H (w_db s) \<and> ingested H Heuristic_Count cid ms M (fresh_result cid) (t_messages (w_db s)) r
       \<and> message_key H cid ` set ms \<subseteq> ms_ID ` set (t_messages (w_db s))) (\<lambda>_ _. True)"
proof (cases "\<forall>m \<in> set ms. role_Valid (im_Role m)")
  case True
  have "hoare (core_at H False (insert cid cs) M) (ingest_loop U (acm_service H U F) cid 0 ms (fresh_result cid))
      (\<lambda>r s. \<exists>M'. core_at H False (insert cid cs) M' s
         \<and> ingested H (sv_counter (acm_service H U F)) cid ms M (fresh_result cid) M' r
         \<and> message_key H cid ` set ms \<subseteq> ms_ID ` set M')
      (\<lambda>_ s. \<exists>M'. core_at H False (insert cid cs) M' s
         \<and> (\<exists>new. M' = M @ new \<and> length new \<le> length ms) \<and> \<not> False)"
    by (rule sqlite_core.ingest_loop_ok) (use True in \<open>auto simp: NewService_def\<close>)
  then show ?thesis by (rule hoare_conseq) (auto simp: core_at_def on_db_def NewService_def)
next
  case False
  show ?thesis using False by (intro hoareI) (auto dest: ingest_loop_valid)
qed

lemma ingest_run:
  assumes wf: "wf_tables H (w_db w)" and run: "Ingest U (acm_service H U F) req w = (Inr res, w')"
  shows "wf_tables H (w_db w')"
    "ingested H Heuristic_Count (request_conversation H req) (iq_Messages req) (t_messages (w_db w))
       (fresh_result (request_conversation H req)) (t_messages (w_db w')) res"
    "request_keys H req \<subseteq> ms_ID ` set (t_messages (w_db w'))"
proof -
  let ?S = "acm_service H U F" and ?t = "w_db w" and ?id = "request_conversation H req"
  let ?i = "\<lparr>in_Agent = iq_Agent req, in_SessionID = iq_SessionID req, in_Title = iq_Title req\<rparr>"
  have valid: "agent_Valid (iq_Agent req)" "iq_SessionID req \<noteq> []"
    using run by (auto simp: Ingest_def fail_def split: if_splits)
  have prog: "Ingest U ?S req = bindE (wrapE ''ingest: ensure conversation'' (cs_EnsureConversation (sqlite_core H U F) ?i))
      (\<lambda>conv. ingest_loop U ?S (cv_ID conv) 0 (iq_Messages req) (fresh_result (cv_ID conv)))"
    using valid by (simp add: Ingest_def NewService_def Let_def fresh_result_def)
  let ?Q = "\<lambda>r s. wf_tables H (w_db s)
      \<and> ingested H Heuristic_Count ?id (iq_Messages req) (t_messages ?t) (fresh_result ?id) (t_messages (w_db s)) r
      \<and> request_keys H req \<subseteq> ms_ID ` set (t_messages (w_db s))"
  have "hoare (\<lambda>s. core_at H False (conversation_ids ?t) (t_messages ?t) s \<and> s = w) (Ingest U ?S req) ?Q (\<lambda>_ _. True)"
    unfolding prog
  proof (rule hoare_bind_fact [OF hoare_wrap])
    show "hoare (\<lambda>s. core_at H False (conversation_ids ?t) (t_messages ?t) s \<and> s = w)
        (cs_EnsureConversation (sqlite_core H U F) ?i)
        (\<lambda>c s. core_at H False (insert ?id (conversation_ids ?t)) (t_messages ?t) s \<and> cv_ID c = ?id) (\<lambda>_ _. True)"
      by (rule hoare_conseq [OF sqlite_core.ensure]) auto
    fix conv assume "cv_ID conv = ?id"
    then show "hoare (core_at H False (insert ?id (conversation_ids ?t)) (t_messages ?t))
        (ingest_loop U ?S (cv_ID conv) 0 (iq_Messages req) (fresh_result (cv_ID conv))) ?Q (\<lambda>_ _. True)"
      using ingest_loop_run by simp
  qed
  moreover have "core_at H False (conversation_ids ?t) (t_messages ?t) w" using wf by (simp add: core_at_def on_db_def)
  ultimately have "?Q res w'" using run by (blast dest: hoare_okD)
  then show "wf_tables H (w_db w')"
    "ingested H Heuristic_Count ?id (iq_Messages req) (t_messages ?t) (fresh_result ?id) (t_messages (w_db w')) res"
    "request_keys H req \<subseteq> ms_ID ` set (t_messages (w_db w'))" by auto
qed

text \<open>Messages that are in the log already add nothing to it.\<close>

lemma ingest_known:
  assumes "wf_tables H (w_db w)" and "Ingest U (acm_service H U F) req w = (Inr res, w')"
    and "request_keys H req \<subseteq> ms_ID ` set (t_messages (w_db w))"
  shows "t_messages (w_db w') = t_messages (w_db w) \<and> ir_Appended res = 0 \<and> ir_Tokens res = 0
    \<and> ir_Deduped res = int (length (iq_Messages req))"
proof -
  obtain new where new: "t_messages (w_db w') = t_messages (w_db w) @ new" "ir_Appended res = int (length new)"
    "ir_Deduped res = int (length (iq_Messages req)) - int (length new)" "ir_Tokens res = sum_list (map ms_TokenCount new)"
    "\<forall>x \<in> set new. ms_ID x \<notin> ms_ID ` set (t_messages (w_db w))
       \<and> (\<exists>m \<in> set (iq_Messages req). ms_ID x = message_key H (request_conversation H req) m)"
    using ingest_run(2) [OF assms(1,2)] unfolding ingested_def fresh_result_def by auto blast
  have "new = []"
  proof (cases new)
    case (Cons x xs)
    with new(5) obtain m where "m \<in> set (iq_Messages req)" "ms_ID x = message_key H (request_conversation H req) m"
      "ms_ID x \<notin> ms_ID ` set (t_messages (w_db w))" by auto
    with assms(3) show ?thesis by auto
  qed simp
  with new show ?thesis by simp
qed

text \<open>C14. Ingestion without a policy, and so of whatever a policy lets through: the log grows by exactly
  the messages whose identity is new, in the order of the request and once each, with their role,
  content, raw payload and token count; the counters add up; every message of the request is in the
  log afterwards.\<close>

theorem ingest_stores_new_messages:
  assumes "wf_tables H (w_db w)" and "Ingest U (acm_service H U F) req w = (Inr res, w')"
  shows "\<exists>new. t_messages (w_db w') = t_messages (w_db w) @ new \<and> distinct (map ms_ID new)
    \<and> (\<exists>I. list_all2 (stored_as H (request_conversation H req)) new (nths (iq_Messages req) I))
    \<and> (\<forall>x \<in> set new. ms_ConversationID x = ir_ConversationID res \<and> ms_ID x \<notin> ms_ID ` set (t_messages (w_db w))
         \<and> (\<exists>m \<in> set (iq_Messages req). ms_Content x = im_Content m \<and> ms_Raw x = im_Raw m \<and> ms_Role x = im_Role m)
         \<and> ms_TokenCount x = Heuristic_Count (ms_Content x))
    \<and> ir_Appended res = int (length new) \<and> ir_Deduped res = int (length (iq_Messages req)) - int (length new)
    \<and> ir_Tokens res = sum_list (map ms_TokenCount new)
    \<and> request_keys H req \<subseteq> ms_ID ` set (t_messages (w_db w'))"
proof -
  obtain new I where "t_messages (w_db w') = t_messages (w_db w) @ new"
    "list_all2 (stored_as H (request_conversation H req)) new (nths (iq_Messages req) I)"
    "ir_ConversationID res = request_conversation H req"
    and facts: "\<forall>x \<in> set new. ms_ConversationID x = request_conversation H req \<and> ms_ID x \<notin> ms_ID ` set (t_messages (w_db w))
         \<and> (\<exists>m \<in> set (iq_Messages req). ms_ID x = message_key H (request_conversation H req) m \<and> ms_Content x = im_Content m
             \<and> ms_Raw x = im_Raw m \<and> ms_Role x = im_Role m)
         \<and> ms_TokenCount x = Heuristic_Count (ms_Content x)"
    "distinct (map ms_ID new)" "ir_Appended res = int (length new)"
    "ir_Deduped res = int (length (iq_Messages req)) - int (length new)" "ir_Tokens res = sum_list (map ms_TokenCount new)"
    using ingest_run(2) [OF assms] unfolding ingested_def fresh_result_def by auto
  with ingest_run(3) [OF assms] show ?thesis by (intro exI [of _ new] conjI) auto
qed

definition sample_request :: ingest_request where
  "sample_request = \<lparr>iq_Agent = AgentClaude, iq_SessionID = ''s1'', iq_Title = [],
     iq_Messages = map (\<lambda>x. \<lparr>im_Role = RoleUser, im_Content = x, im_ToolName = [], im_ExternalID = [], im_Raw = []\<rparr>)
       [''alpha'', ''delta'', ''delta'']\<rparr>"

definition sample_fts :: fts_engine where
  "sample_fts = \<lparr>fe_match = (\<lambda>q x. False), fe_bm25 = (\<lambda>rows q r. 0), fe_snippet = (\<lambda>q x. x)\<rparr>"

lemma sample_ingested:
  obtains res w' where "Ingest ascii_only (acm_service sample_hash ascii_only sample_fts) sample_request sample_world = (Inr res, w')"
    "ir_Appended res = 1" "length (t_messages (w_db w')) = 4"
proof -
  have "case Ingest ascii_only (acm_service sample_hash ascii_only sample_fts) sample_request sample_world of
      (Inr res, w') \<Rightarrow> ir_Appended res = 1 \<and> length (t_messages (w_db w')) = 4 | _ \<Rightarrow> False" by code_simp
  then show ?thesis using that by (auto split: prod.splits sum.splits)
qed

theorem ingest_stores_new_messages_witness:
  "\<exists>res w'. Ingest ascii_only (acm_service sample_hash ascii_only sample_fts) sample_request sample_world = (Inr res, w')
    \<and> ir_Appended res = 1 \<and> ir_Deduped res = 2
    \<and> request_keys sample_hash sample_request \<subseteq> ms_ID ` set (t_messages (w_db w'))"
proof -
  obtain res w' where r: "Ingest ascii_only (acm_service sample_hash ascii_only sample_fts) sample_request sample_world = (Inr res, w')"
    "ir_Appended res = 1" by (rule sample_ingested)
  have "length (iq_Messages sample_request) = 3" by (simp add: sample_request_def)
  with ingest_stores_new_messages [OF sample_wf r(1)] r show ?thesis by auto
qed

end
