(* ===== verification/Recall_Props.thy ===== *)
theory Recall_Props
  imports Recall Acm_Props
begin

text \<open>
  Automatic recall on the SQLite store, and the properties of the recall component.
\<close>

section \<open>The SQLite store\<close>

definition sqlite_recall :: "unicode \<Rightarrow> fts_engine \<Rightarrow> world recall_store" where
  "sqlite_recall U F = \<lparr>rs_RecentConversationalMessageIDs = RecentConversationalMessageIDs,
     rs_SearchMessages = SearchMessages U F, rs_SearchSummaries = SearchSummaries U F\<rparr>"

lemma sqlite_recall_ops:
  "rs_RecentConversationalMessageIDs (sqlite_recall U F) = RecentConversationalMessageIDs"
  "rs_SearchMessages (sqlite_recall U F) = SearchMessages U F"
  "rs_SearchSummaries (sqlite_recall U F) = SearchSummaries U F"
  by (simp_all add: sqlite_recall_def)

definition recall_view_of :: "tables \<Rightarrow> recall_view" where
  "recall_view_of t = \<lparr>rv_messages = set (t_messages t), rv_summaries = set (t_summaries t), rv_tail = protected_tail_ids t\<rparr>"

definition recall_at :: "hash \<Rightarrow> tables \<Rightarrow> recall_view \<Rightarrow> world \<Rightarrow> bool" where
  "recall_at H t v w \<longleftrightarrow> w_db w = t \<and> wf_tables H t \<and> v = recall_view_of t"

lemma sql_rows_at: "hoare (\<lambda>w. w_db w = t) (sql_rows qmsg imsg q) (\<lambda>r w. w_db w = t \<and> r = q t) (\<lambda>_ w. w_db w = t)"
  by (rule hoareI) (auto simp: sql_rows_def sql_query_def driver_def prog_results fail_def ret_def split: if_splits)

lemma length_limited: "0 < n \<Longrightarrow> int (length (sql_limit n xs)) \<le> n"
  using length_sql_limit [of n xs] by simp

lemma scan_hits_messages: "sh_Message ` set (scan_hits b rows) = fst ` set rows"
  by (force simp: scan_hits_def)

lemma scan_summary_hits_summaries: "mh_Summary ` set (scan_summary_hits t rows) = fst ` set rows"
  by (force simp: scan_summary_hits_def)

lemma limited_rows: "x \<in> set (sql_limit n xs) \<Longrightarrow> x \<in> set xs"
  by (rule subsetD [OF set_sql_limit])

lemma SearchMessages_at:
  assumes "0 < sq_Limit q"
  shows "hoare (\<lambda>w. w_db w = t) (SearchMessages U F q)
    (\<lambda>hits w. w_db w = t \<and> sh_Message ` set hits \<subseteq> set (t_messages t) \<and> int (length hits) \<le> sq_Limit q) (\<lambda>_ w. w_db w = t)"
proof -
  have q: "hoare (\<lambda>w. w_db w = t) (queryHits b (\<lambda>t. sql_limit (sq_Limit q) (rows t)))
      (\<lambda>hits w. w_db w = t \<and> sh_Message ` set hits \<subseteq> set (t_messages t) \<and> int (length hits) \<le> sq_Limit q) (\<lambda>_ w. w_db w = t)"
    if "fst ` set (rows t) \<subseteq> set (t_messages t)" for b rows
    unfolding queryHits_def
  proof (rule hoare_bind_fact [OF sql_rows_at], rule hoare_ret)
    fix r w assume r: "r = sql_limit (sq_Limit q) (rows t)" and w: "w_db w = t"
    have "fst ` set r \<subseteq> set (t_messages t)" using that limited_rows r by fastforce
    moreover have "length (scan_hits b r) = length r" by (simp add: scan_hits_def)
    ultimately show "w_db w = t \<and> sh_Message ` set (scan_hits b r) \<subseteq> set (t_messages t) \<and> int (length (scan_hits b r)) \<le> sq_Limit q"
      using w length_limited [OF assms] r by (simp add: scan_hits_messages)
  qed
  have none: "hoare (\<lambda>w. w_db w = t) (ret [])
      (\<lambda>hits w. w_db w = t \<and> sh_Message ` set hits \<subseteq> set (t_messages t) \<and> int (length hits) \<le> sq_Limit q) (\<lambda>_ w. w_db w = t)"
    using assms by (intro hoare_ret) simp
  have limit: "(if sq_Limit q \<le> 0 then 20 else sq_Limit q) = sq_Limit q" using assms by simp
  show ?thesis
    unfolding SearchMessages_def Let_def searchSubstr_def searchFTS_def limit
    by (intro hoare_if q none) (auto simp: fts_join_def)
qed

lemma SearchSummaries_at:
  assumes "0 < sq_Limit q"
  shows "hoare (\<lambda>w. w_db w = t) (SearchSummaries U F q)
    (\<lambda>hits w. w_db w = t \<and> mh_Summary ` set hits \<subseteq> set (t_summaries t) \<and> int (length hits) \<le> sq_Limit q) (\<lambda>_ w. w_db w = t)"
proof -
  let ?Q = "\<lambda>hits w. w_db w = t \<and> mh_Summary ` set hits \<subseteq> set (t_summaries t) \<and> int (length hits) \<le> sq_Limit q"
  have q: "hoare (\<lambda>w. w_db w = t) (sql_rows m i (\<lambda>t. scan_summary_hits t (sql_limit (sq_Limit q) (rows t)))) ?Q (\<lambda>_ w. w_db w = t)"
    if "fst ` set (rows t) \<subseteq> set (t_summaries t)" for m i rows
  proof (rule hoare_post [OF sql_rows_at])
    fix r w assume r: "w_db w = t \<and> r = scan_summary_hits t (sql_limit (sq_Limit q) (rows t))"
    have "fst ` set (sql_limit (sq_Limit q) (rows t)) \<subseteq> set (t_summaries t)" using that limited_rows by fastforce
    moreover have "length r = length (sql_limit (sq_Limit q) (rows t))" using r by (simp add: scan_summary_hits_def)
    ultimately show "?Q r w" using r length_limited [OF assms] by (simp add: scan_summary_hits_summaries)
  qed
  have none: "hoare (\<lambda>w. w_db w = t) (ret []) ?Q (\<lambda>_ w. w_db w = t)"
    using assms by (intro hoare_ret) simp
  have limit: "(if sq_Limit q \<le> 0 then 20 else sq_Limit q) = sq_Limit q" using assms by simp
  show ?thesis
    unfolding SearchSummaries_def Let_def limit
    by (intro hoare_if q none) (auto simp: summary_fts_join_def)
qed

lemma Recent_at:
  assumes "wf_tables H t"
  shows "hoare (\<lambda>w. w_db w = t) (RecentConversationalMessageIDs c mn tk rows)
    (\<lambda>ids w. w_db w = t \<and> ids = take (nat rows) (protected_tail_ids t c mn tk)) (\<lambda>_ w. w_db w = t)"
  unfolding RecentConversationalMessageIDs_def
proof (rule hoare_if)
  assume "\<not> (mn < 0 \<or> tk < 0 \<or> rows < 1 \<or> 4096 < rows)"
  then show "hoare (\<lambda>w. w_db w = t)
      (bindE (sql_rows ''store: list recent message ids'' ''store: iterate recent message ids''
         (\<lambda>t. sql_limit rows (order_desc ms_Seq (filter (\<lambda>m. ms_Role m \<noteq> RoleTool) (conversation_log t c)))))
        (\<lambda>r. ret (take_recent mn tk (nat rows) [] 0 r)))
      (\<lambda>ids w. w_db w = t \<and> ids = take (nat rows) (protected_tail_ids t c mn tk)) (\<lambda>_ w. w_db w = t)"
    by (intro hoare_bind_fact [OF sql_rows_at] hoare_ret) (simp add: recent_ids [OF assms])
qed (rule hoare_fail, assumption)

lemma recall_at_conseq:
  assumes "wf_tables H t0 \<Longrightarrow> hoare (\<lambda>w. w_db w = t0) m Q (\<lambda>_ w. w_db w = t0)"
    and "\<And>r s. Q r s \<Longrightarrow> w_db s = t0 \<and> F r"
  shows "hoare (recall_at H t0 v) m (\<lambda>r s. recall_at H t0 v s \<and> F r) (\<lambda>_. recall_at H t0 v)"
proof (rule hoare_assume [where b = "wf_tables H t0 \<and> v = recall_view_of t0"])
  assume t: "wf_tables H t0 \<and> v = recall_view_of t0"
  show "hoare (recall_at H t0 v) m (\<lambda>r s. recall_at H t0 v s \<and> F r) (\<lambda>_. recall_at H t0 v)"
  proof (rule hoare_conseq [OF assms(1)])
    show "wf_tables H t0" using t ..
    show "Q r s \<Longrightarrow> recall_at H t0 v s \<and> F r" for r s using assms(2) [of r s] t by (simp add: recall_at_def)
  qed (use t in \<open>simp_all add: recall_at_def\<close>)
qed (simp add: recall_at_def)

lemma recall_at_view:
  assumes "v = recall_view_of t0 \<Longrightarrow> hoare (recall_at H t0 v) m Q E"
  shows "hoare (recall_at H t0 v) m Q E"
  by (rule hoare_assume [OF _ assms]) (simp_all add: recall_at_def)

interpretation sqlite_recall: recall_store "sqlite_recall U F" "recall_at H t0"
proof (unfold_locales; unfold sqlite_recall_ops; rule recall_at_view)
  fix v c mn tk rows assume v: "v = recall_view_of t0"
  show "hoare (recall_at H t0 v) (RecentConversationalMessageIDs c mn tk rows)
      (\<lambda>ids s. recall_at H t0 v s \<and> ids = take (nat rows) (rv_tail v c mn tk)) (\<lambda>_. recall_at H t0 v)"
    by (rule recall_at_conseq [OF Recent_at]) (simp_all add: recall_view_of_def v)
next
  fix v and q :: search_query assume q: "0 < sq_Limit q" and v: "v = recall_view_of t0"
  show "hoare (recall_at H t0 v) (SearchMessages U F q)
      (\<lambda>hits s. recall_at H t0 v s \<and> sh_Message ` set hits \<subseteq> rv_messages v \<and> int (length hits) \<le> sq_Limit q) (\<lambda>_. recall_at H t0 v)"
    by (rule recall_at_conseq [OF SearchMessages_at [OF q]]) (simp_all add: recall_view_of_def v)
next
  fix v and q :: search_query assume q: "0 < sq_Limit q" and v: "v = recall_view_of t0"
  show "hoare (recall_at H t0 v) (SearchSummaries U F q)
      (\<lambda>hits s. recall_at H t0 v s \<and> mh_Summary ` set hits \<subseteq> rv_summaries v \<and> int (length hits) \<le> sq_Limit q) (\<lambda>_. recall_at H t0 v)"
    by (rule recall_at_conseq [OF SearchSummaries_at [OF q]]) (simp_all add: recall_view_of_def v)
qed

section \<open>Properties\<close>

text \<open>C16. Automatic recall reads only.  Every hit is a stored message outside the protected tail of
  the asking session, or a stored summary; there are at most \<open>Limit\<close> hits and at most two summaries;
  the database is unchanged whether the recall succeeds or fails.\<close>

theorem automatic_recall_sound:
  assumes "wf_tables H (w_db w)" and "AutomaticRecall H U (sqlite_recall U F) req w = (r, w')"
  shows "w_db w' = w_db w
    \<and> (\<forall>hits. r = Inr hits \<longrightarrow>
         (\<forall>h \<in> set hits.
            (\<exists>m \<in> set (t_messages (w_db w)). message_recalled m h \<and>
               ms_ID m \<notin> set (take 4096 (protected_tail_ids (w_db w) (DeriveConversationID H (rr_Agent req) (rr_SessionID req))
                 (rr_FreshTailMessages req) (rr_FreshTailTokens req))))
            \<or> (\<exists>s \<in> set (t_summaries (w_db w)). summary_recalled s h))
         \<and> int (length hits) \<le> rr_Limit req
         \<and> length (filter (\<lambda>h. rh_Kind h = RecallSummary) hits) \<le> 2)"
proof -
  let ?v = "recall_view_of (w_db w)"
  have at: "recall_at H (w_db w) ?v w" using assms(1) by (simp add: recall_at_def)
  note ok = sqlite_recall.AutomaticRecall_ok [where U = U and F = F and H = H and req = req and ?t0.0 = "w_db w" and v = ?v]
  show ?thesis
  proof (cases r)
    case (Inl e)
    with hoare_errD [OF ok at] assms(2) show ?thesis by (simp add: recall_at_def)
  next
    case (Inr hits)
    with hoare_okD [OF ok at] assms(2) show ?thesis
      by (simp add: recall_at_def recall_sound_def recall_view_of_def MaxFreshTailRows_def MaxSummaryResults_def)
  qed
qed

lemma protect_loop_range: "i \<in> set (protect_loop w ft fk n s t) \<Longrightarrow> i < n"
  by (induction w ft fk n s t rule: protect_loop.induct) (auto split: if_splits)

definition sample_search :: fts_engine where
  "sample_search = \<lparr>fe_match = (\<lambda>q x. True), fe_bm25 = (\<lambda>rows q r. 0), fe_snippet = (\<lambda>q x. x)\<rparr>"

definition sample_recall_request :: recall_request where
  "sample_recall_request = \<lparr>rr_Agent = AgentClaude, rr_SessionID = ''s1'', rr_Prompt = ''alpha again beta'', rr_Limit = 5,
     rr_FreshTailMessages = 1, rr_FreshTailTokens = 0, rr_Now = 1000\<rparr>"

theorem automatic_recall_sound_witness:
  "\<exists>hits w'. AutomaticRecall sample_hash ascii_only (sqlite_recall ascii_only sample_search) sample_recall_request sample_world = (Inr hits, w')
    \<and> w_db w' = w_db sample_world \<and> map rh_Content hits = [''beta'', ''alpha'']
    \<and> (\<forall>h \<in> set hits. \<exists>m \<in> set (t_messages (w_db sample_world)). message_recalled m h)"
proof -
  have "case AutomaticRecall sample_hash ascii_only (sqlite_recall ascii_only sample_search) sample_recall_request sample_world of
      (Inr hits, w') \<Rightarrow> map rh_Content hits = [''beta'', ''alpha''] \<and> map rh_Kind hits = [RecallMessage, RecallMessage] | _ \<Rightarrow> False"
    by code_simp
  then obtain hits w' where r: "AutomaticRecall sample_hash ascii_only (sqlite_recall ascii_only sample_search) sample_recall_request sample_world = (Inr hits, w')"
    "map rh_Content hits = [''beta'', ''alpha'']" "map rh_Kind hits = [RecallMessage, RecallMessage]"
    by (auto split: prod.splits sum.splits)
  have "\<forall>h \<in> set hits. rh_Kind h = RecallMessage" using r(3) by (auto simp: map_eq_Cons_conv)
  with automatic_recall_sound [OF sample_wf r(1)] r show ?thesis by (fastforce simp: summary_recalled_def)
qed

text \<open>C17. The messages recall leaves out are the engine's protected tail: on the raw window of a
  whole conversation, and when the protected tail fits the row limit of the query, the store's query and
  the engine's backward walk pick the same messages in the same order.\<close>

theorem recent_ids_are_protected:
  assumes "wf_tables H (w_db w)"
    and "RecentConversationalMessageIDs c mn tk rows w = (Inr ids, w')"
    and "length (protect_loop (map message_item (conversation_log (w_db w) c)) mn tk (length (conversation_log (w_db w) c)) 0 0) \<le> nat rows"
  shows "ids = map (\<lambda>i. ms_ID (conversation_log (w_db w) c ! i))
      (protect_loop (map message_item (conversation_log (w_db w) c)) mn tk (length (conversation_log (w_db w) c)) 0 0)"
proof -
  let ?L = "conversation_log (w_db w) c" and ?W = "map message_item (conversation_log (w_db w) c)"
  let ?P = "protect_loop ?W mn tk (length ?L) 0 0"
  have "ids = take (nat rows) (protected_tail_ids (w_db w) c mn tk)"
    using hoare_okD [OF Recent_at [OF assms(1)] refl assms(2)] by simp
  also have "protected_tail_ids (w_db w) c mn tk = map wi_refID (map ((!) ?W) ?P)"
    using protected_items [of ?W mn tk] by (simp add: protected_tail_ids_def)
  also have "take (nat rows) \<dots> = map wi_refID (map ((!) ?W) ?P)" using assms(3) by simp
  also have "\<dots> = map (\<lambda>i. ms_ID (?L ! i)) ?P"
    by (auto simp: message_item_def dest: protect_loop_range)
  finally show ?thesis .
qed

theorem recent_ids_are_protected_witness:
  "\<exists>ids w'. RecentConversationalMessageIDs sample_conv 2 0 5 sample_world = (Inr ids, w')
    \<and> ids = map (\<lambda>i. ms_ID (conversation_log (w_db sample_world) sample_conv ! i)) [2, 1]"
proof -
  let ?L = "conversation_log (w_db sample_world) sample_conv"
  have "case RecentConversationalMessageIDs sample_conv 2 0 5 sample_world of (Inr ids, w') \<Rightarrow> True | _ \<Rightarrow> False" by code_simp
  then obtain ids w' where r: "RecentConversationalMessageIDs sample_conv 2 0 5 sample_world = (Inr ids, w')"
    by (auto split: prod.splits sum.splits)
  have p: "protect_loop (map message_item ?L) 2 0 (length ?L) 0 0 = [2, 1]" by code_simp
  have "ids = map (\<lambda>i. ms_ID (?L ! i)) (protect_loop (map message_item ?L) 2 0 (length ?L) 0 0)"
    by (rule recent_ids_are_protected [OF sample_wf r]) (simp add: p)
  with r p show ?thesis by simp
qed

text \<open>C18. Ranking.  The chosen hits are distinct, by descending score, at most ten and two of them
  summaries; a hit left out scores no more than any chosen one or is a summary beyond the quota; and
  fewer than the limit are returned only when nothing else may be taken.\<close>

theorem recall_ranking:
  "\<exists>picks. RankRecall U hits terms cid now limit = map ((!) hits) picks
    \<and> well_ranked hits (map (\<lambda>hit. recallScore U hit terms cid now) hits) (max limit 0) picks
    \<and> int (length picks) \<le> min (max limit 0) 10
    \<and> (int (length picks) < min (max limit 0) 10 \<longrightarrow>
         (\<forall>j < length hits. j \<in> set picks \<or> (rh_Kind (hits ! j) = RecallSummary \<and> summaries_in hits picks = min 2 limit)))"
  using RankRecall_ranked [of U hits terms cid now limit] by (simp only: MaxRecallItems_def MaxSummaryResults_def)

definition sample_hits :: "recall_hit list" where
  "sample_hits = map (\<lambda>(k, x, n). \<lparr>rh_Kind = k, rh_ID = x, rh_ConversationID = ''c'', rh_Role = RoleUser, rh_Content = x,
     rh_Snippet = x, rh_TokenCount = 1, rh_Seq = 1, rh_Depth = 0, rh_EarliestSeq = 1, rh_LatestSeq = 1, rh_CreatedAt = 0,
     rh_Active = False, rh_SourceRank = n\<rparr>)
     [(RecallSummary, ''s1'', 0), (RecallSummary, ''s2'', 1), (RecallSummary, ''s3'', 2), (RecallMessage, ''m1'', 40)]"

theorem recall_ranking_witness:
  "\<exists>picks. RankRecall ascii_only sample_hits [''m1''] ''c'' 0 10 = map ((!) sample_hits) picks \<and> length picks = 3
    \<and> summaries_in sample_hits picks \<le> 2"
proof -
  have "length (RankRecall ascii_only sample_hits [''m1''] ''c'' 0 10) = 3" by code_simp
  with recall_ranking [of ascii_only sample_hits "[''m1'']" "''c''" 0 10] show ?thesis
    by (auto simp: well_ranked_def MaxSummaryResults_def)
qed

text \<open>C19. The injected block has exactly one line per hit between its fixed lines: no stored text can
  break out of its line.\<close>

theorem recall_block_lines:
  assumes "hits \<noteq> []" and "\<forall>h \<in> set hits. CHR 0x0A \<notin> set (rh_ID h) \<and> CHR 0x0A \<notin> set (rh_Role h)"
  shows "split_on (CHR 0x0A) (RecallBlock hits) = recall_header @ map recallLine hits @ [''</acm-recall>'']"
proof -
  have "CHR 0x0A \<notin> set (recallLine h)" if "h \<in> set hits" for h
    using assms(2) that by (auto simp: recallLine_def Let_def truncateRunes_newline oneLine_newline itoa_newline)
  moreover have "\<forall>x \<in> set recall_header. CHR 0x0A \<notin> set x" by (simp add: recall_header_def)
  ultimately show ?thesis
    using assms(1) split_on_Join [of "recall_header @ map recallLine hits @ [''</acm-recall>'']" "CHR 0x0A"]
    by (auto simp: RecallBlock_def newline_def)
qed

theorem recall_block_lines_witness:
  "length (split_on (CHR 0x0A) (RecallBlock sample_hits)) = 8"
proof -
  have "\<forall>h \<in> set sample_hits. CHR 0x0A \<notin> set (rh_ID h) \<and> CHR 0x0A \<notin> set (rh_Role h)" by code_simp
  moreover have "sample_hits \<noteq> []" by (simp add: sample_hits_def)
  ultimately show ?thesis using recall_block_lines [of sample_hits] by (simp add: recall_header_def sample_hits_def)
qed

text \<open>C20. A prompt yields no terms or between two and twelve distinct ones, none of them a stop word
  or too short.\<close>

theorem recall_terms_bounded:
  "distinct (RecallTerms U prompt) \<and> length (RecallTerms U prompt) \<le> 12 \<and> length (RecallTerms U prompt) \<noteq> 1
    \<and> (\<forall>t \<in> set (RecallTerms U prompt). t \<notin> set stop_words \<and> (3 \<le> length (runes t) \<or> t \<in> {''go'', ''db'', ''ci'', ''ui'', ''pr''}))"
  using RecallTerms_spec [of U prompt] by (auto simp: useRecallTerm_def maxRecallTerms_def split: if_splits)

theorem recall_terms_bounded_witness:
  "RecallTerms ascii_only ''Why did the DB migration fail?'' = [''db'', ''migration'', ''fail'']
    \<and> distinct (RecallTerms ascii_only ''Why did the DB migration fail?'')"
proof -
  have "RecallTerms ascii_only ''Why did the DB migration fail?'' = [''db'', ''migration'', ''fail'']" by code_simp
  with recall_terms_bounded [of ascii_only "''Why did the DB migration fail?''"] show ?thesis by simp
qed

end
