(* ===== verification/Glob.thy ===== *)
theory Glob
  imports GoText
begin

text \<open>
  \<open>filepath.Match\<close> of the standard library on a system whose separator is the slash: the scan for
  the next star-free chunk, the match of a chunk with its character classes, and the search for the
  place where a chunk after a star fits.
\<close>

section \<open>Chunks\<close>

definition bad_pattern :: error where
  "bad_pattern = Errorf ''syntax error in pattern'' []"

fun scan_chunk_body :: "string \<Rightarrow> bool \<Rightarrow> string \<times> string" where
  "scan_chunk_body [] inrange = ([], [])"
| "scan_chunk_body (c # cs) inrange =
     (if c = CHR 0x5C
      then case cs of [] \<Rightarrow> ([c], [])
           | d # ds \<Rightarrow> (case scan_chunk_body ds inrange of (a, b) \<Rightarrow> (c # d # a, b))
      else if c = CHR ''*'' \<and> \<not> inrange then ([], c # cs)
      else case scan_chunk_body cs (if c = CHR ''['' then True else if c = CHR '']'' then False else inrange) of
             (a, b) \<Rightarrow> (c # a, b))"

definition scanChunk :: "string \<Rightarrow> bool \<times> string \<times> string" where
  "scanChunk pattern =
     (let p = dropWhile (\<lambda>c. c = CHR ''*'') pattern in
      case scan_chunk_body p False of (chunk, rest) \<Rightarrow> (pattern \<noteq> [] \<and> hd pattern = CHR ''*'', chunk, rest))"

text \<open>One possibly escaped character of a class; something must follow it.\<close>

definition getEsc :: "string \<Rightarrow> error + (rune \<times> string)" where
  "getEsc chunk =
     (if chunk = [] \<or> hd chunk = CHR ''-'' \<or> hd chunk = CHR '']'' then Inl bad_pattern
      else let body = (if hd chunk = CHR 0x5C then tl chunk else chunk) in
        case body of [] \<Rightarrow> Inl bad_pattern
        | c # cs \<Rightarrow> (case decode_rune (byte c) cs of (r, k) \<Rightarrow>
            if (r = RuneError \<and> k = 0) \<or> drop k cs = [] then Inl bad_pattern else Inr (r, drop k cs)))"

lemma getEsc_shorter: "getEsc chunk = Inr (r, rest) \<Longrightarrow> length rest < length chunk \<and> rest \<noteq> []"
  by (cases chunk) (auto simp: getEsc_def Let_def split: if_splits list.splits prod.splits)

text \<open>The range loop of a class: the chunk after the closing bracket and whether the rune matched.\<close>

function class_ranges :: "string \<Rightarrow> rune \<Rightarrow> bool \<Rightarrow> nat \<Rightarrow> error + (bool \<times> string)" where
  "class_ranges chunk r matched nrange =
     (if chunk \<noteq> [] \<and> hd chunk = CHR '']'' \<and> nrange > 0 then Inr (matched, tl chunk)
      else case getEsc chunk of Inl e \<Rightarrow> Inl e
      | Inr (lo, rest) \<Rightarrow>
          if hd rest = CHR ''-''
          then case getEsc (tl rest) of Inl e \<Rightarrow> Inl e
               | Inr (hi, rest2) \<Rightarrow> class_ranges rest2 r (matched \<or> (lo \<le> r \<and> r \<le> hi)) (Suc nrange)
          else class_ranges rest r (matched \<or> lo = r) (Suc nrange))"
  by pat_completeness auto
termination
  by (relation "measure (\<lambda>(chunk, _). length chunk)") (auto dest!: getEsc_shorter simp: length_tl)

lemma class_ranges_shorter: "class_ranges chunk r matched n = Inr (m, rest) \<Longrightarrow> length rest < length chunk"
proof (induction chunk r matched n rule: class_ranges.induct)
  case (1 chunk r matched n)
  show ?case
  proof (cases "chunk \<noteq> [] \<and> hd chunk = CHR '']'' \<and> n > 0")
    case True
    with "1.prems" show ?thesis by (subst (asm) class_ranges.simps) (auto simp: length_tl)
  next
    case False
    then obtain lo more where lo: "getEsc chunk = Inr (lo, more)"
      using "1.prems" by (subst (asm) class_ranges.simps) (auto split: sum.splits)
    note sh = getEsc_shorter [OF lo]
    show ?thesis
    proof (cases "hd more = CHR ''-''")
      case True
      then obtain hi more2 where hi: "getEsc (tl more) = Inr (hi, more2)"
        using "1.prems" False lo by (subst (asm) class_ranges.simps) (auto split: sum.splits)
      have "class_ranges more2 r (matched \<or> (lo \<le> r \<and> r \<le> hi)) (Suc n) = Inr (m, rest)"
        using "1.prems" False lo True hi by (subst (asm) class_ranges.simps) simp
      from "1.IH"(1) [OF False lo refl True hi refl this] sh getEsc_shorter [OF hi] show ?thesis by (auto simp: length_tl)
    next
      case no: False
      have "class_ranges more r (matched \<or> lo = r) (Suc n) = Inr (m, rest)"
        using "1.prems" False lo no by (subst (asm) class_ranges.simps) simp
      from "1.IH"(2) [OF False lo refl no this] sh show ?thesis by simp
    qed
  qed
qed

declare class_ranges.simps [simp del]

text \<open>
  \<open>matchChunk\<close>: the rest of the name after the chunk, and whether it matched.  Once it has failed
  the loop only checks that the chunk is well-formed.
\<close>

function matchChunk_loop :: "string \<Rightarrow> string \<Rightarrow> bool \<Rightarrow> error + (string \<times> bool)" where
  "matchChunk_loop chunk s failed0 =
     (case chunk of [] \<Rightarrow> Inr (if failed0 then ([], False) else (s, True))
      | c # cs \<Rightarrow>
         (let failed = (failed0 \<or> s = []) in
          if c = CHR ''[''
          then let d = (if failed then (0, 0) else decode_rune (byte (hd s)) (tl s));
                   s' = (if failed then s else drop (Suc (snd d)) s);
                   negated = (cs \<noteq> [] \<and> hd cs = CHR ''^'');
                   body = (if negated then tl cs else cs) in
               (case class_ranges body (fst d) False 0 of Inl e \<Rightarrow> Inl e
                | Inr (matched, rest) \<Rightarrow> matchChunk_loop rest s' (failed \<or> matched = negated))
          else if c = CHR ''?''
          then matchChunk_loop cs (if failed then s else drop (Suc (snd (decode_rune (byte (hd s)) (tl s)))) s)
                 (failed \<or> hd s = CHR ''/'')
          else if c = CHR 0x5C
          then (case cs of [] \<Rightarrow> Inl bad_pattern
                | d # ds \<Rightarrow> matchChunk_loop ds (if failed then s else tl s) (failed \<or> d \<noteq> hd s))
          else matchChunk_loop cs (if failed then s else tl s) (failed \<or> c \<noteq> hd s)))"
  by pat_completeness auto
termination
  by (relation "measure (\<lambda>(chunk, _). length chunk)")
    (auto dest!: class_ranges_shorter simp: length_tl split: if_splits)

declare matchChunk_loop.simps [simp del]

definition matchChunk :: "string \<Rightarrow> string \<Rightarrow> error + (string \<times> bool)" where
  "matchChunk chunk s = matchChunk_loop chunk s False"

section \<open>Match\<close>

lemma scan_chunk_body_split: "scan_chunk_body p b = (x, y) \<Longrightarrow> p = x @ y"
  by (induction p b arbitrary: x y rule: scan_chunk_body.induct) (auto split: if_splits list.splits prod.splits)

lemma scanChunk_shorter:
  assumes "scanChunk p = (star, chunk, rest)" "p \<noteq> []"
  shows "length rest < length p"
proof -
  obtain q where q: "q = dropWhile (\<lambda>c. c = CHR ''*'') p" "scan_chunk_body q False = (chunk, rest)"
    using assms(1) by (auto simp: scanChunk_def Let_def split: prod.splits)
  have len: "length q = length chunk + length rest" using scan_chunk_body_split [OF q(2)] by simp
  show ?thesis
  proof (cases "hd p = CHR ''*''")
    case True
    then have "length q < length p" using assms(2) q(1) by (cases p) (auto simp: less_Suc_eq_le length_dropWhile_le)
    with len show ?thesis by simp
  next
    case False
    then have "q = p" using assms(2) q(1) by (cases p) auto
    with q(2) False assms(2) have "chunk \<noteq> []" by (cases p) (auto split: if_splits list.splits prod.splits)
    with len \<open>q = p\<close> show ?thesis by simp
  qed
qed

text \<open>The loop that checks the rest of the pattern before the match is refused.\<close>

function check_rest :: "string \<Rightarrow> error + bool" where
  "check_rest pattern =
     (if pattern = [] then Inr False
      else case scanChunk pattern of (star, chunk, rest) \<Rightarrow>
        (case matchChunk chunk [] of Inl e \<Rightarrow> Inl e | Inr _ \<Rightarrow> check_rest rest))"
  by pat_completeness auto
termination
  by (relation "measure length") (auto dest: scanChunk_shorter [OF sym])

declare check_rest.simps [simp del]

text \<open>The search of the chunk after a star: positions of the name up to the next separator.\<close>

fun star_search :: "string \<Rightarrow> bool \<Rightarrow> string \<Rightarrow> error + string option" where
  "star_search chunk final [] = Inr None"
| "star_search chunk final (c # cs) =
     (if c = CHR ''/'' then Inr None
      else case matchChunk chunk cs of Inl e \<Rightarrow> Inl e
      | Inr (t, ok) \<Rightarrow> if ok \<and> \<not> (final \<and> t \<noteq> []) then Inr (Some t) else star_search chunk final cs)"

function filepath_Match :: "string \<Rightarrow> string \<Rightarrow> error + bool" where
  "filepath_Match pattern name =
     (if pattern = [] then Inr (name = [])
      else case scanChunk pattern of (star, chunk, rest) \<Rightarrow>
        if star \<and> chunk = [] then Inr (CHR ''/'' \<notin> set name)
        else case matchChunk chunk name of Inl e \<Rightarrow> Inl e
        | Inr (t, ok) \<Rightarrow>
            if ok \<and> (t = [] \<or> rest \<noteq> []) then filepath_Match rest t
            else if star
            then (case star_search chunk (rest = []) name of Inl e \<Rightarrow> Inl e
                  | Inr (Some t') \<Rightarrow> filepath_Match rest t'
                  | Inr None \<Rightarrow> check_rest rest)
            else check_rest rest)"
  by pat_completeness auto
termination
  by (relation "measure (\<lambda>(pattern, _). length pattern)") (auto dest: scanChunk_shorter [OF sym])

declare filepath_Match.simps [simp del]

end
