(* ===== verification/Regex.thy ===== *)
theory Regex
  imports GoText
begin

text \<open>
  The part of package \<open>regexp\<close> that the detectors use: expressions over runes with character
  classes, repetition of a class, options, alternatives and the ASCII word boundary.  The matcher
  lists every way an expression can match from a position, in the order of preference of
  leftmost-first matching; the first one is the match the package reports.
\<close>

section \<open>Expressions\<close>

datatype rx =
    RClass "rune \<Rightarrow> bool"
  | RRep nat "nat option" bool "rune \<Rightarrow> bool"
  | RCat rx rx
  | RAlt rx rx
  | ROpt rx
  | RBound

text \<open>A position: the rune before it (if any) and the runes after it, each with its bytes.\<close>

type_synonym position = "rune option \<times> (rune \<times> string) list"

definition word_rune :: "rune \<Rightarrow> bool" where
  "word_rune r \<longleftrightarrow> in_range 48 57 r \<or> in_range 65 90 r \<or> in_range 97 122 r \<or> r = 95"

definition word_before :: "position \<Rightarrow> bool" where
  "word_before p = (case fst p of None \<Rightarrow> False | Some r \<Rightarrow> word_rune r)"

definition word_after :: "position \<Rightarrow> bool" where
  "word_after p = (case snd p of [] \<Rightarrow> False | x # xs \<Rightarrow> word_rune (fst x))"

text \<open>The positions after 0, 1, 2, ... runes of a class.\<close>

fun class_steps :: "(rune \<Rightarrow> bool) \<Rightarrow> rune option \<Rightarrow> (rune \<times> string) list \<Rightarrow> position list" where
  "class_steps p before [] = [(before, [])]"
| "class_steps p before (x # xs) =
     (before, x # xs) # (if p (fst x) then class_steps p (Some (fst x)) xs else [])"

definition repeat_ends :: "nat \<Rightarrow> nat option \<Rightarrow> bool \<Rightarrow> position list \<Rightarrow> position list" where
  "repeat_ends lo hi greedy steps =
     (let ends = drop lo (case hi of None \<Rightarrow> steps | Some h \<Rightarrow> take (Suc h) steps) in
      if greedy then rev ends else ends)"

fun rx_ends :: "rx \<Rightarrow> position \<Rightarrow> position list" where
  "rx_ends (RClass p) pos = (case snd pos of [] \<Rightarrow> [] | x # xs \<Rightarrow> if p (fst x) then [(Some (fst x), xs)] else [])"
| "rx_ends (RRep lo hi greedy p) pos = repeat_ends lo hi greedy (class_steps p (fst pos) (snd pos))"
| "rx_ends (RCat a b) pos = concat (map (rx_ends b) (rx_ends a pos))"
| "rx_ends (RAlt a b) pos = rx_ends a pos @ rx_ends b pos"
| "rx_ends (ROpt a) pos = rx_ends a pos @ [pos]"
| "rx_ends RBound pos = (if word_before pos = word_after pos then [] else [pos])"

section \<open>Search\<close>

text \<open>The leftmost match: the text before it, the match, the position behind it.\<close>

fun rx_next :: "rx \<Rightarrow> rune option \<Rightarrow> (rune \<times> string) list \<Rightarrow> ((rune \<times> string) list \<times> (rune \<times> string) list \<times> position) option" where
  "rx_next e before [] = (case rx_ends e (before, []) of [] \<Rightarrow> None | p # ps \<Rightarrow> Some ([], [], p))"
| "rx_next e before (x # xs) =
     (case rx_ends e (before, x # xs) of
        p # ps \<Rightarrow> Some ([], take (length (x # xs) - length (snd p)) (x # xs), p)
      | [] \<Rightarrow> (case rx_next e (Some (fst x)) xs of None \<Rightarrow> None | Some (gap, m, p) \<Rightarrow> Some (x # gap, m, p)))"

definition MatchString :: "rx \<Rightarrow> string \<Rightarrow> bool" where
  "MatchString e s \<longleftrightarrow> rx_next e None (chunks s) \<noteq> None"

text \<open>
  \<open>FindAllStringIndex\<close> with a limit, as the list of (text before the match, match) and the text
  after the last match.  It is used with expressions that match no empty text.
\<close>

function find_all :: "rx \<Rightarrow> int \<Rightarrow> rune option \<Rightarrow> (rune \<times> string) list
    \<Rightarrow> ((rune \<times> string) list \<times> (rune \<times> string) list) list \<times> (rune \<times> string) list" where
  "find_all e n before cs =
     (if n \<le> 0 then ([], cs)
      else case rx_next e before cs of None \<Rightarrow> ([], cs)
      | Some (gap, m, after, rest) \<Rightarrow>
          if length rest < length cs
          then (case find_all e (n - 1) after rest of (ms, post) \<Rightarrow> ((gap, m) # ms, post))
          else ([], cs))"
  by pat_completeness auto
termination by (relation "measure (\<lambda>(e, n, before, cs). length cs)") auto

declare find_all.simps [simp del]

definition text_of :: "(rune \<times> string) list \<Rightarrow> string" where
  "text_of cs = concat (map snd cs)"

section \<open>Building expressions\<close>

text \<open>Case folding of a class: the other case of ASCII letters, the long s and the Kelvin sign.\<close>

definition fold_class :: "(rune \<Rightarrow> bool) \<Rightarrow> rune \<Rightarrow> bool" where
  "fold_class p r \<longleftrightarrow> p r \<or> (in_range 65 90 r \<and> p (r + 32)) \<or> (in_range 97 122 r \<and> p (r - 32))
     \<or> (r = 383 \<and> (p 115 \<or> p 83)) \<or> (r = 8490 \<and> (p 107 \<or> p 75))"

fun fold_case :: "rx \<Rightarrow> rx" where
  "fold_case (RClass p) = RClass (fold_class p)"
| "fold_case (RRep lo hi g p) = RRep lo hi g (fold_class p)"
| "fold_case (RCat a b) = RCat (fold_case a) (fold_case b)"
| "fold_case (RAlt a b) = RAlt (fold_case a) (fold_case b)"
| "fold_case (ROpt a) = ROpt (fold_case a)"
| "fold_case RBound = RBound"

definition chars :: "string \<Rightarrow> rune \<Rightarrow> bool" where
  "chars cs r \<longleftrightarrow> r \<in> set (map byte cs)"

definition alnum :: "rune \<Rightarrow> bool" where
  "alnum r \<longleftrightarrow> in_range 48 57 r \<or> in_range 65 90 r \<or> in_range 97 122 r"

definition upper :: "rune \<Rightarrow> bool" where "upper r \<longleftrightarrow> in_range 65 90 r"

definition digit :: "rune \<Rightarrow> bool" where "digit r \<longleftrightarrow> in_range 48 57 r"

definition lit_char :: "char \<Rightarrow> rx" where "lit_char c = RClass (\<lambda>r. r = byte c)"

fun seq :: "rx list \<Rightarrow> rx" where
  "seq [] = RRep 0 (Some 0) True (\<lambda>_. False)"
| "seq [e] = e"
| "seq (e # f # es) = RCat e (seq (f # es))"

fun alts :: "rx list \<Rightarrow> rx" where
  "alts [] = RClass (\<lambda>_. False)"
| "alts [e] = e"
| "alts (e # f # es) = RAlt e (alts (f # es))"

definition literal :: "string \<Rightarrow> rx" where "literal s = seq (map lit_char s)"

abbreviation star :: "(rune \<Rightarrow> bool) \<Rightarrow> rx" where "star p \<equiv> RRep 0 None True p"
abbreviation plus :: "(rune \<Rightarrow> bool) \<Rightarrow> rx" where "plus p \<equiv> RRep 1 None True p"
abbreviation opt :: "(rune \<Rightarrow> bool) \<Rightarrow> rx" where "opt p \<equiv> RRep 0 (Some 1) True p"
abbreviation at_least :: "nat \<Rightarrow> (rune \<Rightarrow> bool) \<Rightarrow> rx" where "at_least n p \<equiv> RRep n None True p"
abbreviation exactly :: "nat \<Rightarrow> (rune \<Rightarrow> bool) \<Rightarrow> rx" where "exactly n p \<equiv> RRep n (Some n) True p"

section \<open>What a match consumes\<close>

text \<open>Every end position is behind the start: it is reached by consuming a prefix.\<close>

definition ahead :: "position \<Rightarrow> (rune \<times> string) list \<Rightarrow> position \<Rightarrow> bool" where
  "ahead p used q \<longleftrightarrow> snd p = used @ snd q \<and> fst q = (if used = [] then fst p else Some (fst (last used)))"

lemma ahead_refl: "ahead p [] p"
  by (simp add: ahead_def)

lemma ahead_trans: "ahead p u q \<Longrightarrow> ahead q v r \<Longrightarrow> ahead p (u @ v) r"
  by (auto simp: ahead_def)

lemma class_steps_ahead:
  "q \<in> set (class_steps p before cs) \<Longrightarrow> \<exists>used. ahead (before, cs) used q \<and> (\<forall>x \<in> set used. p (fst x))"
proof (induction p before cs rule: class_steps.induct)
  case (2 p before x xs)
  show ?case
  proof (cases "q = (before, x # xs)")
    case True
    then show ?thesis by (intro exI [of _ "[]"]) (simp add: ahead_def)
  next
    case False
    then have px: "p (fst x)" and q: "q \<in> set (class_steps p (Some (fst x)) xs)"
      using 2(2) by (auto split: if_splits)
    from 2(1) [OF px q] obtain used where u: "ahead (Some (fst x), xs) used q" "\<forall>y \<in> set used. p (fst y)" by blast
    then have "ahead (before, x # xs) (x # used) q" by (auto simp: ahead_def)
    with u px show ?thesis by (intro exI [of _ "x # used"]) simp
  qed
qed (auto simp: ahead_def)

lemma set_repeat_ends: "set (repeat_ends lo hi g steps) \<subseteq> set steps"
  by (auto simp: repeat_ends_def Let_def dest: in_set_dropD in_set_takeD split: if_splits option.splits)

lemma rx_ends_ahead: "q \<in> set (rx_ends e p) \<Longrightarrow> \<exists>used. ahead p used q"
proof (induction e arbitrary: p q)
  case (RClass c)
  show ?case
  proof (cases "snd p")
    case Nil
    with RClass show ?thesis by simp
  next
    case (Cons x xs)
    with RClass have "q = (Some (fst x), xs)" by (simp split: if_splits)
    with Cons have "ahead p [x] q" by (simp add: ahead_def)
    then show ?thesis ..
  qed
next
  case (RRep lo hi g c)
  then have "q \<in> set (class_steps c (fst p) (snd p))" using set_repeat_ends by fastforce
  from class_steps_ahead [OF this] show ?case by auto
next
  case (RCat a b)
  from RCat.prems obtain r where r: "r \<in> set (rx_ends a p)" "q \<in> set (rx_ends b r)" by auto
  obtain u v where "ahead p u r" "ahead r v q" using RCat.IH(1) [OF r(1)] RCat.IH(2) [OF r(2)] by blast
  then have "ahead p (u @ v) q" by (rule ahead_trans)
  then show ?case ..
next
  case (RAlt a b)
  from RAlt.prems consider "q \<in> set (rx_ends a p)" | "q \<in> set (rx_ends b p)" by auto
  then show ?case using RAlt.IH by cases
next
  case (ROpt a)
  from ROpt.prems consider "q \<in> set (rx_ends a p)" | "q = p" by auto
  then show ?case
  proof cases
    case 2
    have "ahead p [] p" by (rule ahead_refl)
    with 2 show ?thesis by (simp only:) (rule exI)
  qed (rule ROpt.IH)
next
  case RBound
  then have q: "q = p" by (simp split: if_splits)
  have "ahead p [] p" by (rule ahead_refl)
  with q show ?case by (simp only:) (rule exI)
qed

lemma rx_next_split:
  "rx_next e before cs = Some (gap, m, after, rest) \<Longrightarrow>
     cs = gap @ m @ rest \<and> (after, rest) \<in> set (rx_ends e (if gap = [] then before else Some (fst (last gap)), m @ rest))
     \<and> (\<forall>k < length gap. rx_ends e (if k = 0 then before else Some (fst (gap ! (k - 1))), drop k cs) = [])"
proof (induction e before cs arbitrary: gap m after rest rule: rx_next.induct)
  case (1 e before)
  then obtain ps where g: "gap = []" "m = []" and p: "rx_ends e (before, []) = (after, rest) # ps"
    by (auto split: list.splits)
  obtain used where "ahead (before, []) used (after, rest)" using rx_ends_ahead [of "(after, rest)" e "(before, [])"] p by auto
  then have "rest = []" by (simp add: ahead_def)
  with g p show ?case by simp
next
  case (2 e before x xs)
  show ?case
  proof (cases "rx_ends e (before, x # xs)")
    case (Cons p ps)
    then have r: "gap = []" "m = take (length (x # xs) - length rest) (x # xs)" "p = (after, rest)"
      using 2(2) by (auto simp: Cons)
    obtain used where "ahead (before, x # xs) used p" using rx_ends_ahead [of p e "(before, x # xs)"] Cons by auto
    then have "x # xs = used @ rest" using r by (simp add: ahead_def)
    moreover from this have "m = used" using r(2) by (metis append_eq_conv_conj diff_add_inverse2 length_append)
    ultimately show ?thesis using r Cons by simp
  next
    case Nil
    then obtain gap' where g: "gap = x # gap'" "rx_next e (Some (fst x)) xs = Some (gap', m, after, rest)"
      using 2(2) by (auto split: option.splits)
    note ih = 2(1) [OF Nil g(2)]
    have "rx_ends e (if k = 0 then before else Some (fst (gap ! (k - 1))), drop k (x # xs)) = []" if k: "k < length gap" for k
    proof (cases k)
      case 0
      with Nil show ?thesis by simp
    next
      case (Suc j)
      then have "j < length gap'" using k g(1) by simp
      with ih have "rx_ends e (if j = 0 then Some (fst x) else Some (fst (gap' ! (j - 1))), drop j xs) = []" by blast
      with Suc g(1) show ?thesis by (cases j) auto
    qed
    with ih g(1) show ?thesis by (cases gap') auto
  qed
qed

lemma find_all_text:
  assumes "find_all e n before cs = (ms, post)"
  shows "concat (map (\<lambda>(gap, m). text_of gap @ text_of m) ms) @ text_of post = text_of cs"
  using assms
proof (induction e n before cs arbitrary: ms post rule: find_all.induct)
  case (1 e n before cs)
  show ?case
  proof (cases "\<exists>gap m after rest. rx_next e before cs = Some (gap, m, after, rest) \<and> \<not> n \<le> 0 \<and> length rest < length cs")
    case False
    with 1(2) have "ms = [] \<and> post = cs"
      by (subst (asm) find_all.simps) (auto split: if_splits option.splits prod.splits)
    then show ?thesis by simp
  next
    case True
    then obtain gap m after rest where t: "rx_next e before cs = Some (gap, m, after, rest)" "\<not> n \<le> 0" "length rest < length cs"
      by blast
    obtain ms' where ms': "find_all e (n - 1) after rest = (ms', post)" "ms = (gap, m) # ms'"
      using 1(2) t by (subst (asm) find_all.simps) (auto split: prod.splits)
    from 1(1) [OF t(2,1) refl refl refl t(3) ms'(1)] ms'(2) rx_next_split [OF t(1)]
    show ?thesis by (simp add: text_of_def)
  qed
qed

section \<open>What an expression means\<close>

text \<open>
  The meaning of an expression without priorities: the rune sequences it accepts between two
  contexts of which only the word boundaries matter.
\<close>

definition word_left :: "bool \<Rightarrow> rune list \<Rightarrow> bool" where
  "word_left wb us = (if us = [] then wb else word_rune (last us))"

definition word_right :: "rune list \<Rightarrow> bool \<Rightarrow> bool" where
  "word_right us wa = (if us = [] then wa else word_rune (hd us))"

fun accepts :: "rx \<Rightarrow> bool \<Rightarrow> rune list \<Rightarrow> bool \<Rightarrow> bool" where
  "accepts (RClass p) wb us wa \<longleftrightarrow> (\<exists>r. us = [r] \<and> p r)"
| "accepts (RRep lo hi g p) wb us wa \<longleftrightarrow> (\<forall>r \<in> set us. p r) \<and> lo \<le> length us \<and> (\<forall>h. hi = Some h \<longrightarrow> length us \<le> h)"
| "accepts (RCat a b) wb us wa \<longleftrightarrow>
     (\<exists>u v. us = u @ v \<and> accepts a wb u (word_right v wa) \<and> accepts b (word_left wb u) v wa)"
| "accepts (RAlt a b) wb us wa \<longleftrightarrow> accepts a wb us wa \<or> accepts b wb us wa"
| "accepts (ROpt a) wb us wa \<longleftrightarrow> us = [] \<or> accepts a wb us wa"
| "accepts RBound wb us wa \<longleftrightarrow> us = [] \<and> wb \<noteq> wa"

text \<open>The matcher finds exactly the accepted sequences.\<close>

lemma class_steps_nth:
  "length (class_steps p before cs) = Suc (length (takeWhile (\<lambda>x. p (fst x)) cs))
   \<and> (\<forall>i \<le> length (takeWhile (\<lambda>x. p (fst x)) cs).
        class_steps p before cs ! i = (if i = 0 then before else Some (fst (cs ! (i - 1))), drop i cs))"
proof (induction p before cs rule: class_steps.induct)
  case (2 p before x xs)
  show ?case
  proof (cases "p (fst x)")
    case True
    note ih = 2 [OF True]
    have "class_steps p before (x # xs) ! i = (if i = 0 then before else Some (fst ((x # xs) ! (i - 1))), drop i (x # xs))"
      if "i \<le> length (takeWhile (\<lambda>x. p (fst x)) (x # xs))" for i
    proof (cases i)
      case (Suc j)
      then have "j \<le> length (takeWhile (\<lambda>x. p (fst x)) xs)" using that True by simp
      with ih have "class_steps p (Some (fst x)) xs ! j = (if j = 0 then Some (fst x) else Some (fst (xs ! (j - 1))), drop j xs)"
        by blast
      with Suc True show ?thesis by (cases j) auto
    qed (simp add: True)
    with ih True show ?thesis by simp
  qed simp
qed simp

lemma set_repeat_ends_iff:
  "q \<in> set (repeat_ends lo hi g steps) \<longleftrightarrow>
     (\<exists>i < length steps. q = steps ! i \<and> lo \<le> i \<and> (\<forall>h. hi = Some h \<longrightarrow> i \<le> h))"
proof -
  let ?ends = "drop lo (case hi of None \<Rightarrow> steps | Some h \<Rightarrow> take (Suc h) steps)"
  have "set (repeat_ends lo hi g steps) = set ?ends" by (simp add: repeat_ends_def Let_def)
  moreover have "q \<in> set ?ends \<longleftrightarrow> (\<exists>i < length steps. q = steps ! i \<and> lo \<le> i \<and> (\<forall>h. hi = Some h \<longrightarrow> i \<le> h))"
  proof
    assume "q \<in> set ?ends"
    then obtain j where j: "j < length ?ends" "q = ?ends ! j" by (auto simp: in_set_conv_nth)
    then show "\<exists>i < length steps. q = steps ! i \<and> lo \<le> i \<and> (\<forall>h. hi = Some h \<longrightarrow> i \<le> h)"
      by (intro exI [of _ "lo + j"]) (auto split: option.splits)
  next
    assume "\<exists>i < length steps. q = steps ! i \<and> lo \<le> i \<and> (\<forall>h. hi = Some h \<longrightarrow> i \<le> h)"
    then obtain i where i: "i < length steps" "q = steps ! i" "lo \<le> i" "\<forall>h. hi = Some h \<longrightarrow> i \<le> h" by blast
    then have "i - lo < length ?ends \<and> ?ends ! (i - lo) = q" by (auto split: option.splits)
    then show "q \<in> set ?ends" using nth_mem [of "i - lo" ?ends] by auto
  qed
  ultimately show ?thesis by simp
qed

lemma takeWhile_long: "\<forall>x \<in> set (take i xs). P x \<Longrightarrow> i \<le> length xs \<Longrightarrow> i \<le> length (takeWhile P xs)"
proof (induction xs arbitrary: i)
  case (Cons x xs)
  then show ?case by (cases i) auto
qed simp

lemma ahead_iff:
  "ahead p used q \<longleftrightarrow> (\<exists>i \<le> length (snd p). used = take i (snd p)
     \<and> q = (if i = 0 then fst p else Some (fst (snd p ! (i - 1))), drop i (snd p)))"
proof
  assume a: "ahead p used q"
  then have len: "length used \<le> length (snd p)" by (simp add: ahead_def)
  from a have "used = take (length used) (snd p)" "snd q = drop (length used) (snd p)" by (simp_all add: ahead_def)
  moreover have "fst q = (if length used = 0 then fst p else Some (fst (snd p ! (length used - 1))))"
    using a by (auto simp: ahead_def nth_append last_conv_nth)
  ultimately show "\<exists>i \<le> length (snd p). used = take i (snd p)
     \<and> q = (if i = 0 then fst p else Some (fst (snd p ! (i - 1))), drop i (snd p))"
    using len a by (intro exI [of _ "length used"]) (auto simp: ahead_def prod_eq_iff)
next
  assume "\<exists>i \<le> length (snd p). used = take i (snd p)
     \<and> q = (if i = 0 then fst p else Some (fst (snd p ! (i - 1))), drop i (snd p))"
  then obtain i where i: "i \<le> length (snd p)" "used = take i (snd p)"
    "q = (if i = 0 then fst p else Some (fst (snd p ! (i - 1))), drop i (snd p))" by blast
  then show "ahead p used q"
    by (cases i) (auto simp: ahead_def last_conv_nth min_def)
qed

lemma class_steps_iff:
  "q = class_steps c (fst p) (snd p) ! i \<and> i < length (class_steps c (fst p) (snd p)) \<longleftrightarrow>
     i \<le> length (snd p) \<and> (\<forall>x \<in> set (take i (snd p)). c (fst x))
     \<and> q = (if i = 0 then fst p else Some (fst (snd p ! (i - 1))), drop i (snd p))"
proof -
  let ?t = "takeWhile (\<lambda>x. c (fst x)) (snd p)"
  have n: "i \<le> length ?t \<longleftrightarrow> i \<le> length (snd p) \<and> (\<forall>x \<in> set (take i (snd p)). c (fst x))"
  proof
    assume i: "i \<le> length ?t"
    then have "take i (snd p) = take i ?t" by (metis takeWhile_eq_take take_take min.absorb2 min.commute)
    moreover have "i \<le> length (snd p)" using i length_takeWhile_le le_trans by blast
    ultimately show "i \<le> length (snd p) \<and> (\<forall>x \<in> set (take i (snd p)). c (fst x))"
      by (auto dest!: in_set_takeD set_takeWhileD)
  qed (use takeWhile_long [of i "snd p"] in auto)
  show ?thesis using class_steps_nth [of c "fst p" "snd p"] n by (auto simp: less_Suc_eq_le)
qed

lemma ahead_Nil: "ahead p [] q \<longleftrightarrow> q = p"
  by (cases p, cases q) (auto simp: ahead_def)

lemma word_before_ahead: "ahead p used q \<Longrightarrow> word_before q = word_left (word_before p) (map fst used)"
  by (auto simp: ahead_def word_before_def word_left_def last_map)

lemma word_after_ahead: "ahead p used q \<Longrightarrow> word_after p = word_right (map fst used) (word_after q)"
  by (cases used) (auto simp: ahead_def word_after_def word_right_def)

theorem rx_ends_iff:
  "q \<in> set (rx_ends e p) \<longleftrightarrow> (\<exists>used. ahead p used q \<and> accepts e (word_before p) (map fst used) (word_after q))"
proof (induction e arbitrary: p q)
  case (RClass c)
  have "(\<exists>used. ahead p used q \<and> accepts (RClass c) (word_before p) (map fst used) (word_after q))
      \<longleftrightarrow> (\<exists>x. ahead p [x] q \<and> c (fst x))" by (auto simp: map_eq_Cons_conv)
  also have "\<dots> \<longleftrightarrow> q \<in> set (rx_ends (RClass c) p)"
  proof (cases "snd p")
    case (Cons x xs)
    then have "ahead p [y] q \<longleftrightarrow> y = x \<and> q = (Some (fst x), xs)" for y by (cases q) (auto simp: ahead_def)
    with Cons show ?thesis by auto
  qed (simp add: ahead_def)
  finally show ?case by simp
next
  case (RRep lo hi g c)
  have "q \<in> set (rx_ends (RRep lo hi g c) p) \<longleftrightarrow>
      (\<exists>i. (q = class_steps c (fst p) (snd p) ! i \<and> i < length (class_steps c (fst p) (snd p))) \<and> lo \<le> i \<and> (\<forall>h. hi = Some h \<longrightarrow> i \<le> h))"
    by (auto simp: set_repeat_ends_iff)
  also have "\<dots> \<longleftrightarrow> (\<exists>used. ahead p used q \<and> (\<forall>x \<in> set used. c (fst x)) \<and> lo \<le> length used \<and> (\<forall>h. hi = Some h \<longrightarrow> length used \<le> h))"
    (is "?L = ?R")
  proof
    assume ?L
    then obtain i where i: "i \<le> length (snd p)" "\<forall>x \<in> set (take i (snd p)). c (fst x)" "lo \<le> i" "\<forall>h. hi = Some h \<longrightarrow> i \<le> h"
      "q = (if i = 0 then fst p else Some (fst (snd p ! (i - 1))), drop i (snd p))"
      unfolding class_steps_iff by blast
    from i(1,5) have "ahead p (take i (snd p)) q" unfolding ahead_iff by blast
    with i show ?R by (intro exI [of _ "take i (snd p)"]) auto
  next
    assume ?R
    then obtain used where u: "ahead p used q" "\<forall>x \<in> set used. c (fst x)" "lo \<le> length used" "\<forall>h. hi = Some h \<longrightarrow> length used \<le> h"
      by blast
    from u(1) obtain i where i: "i \<le> length (snd p)" "used = take i (snd p)"
      "q = (if i = 0 then fst p else Some (fst (snd p ! (i - 1))), drop i (snd p))"
      unfolding ahead_iff by blast
    from i(1,2) have len: "length used = i" by simp
    from i u(2) have "q = class_steps c (fst p) (snd p) ! i \<and> i < length (class_steps c (fst p) (snd p))"
      unfolding class_steps_iff by blast
    with u(3,4) show ?L unfolding len by blast
  qed
  finally show ?case by simp
next
  case (RCat a b)
  show ?case
  proof
    assume "q \<in> set (rx_ends (RCat a b) p)"
    then obtain r where "r \<in> set (rx_ends a p)" "q \<in> set (rx_ends b r)" by auto
    with RCat.IH obtain u v where u: "ahead p u r" "accepts a (word_before p) (map fst u) (word_after r)"
      and v: "ahead r v q" "accepts b (word_before r) (map fst v) (word_after q)" by blast
    have "accepts (RCat a b) (word_before p) (map fst (u @ v)) (word_after q)"
      using u v word_before_ahead [OF u(1)] word_after_ahead [OF v(1)] by auto
    with ahead_trans [OF u(1) v(1)] show "\<exists>used. ahead p used q \<and> accepts (RCat a b) (word_before p) (map fst used) (word_after q)"
      by blast
  next
    assume "\<exists>used. ahead p used q \<and> accepts (RCat a b) (word_before p) (map fst used) (word_after q)"
    then obtain used x y where q: "ahead p used q" and xy: "map fst used = x @ y"
      "accepts a (word_before p) x (word_right y (word_after q))" "accepts b (word_left (word_before p) x) y (word_after q)"
      by auto
    obtain u v where uv: "used = u @ v" "x = map fst u" "y = map fst v"
      using xy(1) by (auto simp: map_eq_append_conv)
    define r where "r = (if u = [] then fst p else Some (fst (last u)), v @ snd q)"
    have u: "ahead p u r" and v: "ahead r v q"
      using q uv(1) by (auto simp: ahead_def r_def)
    have "r \<in> set (rx_ends a p)" "q \<in> set (rx_ends b r)"
      using RCat.IH u v xy uv word_before_ahead [OF u] word_after_ahead [OF v] by auto
    then show "q \<in> set (rx_ends (RCat a b) p)" by auto
  qed
next
  case (RAlt a b)
  then show ?case by auto
next
  case (ROpt a)
  have "(\<exists>used. ahead p used q \<and> accepts (ROpt a) (word_before p) (map fst used) (word_after q))
      \<longleftrightarrow> ahead p [] q \<or> (\<exists>used. ahead p used q \<and> accepts a (word_before p) (map fst used) (word_after q))" by auto
  then show ?case by (simp only: ROpt.IH [symmetric] ahead_Nil) auto
next
  case RBound
  have "(\<exists>used. ahead p used q \<and> accepts RBound (word_before p) (map fst used) (word_after q))
      \<longleftrightarrow> ahead p [] q \<and> word_before p \<noteq> word_after q" by auto
  then show ?case by (simp only: ahead_Nil) auto
qed

text \<open>A search finds nothing exactly when no part of the text is accepted in its context.\<close>

definition rx_free :: "rx \<Rightarrow> bool \<Rightarrow> rune list \<Rightarrow> bool \<Rightarrow> bool" where
  "rx_free e wb rs wa \<longleftrightarrow> (\<forall>A us B. rs = A @ us @ B \<longrightarrow> \<not> accepts e (word_left wb A) us (word_right B wa))"

lemma rx_free_no_end:
  assumes "rx_free e (word_before (before, cs)) (map fst cs) False" "q \<in> set (rx_ends e (before, cs))"
  shows False
proof -
  obtain used where u: "ahead (before, cs) used q" "accepts e (word_before (before, cs)) (map fst used) (word_after q)"
    using assms(2) rx_ends_iff by blast
  have "cs = used @ snd q" using u(1) by (simp add: ahead_def)
  moreover have "word_after q = word_right (map fst (snd q)) False"
    by (cases "snd q") (auto simp: word_after_def word_right_def)
  ultimately have "map fst cs = [] @ map fst used @ map fst (snd q)" "word_after q = word_right (map fst (snd q)) False"
    by simp_all
  with assms(1) have "\<not> accepts e (word_left (word_before (before, cs)) []) (map fst used) (word_after q)"
    unfolding rx_free_def by presburger
  with u(2) show False by (simp add: word_left_def)
qed

lemma word_before_pair [simp]: "word_before (Some r, cs) = word_rune r" "\<not> word_before (None, cs)"
  by (simp_all add: word_before_def)

lemma rx_free_next:
  "rx_next e before cs = None \<longleftrightarrow> rx_free e (word_before (before, cs)) (map fst cs) False"
proof (induction e before cs rule: rx_next.induct)
  case (1 e before)
  have "rx_ends e (before, []) = [] \<longleftrightarrow> \<not> accepts e (word_before (before, [])) [] False"
  proof -
    have "(\<exists>q. q \<in> set (rx_ends e (before, []))) \<longleftrightarrow> accepts e (word_before (before, [])) [] False"
      by (auto simp: rx_ends_iff ahead_def word_after_def)
    then show ?thesis by (metis empty_iff empty_set last_in_set)
  qed
  then show ?case by (auto simp: rx_free_def word_left_def word_right_def split: list.split)
next
  case (2 e before x xs)
  show ?case
  proof (cases "rx_ends e (before, x # xs)")
    case (Cons q qs)
    then have "\<not> rx_free e (word_before (before, x # xs)) (map fst (x # xs)) False"
      using rx_free_no_end [of e before "x # xs" q] by auto
    with Cons show ?thesis by simp
  next
    case Nil
    have left: "word_left wb (r # A) = word_left (word_rune r) A" for wb r A by (simp add: word_left_def)
    have step: "rx_free e (word_before (before, x # xs)) (map fst (x # xs)) False
        \<longleftrightarrow> rx_free e (word_rune (fst x)) (map fst xs) False"
    proof
      assume a: "rx_free e (word_before (before, x # xs)) (map fst (x # xs)) False"
      show "rx_free e (word_rune (fst x)) (map fst xs) False"
        unfolding rx_free_def
      proof (intro allI impI)
        fix A us B assume "map fst xs = A @ us @ B"
        then have "map fst (x # xs) = (fst x # A) @ us @ B" by simp
        with a have "\<not> accepts e (word_left (word_before (before, x # xs)) (fst x # A)) us (word_right B False)"
          unfolding rx_free_def by blast
        then show "\<not> accepts e (word_left (word_rune (fst x)) A) us (word_right B False)" by (simp add: left)
      qed
    next
      assume a: "rx_free e (word_rune (fst x)) (map fst xs) False"
      show "rx_free e (word_before (before, x # xs)) (map fst (x # xs)) False"
        unfolding rx_free_def
      proof (intro allI impI)
        fix A us B assume eq: "map fst (x # xs) = A @ us @ B"
        show "\<not> accepts e (word_left (word_before (before, x # xs)) A) us (word_right B False)"
        proof (cases A)
          case Nil
          note A = Nil
          then obtain used rest where s: "x # xs = used @ rest" "us = map fst used" "B = map fst rest"
            using eq by (auto simp: map_eq_append_conv simp del: list.map)
          define q where "q = (if used = [] then before else Some (fst (last used)), rest)"
          have "ahead (before, x # xs) used q" using s by (simp add: ahead_def q_def)
          moreover have "word_after q = word_right B False"
            using s(3) by (cases rest) (auto simp: word_after_def word_right_def q_def)
          moreover have "q \<notin> set (rx_ends e (before, x # xs))" using \<open>rx_ends e (before, x # xs) = []\<close> by simp
          ultimately show ?thesis using s(2) A by (auto simp: rx_ends_iff word_left_def)
        next
          case (Cons r A')
          with eq have m: "map fst xs = A' @ us @ B" and r: "r = fst x" by simp_all
          from a m have "\<not> accepts e (word_left (word_rune (fst x)) A') us (word_right B False)"
            unfolding rx_free_def by blast
          then show ?thesis unfolding Cons r by (simp add: left)
        qed
      qed
    qed
    then show ?thesis using 2 [OF Nil] Nil step by (cases "rx_next e (Some (fst x)) xs") auto
  qed
qed

end
