(* ===== verification/Json.thy ===== *)
theory Json
  imports GoText
begin

text \<open>
  Package \<open>encoding/json\<close>: the grammar with its depth limit, the decoding of strings, what
  \<open>Unmarshal\<close> accepts, and the encoding of strings by \<open>Marshal\<close>.
\<close>

section \<open>Values\<close>

text \<open>Numbers keep their literal; the members of an object keep their order and duplicates.\<close>

datatype json =
    JNull
  | JBool bool
  | JNumber string
  | JString string
  | JArray "json list"
  | JObject "(string \<times> json) list"

section \<open>Lexical parts\<close>

definition json_space :: "char \<Rightarrow> bool" where
  "json_space c \<longleftrightarrow> c \<in> {CHR '' '', CHR 0x09, CHR 0x0D, CHR 0x0A}"

definition skip_ws :: "string \<Rightarrow> string" where
  "skip_ws s = dropWhile json_space s"

definition is_digit :: "char \<Rightarrow> bool" where
  "is_digit c \<longleftrightarrow> in_range 48 57 (byte c)"

definition scan_frac :: "string \<Rightarrow> (string \<times> string) option" where
  "scan_frac s =
     (case s of [] \<Rightarrow> Some ([], [])
      | c # cs \<Rightarrow>
          if c \<noteq> CHR ''.'' then Some ([], s)
          else if takeWhile is_digit cs = [] then None
          else Some (c # takeWhile is_digit cs, dropWhile is_digit cs))"

definition scan_exp :: "string \<Rightarrow> (string \<times> string) option" where
  "scan_exp s =
     (case s of [] \<Rightarrow> Some ([], [])
      | c # cs \<Rightarrow>
          if c \<noteq> CHR ''e'' \<and> c \<noteq> CHR ''E'' then Some ([], s)
          else let sign = (case cs of d # ds \<Rightarrow> if d = CHR ''+'' \<or> d = CHR ''-'' then [d] else [] | [] \<Rightarrow> []);
                   body = drop (length sign) cs in
               if takeWhile is_digit body = [] then None
               else Some (c # sign @ takeWhile is_digit body, dropWhile is_digit body))"

definition scan_number :: "string \<Rightarrow> (string \<times> string) option" where
  "scan_number s =
     (let sign = (case s of c # cs \<Rightarrow> if c = CHR ''-'' then [c] else [] | [] \<Rightarrow> []);
          body = drop (length sign) s in
      case body of [] \<Rightarrow> None
      | c # cs \<Rightarrow>
          if \<not> is_digit c then None
          else let int_part = (if c = CHR ''0'' then [c] else takeWhile is_digit body) in
            case scan_frac (drop (length int_part) body) of None \<Rightarrow> None
            | Some (frac, rest) \<Rightarrow>
                (case scan_exp rest of None \<Rightarrow> None
                 | Some (e, rest') \<Rightarrow> Some (sign @ int_part @ frac @ e, rest')))"

definition hex_value :: "char \<Rightarrow> int option" where
  "hex_value c =
     (let b = byte c in
      if in_range 48 57 b then Some (b - 48)
      else if in_range 97 102 b then Some (b - 87)
      else if in_range 65 70 b then Some (b - 55) else None)"

text \<open>\<open>getu4\<close> after the escape \<open>u\<close>.\<close>

definition hex4 :: "string \<Rightarrow> int option" where
  "hex4 s =
     (case s of
        a # b # c # d # r \<Rightarrow>
          (case (hex_value a, hex_value b, hex_value c, hex_value d) of
             (Some w, Some x, Some y, Some z) \<Rightarrow> Some (w * 4096 + x * 256 + y * 16 + z)
           | _ \<Rightarrow> None)
      | _ \<Rightarrow> None)"

text \<open>The literal of a string after its opening quote, with the escapes as they stand.\<close>

fun scan_string :: "string \<Rightarrow> (string \<times> string) option" where
  "scan_string [] = None"
| "scan_string (c # cs) =
     (if c = CHR 0x22 then Some ([], cs)
      else if byte c < 32 then None
      else if c = CHR 0x5C
      then (case cs of [] \<Rightarrow> None
            | e # es \<Rightarrow>
                if e \<in> set (CHR 0x22 # CHR 0x5C # ''/bfnrt'')
                then (case scan_string es of None \<Rightarrow> None | Some (a, r) \<Rightarrow> Some (c # e # a, r))
                else if e = CHR ''u'' \<and> hex4 es \<noteq> None
                then (case scan_string (drop 4 es) of None \<Rightarrow> None | Some (a, r) \<Rightarrow> Some (c # e # take 4 es @ a, r))
                else None)
      else (case scan_string cs of None \<Rightarrow> None | Some (a, r) \<Rightarrow> Some (c # a, r)))"

definition surrogate_pair :: "int \<Rightarrow> string \<Rightarrow> rune option" where
  "surrogate_pair r s =
     (case s of
        b # u # rest \<Rightarrow>
          if b = CHR 0x5C \<and> u = CHR ''u''
          then (case hex4 rest of
                  Some r2 \<Rightarrow> if in_range 55296 56319 r \<and> in_range 56320 57343 r2
                             then Some (65536 + (r - 55296) * 1024 + (r2 - 56320)) else None
                | None \<Rightarrow> None)
          else None
      | _ \<Rightarrow> None)"

definition unescape :: "char \<Rightarrow> char" where
  "unescape e =
     (if e = CHR ''b'' then CHR 0x08 else if e = CHR ''f'' then CHR 0x0C else if e = CHR ''n'' then CHR 0x0A
      else if e = CHR ''r'' then CHR 0x0D else if e = CHR ''t'' then CHR 0x09 else e)"

text \<open>\<open>unquoteBytes\<close>: escapes are resolved, ill-formed UTF-8 becomes U+FFFD.\<close>

fun unquote :: "string \<Rightarrow> string" where
  "unquote [] = []"
| "unquote (c # cs) =
     (if c = CHR 0x5C
      then (case cs of [] \<Rightarrow> []
            | e # es \<Rightarrow>
                if e = CHR ''u''
                then (case hex4 es of None \<Rightarrow> []
                      | Some r \<Rightarrow>
                          if in_range 55296 57343 r
                          then (case surrogate_pair r (drop 4 es) of
                                  Some dec \<Rightarrow> encode_rune dec @ unquote (drop 10 es)
                                | None \<Rightarrow> encode_rune RuneError @ unquote (drop 4 es))
                          else encode_rune r @ unquote (drop 4 es))
                else unescape e # unquote es)
      else case decode_rune (byte c) cs of (r, k) \<Rightarrow> encode_rune r @ unquote (drop k cs))"

section \<open>The parser\<close>

definition max_depth :: nat where "max_depth = 10000"

definition strip :: "string \<Rightarrow> string \<Rightarrow> string option" where
  "strip word s = (if take (length word) s = word then Some (drop (length word) s) else None)"

text \<open>
  A value, the elements of an array after the bracket, the members of an object after the brace.
  \<open>d\<close> is the number of open arrays and objects.  The first argument bounds the recursion; two
  units per byte are enough, since every second call consumes one.
\<close>

fun parse_value :: "nat \<Rightarrow> nat \<Rightarrow> string \<Rightarrow> (json \<times> string) option"
  and parse_elements :: "nat \<Rightarrow> nat \<Rightarrow> string \<Rightarrow> (json list \<times> string) option"
  and parse_members :: "nat \<Rightarrow> nat \<Rightarrow> string \<Rightarrow> ((string \<times> json) list \<times> string) option" where
  "parse_value 0 d s = None"
| "parse_value (Suc n) d s =
     (case skip_ws s of [] \<Rightarrow> None
      | c # cs \<Rightarrow>
          if c = CHR ''{''
          then if d \<ge> max_depth then None
               else if skip_ws cs \<noteq> [] \<and> hd (skip_ws cs) = CHR ''}'' then Some (JObject [], tl (skip_ws cs))
               else map_option (\<lambda>(ms, r). (JObject ms, r)) (parse_members n (Suc d) cs)
          else if c = CHR ''[''
          then if d \<ge> max_depth then None
               else if skip_ws cs \<noteq> [] \<and> hd (skip_ws cs) = CHR '']'' then Some (JArray [], tl (skip_ws cs))
               else map_option (\<lambda>(vs, r). (JArray vs, r)) (parse_elements n (Suc d) cs)
          else if c = CHR 0x22 then map_option (\<lambda>(a, r). (JString (unquote a), r)) (scan_string cs)
          else if c = CHR ''t'' then map_option (\<lambda>r. (JBool True, r)) (strip ''rue'' cs)
          else if c = CHR ''f'' then map_option (\<lambda>r. (JBool False, r)) (strip ''alse'' cs)
          else if c = CHR ''n'' then map_option (\<lambda>r. (JNull, r)) (strip ''ull'' cs)
          else map_option (\<lambda>(x, r). (JNumber x, r)) (scan_number (c # cs)))"
| "parse_elements 0 d s = None"
| "parse_elements (Suc n) d s =
     (case parse_value n d s of None \<Rightarrow> None
      | Some (v, r) \<Rightarrow>
          (case skip_ws r of [] \<Rightarrow> None
           | c # cs \<Rightarrow>
               if c = CHR '']'' then Some ([v], cs)
               else if c = CHR '','' then map_option (\<lambda>(vs, r'). (v # vs, r')) (parse_elements n d cs)
               else None))"
| "parse_members 0 d s = None"
| "parse_members (Suc n) d s =
     (case skip_ws s of [] \<Rightarrow> None
      | q # qs \<Rightarrow>
          if q \<noteq> CHR 0x22 then None
          else case scan_string qs of None \<Rightarrow> None
          | Some (k, r) \<Rightarrow>
              (case skip_ws r of [] \<Rightarrow> None
               | c # cs \<Rightarrow>
                   if c \<noteq> CHR '':'' then None
                   else case parse_value n d cs of None \<Rightarrow> None
                   | Some (v, r2) \<Rightarrow>
                       (case skip_ws r2 of [] \<Rightarrow> None
                        | e # es \<Rightarrow>
                            if e = CHR ''}'' then Some ([(unquote k, v)], es)
                            else if e = CHR '','' then map_option (\<lambda>(ms, r'). ((unquote k, v) # ms, r')) (parse_members n d es)
                            else None)))"

definition json_parse :: "string \<Rightarrow> json option" where
  "json_parse s =
     (case parse_value (2 * length s + 2) 0 s of None \<Rightarrow> None
      | Some (v, r) \<Rightarrow> if skip_ws r = [] then Some v else None)"

definition json_Valid :: "string \<Rightarrow> bool" where
  "json_Valid s \<longleftrightarrow> json_parse s \<noteq> None"

section \<open>Decoding into Go values\<close>

text \<open>
  A number literal as mantissa times a power of ten; \<open>float64_overflows\<close> is the range error of
  \<open>strconv.ParseFloat\<close>: the value rounds to an infinity.
\<close>

definition digits_int :: "string \<Rightarrow> int" where
  "digits_int s = foldl (\<lambda>v c. 10 * v + (byte c - 48)) 0 s"

definition number_parts :: "string \<Rightarrow> int \<times> int" where
  "number_parts lit =
     (let body = (case lit of c # cs \<Rightarrow> if c = CHR ''-'' then cs else lit | [] \<Rightarrow> []);
          int_part = takeWhile is_digit body; r1 = dropWhile is_digit body;
          frac = (case r1 of c # cs \<Rightarrow> if c = CHR ''.'' then takeWhile is_digit cs else [] | [] \<Rightarrow> []);
          r2 = (if frac = [] then r1 else drop (Suc (length frac)) r1);
          ex = (case r2 of [] \<Rightarrow> 0
                | e # es \<Rightarrow> (case es of s # ds \<Rightarrow> if s = CHR ''-'' then - digits_int ds
                      else if s = CHR ''+'' then digits_int ds else digits_int es | [] \<Rightarrow> 0))
      in (digits_int (int_part @ frac), ex - int (length frac)))"

definition float64_overflows :: "string \<Rightarrow> bool" where
  "float64_overflows lit =
     (case number_parts lit of (m, e) \<Rightarrow>
        m \<noteq> 0 \<and> (let size = int (length (digits (nat m))) + e in
          if size > 310 then True else if size < 300 then False
          else if e \<ge> 0 then m * 10 ^ nat e \<ge> 2 ^ 1024 - 2 ^ 970
          else m \<ge> (2 ^ 1024 - 2 ^ 970) * 10 ^ nat (- e)))"

fun has_overflow :: "json \<Rightarrow> bool" where
  "has_overflow (JNumber lit) = float64_overflows lit"
| "has_overflow (JArray vs) = (\<exists>v \<in> set vs. has_overflow v)"
| "has_overflow (JObject ms) = (\<exists>kv \<in> set ms. has_overflow (snd kv))"
| "has_overflow _ = False"

text \<open>\<open>Unmarshal\<close> into \<open>any\<close>: numbers must fit a \<open>float64\<close>.\<close>

definition Unmarshal_any :: "string \<Rightarrow> json option" where
  "Unmarshal_any s = (case json_parse s of None \<Rightarrow> None | Some v \<Rightarrow> if has_overflow v then None else Some v)"

text \<open>The entries of an object as a Go map: the last value of a key stays.\<close>

fun map_entries :: "(string \<times> json) list \<Rightarrow> (string \<times> json) list" where
  "map_entries [] = []"
| "map_entries ((k, v) # ms) = (if k \<in> fst ` set ms then map_entries ms else (k, v) # map_entries ms)"

section \<open>Encoding\<close>

definition hex2 :: "int \<Rightarrow> string" where
  "hex2 b = [hex_digit (nat (b div 16)), hex_digit (nat (b mod 16))]"

text \<open>\<open>appendString\<close> with HTML escaping, for one rune and the bytes it was read from.\<close>

definition escape_rune :: "rune \<times> string \<Rightarrow> string" where
  "escape_rune x =
     (let r = fst x; b = snd x in
      if r < 128
      then if r = 34 \<or> r = 92 then CHR 0x5C # b
           else if r = 8 then [CHR 0x5C, CHR ''b''] else if r = 12 then [CHR 0x5C, CHR ''f'']
           else if r = 10 then [CHR 0x5C, CHR ''n''] else if r = 13 then [CHR 0x5C, CHR ''r'']
           else if r = 9 then [CHR 0x5C, CHR ''t'']
           else if r < 32 \<or> r = 60 \<or> r = 62 \<or> r = 38 then CHR 0x5C # ''u00'' @ hex2 r
           else b
      else if r = RuneError \<and> length b = 1 then CHR 0x5C # ''ufffd''
      else if r = 8232 then CHR 0x5C # ''u2028'' else if r = 8233 then CHR 0x5C # ''u2029''
      else b)"

definition marshal_string :: "string \<Rightarrow> string" where
  "marshal_string s = CHR 0x22 # concat (map escape_rune (chunks s)) @ [CHR 0x22]"

end
