(* ===== verification/Privacy.thy ===== *)
theory Privacy
  imports Service Glob Regex Json
begin

text \<open>
  \<open>internal/privacy\<close>: the capture policy of a project.  Sessions, tools, paths and content classes
  may be excluded; credentials in what remains are replaced by markers before anything is stored.
  The TOML decoder and the order in which Go visits a map are parameters.
\<close>

section \<open>The policy\<close>

definition maxJSONNodes :: int where "maxJSONNodes = 10000"

definition maxRedactionsPerMessage :: int where "maxRedactionsPerMessage = 10000"

definition acmArchivePrefix :: string where "acmArchivePrefix = ''[Archived by acm:''"

definition acmRecallPrefix :: string where "acmRecallPrefix = ''<acm-recall>''"

record redaction_pattern =
  rp_class :: string
  rp_expression :: rx
  rp_preservePrefix :: bool

record policy =
  pl_redact :: bool
  pl_ignoreSessionGlobs :: "string list"
  pl_statelessSessionGlobs :: "string list"
  pl_toolGlobs :: "string list"
  pl_pathGlobs :: "string list"
  pl_excludedClass :: "string list"
  pl_allowedValues :: "string list"
  pl_redactions :: "redaction_pattern list"
  pl_classDetectors :: "string \<Rightarrow> rx option"

type_synonym session_mode = string

definition SessionCapture :: session_mode where "SessionCapture = ''capture''"

definition SessionIgnore :: session_mode where "SessionIgnore = ''ignore''"

definition SessionStateless :: session_mode where "SessionStateless = ''stateless''"

definition matchesAny :: "string list \<Rightarrow> string \<Rightarrow> bool" where
  "matchesAny patterns value = list_ex (\<lambda>p. filepath_Match p value = Inr True) patterns"

definition policy_Mode :: "policy \<Rightarrow> string \<Rightarrow> session_mode" where
  "policy_Mode p sessionID =
     (if matchesAny (pl_ignoreSessionGlobs p) sessionID then SessionIgnore
      else if matchesAny (pl_statelessSessionGlobs p) sessionID then SessionStateless
      else SessionCapture)"

section \<open>Exclusion\<close>

definition syntheticContext :: "string \<Rightarrow> bool" where
  "syntheticContext content =
     (let trimmed = TrimSpace content in HasPrefix trimmed acmArchivePrefix \<or> HasPrefix trimmed acmRecallPrefix)"

definition pathKey :: "unicode \<Rightarrow> string \<Rightarrow> bool" where
  "pathKey U key =
     (let lower = ToLower U key in Contains lower ''path'' \<or> Contains lower ''file'' \<or> lower = ''cwd'')"

text \<open>The order in which a \<open>range\<close> loop visits the entries of a map.\<close>

type_synonym map_order = "(string \<times> json) list \<Rightarrow> (string \<times> json) list"

definition excluded_entry :: "unicode \<Rightarrow> policy \<Rightarrow> string \<times> json \<Rightarrow> bool" where
  "excluded_entry U p kv =
     (case snd kv of JString x \<Rightarrow> pathKey U (fst kv) \<and> matchesAny (pl_pathGlobs p) x | _ \<Rightarrow> False)"

text \<open>The stack grows at its head: what is pushed last is visited first.\<close>

function path_scan :: "unicode \<Rightarrow> map_order \<Rightarrow> policy \<Rightarrow> int \<Rightarrow> json list \<Rightarrow> bool" where
  "path_scan U ord p visited stack =
     (if stack = [] \<or> visited \<ge> maxJSONNodes then False
      else case hd stack of
        JObject ms \<Rightarrow>
          (let entries = ord (map_entries ms) in
           if list_ex (excluded_entry U p) entries then True
           else path_scan U ord p (visited + 1) (rev (map snd entries) @ tl stack))
      | JArray vs \<Rightarrow> path_scan U ord p (visited + 1) (rev vs @ tl stack)
      | _ \<Rightarrow> path_scan U ord p (visited + 1) (tl stack))"
  by pat_completeness auto
termination by (relation "measure (\<lambda>(U, ord, p, visited, stack). nat (maxJSONNodes - visited))") auto

declare path_scan.simps [simp del]

definition rawContainsExcludedPath :: "unicode \<Rightarrow> map_order \<Rightarrow> policy \<Rightarrow> string \<Rightarrow> bool" where
  "rawContainsExcludedPath U ord p raw =
     (if raw = [] \<or> pl_pathGlobs p = [] then False
      else case Unmarshal_any raw of None \<Rightarrow> False | Some root \<Rightarrow> path_scan U ord p 0 [root])"

definition excludeMessage :: "unicode \<Rightarrow> map_order \<Rightarrow> policy \<Rightarrow> ingest_message \<Rightarrow> bool" where
  "excludeMessage U ord p m =
     (if syntheticContext (im_Content m) \<or> matchesAny (pl_toolGlobs p) (im_ToolName m)
         \<or> rawContainsExcludedPath U ord p (im_Raw m) then True
      else let content = im_Content m @ CHR 0x0A # im_Raw m in
        list_ex (\<lambda>class. case pl_classDetectors p class of None \<Rightarrow> False | Some d \<Rightarrow> MatchString d content)
          (pl_excludedClass p))"

section \<open>Redaction\<close>

definition assignmentPrefix :: "string \<Rightarrow> string" where
  "assignmentPrefix match =
     (let rest = rev (takeWhile (\<lambda>c. c \<noteq> CHR '':'' \<and> c \<noteq> CHR ''='') (rev match)) in
      if rest = match then []
      else let trimmed = dropWhile (\<lambda>c. c = CHR '' '' \<or> c = CHR 0x09) rest;
               space = length rest - length trimmed;
               prefix = take (length match - length rest) match @ take space rest in
        if trimmed \<noteq> [] \<and> (hd trimmed = CHR 0x27 \<or> hd trimmed = CHR 0x22) then prefix @ [hd trimmed] else prefix)"

definition allowed :: "policy \<Rightarrow> string \<Rightarrow> bool" where
  "allowed p match = list_ex (\<lambda>value. Contains match value) (pl_allowedValues p)"

definition marker :: "redaction_pattern \<Rightarrow> string" where
  "marker pat = ''[REDACTED:'' @ rp_class pat @ '']''"

definition redactedMatch :: "policy \<Rightarrow> string \<Rightarrow> redaction_pattern \<Rightarrow> string" where
  "redactedMatch p match pat =
     (if allowed p match then match
      else if rp_preservePrefix pat then assignmentPrefix match @ marker pat
      else marker pat)"

definition redactPattern :: "policy \<Rightarrow> string \<Rightarrow> redaction_pattern \<Rightarrow> error + string" where
  "redactPattern p value pat =
     (case find_all (rp_expression pat) (maxRedactionsPerMessage + 1) None (chunks value) of (matches, post) \<Rightarrow>
        if int (length matches) > maxRedactionsPerMessage
        then Inl (Errorf ''privacy: %s redactions exceed per-message limit'' [rp_class pat])
        else Inr (concat (map (\<lambda>(gap, m). text_of gap @ redactedMatch p (text_of m) pat) matches) @ text_of post))"

fun redact_all :: "policy \<Rightarrow> redaction_pattern list \<Rightarrow> string \<Rightarrow> error + string" where
  "redact_all p [] result = Inr result"
| "redact_all p (pat # pats) result =
     (case redactPattern p result pat of Inl e \<Rightarrow> Inl e | Inr result' \<Rightarrow> redact_all p pats result')"

definition redactText :: "policy \<Rightarrow> string \<Rightarrow> error + string" where
  "redactText p value = redact_all p (pl_redactions p) value"

definition redactMessage :: "policy \<Rightarrow> ingest_message \<Rightarrow> error + (ingest_message \<times> bool)" where
  "redactMessage p m =
     (if \<not> pl_redact p then Inr (m, False)
      else case redactText p (im_Content m) of Inl e \<Rightarrow> Inl e
      | Inr content \<Rightarrow>
          (case redactText p (im_Raw m) of Inl e \<Rightarrow> Inl e
           | Inr raw \<Rightarrow> Inr (m\<lparr>im_Content := content, im_Raw := raw\<rparr>, content \<noteq> im_Content m \<or> raw \<noteq> im_Raw m)))"

section \<open>Apply\<close>

fun apply_loop :: "unicode \<Rightarrow> map_order \<Rightarrow> policy \<Rightarrow> ingest_message list \<Rightarrow> ingest_message list \<Rightarrow> policy_decision
    \<Rightarrow> error + (ingest_message list \<times> policy_decision)" where
  "apply_loop U ord p [] kept d = Inr (kept, d)"
| "apply_loop U ord p (m # ms) kept d =
     (if excludeMessage U ord p m
      then apply_loop U ord p ms kept (d\<lparr>pd_MessagesExcluded := pd_MessagesExcluded d + 1\<rparr>)
      else case redactMessage p m of Inl e \<Rightarrow> Inl e
      | Inr (redacted, changed) \<Rightarrow>
          apply_loop U ord p ms (kept @ [redacted])
            (if changed then d\<lparr>pd_MessagesRedacted := pd_MessagesRedacted d + 1\<rparr> else d))"

definition policy_Apply :: "unicode \<Rightarrow> map_order \<Rightarrow> policy \<Rightarrow> message_policy" where
  "policy_Apply U ord p req =
     (if policy_Mode p (iq_SessionID req) \<noteq> SessionCapture
      then Inr (req, \<lparr>pd_SessionExcluded = True, pd_MessagesExcluded = int (length (iq_Messages req)), pd_MessagesRedacted = 0\<rparr>)
      else case apply_loop U ord p (iq_Messages req) [] \<lparr>pd_SessionExcluded = False, pd_MessagesExcluded = 0, pd_MessagesRedacted = 0\<rparr> of
        Inl e \<Rightarrow> Inl e
      | Inr (kept, d) \<Rightarrow> Inr (req\<lparr>iq_Messages := kept\<rparr>, d))"

section \<open>The detectors\<close>

definition private_key_rx :: rx where
  "private_key_rx = seq [literal ''-----BEGIN '', ROpt (seq [plus (\<lambda>r. upper r \<or> r = 32), literal '' '']),
     literal ''PRIVATE KEY-----'', RRep 0 None False (\<lambda>_. True), literal ''-----END '',
     ROpt (seq [plus (\<lambda>r. upper r \<or> r = 32), literal '' '']), literal ''PRIVATE KEY-----'']"

definition aws_key_rx :: rx where
  "aws_key_rx = seq [RBound, alts [literal ''AKIA'', literal ''ASIA''], exactly 16 (\<lambda>r. upper r \<or> digit r), RBound]"

definition github_token_rx :: rx where
  "github_token_rx = seq [RBound, literal ''gh'', RClass (chars ''pousr''), literal ''_'', at_least 20 (\<lambda>r. alnum r \<or> r = 95), RBound]"

definition token_char :: "rune \<Rightarrow> bool" where
  "token_char r \<longleftrightarrow> alnum r \<or> r \<in> {95, 45}"

definition api_token_rx :: rx where
  "api_token_rx = seq [RBound, literal ''sk-'', at_least 20 token_char, RBound]"

definition jwt_rx :: rx where
  "jwt_rx = seq [RBound, literal ''eyJ'', plus token_char, literal ''.eyJ'', plus token_char, literal ''.'', plus token_char, RBound]"

definition secret_char :: "rune \<Rightarrow> bool" where
  "secret_char r \<longleftrightarrow> alnum r \<or> chars ''._~+/=-'' r"

definition bearer_rx :: rx where
  "bearer_rx = fold_case (seq [RBound, literal ''Bearer'', plus (chars [CHR '' '', CHR 0x09]), at_least 12 secret_char])"

definition credential_rx :: rx where
  "credential_rx = fold_case (seq [opt (chars [CHR 0x22]),
     alts [seq [literal ''api'', opt (chars ''_-''), literal ''key''], seq [literal ''access'', opt (chars ''_-''), literal ''token''],
       seq [literal ''auth'', opt (chars ''_-''), literal ''token''], literal ''password'', literal ''passwd'', literal ''secret''],
     opt (chars [CHR 0x22]), star (chars [CHR '' '', CHR 0x09]), RClass (chars '':=''), star (chars [CHR '' '', CHR 0x09]),
     opt (chars [CHR 0x22, CHR 0x27]), at_least 8 secret_char])"

definition personal_rx :: rx where
  "personal_rx = fold_case (alts [
     seq [RBound, exactly 3 digit, literal ''-'', exactly 2 digit, literal ''-'', exactly 4 digit, RBound],
     seq [RBound, plus (\<lambda>r. alnum r \<or> chars ''._%+-'' r), literal ''@'', plus (\<lambda>r. alnum r \<or> chars ''.-'' r), literal ''.'',
       at_least 2 upper, RBound]])"

definition compilePattern :: "string \<Rightarrow> rx \<Rightarrow> bool \<Rightarrow> redaction_pattern" where
  "compilePattern class expression preservePrefix =
     \<lparr>rp_class = class, rp_expression = expression, rp_preservePrefix = preservePrefix\<rparr>"

definition joinDetectorExpressions :: "(string \<times> rx \<times> bool) list \<Rightarrow> rx" where
  "joinDetectorExpressions specs = alts (map (fst \<circ> snd) specs)"

definition detector_specs :: "(string \<times> rx \<times> bool) list" where
  "detector_specs = [(''private-key'', private_key_rx, False), (''aws-key'', aws_key_rx, False),
     (''github-token'', github_token_rx, False), (''api-token'', api_token_rx, False), (''jwt'', jwt_rx, False),
     (''bearer-token'', bearer_rx, False), (''credential'', credential_rx, True)]"

definition compileDetectors :: "redaction_pattern list \<times> (string \<Rightarrow> rx option)" where
  "compileDetectors =
     (map (\<lambda>(class, expression, keep). compilePattern class expression keep) detector_specs,
      (map_of (map (\<lambda>(class, expression, keep). (class, expression)) detector_specs))
        (''personal-data'' \<mapsto> personal_rx, ''secrets'' \<mapsto> joinDetectorExpressions detector_specs))"

section \<open>Loading\<close>

definition maxPolicyBytes :: int where "maxPolicyBytes = 2 ^ 20"

definition maxPolicyRules :: nat where "maxPolicyRules = 128"

definition policy_FileName :: string where "policy_FileName = ''.acm-policy.toml''"

record disk_policy =
  dp_Redact :: "bool option"
  dp_ExcludeSessions :: "string list"
  dp_IgnoreSessions :: "string list"
  dp_StatelessSessions :: "string list"
  dp_ExcludeTools :: "string list"
  dp_ExcludePaths :: "string list"
  dp_ExcludeContentClasses :: "string list"
  dp_AllowValues :: "string list"

definition empty_disk_policy :: disk_policy where
  "empty_disk_policy = \<lparr>dp_Redact = None, dp_ExcludeSessions = [], dp_IgnoreSessions = [], dp_StatelessSessions = [],
     dp_ExcludeTools = [], dp_ExcludePaths = [], dp_ExcludeContentClasses = [], dp_AllowValues = []\<rparr>"

definition too_many_rules :: error where
  "too_many_rules = Errorf ''privacy: rule count exceeds %d'' [itoa (int maxPolicyRules)]"

fun invalid_rule :: "unicode \<Rightarrow> string list \<Rightarrow> error option" where
  "invalid_rule U [] = None"
| "invalid_rule U (rule # rules) =
     (case filepath_Match rule [] of Inl e \<Rightarrow> Some (ErrWrap (''privacy: invalid glob '' @ Quote U rule) e)
      | Inr _ \<Rightarrow> invalid_rule U rules)"

fun validate_sets :: "unicode \<Rightarrow> string list list \<Rightarrow> error option" where
  "validate_sets U [] = None"
| "validate_sets U (rules # sets) =
     (if length rules > maxPolicyRules then Some too_many_rules
      else case invalid_rule U rules of Some e \<Rightarrow> Some e | None \<Rightarrow> validate_sets U sets)"

definition validateRules :: "unicode \<Rightarrow> disk_policy \<Rightarrow> error option" where
  "validateRules U c =
     (case validate_sets U [dp_ExcludeSessions c, dp_IgnoreSessions c, dp_StatelessSessions c, dp_ExcludeTools c, dp_ExcludePaths c] of
        Some e \<Rightarrow> Some e
      | None \<Rightarrow> if length (dp_ExcludeContentClasses c) > maxPolicyRules \<or> length (dp_AllowValues c) > maxPolicyRules
                then Some too_many_rules else None)"

fun unsupported_class :: "unicode \<Rightarrow> (string \<Rightarrow> rx option) \<Rightarrow> string list \<Rightarrow> error option" where
  "unsupported_class U detectors [] = None"
| "unsupported_class U detectors (class # classes) =
     (case detectors class of None \<Rightarrow> Some (Errorf ''privacy: unsupported content class %q'' [Quote U class])
      | Some _ \<Rightarrow> unsupported_class U detectors classes)"

definition newPolicy :: "unicode \<Rightarrow> disk_policy \<Rightarrow> error + policy" where
  "newPolicy U c =
     (case validateRules U c of Some e \<Rightarrow> Inl e
      | None \<Rightarrow>
          (case compileDetectors of (redactions, detectors) \<Rightarrow>
             (case unsupported_class U detectors (dp_ExcludeContentClasses c) of Some e \<Rightarrow> Inl e
              | None \<Rightarrow> Inr \<lparr>pl_redact = (case dp_Redact c of None \<Rightarrow> True | Some b \<Rightarrow> b),
                  pl_ignoreSessionGlobs = dp_IgnoreSessions c,
                  pl_statelessSessionGlobs = dp_StatelessSessions c @ dp_ExcludeSessions c,
                  pl_toolGlobs = dp_ExcludeTools c, pl_pathGlobs = dp_ExcludePaths c,
                  pl_excludedClass = dp_ExcludeContentClasses c, pl_allowedValues = dp_AllowValues c,
                  pl_redactions = redactions, pl_classDetectors = detectors\<rparr>)))"

text \<open>A missing file is the error \<open>os.IsNotExist\<close> recognises.\<close>

definition not_exist :: error where "not_exist = ErrIO ''file does not exist''"

definition readPolicy :: "string \<Rightarrow> (world, string) prog" where
  "readPolicy path =
     bindE (driver ''open'') (\<lambda>_ w. case w_files w path of None \<Rightarrow> (Inl not_exist, w)
       | Some content \<Rightarrow>
           bindE (wrapE (''privacy: read '' @ path) (driver ''read'')) (\<lambda>_.
             if int (length content) > maxPolicyBytes
             then fail (Errorf ''privacy: %s exceeds %d bytes'' [path, itoa maxPolicyBytes])
             else ret content) w)"

definition policy_Load :: "unicode \<Rightarrow> (string \<Rightarrow> error + disk_policy) \<Rightarrow> string \<Rightarrow> (world, policy) prog" where
  "policy_Load U toml projectRoot =
     (let path = path_Join [projectRoot, policy_FileName];
          use = (\<lambda>config. case newPolicy U config of Inl e \<Rightarrow> fail e | Inr p \<Rightarrow> ret p) in
      bindE (tryE (readPolicy path)) (\<lambda>r. case r of
          Inl e \<Rightarrow> if e = not_exist then use empty_disk_policy else fail e
        | Inr content \<Rightarrow>
            (case toml content of Inl e \<Rightarrow> fail (ErrWrap (''privacy: parse '' @ path) e)
             | Inr config \<Rightarrow> use config)))"

end
