(* ===== verification/Redaction.thy ===== *)
theory Redaction
  imports Privacy
begin

text \<open>
  What redaction promises.  A token expression accepts only whole words, so a marker between two
  pieces of text separates their words, and a match that the policy allows stays one word; the text that
  redaction returns has no token left but allowed ones.
\<close>

section \<open>Token expressions\<close>

definition token_rx :: "rx \<Rightarrow> bool" where
  "token_rx e \<longleftrightarrow> (\<forall>wb us wa. accepts e wb us wa \<longrightarrow> us \<noteq> [] \<and> (\<forall>r \<in> set us. word_rune r) \<and> \<not> wb \<and> \<not> wa)"

lemma word_contexts:
  "word_right (v @ w) wa = word_right v (word_right w wa)" "word_left (word_left wb u) v = word_left wb (u @ v)"
  by (simp_all add: word_right_def word_left_def)

lemma accepts_seq_Cons:
  assumes "accepts (seq (e # es)) wb us wa" "es \<noteq> []"
  obtains u v where "us = u @ v" "accepts e wb u (word_right v wa)" "accepts (seq es) (word_left wb u) v wa"
  using assms by (cases es) auto

text \<open>A sequence between two boundaries.\<close>

lemma accepts_snoc_bound:
  "accepts (seq (es @ [RBound])) wb us wa \<Longrightarrow> es \<noteq> [] \<Longrightarrow> accepts (seq es) wb us wa \<and> word_left wb us \<noteq> wa"
proof (induction es arbitrary: wb us)
  case (Cons e es)
  show ?case
  proof (cases es)
    case Nil
    with Cons.prems show ?thesis by (auto simp: word_right_def)
  next
    case (Cons f fs)
    then obtain u v where uv: "us = u @ v" "accepts e wb u (word_right v wa)" "accepts (seq (es @ [RBound])) (word_left wb u) v wa"
      using accepts_seq_Cons [of e "es @ [RBound]" wb us wa] Cons.prems by auto
    from Cons.IH [OF uv(3)] Cons have "accepts (seq es) (word_left wb u) v wa \<and> word_left wb us \<noteq> wa"
      by (simp add: word_contexts uv(1))
    with uv Cons show ?thesis by auto
  qed
qed simp

lemma accepts_between_bounds:
  assumes "accepts (seq (RBound # es @ [RBound])) wb us wa" "es \<noteq> []"
  shows "accepts (seq es) wb us wa \<and> word_left wb us \<noteq> wa \<and> wb \<noteq> word_right us wa"
proof -
  obtain u v where "us = u @ v" "accepts RBound wb u (word_right v wa)" "accepts (seq (es @ [RBound])) (word_left wb u) v wa"
    using accepts_seq_Cons [OF assms(1)] by auto
  then have "wb \<noteq> word_right us wa" "accepts (seq (es @ [RBound])) wb us wa" by (auto simp: word_left_def)
  with accepts_snoc_bound [OF this(2) assms(2)] show ?thesis by simp
qed

lemma accepts_literal: "accepts (literal s) wb us wa \<Longrightarrow> us = map byte s"
  unfolding literal_def
proof (induction s arbitrary: wb us)
  case (Cons c s)
  show ?case
  proof (cases s)
    case Nil
    with Cons.prems show ?thesis by (auto simp: lit_char_def)
  next
    case (Cons d t)
    then obtain u v where "us = u @ v" "accepts (lit_char c) wb u (word_right v wa)" "accepts (seq (map lit_char s)) (word_left wb u) v wa"
      using accepts_seq_Cons [of "lit_char c" "map lit_char s" wb us wa] \<open>accepts (seq (map lit_char (c # s))) wb us wa\<close> by auto
    moreover from this(3) have "v = map byte s" by (rule Cons.IH)
    ultimately show ?thesis by (auto simp: lit_char_def)
  qed
qed simp

text \<open>Expressions that accept only word runes, at least \<open>n\<close> of them.\<close>

definition words_only :: "nat \<Rightarrow> rx \<Rightarrow> bool" where
  "words_only n e \<longleftrightarrow> (\<forall>wb us wa. accepts e wb us wa \<longrightarrow> n \<le> length us \<and> (\<forall>r \<in> set us. word_rune r))"

lemma words_only_literal: "list_all (\<lambda>c. word_rune (byte c)) s \<Longrightarrow> words_only (length s) (literal s)"
  by (auto simp: words_only_def list_all_iff dest!: accepts_literal)

lemma words_only_class: "(\<And>r. p r \<Longrightarrow> word_rune r) \<Longrightarrow> words_only 1 (RClass p)"
  by (auto simp: words_only_def)

lemma words_only_rep: "(\<And>r. p r \<Longrightarrow> word_rune r) \<Longrightarrow> words_only n (RRep n hi g p)"
  by (auto simp: words_only_def)

lemma words_only_alt: "words_only n a \<Longrightarrow> words_only n b \<Longrightarrow> words_only n (alts [a, b])"
  by (simp add: words_only_def) blast

lemma words_only_seq: "list_all2 words_only ns es \<Longrightarrow> es \<noteq> [] \<Longrightarrow> words_only (sum_list ns) (seq es)"
proof (induction rule: list_all2_induct)
  case (Cons n ns e es)
  show ?case
  proof (cases es)
    case Nil
    with Cons.hyps show ?thesis by simp
  next
    case (Cons f fs)
    with \<open>es \<noteq> [] \<Longrightarrow> words_only (sum_list ns) (seq es)\<close> have ih: "words_only (sum_list ns) (seq es)" by simp
    show ?thesis
      unfolding words_only_def
    proof (intro allI impI)
      fix wb us wa assume "accepts (seq (e # es)) wb us wa"
      then obtain u v where "us = u @ v" "accepts e wb u (word_right v wa)" "accepts (seq es) (word_left wb u) v wa"
        by (rule accepts_seq_Cons) (simp add: Cons)
      with ih \<open>words_only n e\<close> show "sum_list (n # ns) \<le> length us \<and> (\<forall>r \<in> set us. word_rune r)"
        by (fastforce simp: words_only_def)
    qed
  qed
qed simp

lemma token_rx_words:
  assumes "words_only (Suc n) (seq es)" "es \<noteq> []"
  shows "token_rx (seq (RBound # es @ [RBound]))"
    "accepts (seq (RBound # es @ [RBound])) wb us wa \<Longrightarrow> Suc n \<le> length us"
proof -
  have all: "us \<noteq> [] \<and> Suc n \<le> length us \<and> (\<forall>r \<in> set us. word_rune r) \<and> \<not> wb \<and> \<not> wa"
    if "accepts (seq (RBound # es @ [RBound])) wb us wa" for wb us wa
  proof -
    have a: "accepts (seq es) wb us wa" "word_left wb us \<noteq> wa" "wb \<noteq> word_right us wa"
      using accepts_between_bounds [OF that assms(2)] by blast+
    then have w: "Suc n \<le> length us" "\<forall>r \<in> set us. word_rune r" using assms(1) by (auto simp: words_only_def)
    then have "us \<noteq> []" by auto
    with w have "word_right us wa" "word_left wb us" by (simp_all add: word_right_def word_left_def)
    with a w \<open>us \<noteq> []\<close> show ?thesis by simp
  qed
  then show "token_rx (seq (RBound # es @ [RBound]))" unfolding token_rx_def by blast
  show "accepts (seq (RBound # es @ [RBound])) wb us wa \<Longrightarrow> Suc n \<le> length us" using all by blast
qed

lemma upper_digit_word: "upper r \<or> digit r \<Longrightarrow> word_rune r" "alnum r \<or> r = 95 \<Longrightarrow> word_rune r"
  by (auto simp: upper_def digit_def alnum_def word_rune_def)

lemma aws_key_token: "token_rx aws_key_rx" "accepts aws_key_rx wb us wa \<Longrightarrow> 20 \<le> length us"
proof -
  let ?es = "[alts [literal ''AKIA'', literal ''ASIA''], exactly 16 (\<lambda>r. upper r \<or> digit r)]"
  have e: "aws_key_rx = seq (RBound # ?es @ [RBound])" by (simp add: aws_key_rx_def)
  have l: "words_only 4 (literal ''AKIA'')" "words_only 4 (literal ''ASIA'')"
    using words_only_literal [of "''AKIA''"] words_only_literal [of "''ASIA''"]
    by (simp_all add: word_rune_def byte_def in_range_def eval_nat_numeral)
  have "words_only (sum_list [4, 16]) (seq ?es)"
    by (rule words_only_seq) (use words_only_alt [OF l] words_only_rep [OF upper_digit_word(1)] in simp_all)
  then have "words_only (Suc 19) (seq ?es)" by simp
  note w = token_rx_words [OF this]
  show "token_rx aws_key_rx" unfolding e by (rule w) simp
  show "20 \<le> length us" if "accepts aws_key_rx wb us wa"
    using w(2) [OF _ that [unfolded e]] by simp
qed

lemma github_token_token: "token_rx github_token_rx" "accepts github_token_rx wb us wa \<Longrightarrow> 24 \<le> length us"
proof -
  let ?es = "[literal ''gh'', RClass (chars ''pousr''), literal ''_'', at_least 20 (\<lambda>r. alnum r \<or> r = 95)]"
  have e: "github_token_rx = seq (RBound # ?es @ [RBound])" by (simp add: github_token_rx_def)
  have l: "words_only 2 (literal ''gh'')" "words_only 1 (literal ''_'')" "words_only 1 (RClass (chars ''pousr''))"
    using words_only_literal [of "''gh''"] words_only_literal [of "''_''"]
    by (simp_all add: word_rune_def byte_def in_range_def eval_nat_numeral)
      (rule words_only_class [simplified], auto simp: word_rune_def byte_def in_range_def chars_def)
  have "words_only (sum_list [2, 1, 1, 20]) (seq ?es)"
    by (rule words_only_seq) (use l words_only_rep [OF upper_digit_word(2)] in simp_all)
  then have "words_only (Suc 23) (seq ?es)" by simp
  note w = token_rx_words [OF this]
  show "token_rx github_token_rx" unfolding e by (rule w) simp
  show "24 \<le> length us" if "accepts github_token_rx wb us wa"
    using w(2) [OF _ that [unfolded e]] by simp
qed

section \<open>Pieces of a text\<close>

text \<open>Every part of the text that the expression accepts in its place satisfies \<open>P\<close>.\<close>

definition rx_only :: "rx \<Rightarrow> (rune list \<Rightarrow> bool) \<Rightarrow> bool \<Rightarrow> rune list \<Rightarrow> bool \<Rightarrow> bool" where
  "rx_only e P wb rs wa \<longleftrightarrow> (\<forall>A us B. rs = A @ us @ B \<longrightarrow> accepts e (word_left wb A) us (word_right B wa) \<longrightarrow> P us)"

lemma rx_onlyI:
  "(\<And>A us B. rs = A @ us @ B \<Longrightarrow> accepts e (word_left wb A) us (word_right B wa) \<Longrightarrow> P us) \<Longrightarrow> rx_only e P wb rs wa"
  by (simp add: rx_only_def)

lemma rx_onlyD: "rx_only e P wb (A @ us @ B) wa \<Longrightarrow> accepts e (word_left wb A) us (word_right B wa) \<Longrightarrow> P us"
  by (simp add: rx_only_def)

lemma rx_free_only: "rx_free e wb rs wa \<longleftrightarrow> rx_only e (\<lambda>_. False) wb rs wa"
  by (simp add: rx_free_def rx_only_def)

lemma rx_only_free: "rx_free e wb rs wa \<Longrightarrow> rx_only e P wb rs wa"
  by (simp add: rx_free_def rx_only_def)

lemma rx_only_suffix: "rx_only e P wb (xs @ ys) wa \<Longrightarrow> rx_only e P (word_left wb xs) ys wa"
  by (rule rx_onlyI) (use rx_onlyD [of e P wb "xs @ A" us B wa for A us B] in \<open>simp add: word_contexts\<close>)

text \<open>Behind the first rune the context on the left does not matter, before the last one that on the right.\<close>

lemma word_contexts_inner:
  "A \<noteq> [] \<Longrightarrow> word_left wb A = word_left wb' A" "B \<noteq> [] \<Longrightarrow> word_right B wa = word_right B wa'"
  by (simp_all add: word_left_def word_right_def)

lemma token_parts:
  assumes "token_rx e" and "accepts e wb us wa"
  shows "us \<noteq> []" "\<forall>r \<in> set us. word_rune r" "\<not> wb" "\<not> wa"
  using assms unfolding token_rx_def by blast+

lemma words_bound:
  "us \<noteq> [] \<Longrightarrow> \<forall>r \<in> set us. word_rune r \<Longrightarrow> word_right (us @ B) wa" "us \<noteq> [] \<Longrightarrow> \<forall>r \<in> set us. word_rune r \<Longrightarrow> word_left wb (A @ us)"
  by (simp_all add: word_left_def word_right_def)

lemma rx_only_append_sep:
  assumes tok: "token_rx e" and x: "\<not> word_rune x"
    and xs: "rx_only e P wb xs False" and ys: "rx_only e P False ys wa"
  shows "rx_only e P wb (xs @ x # ys) wa"
proof (rule rx_onlyI)
  fix A us B assume eq: "xs @ x # ys = A @ us @ B" and acc: "accepts e (word_left wb A) us (word_right B wa)"
  note us = token_parts [OF tok acc]
  from eq [symmetric] consider D where "xs = A @ us @ D" "B = D @ x # ys"
    | D where "A = xs @ x # D" "ys = D @ us @ B"
    | "x \<in> set us"
    by (auto simp: append_eq_append_conv2 append_eq_Cons_conv Cons_eq_append_conv)
  then show "P us"
  proof cases
    case 1
    then have "word_right B wa = word_right D False" using x by (cases D) (auto simp: word_right_def)
    with acc xs 1(1) show ?thesis by (auto dest: rx_onlyD)
  next
    case 2
    then have "word_left wb A = word_left False D" using x by (auto simp: word_left_def)
    with acc ys 2(2) show ?thesis by (auto dest: rx_onlyD)
  next
    case 3
    with us(2) x show ?thesis by blast
  qed
qed

text \<open>A text that does not start with a word rune may follow any context.\<close>

lemma rx_only_left:
  assumes tok: "token_rx e" and "rx_only e P wb ys wa" "\<not> word_right ys False"
  shows "rx_only e P wb' ys wa"
proof (rule rx_onlyI)
  fix A us B assume eq: "ys = A @ us @ B" and acc: "accepts e (word_left wb' A) us (word_right B wa)"
  note us = token_parts [OF tok acc]
  have "A \<noteq> []"
  proof
    assume "A = []"
    with eq us(1,2) assms(3) show False using words_bound(1) [of us B False] by simp
  qed
  with acc assms(2) word_contexts_inner(1) [of A wb wb'] show "P us" unfolding eq by (auto dest: rx_onlyD)
qed

text \<open>A run of words between other runes: a token of the whole text is the run, or lies beside it.\<close>

lemma append_cut:
  assumes "xs @ ys = us @ vs"
  obtains E where "xs = us @ E" "E @ ys = vs" "E \<noteq> []" | E where "us = xs @ E" "ys = E @ vs" "E \<noteq> []" | "us = xs" "vs = ys"
  using assms by (cases "length xs" "length us" rule: linorder_cases) (auto simp: append_eq_append_conv2)

lemma word_run_parts:
  assumes eq: "gap @ m @ r = A @ us @ B" and m: "m \<noteq> []" "\<forall>x \<in> set m. word_rune x" and us: "us \<noteq> []" "\<forall>x \<in> set us. word_rune x"
    and gap: "\<not> word_left wb gap" and r: "\<not> word_right r wa" and A: "\<not> word_left wb A" and B: "\<not> word_right B wa"
  obtains "us = m" "A = gap" "B = r" | D where "gap = A @ us @ D" "B = D @ m @ r" "D \<noteq> []"
    | D where "r = D @ us @ B" "A = gap @ m @ D" "D \<noteq> []"
proof -
  have no_left: False if "\<not> word_left wb (X @ E)" "E \<noteq> []" "set E \<subseteq> set m \<union> set us" for X E
    using that m(2) us(2) words_bound(2) [of E wb X] by blast
  have no_right: False if "\<not> word_right (E @ X) wa" "E \<noteq> []" "set E \<subseteq> set m \<union> set us" for X E
    using that m(2) us(2) words_bound(1) [of E X wa] by blast
  consider E where "gap = A @ E" "E @ m @ r = us @ B" "E \<noteq> []"
    | E where "A = gap @ E" "m @ r = E @ us @ B" "E \<noteq> []" | "A = gap" "m @ r = us @ B"
    by (rule append_cut [OF eq]) auto
  then show ?thesis
  proof cases
    case (1 E)
    from 1(2) consider D where "us = E @ D" | D where "E = us @ D" "D @ m @ r = B"
      by (auto simp: append_eq_append_conv2)
    then show ?thesis
    proof cases
      case (1 D)
      with no_left [of A E] gap \<open>gap = A @ E\<close> \<open>E \<noteq> []\<close> show ?thesis by auto
    next
      case (2 D)
      have "D \<noteq> []" using no_right [of m r] B 2(2) m(1) by auto
      with that(2) 2 \<open>gap = A @ E\<close> show ?thesis by simp
    qed
  next
    case (2 E)
    from 2(2) consider D where "m = E @ D" | D where "E = m @ D" "r = D @ us @ B"
      by (auto simp: append_eq_append_conv2)
    then show ?thesis
    proof cases
      case (1 D)
      with no_left [of gap E] A 2(1,3) show ?thesis by auto
    next
      case (2 D)
      have "D \<noteq> []" using no_right [of us B] r 2(2) us(1) by auto
      with that(3) 2 \<open>A = gap @ E\<close> show ?thesis by simp
    qed
  next
    case 3
    consider "m = us" "r = B" | D where "m = us @ D" "D @ r = B" "D \<noteq> []" | D where "us = m @ D" "r = D @ B" "D \<noteq> []"
      by (rule append_cut [OF 3(2)]) auto
    then show ?thesis
    proof cases
      case 1
      with that(1) 3 show ?thesis by simp
    next
      case (2 D)
      with no_right [of D r] B show ?thesis by auto
    next
      case (3 D)
      with no_right [of D B] r show ?thesis by auto
    qed
  qed
qed

lemma rx_only_keep:
  assumes tok: "token_rx e" and m: "m \<noteq> []" "\<forall>x \<in> set m. word_rune x" "P m"
    and gap: "\<not> word_left wb gap" "rx_only e P wb gap False" and r: "\<not> word_right r wa" "rx_only e P True r wa"
  shows "rx_only e P wb (gap @ m @ r) wa"
proof (rule rx_onlyI)
  fix A us B assume eq: "gap @ m @ r = A @ us @ B" and acc: "accepts e (word_left wb A) us (word_right B wa)"
  note us = token_parts [OF tok acc]
  from eq m(1,2) us(1,2) gap(1) r(1) us(3,4) show "P us"
  proof (cases rule: word_run_parts)
    case 1
    with m(3) show ?thesis by simp
  next
    case (2 D)
    then have "accepts e (word_left wb A) us (word_right D False)"
      using acc by (simp add: word_right_def)
    with gap(2) 2(1) show ?thesis by (auto dest: rx_onlyD)
  next
    case (3 D)
    then have "accepts e (word_left True D) us (word_right B wa)"
      using acc by (simp add: word_left_def)
    with r(2) 3(1) show ?thesis by (auto dest: rx_onlyD)
  qed
qed

text \<open>Nothing shorter than a token contains one.\<close>

lemma rx_free_short:
  assumes "\<And>wb us wa. accepts e wb us wa \<Longrightarrow> n \<le> length us" "length rs < n"
  shows "rx_free e wb rs wa"
  unfolding rx_free_def using assms by fastforce

text \<open>The leftmost match is accepted where it stands.\<close>

lemma rx_next_accepts:
  assumes "rx_next e before cs = Some (gap, m, after, rest)"
  shows "cs = gap @ m @ rest" "after = (if gap @ m = [] then before else Some (fst (last (gap @ m))))"
    "accepts e (word_left (word_before (before, cs)) (map fst gap)) (map fst m) (word_right (map fst rest) False)"
proof -
  note sp = rx_next_split [OF assms]
  let ?pos = "(if gap = [] then before else Some (fst (last gap)), m @ rest)"
  have wb: "word_before ?pos = word_left (word_before (before, cs)) (map fst gap)"
    by (auto simp: word_before_def word_left_def last_map)
  have wa: "word_after (after, rest) = word_right (map fst rest) False"
    by (cases rest) (auto simp: word_after_def word_right_def)
  obtain used where u: "ahead ?pos used (after, rest)" "accepts e (word_before ?pos) (map fst used) (word_after (after, rest))"
    using sp rx_ends_iff by blast
  have "used = m" using u(1) by (simp add: ahead_def)
  with u sp show "cs = gap @ m @ rest" "after = (if gap @ m = [] then before else Some (fst (last (gap @ m))))"
    "accepts e (word_left (word_before (before, cs)) (map fst gap)) (map fst m) (word_right (map fst rest) False)"
    unfolding wb wa by (auto simp: ahead_def)
qed

text \<open>Before the leftmost match the text is free of matches, whatever non-word rune follows.\<close>

lemma gap_free:
  assumes tok: "token_rx e" and nx: "rx_next e before cs = Some (gap, m, after, rest)"
  shows "rx_free e (word_before (before, cs)) (map fst gap) False"
    "m \<noteq> [] \<and> (\<forall>x \<in> set m. word_rune (fst x)) \<and> after = Some (fst (last m)) \<and> cs = gap @ m @ rest
      \<and> \<not> word_right (map fst rest) False \<and> \<not> word_left (word_before (before, cs)) (map fst gap)"
proof -
  note sp = rx_next_split [OF nx]
  note mt = rx_next_accepts [OF nx]
  note tm = token_parts [OF tok mt(3)]
  from mt tm show "m \<noteq> [] \<and> (\<forall>x \<in> set m. word_rune (fst x)) \<and> after = Some (fst (last m)) \<and> cs = gap @ m @ rest
      \<and> \<not> word_right (map fst rest) False \<and> \<not> word_left (word_before (before, cs)) (map fst gap)"
    by auto
  show "rx_free e (word_before (before, cs)) (map fst gap) False"
    unfolding rx_free_def
  proof (intro allI impI notI)
    fix A us B assume eq: "map fst gap = A @ us @ B"
      and acc: "accepts e (word_left (word_before (before, cs)) A) us (word_right B False)"
    have us: "us \<noteq> []" "\<forall>r \<in> set us. word_rune r" using tok acc by (auto simp: token_rx_def)
    have B: "B \<noteq> []"
    proof
      assume "B = []"
      then have "map fst gap \<noteq> []" "last (map fst gap) = last us" using eq us by auto
      with us tm(3) show False by (auto simp: word_left_def)
    qed
    obtain a u b where g: "gap = a @ u @ b" "A = map fst a" "us = map fst u" "B = map fst b"
      using eq by (auto simp: map_eq_append_conv append_eq_map_conv)
    let ?k = "length a"
    have k: "?k < length gap" using us(1) g by auto
    let ?p = "(if ?k = 0 then before else Some (fst (gap ! (?k - 1))), drop ?k cs)"
    have p: "?p = (if a = [] then before else Some (fst (last a)), u @ b @ m @ rest)"
      using sp g by (auto simp: nth_append last_conv_nth)
    have pb: "word_before ?p = word_left (word_before (before, cs)) A"
      unfolding p g(2) by (auto simp: word_before_def word_left_def last_map)
    define q where "q = (Some (fst (last u)), b @ m @ rest)"
    have "ahead ?p u q" unfolding p using us(1) g(3) by (simp add: ahead_def q_def)
    moreover have "word_after q = word_right B False"
      using B g(4) by (cases b) (auto simp: q_def word_after_def word_right_def)
    ultimately have "q \<in> set (rx_ends e ?p)" using acc g(3) pb by (auto simp: rx_ends_iff)
    moreover have "rx_ends e ?p = []" using sp k by blast
    ultimately show False by simp
  qed
qed

section \<open>After redaction only allowed tokens are left\<close>

text \<open>What stands for a match: the match itself where \<open>keep\<close> says so, else the marker.\<close>

definition replaced :: "((rune \<times> string) list \<Rightarrow> bool) \<Rightarrow> rune list \<Rightarrow> (rune \<times> string) list \<Rightarrow> rune list" where
  "replaced keep mk m = (if keep m then map fst m else mk)"

definition redacted_runes :: "((rune \<times> string) list \<Rightarrow> bool) \<Rightarrow> rune list
    \<Rightarrow> ((rune \<times> string) list \<times> (rune \<times> string) list) list \<Rightarrow> (rune \<times> string) list \<Rightarrow> rune list" where
  "redacted_runes keep mk ms post = concat (map (\<lambda>(gap, m). map fst gap @ replaced keep mk m) ms) @ map fst post"

text \<open>A marker: two non-word runes around a text without tokens.\<close>

definition separates :: "rx \<Rightarrow> rune list \<Rightarrow> bool" where
  "separates e mk \<longleftrightarrow> (\<exists>x inner y. mk = x # inner @ [y] \<and> \<not> word_rune x \<and> \<not> word_rune y \<and> rx_free e False inner False)"

text \<open>One match, replaced or kept, in front of a text that begins with no word.\<close>

lemma rx_only_replaced:
  assumes tok: "token_rx e" and sep: "separates e mk" and m: "m \<noteq> []" "\<forall>x \<in> set m. word_rune (fst x)" "keep m \<longrightarrow> P (map fst m)"
    and gap: "\<not> word_left wb gap" "rx_free e wb gap False" and out: "\<not> word_right out False" "rx_only e P wb' out False"
  shows "rx_only e P wb (gap @ replaced keep mk m @ out) False"
proof (cases "keep m")
  case True
  have "rx_only e P wb (gap @ map fst m @ out) False"
    by (rule rx_only_keep [OF tok]) (use m True gap out rx_only_left [OF tok out(2,1)] in \<open>auto intro: rx_only_free\<close>)
  with True show ?thesis by (simp add: replaced_def)
next
  case False
  from sep obtain x inner y where xy: "mk = x # inner @ [y]" "\<not> word_rune x" "\<not> word_rune y" "rx_free e False inner False"
    unfolding separates_def by blast
  have "rx_only e P False (inner @ y # out) False"
    by (rule rx_only_append_sep [OF tok xy(3) rx_only_free [OF xy(4)] rx_only_left [OF tok out(2,1)]])
  then have "rx_only e P wb (gap @ x # inner @ y # out) False"
    by (rule rx_only_append_sep [OF tok xy(2) rx_only_free [OF gap(2)]])
  with False show ?thesis by (simp add: replaced_def xy(1))
qed

lemma find_all_only:
  "find_all e n before cs = (ms, post) \<Longrightarrow> token_rx e \<Longrightarrow> separates e mk \<Longrightarrow> int (length ms) < n \<Longrightarrow>
    \<forall>(gap, m) \<in> set ms. keep m \<longrightarrow> P (map fst m) \<Longrightarrow>
    rx_only e P (word_before (before, cs)) (redacted_runes keep mk ms post) False
    \<and> (\<not> word_right (map fst cs) False \<longrightarrow> \<not> word_right (redacted_runes keep mk ms post) False)"
proof (induction e n before cs arbitrary: ms post rule: find_all.induct)
  case (1 e n before cs)
  note tok = 1(3)
  have n: "\<not> n \<le> 0" using 1(5) by simp
  show ?case
  proof (cases "rx_next e before cs")
    case None
    with 1(2) n have "ms = []" "post = cs" by (simp_all add: find_all.simps [of e n before cs])
    with None show ?thesis by (simp add: redacted_runes_def rx_free_next rx_only_free)
  next
    case (Some r)
    obtain gap m after rest where nx: "rx_next e before cs = Some (gap, m, after, rest)"
      using Some by (metis prod_cases4)
    note gf = gap_free [OF tok nx]
    have len: "length rest < length cs" using gf(2) by auto
    obtain ms' where ms': "find_all e (n - 1) after rest = (ms', post)" "ms = (gap, m) # ms'"
      using 1(2) n nx len by (simp add: find_all.simps [of e n before cs] split: prod.splits)
    have ih: "rx_only e P (word_before (after, rest)) (redacted_runes keep mk ms' post) False
        \<and> (\<not> word_right (map fst rest) False \<longrightarrow> \<not> word_right (redacted_runes keep mk ms' post) False)"
      using 1(1) [OF n nx refl refl refl len ms'(1) tok 1(4)] 1(5,6) ms'(2) by simp
    have out: "redacted_runes keep mk ms post = map fst gap @ replaced keep mk m @ redacted_runes keep mk ms' post"
      by (simp add: redacted_runes_def ms'(2))
    have "rx_only e P (word_before (before, cs)) (redacted_runes keep mk ms post) False"
      unfolding out by (rule rx_only_replaced [OF tok 1(4)]) (use gf ih 1(6) ms'(2) in auto)
    moreover have "\<not> word_right (redacted_runes keep mk ms post) False" if h: "\<not> word_right (map fst cs) False"
    proof (cases gap)
      case Nil
      with h gf(2) have False by (cases m) (auto simp: word_right_def)
      then show ?thesis ..
    next
      case (Cons g gs)
      with h gf(2) show ?thesis unfolding out by (auto simp: word_right_def)
    qed
    ultimately show ?thesis by blast
  qed
qed

text \<open>What a search finds in such a text.\<close>

lemma find_all_found:
  "find_all e n before cs = (ms, post) \<Longrightarrow> rx_only e P (word_before (before, cs)) (map fst cs) False \<Longrightarrow> token_rx e \<Longrightarrow>
    (gap, m) \<in> set ms \<Longrightarrow> P (map fst m) \<and> set m \<subseteq> set cs \<and> (\<forall>x \<in> set m. word_rune (fst x))"
proof (induction e n before cs arbitrary: ms post rule: find_all.induct)
  case (1 e n before cs)
  then obtain gap' m' after rest where n: "\<not> n \<le> 0" and nx: "rx_next e before cs = Some (gap', m', after, rest)"
    by (auto simp: find_all.simps [of e n before cs] split: if_splits option.splits prod.splits)
  note gf = gap_free [OF 1(4) nx] and acc = rx_next_accepts [OF nx]
  have len: "length rest < length cs" using gf(2) by auto
  obtain ms' where ms': "find_all e (n - 1) after rest = (ms', post)" "ms = (gap', m') # ms'"
    using 1(2) n nx len by (simp add: find_all.simps [of e n before cs] split: prod.splits)
  have cs: "map fst cs = map fst gap' @ map fst m' @ map fst rest" using acc(1) by simp
  have here: "P (map fst m')" using rx_onlyD [OF 1(3) [unfolded cs] acc(3)] .
  have "word_before (after, rest) = word_left (word_before (before, cs)) (map fst gap' @ map fst m')"
    using gf(2) by (simp add: word_left_def last_map)
  then have "rx_only e P (word_before (after, rest)) (map fst rest) False"
    using rx_only_suffix [of e P _ "map fst gap' @ map fst m'"] 1(3) unfolding cs by simp
  from 1(1) [OF n nx refl refl refl len ms'(1) this 1(4)] 1(5) here gf(2) acc(1) ms'(2) show ?case by auto
qed

text \<open>The runes of the returned text: matches start with ASCII, so does the marker.\<close>

lemma text_of_chunks: "text_of (chunks s) = s"
  by (simp add: text_of_def concat_chunks)

lemma chunk_prefix_unique:
  assumes "P @ Q = P' @ Q'" "text_of P = text_of P'" "\<forall>x \<in> set (P @ Q). snd x \<noteq> []"
  shows "P = P'"
proof -
  have no: "D = []" if "text_of (A @ D) = text_of A" "\<forall>x \<in> set D. snd x \<noteq> []" for A D :: "(rune \<times> string) list"
    using that by (cases D) (auto simp: text_of_def)
  from assms(1) obtain D where "P = P' @ D \<or> P' = P @ D" by (auto simp: append_eq_append_conv2)
  then show ?thesis
  proof
    assume p: "P = P' @ D"
    then have "D = []" using assms(2,3) by (intro no [of P']) auto
    with p show ?thesis by simp
  next
    assume p: "P' = P @ D"
    have "set D \<subseteq> set (P @ Q)" using assms(1) p by (metis append.assoc append_eq_append_conv set_append Un_iff subsetI)
    then have "D = []" using assms(2,3) p by (intro no [of P]) auto
    with p show ?thesis by simp
  qed
qed

lemma chunks_cut:
  assumes "chunks s = A @ x # B" "fst x < 128"
  shows "chunks (text_of A) = A" "chunks (text_of (x # B)) = x # B"
proof -
  have ne: "\<forall>y \<in> set (chunks s). snd y \<noteq> []" using chunks_nonempty [of _ _ s] by auto
  have "snd x = [chr (fst x)]" using chunk_rune_ascii [of "fst x" "snd x" s] assms by simp
  moreover have "0 \<le> fst x"
    using runes_valid [of "fst x" s] assms(1) by (auto simp: runes_def valid_rune_def)
  ultimately obtain c where c: "snd x = [c]" "byte c < 128" using assms(2) by auto
  have s: "s = text_of A @ c # text_of B"
    using text_of_chunks [of s] c(1) by (simp add: assms(1) text_of_def)
  have two: "chunks s = chunks (text_of A) @ chunks (c # text_of B)"
    unfolding s by (rule chunks_append_ascii [OF c(2)])
  have eq: "A @ x # B = chunks (text_of A) @ chunks (c # text_of B)" using two assms(1) by simp
  show a: "chunks (text_of A) = A"
    by (rule sym, rule chunk_prefix_unique [OF eq]) (use ne assms(1) in \<open>auto simp: text_of_chunks\<close>)
  from eq a have "chunks (c # text_of B) = x # B" by (metis same_append_eq)
  moreover have "text_of (x # B) = c # text_of B" using c(1) by (simp add: text_of_def)
  ultimately show "chunks (text_of (x # B)) = x # B" by (simp only:)
qed

lemma chunks_drop_ascii:
  "chunks (text_of (m @ rest)) = m @ rest \<Longrightarrow> \<forall>x \<in> set m. fst x < 128 \<Longrightarrow> chunks (text_of rest) = rest"
proof (induction m)
  case (Cons x m)
  have "(fst x, snd x) \<in> set (chunks (text_of ((x # m) @ rest)))" using Cons.prems(1) by simp
  from chunk_rune_ascii [OF this] Cons.prems(2) have b: "snd x = [chr (fst x)]" by simp
  have "fst x \<in> set (runes (text_of ((x # m) @ rest)))" using Cons.prems(1) by (auto simp: runes_def)
  from runes_valid [OF this] have "0 \<le> fst x" by (simp add: valid_rune_def)
  then have "byte (chr (fst x)) = fst x" using Cons.prems(2) by simp
  moreover have "text_of ((x # m) @ rest) = chr (fst x) # text_of (m @ rest)" using b by (simp add: text_of_def)
  ultimately have "chunks (text_of (m @ rest)) = m @ rest"
    using Cons.prems decode_rune_bytes(1) [of "fst x" "text_of (m @ rest)"] by simp
  with Cons.IH Cons.prems(2) show ?case by simp
qed simp

lemma chunks_ascii_append: "\<forall>c \<in> set mk. byte c < 128 \<Longrightarrow> map fst (chunks (mk @ t)) = map byte mk @ map fst (chunks t)"
proof (induction mk)
  case (Cons c mk)
  then show ?case using decode_rune_bytes(1) [of "byte c" "mk @ t"] by simp
qed simp

lemma word_ascii: "word_rune r \<Longrightarrow> r < 128"
  by (auto simp: word_rune_def in_range_def)

lemma word_chunks_text:
  assumes "set m \<subseteq> set (chunks s)" "\<forall>x \<in> set m. word_rune (fst x)"
  shows "text_of m = map chr (map fst m)" "\<forall>c \<in> set (text_of m). byte c < 128" "map byte (text_of m) = map fst m"
proof -
  have x: "snd x = [chr (fst x)] \<and> byte (chr (fst x)) = fst x \<and> fst x < 128" if "x \<in> set m" for x
  proof -
    have "(fst x, snd x) \<in> set (chunks s)" "fst x < 128" using that assms word_ascii by auto
    moreover have "0 \<le> fst x" using assms(2) that by (auto simp: word_rune_def in_range_def byte_def)
    ultimately show ?thesis using chunk_rune_ascii by simp
  qed
  then show "text_of m = map chr (map fst m)" by (induction m) (simp_all add: text_of_def)
  with x show "\<forall>c \<in> set (text_of m). byte c < 128" "map byte (text_of m) = map fst m" by (auto intro: map_idI)
qed

lemma find_all_runes:
  "find_all e n before cs = (ms, post) \<Longrightarrow> token_rx e \<Longrightarrow> chunks (text_of cs) = cs \<Longrightarrow>
    \<forall>c \<in> set mk. byte c < 128 \<Longrightarrow> mk \<noteq> [] \<Longrightarrow>
    map fst (chunks (concat (map (\<lambda>(gap, m). text_of gap @ (if keep m then text_of m else mk)) ms) @ text_of post))
      = redacted_runes keep (map byte mk) ms post"
proof (induction e n before cs arbitrary: ms post rule: find_all.induct)
  case (1 e n before cs)
  show ?case
  proof (cases "ms = []")
    case True
    moreover have "post = cs"
      using 1(2) True by (auto simp: find_all.simps [of e n before cs] split: if_splits option.splits prod.splits)
    ultimately show ?thesis using 1(4) by (simp add: redacted_runes_def)
  next
    case False
    then have n: "\<not> n \<le> 0" using 1(2) by (auto simp: find_all.simps [of e n before cs])
    then obtain gap m after rest where nx: "rx_next e before cs = Some (gap, m, after, rest)"
      using 1(2) False by (auto simp: find_all.simps [of e n before cs] split: option.splits)
    note gf = gap_free [OF 1(3) nx]
    have len: "length rest < length cs" using gf(2) by auto
    obtain ms' where ms': "find_all e (n - 1) after rest = (ms', post)" "ms = (gap, m) # ms'"
      using 1(2) n nx len by (simp add: find_all.simps [of e n before cs] split: prod.splits)
    obtain x m' where m: "m = x # m'" using gf(2) by (cases m) auto
    have asc: "\<forall>y \<in> set m. fst y < 128" using gf(2) word_ascii by blast
    have "chunks (text_of cs) = gap @ x # (m' @ rest)" using 1(4) gf(2) m by simp
    note cut = chunks_cut [OF this]
    have "chunks (text_of (m @ rest)) = m @ rest" using cut(2) asc m by simp
    then have rest: "chunks (text_of rest) = rest" by (rule chunks_drop_ascii [OF _ asc])
    let ?t = "concat (map (\<lambda>(gap, m). text_of gap @ (if keep m then text_of m else mk)) ms') @ text_of post"
    have ih: "map fst (chunks ?t) = redacted_runes keep (map byte mk) ms' post"
      by (rule 1(1) [OF n nx refl refl refl len ms'(1) 1(3) rest 1(5,6)])
    have "set m \<subseteq> set (chunks (text_of cs))" using 1(4) gf(2) by auto
    note tm = word_chunks_text [OF this]
    define r where "r = (if keep m then text_of m else mk)"
    have "text_of m \<noteq> []" using tm(1) gf(2) by auto
    with tm gf(2) 1(5,6) have r: "\<forall>c \<in> set r. byte c < 128" "r \<noteq> []" "map byte r = replaced keep (map byte mk) m"
      by (auto simp: r_def replaced_def)
    obtain c r' where c: "r = c # r'" "byte c < 128" using r by (cases r) auto
    have "chunks (text_of gap @ r @ ?t) = gap @ chunks (r @ ?t)"
      using chunks_append_ascii [OF c(2), of "text_of gap" "r' @ ?t"] cut(1) asc c(1) m by simp
    then show ?thesis
      using ih chunks_ascii_append [OF r(1), of ?t] r(3) by (simp add: ms'(2) redacted_runes_def r_def)
  qed
qed

text \<open>Redaction with a token expression leaves only tokens that the policy allows.\<close>

lemma redactPattern_only:
  assumes tok: "token_rx (rp_expression pat)" and mk: "separates (rp_expression pat) (map byte (marker pat))"
    and "\<forall>c \<in> set (marker pat). byte c < 128" and "\<not> rp_preservePrefix pat"
    and ok: "redactPattern p value pat = Inr out"
  shows "rx_only (rp_expression pat) (\<lambda>us. allowed p (map chr us)) False (map fst (chunks out)) False"
proof -
  let ?e = "rp_expression pat" and ?keep = "\<lambda>m. allowed p (text_of m)"
  obtain ms post where f: "find_all ?e (maxRedactionsPerMessage + 1) None (chunks value) = (ms, post)" by force
  have r: "redactedMatch p (text_of m) pat = (if ?keep m then text_of m else marker pat)" for m
    using assms(4) by (simp add: redactedMatch_def)
  have len: "int (length ms) < maxRedactionsPerMessage + 1" and
    out: "out = concat (map (\<lambda>(gap, m). text_of gap @ (if ?keep m then text_of m else marker pat)) ms) @ text_of post"
    using ok by (auto simp: redactPattern_def f r split: if_splits)
  have "rx_only ?e (\<lambda>_. True) (word_before (None, chunks value)) (map fst (chunks value)) False" by (simp add: rx_only_def)
  note found = find_all_found [OF f this tok]
  have kept: "\<forall>(gap, m) \<in> set ms. ?keep m \<longrightarrow> allowed p (map chr (map fst m))"
  proof (intro ballI, clarify)
    fix gap m assume "(gap, m) \<in> set ms" and k: "allowed p (text_of m)"
    with found have "set m \<subseteq> set (chunks value)" "\<forall>x \<in> set m. word_rune (fst x)" by blast+
    from word_chunks_text(1) [OF this] k show "allowed p (map chr (map fst m))" by simp
  qed
  have "map fst (chunks out) = redacted_runes ?keep (map byte (marker pat)) ms post"
    unfolding out by (rule find_all_runes [OF f tok _ assms(3)]) (simp_all add: text_of_chunks marker_def)
  with find_all_only [OF f tok mk len kept] show ?thesis by simp
qed

lemma redactPattern_found:
  assumes only: "rx_only e (\<lambda>us. allowed p (map chr us)) False (map fst (chunks out)) False" and tok: "token_rx e"
  shows "(gap, m) \<in> set (fst (find_all e n None (chunks out))) \<Longrightarrow> allowed p (text_of m)"
    "pl_allowedValues p = [] \<Longrightarrow> \<not> MatchString e out"
proof -
  have only': "rx_only e (\<lambda>us. allowed p (map chr us)) (word_before (None, chunks out)) (map fst (chunks out)) False"
    using only by simp
  show "allowed p (text_of m)" if m: "(gap, m) \<in> set (fst (find_all e n None (chunks out)))"
  proof -
    obtain ms post where f: "find_all e n None (chunks out) = (ms, post)" by force
    with m have "(gap, m) \<in> set ms" by simp
    note r = find_all_found [OF f only' tok this]
    from r word_chunks_text(1) [of m out] show ?thesis by simp
  qed
  show "\<not> MatchString e out" if "pl_allowedValues p = []"
    using only that by (simp add: MatchString_def rx_free_next rx_free_only allowed_def)
qed

end
