(* ===== verification/Glob_Props.thy ===== *)
theory Glob_Props
  imports Glob
begin

text \<open>
  A pattern is well-formed or not whatever it is matched against: a pattern that is accepted on the
  empty name never fails on any name.
\<close>

section \<open>Errors do not depend on the name\<close>

definition same_outcome :: "error + ('a \<times> string) \<Rightarrow> error + ('a \<times> string) \<Rightarrow> bool" where
  "same_outcome x y \<longleftrightarrow> (case (x, y) of (Inl _, Inl _) \<Rightarrow> True | (Inr (_, r), Inr (_, r')) \<Rightarrow> r = r' | _ \<Rightarrow> False)"

lemma class_ranges_outcome: "same_outcome (class_ranges chunk r m n) (class_ranges chunk r' m' n)"
proof (induction chunk r m n arbitrary: r' m' rule: class_ranges.induct)
  case (1 chunk r m n)
  show ?case
  proof (cases "chunk \<noteq> [] \<and> hd chunk = CHR '']'' \<and> n > 0")
    case True
    then show ?thesis by (simp add: same_outcome_def class_ranges.simps [of chunk])
  next
    case False
    note unf = class_ranges.simps [of chunk _ _ n, unfolded if_not_P [OF False]]
    show ?thesis
    proof (cases "getEsc chunk")
      case (Inl e)
      then show ?thesis by (simp add: same_outcome_def unf)
    next
      case (Inr x)
      obtain lo rest where x: "getEsc chunk = Inr (lo, rest)" using Inr by (cases x) auto
      show ?thesis
      proof (cases "hd rest = CHR ''-''")
        case no: False
        have "same_outcome (class_ranges rest r (m \<or> lo = r) (Suc n)) (class_ranges rest r' (m' \<or> lo = r') (Suc n))"
          by (rule 1(2) [OF False x refl no])
        with x no show ?thesis by (simp add: unf)
      next
        case True
        show ?thesis
        proof (cases "getEsc (tl rest)")
          case (Inl e)
          with x True show ?thesis by (simp add: same_outcome_def unf)
        next
          case (Inr y)
          obtain hi rest2 where y: "getEsc (tl rest) = Inr (hi, rest2)" using Inr by (cases y) auto
          have "same_outcome (class_ranges rest2 r (m \<or> lo \<le> r \<and> r \<le> hi) (Suc n)) (class_ranges rest2 r' (m' \<or> lo \<le> r' \<and> r' \<le> hi) (Suc n))"
            by (rule 1(1) [OF False x refl True y refl])
          with x True y show ?thesis by (simp add: unf)
        qed
      qed
    qed
  qed
qed

text \<open>One step of the chunk loop, by the kind of its first character.\<close>

definition class_body :: "string \<Rightarrow> string" where
  "class_body cs = (if cs \<noteq> [] \<and> hd cs = CHR ''^'' then tl cs else cs)"

lemma loop_class: "\<exists>r s' h. (f \<longrightarrow> (\<forall>m. h m)) \<and> matchChunk_loop (CHR ''['' # cs) s f =
    (case class_ranges (class_body cs) r False 0 of Inl e \<Rightarrow> Inl e | Inr (matched, rest) \<Rightarrow> matchChunk_loop rest s' (h matched))"
  unfolding matchChunk_loop.simps [of "CHR ''['' # cs"] Let_def list.case class_body_def if_P [OF refl]
  by (rule exI, rule exI, rule exI, rule conjI [rotated], rule refl) simp

lemma loop_plain:
  assumes "c \<noteq> CHR ''[''" "c \<noteq> CHR 0x5C"
  shows "\<exists>s' f'. (f \<longrightarrow> f') \<and> matchChunk_loop (c # cs) s f = matchChunk_loop cs s' f'"
proof (cases "c = CHR ''?''")
  case True
  show ?thesis
    unfolding matchChunk_loop.simps [of "c # cs"] Let_def list.case if_not_P [OF assms(1)] if_P [OF True]
    by (rule exI, rule exI, rule conjI [rotated], rule refl) simp
next
  case False
  show ?thesis
    unfolding matchChunk_loop.simps [of "c # cs"] Let_def list.case if_not_P [OF assms(1)] if_not_P [OF False] if_not_P [OF assms(2)]
    by (rule exI, rule exI, rule conjI [rotated], rule refl) simp
qed

lemma loop_escape_end: "matchChunk_loop [CHR 0x5C] s f = Inl bad_pattern"
  by (simp add: matchChunk_loop.simps [of "[CHR 0x5C]"])

lemma loop_escape: "\<exists>s' f'. (f \<longrightarrow> f') \<and> matchChunk_loop (CHR 0x5C # d # ds) s f = matchChunk_loop ds s' f'"
proof -
  have ne: "CHR 0x5C \<noteq> CHR ''[''" "CHR 0x5C \<noteq> CHR ''?''" by simp_all
  show ?thesis
    unfolding matchChunk_loop.simps [of "CHR 0x5C # d # ds"] Let_def list.case if_not_P [OF ne(1)] if_not_P [OF ne(2)] if_P [OF refl]
    by (rule exI, rule exI, rule conjI [rotated], rule refl) simp
qed

lemma matchChunk_outcome: "isl (matchChunk_loop chunk s f) \<longleftrightarrow> isl (matchChunk_loop chunk s' f')"
proof (induction chunk arbitrary: s f s' f' rule: length_induct)
  case (1 chunk)
  have step: "isl (matchChunk_loop rest s1 f1) \<longleftrightarrow> isl (matchChunk_loop rest [] False)" if "length rest < length chunk" for rest s1 f1
    using 1 that by blast
  have "isl (matchChunk_loop chunk s1 f1) \<longleftrightarrow>
      (case chunk of [] \<Rightarrow> False
       | c # cs \<Rightarrow>
           if c = CHR ''[''
           then (case class_ranges (class_body cs) 0 False 0 of Inl _ \<Rightarrow> True | Inr (_, rest) \<Rightarrow> isl (matchChunk_loop rest [] False))
           else if c = CHR 0x5C then (case cs of [] \<Rightarrow> True | d # ds \<Rightarrow> isl (matchChunk_loop ds [] False))
           else isl (matchChunk_loop cs [] False))" for s1 f1
  proof (cases chunk)
    case Nil
    then show ?thesis by (simp add: matchChunk_loop.simps)
  next
    case (Cons c cs)
    consider (cls) "c = CHR ''[''" | (esc) "c = CHR 0x5C" | (lit) "c \<noteq> CHR ''[''" "c \<noteq> CHR 0x5C" by auto
    then show ?thesis
    proof cases
      case cls
      obtain r s2 h where l: "matchChunk_loop chunk s1 f1 = (case class_ranges (class_body cs) r False 0 of Inl e \<Rightarrow> Inl e
          | Inr (matched, rest) \<Rightarrow> matchChunk_loop rest s2 (h matched))" using loop_class [of f1 cs s1] Cons cls by blast
      have out: "same_outcome (class_ranges (class_body cs) r False 0) (class_ranges (class_body cs) 0 False 0)" by (rule class_ranges_outcome)
      have len: "length (class_body cs) < length chunk" by (simp add: class_body_def Cons less_Suc_eq_le)
      show ?thesis
      proof (cases "class_ranges (class_body cs) r False 0")
        case (Inl e)
        with out l Cons cls show ?thesis by (auto simp: same_outcome_def split: sum.splits)
      next
        case (Inr x)
        then obtain m rest where x: "class_ranges (class_body cs) r False 0 = Inr (m, rest)" by (cases x) auto
        obtain m0 where "class_ranges (class_body cs) 0 False 0 = Inr (m0, rest)" using out x by (auto simp: same_outcome_def split: sum.splits)
        moreover have "length rest < length chunk" using class_ranges_shorter [OF x] len by simp
        ultimately show ?thesis using l x step [of rest s2 "h m"] Cons cls by simp
      qed
    next
      case esc
      show ?thesis
      proof (cases cs)
        case Nil
        with Cons esc show ?thesis by (simp add: loop_escape_end)
      next
        case ds: (Cons d ds)
        obtain s2 f2 where "matchChunk_loop chunk s1 f1 = matchChunk_loop ds s2 f2" using loop_escape [of f1 d ds s1] Cons esc ds by blast
        then show ?thesis using step [of ds s2 f2] Cons esc ds by simp
      qed
    next
      case lit
      then obtain s2 f2 where "matchChunk_loop chunk s1 f1 = matchChunk_loop cs s2 f2" using loop_plain [of c f1 cs s1] Cons by blast
      with lit Cons step [of cs s2 f2] show ?thesis by simp
    qed
  qed
  then show ?case by blast
qed

lemma loop_failed: "matchChunk_loop chunk s True = Inr y \<Longrightarrow> \<not> snd y"
proof (induction chunk arbitrary: s rule: length_induct)
  case (1 chunk)
  show ?case
  proof (cases chunk)
    case Nil
    with 1(2) show ?thesis by (auto simp: matchChunk_loop.simps)
  next
    case (Cons c cs)
    have step: "\<not> snd y" if "length rest < length chunk" "matchChunk_loop rest s1 True = Inr y" for rest s1
      using 1(1) that by blast
    consider (cls) "c = CHR ''[''" | (esc) "c = CHR 0x5C" | (lit) "c \<noteq> CHR ''[''" "c \<noteq> CHR 0x5C" by auto
    then show ?thesis
    proof cases
      case cls
      obtain r s2 h where h: "\<forall>m. h m" "matchChunk_loop chunk s True = (case class_ranges (class_body cs) r False 0 of Inl e \<Rightarrow> Inl e
          | Inr (matched, rest) \<Rightarrow> matchChunk_loop rest s2 (h matched))" using loop_class [of True cs s] Cons cls by blast
      with 1(2) obtain m rest where r: "class_ranges (class_body cs) r False 0 = Inr (m, rest)" "matchChunk_loop rest s2 (h m) = Inr y"
        by (cases "class_ranges (class_body cs) r False 0") auto
      have "length (class_body cs) < length chunk" by (simp add: class_body_def Cons less_Suc_eq_le)
      then have "length rest < length chunk" using class_ranges_shorter [OF r(1)] by linarith
      then show ?thesis by (rule step [of rest s2]) (use r(2) h(1) in simp)
    next
      case esc
      then obtain d ds where cs: "cs = d # ds" using 1(2) Cons by (cases cs) (auto simp: loop_escape_end)
      then obtain s2 where "matchChunk_loop chunk s True = matchChunk_loop ds s2 True" using loop_escape [of True d ds s] Cons esc by auto
      then have "matchChunk_loop ds s2 True = Inr y" using 1(2) by (simp only:)
      then show ?thesis by (rule step [rotated]) (simp add: Cons cs)
    next
      case lit
      then obtain s2 where "matchChunk_loop chunk s True = matchChunk_loop cs s2 True" using loop_plain [of c True cs s] Cons by auto
      then have "matchChunk_loop cs s2 True = Inr y" using 1(2) by (simp only:)
      then show ?thesis by (rule step [rotated]) (simp add: Cons)
    qed
  qed
qed

lemma matchChunk_bad: "isl (matchChunk chunk s) \<longleftrightarrow> isl (matchChunk chunk s')"
  unfolding matchChunk_def by (rule matchChunk_outcome)

lemma matchChunk_empty_name: "chunk \<noteq> [] \<Longrightarrow> matchChunk chunk [] = Inr y \<Longrightarrow> \<not> snd y"
proof -
  assume ne: "chunk \<noteq> []" and m: "matchChunk chunk [] = Inr y"
  have "matchChunk_loop chunk [] False = matchChunk_loop chunk [] True"
    using ne by (cases chunk) (simp_all add: matchChunk_loop.simps [of "_ # _"] Let_def)
  with m loop_failed show ?thesis by (simp add: matchChunk_def)
qed

section \<open>Well-formed patterns\<close>

lemma check_rest_step:
  "p \<noteq> [] \<Longrightarrow> scanChunk p = (star, chunk, rest) \<Longrightarrow> isl (check_rest p) \<longleftrightarrow> isl (matchChunk chunk s) \<or> isl (check_rest rest)"
  using matchChunk_bad [of chunk "[]" s]
  by (cases "matchChunk chunk []"; cases "matchChunk chunk s") (auto simp: check_rest.simps [of p])

lemma star_search_bad: "isl (star_search chunk final s) \<Longrightarrow> isl (matchChunk chunk s')"
proof (induction s)
  case (Cons c cs)
  show ?case
  proof (cases "matchChunk chunk cs")
    case (Inl e)
    then show ?thesis using matchChunk_bad [of chunk cs s'] by simp
  next
    case (Inr x)
    with Cons show ?thesis by (cases x) (auto split: if_splits)
  qed
qed simp

lemma Match_bad: "isl (filepath_Match p name) \<Longrightarrow> isl (check_rest p)"
proof (induction p name rule: filepath_Match.induct)
  case (1 p name)
  show ?case
  proof (cases "p = []")
    case True
    with 1(3) show ?thesis by (simp add: filepath_Match.simps)
  next
    case False
    obtain star chunk rest where c: "scanChunk p = (star, chunk, rest)" by (metis prod_cases3)
    note cr = check_rest_step [OF False c, of name]
    show ?thesis
    proof (rule ccontr)
      assume ok: "\<not> isl (check_rest p)"
      then obtain t b where m: "matchChunk chunk name = Inr (t, b)" using cr by (cases "matchChunk chunk name") auto
      have ns: "\<not> (star \<and> chunk = [])" using 1(3) False c by (auto simp: filepath_Match.simps [of p])
      have no: "\<not> isl (star_search chunk (rest = []) name)" using star_search_bad ok cr by blast
      show False
      proof (cases "b \<and> (t = [] \<or> rest \<noteq> [])")
        case True
        then have "isl (filepath_Match rest t)" using 1(3) False c ns m by (simp add: filepath_Match.simps [of p])
        with 1(1) [OF False c [symmetric] refl ns m refl True] ok cr show False by blast
      next
        case False
        with 1(3) \<open>p \<noteq> []\<close> c ns m ok cr no obtain t' where
          t': "star" "star_search chunk (rest = []) name = Inr (Some t')" "isl (filepath_Match rest t')"
          by (auto simp: filepath_Match.simps [of p] isl_def split: if_splits sum.splits option.splits)
        from 1(2) [OF \<open>p \<noteq> []\<close> c [symmetric] refl ns m refl False t'(1,2)] t'(3) ok cr show False by blast
      qed
    qed
  qed
qed

lemma scanChunk_only_stars:
  assumes "scanChunk p = (star, [], rest)" shows "rest = []"
proof -
  let ?q = "dropWhile (\<lambda>c. c = CHR ''*'') p"
  have b: "scan_chunk_body ?q False = ([], rest)" using assms by (auto simp: scanChunk_def Let_def split: prod.splits)
  show ?thesis
  proof (cases ?q)
    case Nil
    with b show ?thesis by simp
  next
    case (Cons c cs)
    have "c \<noteq> CHR ''*''" using hd_dropWhile [of "\<lambda>c. c = CHR ''*''" p] Cons by simp
    moreover have "scan_chunk_body (c # cs) False = ([], rest)" using b Cons by simp
    ultimately have False by (cases cs) (auto split: if_splits prod.splits)
    then show ?thesis ..
  qed
qed

lemma Match_empty_name: "isl (check_rest p) \<Longrightarrow> isl (filepath_Match p [])"
proof (cases "p = []")
  case False
  assume bad: "isl (check_rest p)"
  obtain star chunk rest where c: "scanChunk p = (star, chunk, rest)" by (metis prod_cases3)
  note cr = check_rest_step [OF False c, of "[]"]
  have ne: "chunk \<noteq> []"
  proof
    assume n: "chunk = []"
    then have "rest = []" using scanChunk_only_stars c by blast
    with bad cr n show False by (simp add: matchChunk_def matchChunk_loop.simps check_rest.simps isl_def)
  qed
  show ?thesis
  proof (cases "matchChunk chunk []")
    case (Inl e)
    with False c ne show ?thesis by (simp add: filepath_Match.simps [of p])
  next
    case (Inr x)
    have "\<not> snd x" by (rule matchChunk_empty_name [OF ne Inr])
    then have "isl (filepath_Match p []) \<longleftrightarrow> isl (check_rest rest)"
      using False c ne Inr by (cases x) (simp add: filepath_Match.simps [of p])
    with bad cr Inr show ?thesis by simp
  qed
qed (simp add: check_rest.simps)

theorem Match_total: "\<not> isl (filepath_Match p []) \<Longrightarrow> \<not> isl (filepath_Match p name)"
  using Match_bad Match_empty_name by blast

end
