(* ===== verification/Unmarshal.thy ===== *)
theory Unmarshal
  imports Json
begin

text \<open>
  \<open>encoding/json\<close> into Go structs.  A type error makes \<open>Unmarshal\<close> return an error, which every
  caller of the program treats as failure, so \<open>decodes\<close> says when there is none and the selectors
  read the result.  A key that occurs more than once is decoded again into the same field; a struct is
  therefore given by the list of the values decoded into it, in order.  Room that a slice keeps beyond
  its length is taken to be zeroed.
\<close>

section \<open>Types\<close>

datatype go_type = GoString | GoInt | GoBool | GoRaw | GoSlice go_type | GoStruct "(string \<times> go_type) list"

text \<open>An integer field takes a number without fraction and exponent in the range of 64 bits.\<close>

definition int_literal :: "string \<Rightarrow> int option" where
  "int_literal lit =
     (let ds = (if lit \<noteq> [] \<and> hd lit = CHR ''-'' then tl lit else lit);
          n = (if ds = lit then int (digits_value ds) else - int (digits_value ds)) in
      if ds = [] \<or> list_ex (\<lambda>c. byte c < 48 \<or> 57 < byte c) ds \<or> n < - (2 ^ 63) \<or> n \<ge> 2 ^ 63 then None else Some n)"

text \<open>Keys match a field exactly, or else up to simple case folding.\<close>

definition fold_letter :: "rune \<Rightarrow> rune" where
  "fold_letter r = (if 97 \<le> r \<and> r \<le> 122 then r - 32 else if r = 383 then 83 else if r = 8490 then 75 else r)"

definition fold_name :: "string \<Rightarrow> rune list" where
  "fold_name k = map fold_letter (runes k)"

definition match_field :: "(string \<times> 'a) list \<Rightarrow> string \<Rightarrow> (string \<times> 'a) option" where
  "match_field fs k =
     (case find (\<lambda>f. fst f = k) fs of Some f \<Rightarrow> Some f
      | None \<Rightarrow> find (\<lambda>f. fold_name (fst f) = fold_name k) fs)"

lemma member_size: "(k, v) \<in> set ms \<Longrightarrow> size v < size (JObject ms)"
  by (induction ms) auto

function decodes :: "go_type \<Rightarrow> json \<Rightarrow> bool" where
  "decodes t j =
     (case t of GoString \<Rightarrow> (case j of JString _ \<Rightarrow> True | JNull \<Rightarrow> True | _ \<Rightarrow> False)
      | GoInt \<Rightarrow> (case j of JNumber lit \<Rightarrow> int_literal lit \<noteq> None | JNull \<Rightarrow> True | _ \<Rightarrow> False)
      | GoBool \<Rightarrow> (case j of JBool _ \<Rightarrow> True | JNull \<Rightarrow> True | _ \<Rightarrow> False)
      | GoRaw \<Rightarrow> True
      | GoSlice u \<Rightarrow> (case j of JArray vs \<Rightarrow> list_all (decodes u) vs | JNull \<Rightarrow> True | _ \<Rightarrow> False)
      | GoStruct fs \<Rightarrow>
          (case j of JObject ms \<Rightarrow>
              list_all (\<lambda>kv. case match_field fs (fst kv) of None \<Rightarrow> True | Some f \<Rightarrow> decodes (snd f) (snd kv)) ms
            | JNull \<Rightarrow> True | _ \<Rightarrow> False))"
  by pat_completeness auto
termination
  by (relation "measure (\<lambda>(t, j). size j)")
    (use member_size in \<open>auto simp: less_Suc_eq_le size_list_estimation'\<close>)

declare decodes.simps [simp del]

section \<open>Fields\<close>

definition field_values :: "(string \<times> go_type) list \<Rightarrow> string \<Rightarrow> json list \<Rightarrow> json list" where
  "field_values fs name js =
     concat (map (\<lambda>j. case j of JObject ms \<Rightarrow> map snd (filter (\<lambda>kv. map_option fst (match_field fs (fst kv)) = Some name) ms)
                      | _ \<Rightarrow> []) js)"

definition string_value :: "json list \<Rightarrow> string" where
  "string_value js = fold (\<lambda>j acc. case j of JString s \<Rightarrow> s | _ \<Rightarrow> acc) js []"

definition int_value :: "json list \<Rightarrow> int" where
  "int_value js = fold (\<lambda>j acc. case j of JNumber lit \<Rightarrow> (case int_literal lit of Some n \<Rightarrow> n | None \<Rightarrow> acc) | _ \<Rightarrow> acc) js 0"

definition bool_value :: "json list \<Rightarrow> bool" where
  "bool_value js = fold (\<lambda>j acc. case j of JBool b \<Rightarrow> b | _ \<Rightarrow> acc) js False"

text \<open>What a pointer field points to; it is nil if there is nothing left.\<close>

definition pointer_values :: "json list \<Rightarrow> json list" where
  "pointer_values js = fold (\<lambda>j acc. if j = JNull then [] else acc @ [j]) js []"

text \<open>The elements of a slice, each with the values decoded into it.\<close>

definition slice_step :: "json \<Rightarrow> json list list \<Rightarrow> json list list" where
  "slice_step j acc =
     (case j of JArray vs \<Rightarrow> map (\<lambda>i. (if i < length acc then acc ! i else []) @ [vs ! i]) [0..<length vs]
      | JNull \<Rightarrow> [] | _ \<Rightarrow> acc)"

definition slice_values :: "json list \<Rightarrow> json list list" where
  "slice_values js = fold slice_step js []"

definition Unmarshal_struct :: "(string \<times> go_type) list \<Rightarrow> string \<Rightarrow> json list option" where
  "Unmarshal_struct fs s =
     (case json_parse s of None \<Rightarrow> None | Some j \<Rightarrow> if decodes (GoStruct fs) j then Some [j] else None)"

text \<open>
  The members of the outermost object with the text of each value, for \<open>RawMessage\<close> fields.  The
  text is a valid document, so every step succeeds; the fuel is its length.
\<close>

fun raw_members :: "nat \<Rightarrow> string \<Rightarrow> (string \<times> string) list" where
  "raw_members 0 s = []"
| "raw_members (Suc n) s =
     (case skip_ws s of [] \<Rightarrow> []
      | q # qs \<Rightarrow>
          (case scan_string qs of None \<Rightarrow> []
           | Some (k, r) \<Rightarrow>
               let v = skip_ws (tl (skip_ws r)) in
               (case parse_value (2 * length v + 2) 1 v of None \<Rightarrow> []
                | Some (_, r2) \<Rightarrow>
                    (unquote k, take (length v - length r2) v)
                      # (case skip_ws r2 of [] \<Rightarrow> []
                         | e # es \<Rightarrow> if e = CHR '','' then raw_members n es else []))))"

definition object_text :: "string \<Rightarrow> (string \<times> string) list" where
  "object_text s =
     (case skip_ws s of [] \<Rightarrow> []
      | c # cs \<Rightarrow> if c = CHR ''{'' \<and> skip_ws cs \<noteq> [] \<and> hd (skip_ws cs) \<noteq> CHR ''}'' then raw_members (length s) cs else [])"

definition raw_value :: "(string \<times> go_type) list \<Rightarrow> string \<Rightarrow> string \<Rightarrow> string" where
  "raw_value fs name s =
     fold (\<lambda>kv acc. if map_option fst (match_field fs (fst kv)) = Some name then snd kv else acc) (object_text s) []"

end
