(* ===== verification/Transcript.thy ===== *)
theory Transcript
  imports Service Summarize Privacy Unmarshal
begin

text \<open>
  \<open>internal/agents/transcript.go\<close>: assistant text from the transcripts of the host agents.  A Claude
  Code line stands for itself; a Codex rollout is read by a small state machine that keeps the last
  assistant message of the running turn.  The zstd decoder is a parameter: it fails to start, or gives
  the text it decodes and the error its stream ends with.
\<close>

section \<open>The records of a transcript\<close>

definition transcriptScanBuffer :: nat where "transcriptScanBuffer = 16 * 1024 * 1024"

definition transcriptMaxLines :: int where "transcriptMaxLines = 100000"

record transcript_report =
  tr_Lines :: int
  tr_Malformed :: int
  tr_Assistant :: int
  tr_LimitReached :: bool

definition textContent :: "(string \<times> go_type) list" where
  "textContent = [(''type'', GoString), (''text'', GoString)]"

definition transcriptMessageFields :: "(string \<times> go_type) list" where
  "transcriptMessageFields = [(''role'', GoString), (''content'', GoSlice (GoStruct textContent))]"

definition transcriptLine :: "(string \<times> go_type) list" where
  "transcriptLine = [(''type'', GoString), (''uuid'', GoString), (''message'', GoStruct transcriptMessageFields)]"

definition codexPayload :: "(string \<times> go_type) list" where
  "codexPayload = [(''type'', GoString), (''role'', GoString), (''id'', GoString), (''content'', GoSlice (GoStruct textContent))]"

definition codexTranscriptLine :: "(string \<times> go_type) list" where
  "codexTranscriptLine = [(''type'', GoString), (''payload'', GoStruct codexPayload)]"

definition codexEvent :: "(string \<times> go_type) list" where
  "codexEvent = [(''type'', GoString), (''turn_id'', GoString)]"

definition codexEventLine :: "(string \<times> go_type) list" where
  "codexEventLine = [(''type'', GoString), (''payload'', GoStruct codexEvent)]"

definition codexEnvelope :: "(string \<times> go_type) list" where
  "codexEnvelope = [(''type'', GoString)]"

abbreviation string_field :: "(string \<times> go_type) list \<Rightarrow> string \<Rightarrow> json list \<Rightarrow> string" where
  "string_field fs name js \<equiv> string_value (field_values fs name js)"

section \<open>One record\<close>

text \<open>What parsing a record gives: a message to keep, nothing, or a malformed line.\<close>

datatype parsed = Message ingest_message | Irrelevant | Malformed

definition textParts :: "json list list \<Rightarrow> string list" where
  "textParts content =
     map (string_field textContent ''text'')
       (filter (\<lambda>item. (string_field textContent ''type'' item = ''text'' \<or> string_field textContent ''type'' item = ''output_text'')
                 \<and> string_field textContent ''text'' item \<noteq> []) content)"

definition assistant_message :: "string \<Rightarrow> string \<Rightarrow> ingest_message" where
  "assistant_message content externalID =
     \<lparr>im_Role = RoleAssistant, im_Content = content, im_ToolName = [], im_ExternalID = externalID, im_Raw = []\<rparr>"

definition transcriptMessage :: "hash \<Rightarrow> string list \<Rightarrow> string \<Rightarrow> string \<Rightarrow> parsed" where
  "transcriptMessage H parts externalID raw =
     (if parts = [] then Irrelevant
      else Message (assistant_message (Join parts [CHR 0x0A])
             (if externalID = [] then ''transcript-'' @ H raw else externalID)))"

definition parseClaudeTranscriptLine :: "hash \<Rightarrow> string \<Rightarrow> parsed" where
  "parseClaudeTranscriptLine H raw =
     (case Unmarshal_struct transcriptLine raw of None \<Rightarrow> Malformed
      | Some line \<Rightarrow>
          let message = field_values transcriptLine ''message'' line in
          if string_field transcriptLine ''type'' line \<noteq> ''assistant''
             \<or> string_field transcriptMessageFields ''role'' message \<noteq> ''assistant'' then Irrelevant
          else transcriptMessage H (textParts (slice_values (field_values transcriptMessageFields ''content'' message)))
                 (string_field transcriptLine ''uuid'' line) raw)"

section \<open>The state machine of a Codex rollout\<close>

record codex_state =
  cx_turnID :: string
  cx_pending :: ingest_message

definition no_message :: ingest_message where
  "no_message = \<lparr>im_Role = [], im_Content = [], im_ToolName = [], im_ExternalID = [], im_Raw = []\<rparr>"

definition codex_start :: codex_state where
  "codex_start = \<lparr>cx_turnID = [], cx_pending = no_message\<rparr>"

definition codex_finish :: "codex_state \<Rightarrow> ingest_message option \<times> codex_state" where
  "codex_finish st =
     (if im_Content (cx_pending st) = [] then (None, st)
      else (Some (if cx_turnID st \<noteq> [] then (cx_pending st)\<lparr>im_ExternalID := cx_turnID st\<rparr> else cx_pending st),
            \<lparr>cx_turnID = [], cx_pending = no_message\<rparr>))"

definition finishResult :: "codex_state \<Rightarrow> parsed \<times> codex_state" where
  "finishResult st = (case codex_finish st of (None, st') \<Rightarrow> (Irrelevant, st') | (Some m, st') \<Rightarrow> (Message m, st'))"

definition consumeEvent :: "string \<Rightarrow> codex_state \<Rightarrow> parsed \<times> codex_state" where
  "consumeEvent raw st =
     (case Unmarshal_struct codexEventLine raw of None \<Rightarrow> (Malformed, st)
      | Some line \<Rightarrow>
          let payload = field_values codexEventLine ''payload'' line; kind = string_field codexEvent ''type'' payload in
          if kind = ''task_started''
          then (Irrelevant, st\<lparr>cx_turnID := string_field codexEvent ''turn_id'' payload, cx_pending := no_message\<rparr>)
          else if kind = ''task_complete'' then finishResult st
          else (Irrelevant, st))"

definition consumeResponse :: "hash \<Rightarrow> string \<Rightarrow> codex_state \<Rightarrow> parsed \<times> codex_state" where
  "consumeResponse H raw st =
     (case Unmarshal_struct codexTranscriptLine raw of None \<Rightarrow> (Malformed, st)
      | Some line \<Rightarrow>
          let payload = field_values codexTranscriptLine ''payload'' line in
          if string_field codexTranscriptLine ''type'' line \<noteq> ''response_item''
             \<or> string_field codexPayload ''type'' payload \<noteq> ''message''
             \<or> string_field codexPayload ''role'' payload \<noteq> ''assistant'' then (Irrelevant, st)
          else case transcriptMessage H (textParts (slice_values (field_values codexPayload ''content'' payload)))
                      (string_field codexPayload ''id'' payload) raw of
            Message m \<Rightarrow> (Irrelevant, st\<lparr>cx_pending := m\<rparr>)
          | Irrelevant \<Rightarrow> (Irrelevant, st)
          | Malformed \<Rightarrow> (Malformed, st))"

definition codex_consume :: "hash \<Rightarrow> string \<Rightarrow> codex_state \<Rightarrow> parsed \<times> codex_state" where
  "codex_consume H raw st =
     (case Unmarshal_struct codexEnvelope raw of None \<Rightarrow> (Malformed, st)
      | Some envelope \<Rightarrow>
          let kind = string_field codexEnvelope ''type'' envelope in
          if kind = ''event_msg'' then consumeEvent raw st
          else if kind = ''response_item'' then consumeResponse H raw st
          else (Irrelevant, st))"

definition parseTranscriptRecord :: "hash \<Rightarrow> agent \<Rightarrow> string \<Rightarrow> codex_state \<Rightarrow> parsed \<times> codex_state" where
  "parseTranscriptRecord H agent raw st =
     (if agent = AgentClaude then (parseClaudeTranscriptLine H raw, st)
      else if agent = AgentCodex then codex_consume H raw st
      else (Irrelevant, st))"

section \<open>The whole transcript\<close>

text \<open>
  The scan keeps the messages found so far, the report and the Codex state.  It ends at the end of
  the text, with the error of the scanner, or at the limit on lines.
\<close>

record transcript_scan =
  ts_out :: "ingest_message list"
  ts_report :: transcript_report
  ts_codex :: codex_state

definition count_line :: "transcript_scan \<Rightarrow> transcript_scan" where
  "count_line s = s\<lparr>ts_report := (ts_report s)\<lparr>tr_Lines := tr_Lines (ts_report s) + 1\<rparr>\<rparr>"

definition keep_message :: "ingest_message \<Rightarrow> transcript_scan \<Rightarrow> transcript_scan" where
  "keep_message m s = s\<lparr>ts_out := ts_out s @ [m], ts_report := (ts_report s)\<lparr>tr_Assistant := tr_Assistant (ts_report s) + 1\<rparr>\<rparr>"

definition scan_record :: "hash \<Rightarrow> agent \<Rightarrow> string \<Rightarrow> transcript_scan \<Rightarrow> transcript_scan" where
  "scan_record H agent raw s =
     (if raw = [] then count_line s
      else case parseTranscriptRecord H agent raw (ts_codex s) of (p, st) \<Rightarrow>
        let s' = (count_line s)\<lparr>ts_codex := st\<rparr> in
        (case p of Malformed \<Rightarrow> s'\<lparr>ts_report := (ts_report s')\<lparr>tr_Malformed := tr_Malformed (ts_report s') + 1\<rparr>\<rparr>
         | Irrelevant \<Rightarrow> s'
         | Message m \<Rightarrow> keep_message m s'))"

function scan_transcript :: "hash \<Rightarrow> agent \<Rightarrow> error option \<Rightarrow> string \<Rightarrow> transcript_scan \<Rightarrow> error + transcript_scan" where
  "scan_transcript H agent endErr text s =
     (case scan_line transcriptScanBuffer endErr text of
        ScanEnd None \<Rightarrow> Inr s
      | ScanEnd (Some e) \<Rightarrow> Inl (ErrWrap ''agents: read transcript'' e)
      | ScanLine raw rest \<Rightarrow>
          if tr_Lines (ts_report s) = transcriptMaxLines
          then Inr (s\<lparr>ts_report := (ts_report s)\<lparr>tr_LimitReached := True\<rparr>\<rparr>)
          else scan_transcript H agent endErr rest (scan_record H agent raw s))"
  by pat_completeness auto
termination
  by (relation "measure (\<lambda>(H, agent, e, text, s). length text)")
    (auto simp: scan_line_def Let_def split: if_splits)

declare scan_transcript.simps [simp del]

definition scan_start :: transcript_scan where
  "scan_start = \<lparr>ts_out = [], ts_report = \<lparr>tr_Lines = 0, tr_Malformed = 0, tr_Assistant = 0, tr_LimitReached = False\<rparr>,
     ts_codex = codex_start\<rparr>"

definition finish_scan :: "agent \<Rightarrow> transcript_scan \<Rightarrow> ingest_message list \<times> transcript_report" where
  "finish_scan agent s =
     (case codex_finish (ts_codex s) of
        (Some m, st) \<Rightarrow> if agent = AgentCodex then (ts_out (keep_message m s), ts_report (keep_message m s)) else (ts_out s, ts_report s)
      | (None, st) \<Rightarrow> (ts_out s, ts_report s))"

definition archivedRolloutPath :: "string \<Rightarrow> string option" where
  "archivedRolloutPath path =
     (let sessions = path_Dir (path_Dir (path_Dir (path_Dir path))) in
      if path_Base sessions \<noteq> ''sessions'' then None
      else Some (path_Join [path_Dir sessions, ''archived_sessions'', path_Base path]))"

definition codexRolloutCandidates :: "string \<Rightarrow> string list" where
  "codexRolloutCandidates path =
     [path, path @ ''.zst'']
     @ (case archivedRolloutPath path of None \<Rightarrow> [] | Some archived \<Rightarrow> [archived, archived @ ''.zst''])"

type_synonym zstd_decoder = "string \<Rightarrow> error + (string \<times> error option)"

definition HasSuffix :: "string \<Rightarrow> string \<Rightarrow> bool" where
  "HasSuffix s t \<longleftrightarrow> HasPrefix (rev s) (rev t)"

definition os_Open :: "string \<Rightarrow> (world, string) prog" where
  "os_Open path = bindE (driver ''open'') (\<lambda>_ w. (case w_files w path of None \<Rightarrow> Inl not_exist | Some content \<Rightarrow> Inr content, w))"

definition newZstdReadCloser :: "zstd_decoder \<Rightarrow> string \<Rightarrow> string \<Rightarrow> error + (string \<times> error option)" where
  "newZstdReadCloser zstd name content =
     (case zstd content of Inl e \<Rightarrow> Inl (ErrWrap (''decode '' @ name) e) | Inr r \<Rightarrow> Inr r)"

text \<open>A file that is open for reading: its text, and the error the last read ends with.\<close>

fun open_candidates :: "zstd_decoder \<Rightarrow> string \<Rightarrow> string list \<Rightarrow> (world, string \<times> error option) prog" where
  "open_candidates zstd path [] = fail (ErrWrap path not_exist)"
| "open_candidates zstd path (c # cs) =
     bindE (tryE (os_Open c)) (\<lambda>r. case r of
         Inl e \<Rightarrow> if errors_Is e not_exist then open_candidates zstd path cs else fail e
       | Inr content \<Rightarrow>
           if \<not> HasSuffix c ''.zst''
           then bindE (tryE (driver ''read'')) (\<lambda>x. ret (content, case x of Inl e \<Rightarrow> Some e | Inr _ \<Rightarrow> None))
           else case newZstdReadCloser zstd c content of Inl e \<Rightarrow> fail e | Inr z \<Rightarrow> ret z)"

definition openTranscript :: "zstd_decoder \<Rightarrow> agent \<Rightarrow> string \<Rightarrow> (world, string \<times> error option) prog" where
  "openTranscript zstd agent path =
     open_candidates zstd path (if agent = AgentCodex then codexRolloutCandidates path else [path])"

definition ReconcileTranscriptAssistant ::
  "hash \<Rightarrow> zstd_decoder \<Rightarrow> agent \<Rightarrow> string \<Rightarrow> (world, ingest_message list \<times> transcript_report) prog" where
  "ReconcileTranscriptAssistant H zstd agent path =
     bindE (wrapE ''agents: open transcript'' (openTranscript zstd agent path)) (\<lambda>(text, endErr).
       case scan_transcript H agent endErr text scan_start of
         Inl e \<Rightarrow> fail e
       | Inr s \<Rightarrow> ret (finish_scan agent s))"

end
