(* ===== verification/Capture.thy ===== *)
theory Capture
  imports Transcript Recall
begin

text \<open>
  \<open>internal/agents/capture.go\<close>: what an event of a host agent adds to the store.  The end of
  \<open>internal/agents/recall.go\<close>: the JSON a hook prints to inject context.
\<close>

section \<open>Hook payloads\<close>

definition EventUserPromptSubmit :: string where "EventUserPromptSubmit = ''UserPromptSubmit''"
definition EventPostToolUse :: string where "EventPostToolUse = ''PostToolUse''"
definition EventStop :: string where "EventStop = ''Stop''"
definition EventSessionStart :: string where "EventSessionStart = ''SessionStart''"
definition EventTurnComplete :: string where "EventTurnComplete = ''agent-turn-complete''"

definition rawHookFields :: "(string \<times> go_type) list" where
  "rawHookFields =
     [(''session_id'', GoString), (''thread-id'', GoString), (''turn-id'', GoString), (''turn_id'', GoString),
      (''tool_use_id'', GoString), (''cwd'', GoString), (''prompt'', GoString), (''tool_name'', GoString),
      (''tool_input'', GoRaw), (''tool_response'', GoRaw), (''tool_output'', GoRaw), (''transcript_path'', GoString),
      (''last-assistant-message'', GoString), (''input-messages'', GoSlice GoString)]"

record raw_hook =
  rk_SessionID :: string
  rk_ThreadID :: string
  rk_TurnID :: string
  rk_HookTurnID :: string
  rk_ToolUseID :: string
  rk_Cwd :: string
  rk_Prompt :: string
  rk_ToolName :: string
  rk_ToolInput :: string
  rk_ToolResponse :: string
  rk_ToolOutput :: string
  rk_TranscriptPath :: string
  rk_LastAssistantMessage :: string
  rk_InputMessages :: "string list"

definition parse_hook :: "string \<Rightarrow> raw_hook option" where
  "parse_hook payload =
     (case Unmarshal_struct rawHookFields payload of None \<Rightarrow> None
      | Some h \<Rightarrow>
          let text = (\<lambda>name. string_value (field_values rawHookFields name h)); raw = (\<lambda>name. raw_value rawHookFields name payload) in
          Some \<lparr>rk_SessionID = text ''session_id'', rk_ThreadID = text ''thread-id'', rk_TurnID = text ''turn-id'',
             rk_HookTurnID = text ''turn_id'', rk_ToolUseID = text ''tool_use_id'', rk_Cwd = text ''cwd'', rk_Prompt = text ''prompt'',
             rk_ToolName = text ''tool_name'', rk_ToolInput = raw ''tool_input'', rk_ToolResponse = raw ''tool_response'',
             rk_ToolOutput = raw ''tool_output'', rk_TranscriptPath = text ''transcript_path'',
             rk_LastAssistantMessage = text ''last-assistant-message'',
             rk_InputMessages = map string_value (slice_values (field_values rawHookFields ''input-messages'' h))\<rparr>)"

section \<open>Messages of an event\<close>

definition inputMessageID :: "string \<Rightarrow> int \<Rightarrow> string" where
  "inputMessageID turnID index = (if turnID = [] then [] else turnID @ '':input:'' @ itoa index)"

definition toolOutput :: "raw_hook \<Rightarrow> string" where
  "toolOutput h = (if rk_ToolResponse h \<noteq> [] then rk_ToolResponse h else rk_ToolOutput h)"

definition formatTool :: "string \<Rightarrow> string \<Rightarrow> string \<Rightarrow> string" where
  "formatTool name input output =
     ''[tool '' @ name @ '']'' @ [CHR 0x0A] @ ''input: '' @ (if input \<noteq> [] then input else ''{}'') @ [CHR 0x0A] @ ''output: '' @ output"

fun firstNonEmpty :: "string list \<Rightarrow> string" where
  "firstNonEmpty [] = []"
| "firstNonEmpty (v # vs) = (if v \<noteq> [] then v else firstNonEmpty vs)"

definition prompt_messages :: "raw_hook \<Rightarrow> string \<Rightarrow> ingest_message list" where
  "prompt_messages h payload =
     (if rk_Prompt h = [] then []
      else [\<lparr>im_Role = RoleUser, im_Content = rk_Prompt h, im_ToolName = [],
              im_ExternalID = inputMessageID (firstNonEmpty [rk_HookTurnID h, rk_TurnID h]) 0, im_Raw = payload\<rparr>])"

definition tool_messages :: "raw_hook \<Rightarrow> string \<Rightarrow> ingest_message list" where
  "tool_messages h payload =
     (if rk_ToolName h = [] then []
      else [\<lparr>im_Role = RoleTool, im_Content = formatTool (rk_ToolName h) (rk_ToolInput h) (toolOutput h),
              im_ToolName = rk_ToolName h, im_ExternalID = rk_ToolUseID h, im_Raw = payload\<rparr>])"

definition turn_inputs :: "raw_hook \<Rightarrow> ingest_message list" where
  "turn_inputs h =
     map (\<lambda>(i, m). \<lparr>im_Role = RoleUser, im_Content = m, im_ToolName = [],
            im_ExternalID = inputMessageID (rk_TurnID h) (int i), im_Raw = []\<rparr>)
       (filter (\<lambda>(i, m). m \<noteq> []) (enumerate 0 (rk_InputMessages h)))"

definition turn_messages :: "raw_hook \<Rightarrow> ingest_message list" where
  "turn_messages h =
     turn_inputs h
     @ (if rk_LastAssistantMessage h = [] then [] else [assistant_message (rk_LastAssistantMessage h) (rk_TurnID h)])"

definition agent_Capture :: "hash \<Rightarrow> zstd_decoder \<Rightarrow> agent \<Rightarrow> string \<Rightarrow> string \<Rightarrow> (world, ingest_request) prog" where
  "agent_Capture H zstd agent event payload =
     (case parse_hook payload of
        None \<Rightarrow> fail (Errorf ''agents: parse hook payload'' [])
      | Some h \<Rightarrow>
          let request = (\<lambda>messages. \<lparr>iq_Agent = agent, iq_SessionID = firstNonEmpty [rk_SessionID h, rk_ThreadID h],
                                     iq_Title = [], iq_Messages = messages\<rparr>) in
          if event = EventUserPromptSubmit then ret (request (prompt_messages h payload))
          else if event = EventPostToolUse then ret (request (tool_messages h payload))
          else if event = EventStop
          then (if rk_TranscriptPath h = [] then ret (request [])
                else bindE (ReconcileTranscriptAssistant H zstd agent (rk_TranscriptPath h)) (\<lambda>r. ret (request (fst r))))
          else if event = EventTurnComplete then ret (request (turn_messages h))
          else ret (request []))"

section \<open>Injected context\<close>

text \<open>\<open>json.Marshal\<close> of the two nested structs; strings are all it has to encode.\<close>

definition AdditionalContextJSON :: "string \<Rightarrow> string \<Rightarrow> string" where
  "AdditionalContextJSON event context =
     ''{'' @ marshal_string ''hookSpecificOutput'' @ '':{'' @ marshal_string ''hookEventName'' @ '':'' @ marshal_string event
       @ '','' @ marshal_string ''additionalContext'' @ '':'' @ marshal_string context @ ''}}''"

end
