(* ===== verification/Json_Encode.thy ===== *)
theory Json_Encode
  imports Json
begin

text \<open>
  What \<open>json.Marshal\<close> writes for a string is read back as that string, with ill-formed UTF-8
  replaced by U+FFFD.
\<close>

section \<open>Decoded runes encode to their bytes\<close>

lemma base64_digits: "0 \<le> y \<Longrightarrow> y < 64 \<Longrightarrow> (x * 64 + y) div 64 = x \<and> (x * 64 + y) mod 64 = y" for x y :: int
  by auto

lemma encode_two: "2 \<le> x \<Longrightarrow> x < 32 \<Longrightarrow> 0 \<le> y \<Longrightarrow> y < 64 \<Longrightarrow> encode_rune (x * 64 + y) = [chr (192 + x), chr (128 + y)]"
  using base64_digits [of y x] by (simp add: encode_rune_def valid_rune_def in_range_def)

lemma encode_three:
  assumes "0 \<le> x" "x < 16" "0 \<le> y" "y < 64" "0 \<le> z" "z < 64" "x = 0 \<longrightarrow> 32 \<le> y" "x = 13 \<longrightarrow> y < 32"
  shows "encode_rune ((x * 64 + y) * 64 + z) = [chr (224 + x), chr (128 + y), chr (128 + z)]"
proof -
  define r where "r = (x * 64 + y) * 64 + z"
  have r: "r div 64 = x * 64 + y" "r mod 64 = z" unfolding r_def using base64_digits [OF assms(5,6)] by blast+
  have d: "r div 4096 = r div 64 div 64" using zdiv_zmult2_eq [of 64 r 64] by simp
  have rr: "r = 4096 * x + 64 * y + z" by (simp add: r_def algebra_simps)
  have "2048 \<le> r" using assms unfolding rr by (cases "x = 0") simp_all
  moreover have "r < 65536" using assms unfolding rr by linarith
  moreover have "\<not> in_range 55296 57343 r"
  proof -
    consider "x \<le> 12" | "x = 13" "y < 32" | "14 \<le> x" using assms(8) by linarith
    then show ?thesis using assms(3-6) unfolding rr in_range_def by cases linarith+
  qed
  ultimately show ?thesis
    unfolding r_def [symmetric] using r d base64_digits [OF assms(3,4)] by (simp add: encode_rune_def valid_rune_def)
qed

lemma encode_four:
  assumes "0 \<le> x" "x \<le> 4" "0 \<le> y" "y < 64" "0 \<le> z" "z < 64" "0 \<le> u" "u < 64" "x = 0 \<longrightarrow> 16 \<le> y" "x = 4 \<longrightarrow> y < 16"
  shows "encode_rune (((x * 64 + y) * 64 + z) * 64 + u) = [chr (240 + x), chr (128 + y), chr (128 + z), chr (128 + u)]"
proof -
  define r where "r = ((x * 64 + y) * 64 + z) * 64 + u"
  have r: "r div 64 = (x * 64 + y) * 64 + z" "r mod 64 = u" unfolding r_def using base64_digits [OF assms(7,8)] by blast+
  have "r div 4096 = r div 64 div 64" "r div 262144 = r div 64 div 64 div 64"
    using zdiv_zmult2_eq [of 64 r 64] zdiv_zmult2_eq [of 64 r 4096] zdiv_zmult2_eq [of 64 "r div 64" 64] by simp_all
  then have q: "r div 262144 = x" "r div 4096 mod 64 = y" "r div 64 mod 64 = z"
    using base64_digits [OF assms(5,6), of "x * 64 + y"] base64_digits [OF assms(3,4), of x] by (simp_all only: r(1))
  have rr: "r = 262144 * x + 4096 * y + 64 * z + u" by (simp add: r_def algebra_simps)
  have low: "65536 \<le> r" using assms unfolding rr by (cases "x = 0") simp_all
  have high: "r \<le> 1114111"
  proof -
    consider "x \<le> 3" | "x = 4" "y < 16" using assms(2,10) by linarith
    then show ?thesis using assms(3-8) unfolding rr by cases linarith+
  qed
  have valid: "valid_rune r" using low high by (simp add: valid_rune_def in_range_def)
  have "encode_rune r = [chr (240 + r div 262144), chr (128 + r div 4096 mod 64), chr (128 + r div 64 mod 64), chr (128 + r mod 64)]"
    using low by (simp only: encode_rune_def valid Let_def if_True) simp
  then show ?thesis by (simp only: q r(2) r_def [symmetric])
qed

lemma decode_rune_multibyte:
  assumes "decode_rune (byte c) rest = (r, k)" "k \<noteq> 0"
  shows "c # take k rest = encode_rune r"
proof -
  from assms consider
    (two) c1 r1 where "rest = c1 # r1" "k = 1" "194 \<le> byte c" "byte c < 224" "128 \<le> byte c1" "byte c1 \<le> 191"
      "r = (byte c - 192) * 64 + (byte c1 - 128)"
    | (three) c1 c2 r2 where "rest = c1 # c2 # r2" "k = 2" "224 \<le> byte c" "byte c < 240"
      "in_range (if byte c = 224 then 160 else 128) (if byte c = 237 then 159 else 191) (byte c1)" "in_range 128 191 (byte c2)"
      "r = (byte c - 224) * 4096 + (byte c1 - 128) * 64 + (byte c2 - 128)"
    | (four) c1 c2 c3 r3 where "rest = c1 # c2 # c3 # r3" "k = 3" "240 \<le> byte c" "byte c \<le> 244"
      "in_range (if byte c = 240 then 144 else 128) (if byte c = 244 then 143 else 191) (byte c1)" "in_range 128 191 (byte c2)"
      "in_range 128 191 (byte c3)"
      "r = (byte c - 240) * 262144 + (byte c1 - 128) * 4096 + (byte c2 - 128) * 64 + (byte c3 - 128)"
    unfolding decode_rune_def
    by (auto simp: Let_def in_range_def split: list.splits if_splits)
  then show ?thesis
  proof cases
    case two
    then show ?thesis using encode_two [of "byte c - 192" "byte c1 - 128"] by simp
  next
    case three
    have "r = ((byte c - 224) * 64 + (byte c1 - 128)) * 64 + (byte c2 - 128)" using three(7) by simp
    moreover have "encode_rune (((byte c - 224) * 64 + (byte c1 - 128)) * 64 + (byte c2 - 128))
        = [chr (224 + (byte c - 224)), chr (128 + (byte c1 - 128)), chr (128 + (byte c2 - 128))]"
      by (rule encode_three) (use three(3-6) in \<open>auto simp: in_range_def split: if_splits\<close>)
    ultimately show ?thesis using three(1,2) by (simp add: numeral_2_eq_2)
  next
    case four
    have "r = (((byte c - 240) * 64 + (byte c1 - 128)) * 64 + (byte c2 - 128)) * 64 + (byte c3 - 128)" using four(8) by simp
    moreover have "encode_rune ((((byte c - 240) * 64 + (byte c1 - 128)) * 64 + (byte c2 - 128)) * 64 + (byte c3 - 128))
        = [chr (240 + (byte c - 240)), chr (128 + (byte c1 - 128)), chr (128 + (byte c2 - 128)), chr (128 + (byte c3 - 128))]"
      by (rule encode_four) (use four(3-7) in \<open>auto simp: in_range_def split: if_splits\<close>)
    ultimately show ?thesis using four(1,2) by (simp add: numeral_3_eq_3)
  qed
qed

text \<open>A chunk is an ASCII character, an ill-formed byte, or the encoding of its rune.\<close>

lemma decode_rune_stuck: "128 \<le> b \<Longrightarrow> decode_rune b rest = (r, 0) \<Longrightarrow> r = RuneError"
  by (auto simp: decode_rune_def Let_def split: list.splits if_splits)

lemma chunk_cases:
  assumes "(r, b) \<in> set (chunks s)"
  shows "(\<exists>c. b = [c] \<and> byte c < 128 \<and> r = byte c) \<or> (\<exists>c. b = [c] \<and> 128 \<le> byte c \<and> r = RuneError)
    \<or> (128 \<le> r \<and> valid_rune r \<and> b = encode_rune r \<and> 1 < length b \<and> (\<forall>c \<in> set b. 128 \<le> byte c))"
  using assms
proof (induction s rule: chunks.induct)
  case (2 x xs)
  obtain q k where d: "decode_rune (byte x) xs = (q, k)" by force
  show ?case
  proof (cases "(r, b) = (q, x # take k xs)")
    case True
    have rb: "r = q" "b = x # take k xs" using True by auto
    show ?thesis
    proof (cases "byte x < 128")
      case True
      with d decode_rune_bytes(1) [of "byte x" xs] rb show ?thesis by auto
    next
      case ge: False
      show ?thesis
      proof (cases "k = 0")
        case True
        with ge d rb decode_rune_stuck [of "byte x" xs q] show ?thesis by auto
      next
        case False
        note m = decode_rune_multibyte [OF d False]
        have "\<forall>c \<in> set b. 128 \<le> byte c" using decode_rune_bytes(2) [of _ "byte x" xs] d rb ge by auto
        moreover have "valid_rune r" "128 \<le> r"
          using decode_rune_valid [of "byte x" xs] decode_rune_bytes(3) [of "byte x" xs] d rb ge by auto
        moreover have "1 < length b" using False rb decode_rune_length [of "byte x" xs] d by (cases xs) auto
        ultimately show ?thesis using m rb by simp
      qed
    qed
  next
    case False
    then show ?thesis using 2 d by auto
  qed
qed simp

section \<open>Escapes\<close>

lemma unquote_encode: "valid_rune r \<Longrightarrow> 128 \<le> r \<Longrightarrow> \<forall>c \<in> set (encode_rune r). 128 \<le> byte c \<Longrightarrow>
  unquote (encode_rune r @ t) = encode_rune r @ unquote t"
proof -
  assume v: "valid_rune r" and b: "\<forall>c \<in> set (encode_rune r). 128 \<le> byte c"
  obtain c cs where c: "encode_rune r = c # cs" "decode_rune (byte c) (cs @ t) = (r, length cs)"
    using decode_encode [OF v] by blast
  have "c \<noteq> CHR 0x5C" using b c by (auto simp: byte_def)
  with c show ?thesis by simp
qed

lemma byte_char_of: "k < 256 \<Longrightarrow> byte (char_of k) = int k" for k :: nat
proof -
  assume "k < 256"
  then have "(of_char (char_of k :: char) :: nat) = k" by simp
  then have "int (of_char (char_of k :: char)) = int k" by (rule arg_cong)
  then show ?thesis unfolding byte_def by (simp only: of_nat_of_char)
qed

lemma hex_value_digit: "0 \<le> b \<Longrightarrow> b < 16 \<Longrightarrow> hex_value (hex_digit (nat b)) = Some b"
  using byte_char_of [of "48 + nat b"] byte_char_of [of "87 + nat b"]
  by (cases "b < 10") (auto simp: hex_value_def hex_digit_def in_range_def nat_less_iff)

lemma hex4_hex2: "0 \<le> r \<Longrightarrow> r < 256 \<Longrightarrow> hex4 (''00'' @ hex2 r @ t) = Some r"
proof -
  assume r: "0 \<le> r" "r < 256"
  have "hex_value (CHR ''0'') = Some 0" by code_simp
  then show ?thesis using r hex_value_digit [of "r div 16"] hex_value_digit [of "r mod 16"]
    by (simp add: hex4_def hex2_def)
qed

lemma hex2_text [simp]: "length (hex2 r) = 2" by (simp add: hex2_def)

text \<open>An escape is read as one unit by the scanner and by \<open>unquote\<close>.\<close>

definition string_atom :: "string \<Rightarrow> string \<Rightarrow> bool" where
  "string_atom e v \<longleftrightarrow> (\<forall>t. scan_string (e @ t) = map_option (\<lambda>(a, r). (e @ a, r)) (scan_string t) \<and> unquote (e @ t) = v @ unquote t)"

lemma scan_string_high: "\<forall>c \<in> set b. 128 \<le> byte c \<Longrightarrow> scan_string (b @ t) = map_option (\<lambda>(a, r). (b @ a, r)) (scan_string t)"
proof (induction b)
  case Nil
  show ?case by (simp add: map_option.id [unfolded id_def] option.map_id0)
next
  case (Cons c b)
  then have "c \<noteq> CHR 0x22" "c \<noteq> CHR 0x5C" "\<not> byte c < 32" by (auto simp: byte_def)
  with Cons show ?case by (auto split: option.split)
qed

lemma byte_quotes [simp]: "byte (CHR 0x22) = 34" "byte (CHR 0x5C) = 92" "byte (CHR 0x08) = 8" "byte (CHR 0x0C) = 12"
  "byte (CHR 0x0A) = 10" "byte (CHR 0x0D) = 13" "byte (CHR 0x09) = 9"
  by (simp_all add: byte_def)

lemma string_atom_u: "0 \<le> r \<Longrightarrow> r < 256 \<Longrightarrow> string_atom (CHR 0x5C # ''u00'' @ hex2 r) (encode_rune r)"
  using hex4_hex2 [of r] by (auto simp: string_atom_def in_range_def split: option.split)

lemma string_atom_short:
  assumes "e \<in> set (CHR 0x22 # CHR 0x5C # ''/bfnrt'')"
  shows "string_atom [CHR 0x5C, e] [unescape e]"
proof -
  have "scan_string ([CHR 0x5C, e] @ t) = map_option (\<lambda>(a, r). ([CHR 0x5C, e] @ a, r)) (scan_string t)" for t
    using assms by (simp del: list.set split: option.split)
  moreover have "e \<noteq> CHR ''u''" using assms by auto
  ultimately show ?thesis by (simp add: string_atom_def)
qed

lemma string_atom_plain: "byte c < 128 \<Longrightarrow> \<not> byte c < 32 \<Longrightarrow> byte c \<noteq> 34 \<Longrightarrow> byte c \<noteq> 92 \<Longrightarrow> string_atom [c] [c]"
proof -
  assume c: "byte c < 128" "\<not> byte c < 32" "byte c \<noteq> 34" "byte c \<noteq> 92"
  then have "c \<noteq> CHR 0x22" "c \<noteq> CHR 0x5C" by auto
  with c decode_rune_bytes(1) [of "byte c"] show ?thesis
    by (auto simp: string_atom_def encode_rune_def valid_rune_def in_range_def split: option.split)
qed

lemma encode_ascii: "byte c < 128 \<Longrightarrow> encode_rune (byte c) = [c]"
  by (simp add: encode_rune_def valid_rune_def in_range_def)

lemma escape_atom:
  assumes "(r, b) \<in> set (chunks s)"
  shows "string_atom (escape_rune (r, b)) (encode_rune r)"
  using chunk_cases [OF assms]
proof (elim disjE exE conjE)
  fix c assume c: "b = [c]" "byte c < 128" "r = byte c"
  consider "r = 34 \<or> r = 92" | "r = 8" | "r = 12" | "r = 10" | "r = 13" | "r = 9"
    | "r < 32 \<or> r = 60 \<or> r = 62 \<or> r = 38" "r \<notin> {8, 12, 10, 13, 9}" | "\<not> r < 32" "r \<notin> {34, 92, 60, 62, 38}" by auto
  then show ?thesis
  proof cases
    case 1
    then have "c \<in> {CHR 0x22, CHR 0x5C}" using c byte_quotes by (metis chr_byte insertCI)
    then show ?thesis using string_atom_short [of c] 1 c encode_ascii [of c] by (auto simp: escape_rune_def unescape_def)
  next
    case 2
    then have "c = CHR 0x08" using c byte_quotes by (metis chr_byte)
    then show ?thesis using string_atom_short [of "CHR ''b''"] c encode_ascii [of c] by (simp add: escape_rune_def unescape_def)
  next
    case 3
    then have "c = CHR 0x0C" using c byte_quotes by (metis chr_byte)
    then show ?thesis using string_atom_short [of "CHR ''f''"] c encode_ascii [of c] by (simp add: escape_rune_def unescape_def)
  next
    case 4
    then have "c = CHR 0x0A" using c byte_quotes by (metis chr_byte)
    then show ?thesis using string_atom_short [of "CHR ''n''"] c encode_ascii [of c] by (simp add: escape_rune_def unescape_def)
  next
    case 5
    then have "c = CHR 0x0D" using c byte_quotes by (metis chr_byte)
    then show ?thesis using string_atom_short [of "CHR ''r''"] c encode_ascii [of c] by (simp add: escape_rune_def unescape_def)
  next
    case 6
    then have "c = CHR 0x09" using c byte_quotes by (metis chr_byte)
    then show ?thesis using string_atom_short [of "CHR ''t''"] c encode_ascii [of c] by (simp add: escape_rune_def unescape_def)
  next
    case 7
    then show ?thesis using string_atom_u [of r] c by (auto simp: escape_rune_def)
  next
    case 8
    then show ?thesis using string_atom_plain [of c] c encode_ascii [of c] by (simp add: escape_rune_def)
  qed
next
  fix c assume "b = [c]" "128 \<le> byte c" "r = RuneError"
  moreover have "hex4 (''fffd'' @ t) = Some RuneError" for t
    by (simp add: hex4_def hex_value_def in_range_def byte_def)
  ultimately show ?thesis by (auto simp: escape_rune_def string_atom_def in_range_def split: option.split)
next
  assume m: "128 \<le> r" "valid_rune r" "b = encode_rune r" "1 < length b" "\<forall>c \<in> set b. 128 \<le> byte c"
  have u: "string_atom (CHR 0x5C # ''u2028'') (encode_rune 8232)" "string_atom (CHR 0x5C # ''u2029'') (encode_rune 8233)"
    by (auto simp: string_atom_def hex4_def hex_value_def in_range_def byte_def split: option.split)
  have "string_atom b (encode_rune r)"
    using scan_string_high [OF m(5)] unquote_encode [OF m(2,1)] m(3,5) by (simp add: string_atom_def)
  then show ?thesis using u m by (auto simp: escape_rune_def)
qed

section \<open>Strings and literals\<close>

lemma atoms_read:
  "\<forall>x \<in> set xs. string_atom (escape_rune x) (encode_rune (fst x)) \<Longrightarrow>
    scan_string (concat (map escape_rune xs) @ CHR 0x22 # t) = Some (concat (map escape_rune xs), t)
    \<and> unquote (concat (map escape_rune xs)) = of_runes (map fst xs)"
proof (induction xs)
  case (Cons x xs)
  then show ?case by (auto simp: string_atom_def of_runes_def)
qed (simp add: of_runes_def)

definition clean_utf8 :: "string \<Rightarrow> string" where
  "clean_utf8 s = of_runes (runes s)"

definition marshal_body :: "string \<Rightarrow> string" where
  "marshal_body s = concat (map escape_rune (chunks s))"

lemma marshal_string_body: "marshal_string s = CHR 0x22 # marshal_body s @ [CHR 0x22]"
  by (simp add: marshal_string_def marshal_body_def)

lemma marshal_string_read:
  "scan_string (marshal_body s @ CHR 0x22 # t) = Some (marshal_body s, t)" "unquote (marshal_body s) = clean_utf8 s"
proof -
  have "\<forall>x \<in> set (chunks s). string_atom (escape_rune x) (encode_rune (fst x))" using escape_atom by (metis prod.collapse)
  from atoms_read [OF this, of t]
  show "scan_string (marshal_body s @ CHR 0x22 # t) = Some (marshal_body s, t)" "unquote (marshal_body s) = clean_utf8 s"
    by (simp_all add: marshal_body_def clean_utf8_def runes_def)
qed

lemma parse_marshal_string: "parse_value (Suc n) d (marshal_string s @ t) = Some (JString (clean_utf8 s), t)"
  by (simp add: marshal_string_body marshal_string_read skip_ws_def json_space_def)

lemma parse_members_string:
  "parse_members (Suc n) d (marshal_string k @ CHR '':'' # v) =
     (case parse_value n d v of None \<Rightarrow> None
      | Some (x, r2) \<Rightarrow>
          (case skip_ws r2 of [] \<Rightarrow> None
           | e # es \<Rightarrow>
               if e = CHR ''}'' then Some ([(clean_utf8 k, x)], es)
               else if e = CHR '','' then map_option (\<lambda>(ms, r'). ((clean_utf8 k, x) # ms, r')) (parse_members n d es)
               else None))"
  unfolding marshal_string_read(2) [of k, symmetric]
  by (simp add: marshal_string_body marshal_string_read(1) skip_ws_def json_space_def)

lemma parse_object:
  "parse_members n (Suc d) (marshal_string k @ t) = Some (ms, r) \<Longrightarrow> d < max_depth \<Longrightarrow>
    parse_value (Suc n) d (CHR ''{'' # marshal_string k @ t) = Some (JObject ms, r)"
  by (simp add: skip_ws_def json_space_def marshal_string_def)

lemma parse_last_member:
  "parse_value n d v = Some (x, CHR ''}'' # t) \<Longrightarrow>
    parse_members (Suc n) d (marshal_string k @ CHR '':'' # v) = Some ([(clean_utf8 k, x)], t)"
  by (simp add: parse_members_string skip_ws_def json_space_def del: parse_members.simps)

lemma parse_more_members:
  "parse_value n d v = Some (x, CHR '','' # t) \<Longrightarrow> parse_members n d t = Some (ms, r) \<Longrightarrow>
    parse_members (Suc n) d (marshal_string k @ CHR '':'' # v) = Some ((clean_utf8 k, x) # ms, r)"
  by (simp add: parse_members_string skip_ws_def json_space_def del: parse_members.simps)

end
