(* ===== verification/Capture_Props.thy ===== *)
theory Capture_Props
  imports Capture Json_Encode Privacy_Props
begin

text \<open>
  Properties of capture: the injected context reads back, a Codex rollout gives one message per turn,
  and a turn that is captured twice is stored once.
\<close>

section \<open>Injected context\<close>

text \<open>C28. What a hook prints is a JSON document that reads back as the event and the context it was
  given, with ill-formed UTF-8 replaced.\<close>

theorem hook_output_reads_back:
  "json_parse (AdditionalContextJSON event context)
    = Some (JObject [(''hookSpecificOutput'', JObject [(''hookEventName'', JString (clean_utf8 event)),
        (''additionalContext'', JString (clean_utf8 context))])])"
proof -
  have c: "clean_utf8 ''hookSpecificOutput'' = ''hookSpecificOutput''" "clean_utf8 ''hookEventName'' = ''hookEventName''"
    "clean_utf8 ''additionalContext'' = ''additionalContext''" by code_simp+
  define e x where "e = marshal_string event" and "x = marshal_string context"
  have ctx: "parse_members (Suc (Suc n)) d (marshal_string ''additionalContext'' @ CHR '':'' # x @ CHR ''}'' # t)
      = Some ([(clean_utf8 ''additionalContext'', JString (clean_utf8 context))], t)" for n d t
    unfolding x_def by (rule parse_last_member [OF parse_marshal_string])
  have event: "parse_members (Suc (Suc (Suc n))) d (marshal_string ''hookEventName'' @ CHR '':'' # e @ CHR '',''
        # marshal_string ''additionalContext'' @ CHR '':'' # x @ CHR ''}'' # t)
      = Some ([(clean_utf8 ''hookEventName'', JString (clean_utf8 event)), (clean_utf8 ''additionalContext'', JString (clean_utf8 context))], t)" for n d t
    unfolding e_def by (rule parse_more_members [OF parse_marshal_string ctx])
  have d: "Suc 0 < max_depth" "0 < max_depth" by (simp_all add: max_depth_def)
  have doc: "parse_value (Suc (Suc (Suc (Suc (Suc (Suc n)))))) 0 (CHR ''{'' # marshal_string ''hookSpecificOutput'' @ CHR '':'' # CHR ''{''
        # marshal_string ''hookEventName'' @ CHR '':'' # e @ CHR '','' # marshal_string ''additionalContext'' @ CHR '':'' # x
        @ CHR ''}'' # ''}'')
      = Some (JObject [(clean_utf8 ''hookSpecificOutput'', JObject [(clean_utf8 ''hookEventName'', JString (clean_utf8 event)),
          (clean_utf8 ''additionalContext'', JString (clean_utf8 context))])], [])" for n
    by (rule parse_object [OF parse_last_member [OF parse_object [OF event d(1)]] d(2)])
  have s: "AdditionalContextJSON event context = CHR ''{'' # marshal_string ''hookSpecificOutput'' @ CHR '':'' # CHR ''{''
        # marshal_string ''hookEventName'' @ CHR '':'' # e @ CHR '','' # marshal_string ''additionalContext'' @ CHR '':'' # x
        @ CHR ''}'' # ''}''"
    by (simp add: AdditionalContextJSON_def e_def x_def)
  have "6 \<le> 2 * length (AdditionalContextJSON event context) + 2" by (simp add: s)
  then obtain n where n: "2 * length (AdditionalContextJSON event context) + 2 = Suc (Suc (Suc (Suc (Suc (Suc n)))))"
    using le_Suc_ex [of 6] by fastforce
  show ?thesis
    unfolding json_parse_def n unfolding s doc by (simp add: skip_ws_def c)
qed

section \<open>A rollout as turns\<close>

text \<open>What a line of a rollout means to the state machine.\<close>

datatype codex_record = TurnStarted string | TurnComplete | Response ingest_message | Other

definition codex_record :: "hash \<Rightarrow> string \<Rightarrow> codex_record" where
  "codex_record H raw =
     (case Unmarshal_struct codexEnvelope raw of None \<Rightarrow> Other
      | Some envelope \<Rightarrow>
          let kind = string_field codexEnvelope ''type'' envelope in
          if kind = ''event_msg''
          then (case Unmarshal_struct codexEventLine raw of None \<Rightarrow> Other
                | Some line \<Rightarrow>
                    let payload = field_values codexEventLine ''payload'' line; event = string_field codexEvent ''type'' payload in
                    if event = ''task_started'' then TurnStarted (string_field codexEvent ''turn_id'' payload)
                    else if event = ''task_complete'' then TurnComplete else Other)
          else if kind = ''response_item''
          then (case consumeResponse H raw codex_start of (_, st) \<Rightarrow>
                  if im_Content (cx_pending st) = [] then Other else Response (cx_pending st))
          else Other)"

fun codex_step :: "codex_record \<Rightarrow> codex_state \<Rightarrow> ingest_message option \<times> codex_state" where
  "codex_step (TurnStarted tid) st = (None, st\<lparr>cx_turnID := tid, cx_pending := no_message\<rparr>)"
| "codex_step TurnComplete st = codex_finish st"
| "codex_step (Response m) st = (None, st\<lparr>cx_pending := m\<rparr>)"
| "codex_step Other st = (None, st)"

definition parsed_message :: "parsed \<Rightarrow> ingest_message option" where
  "parsed_message p = (case p of Message m \<Rightarrow> Some m | _ \<Rightarrow> None)"

lemma transcriptMessage_content:
  assumes "transcriptMessage H (textParts c) i raw = Message m"
  shows "im_Content m \<noteq> []"
proof -
  have "\<forall>p \<in> set (textParts c). p \<noteq> []" by (auto simp: textParts_def)
  moreover have "textParts c \<noteq> []" "im_Content m = Join (textParts c) [CHR 0x0A]"
    using assms by (auto simp: transcriptMessage_def assistant_message_def split: if_splits)
  ultimately show ?thesis by (cases "textParts c"; cases "tl (textParts c)") auto
qed

lemma consumeResponse_step:
  obtains p r where "parsed_message p = None" "\<And>st. consumeResponse H raw st = (p, case r of None \<Rightarrow> st | Some m \<Rightarrow> st\<lparr>cx_pending := m\<rparr>)"
    "\<And>m. r = Some m \<Longrightarrow> im_Content m \<noteq> []"
proof (cases "Unmarshal_struct codexTranscriptLine raw")
  case None
  then show ?thesis by (intro that [of Malformed None]) (simp_all add: consumeResponse_def parsed_message_def)
next
  case (Some line)
  let ?p = "field_values codexTranscriptLine ''payload'' line"
  let ?t = "transcriptMessage H (textParts (slice_values (field_values codexPayload ''content'' ?p))) (string_field codexPayload ''id'' ?p) raw"
  show ?thesis
  proof (cases "string_field codexTranscriptLine ''type'' line \<noteq> ''response_item''
      \<or> string_field codexPayload ''type'' ?p \<noteq> ''message'' \<or> string_field codexPayload ''role'' ?p \<noteq> ''assistant''")
    case True
    then show ?thesis by (intro that [of Irrelevant None]) (simp_all add: consumeResponse_def Some parsed_message_def Let_def)
  next
    case False
    show ?thesis
    proof (cases ?t)
      case (Message m)
      with False transcriptMessage_content [OF Message] show ?thesis
        by (intro that [of Irrelevant "Some m"]) (simp_all add: consumeResponse_def Some parsed_message_def Let_def)
    next
      case Irrelevant
      with False show ?thesis
        by (intro that [of Irrelevant None]) (simp_all add: consumeResponse_def Some parsed_message_def Let_def)
    next
      case Malformed
      with False show ?thesis
        by (intro that [of Malformed None]) (simp_all add: consumeResponse_def Some parsed_message_def Let_def)
    qed
  qed
qed

lemma consume_step: "map_prod parsed_message id (codex_consume H raw st) = codex_step (codex_record H raw) st"
proof (cases "Unmarshal_struct codexEnvelope raw")
  case None
  then show ?thesis by (simp add: codex_consume_def codex_record_def parsed_message_def)
next
  case (Some envelope)
  consider (event) "string_field codexEnvelope ''type'' envelope = ''event_msg''"
    | (response) "string_field codexEnvelope ''type'' envelope = ''response_item''"
    | (other) "string_field codexEnvelope ''type'' envelope \<notin> {''event_msg'', ''response_item''}" by auto
  then show ?thesis
  proof cases
    case event
    with Some show ?thesis
      by (auto simp: codex_consume_def codex_record_def consumeEvent_def parsed_message_def finishResult_def Let_def
          split: option.split prod.split)
  next
    case response
    obtain p r where pr: "parsed_message p = None" "\<And>st. consumeResponse H raw st = (p, case r of None \<Rightarrow> st | Some m \<Rightarrow> st\<lparr>cx_pending := m\<rparr>)"
      "\<And>m. r = Some m \<Longrightarrow> im_Content m \<noteq> []" using consumeResponse_step by blast
    have "codex_consume H raw st = consumeResponse H raw st"
      using Some response by (simp add: codex_consume_def)
    moreover have "codex_record H raw = (case r of None \<Rightarrow> Other | Some m \<Rightarrow> Response m)"
      using Some response pr(3) by (simp add: codex_record_def pr(2) codex_start_def no_message_def split: option.split)
    ultimately show ?thesis using pr(1) by (simp add: pr(2) split: option.split)
  next
    case other
    with Some show ?thesis by (auto simp: codex_consume_def codex_record_def parsed_message_def)
  qed
qed


fun codex_run :: "codex_record list \<Rightarrow> codex_state \<Rightarrow> ingest_message list \<times> codex_state" where
  "codex_run [] st = ([], st)"
| "codex_run (r # rs) st =
     (case codex_step r st of (m, st1) \<Rightarrow> (case codex_run rs st1 of (out, st2) \<Rightarrow> (case m of None \<Rightarrow> out | Some x \<Rightarrow> x # out, st2)))"

lemma codex_run_append:
  "codex_run (rs @ qs) st = (case codex_run rs st of (out, st1) \<Rightarrow> (case codex_run qs st1 of (out', st2) \<Rightarrow> (out @ out', st2)))"
  by (induction rs arbitrary: st) (auto split: prod.splits option.splits)

definition responses :: "codex_record list \<Rightarrow> ingest_message list" where
  "responses rs = concat (map (\<lambda>r. case r of Response m \<Rightarrow> [m] | _ \<Rightarrow> []) rs)"

definition in_turn :: "codex_record \<Rightarrow> bool" where
  "in_turn r \<longleftrightarrow> (case r of Response m \<Rightarrow> im_Content m \<noteq> [] | Other \<Rightarrow> True | _ \<Rightarrow> False)"

text \<open>A turn of a rollout: its start, records of the turn, its end.  It stands for its last response.\<close>

definition is_turn :: "codex_record list \<Rightarrow> bool" where
  "is_turn rs \<longleftrightarrow> (case rs of TurnStarted tid # body \<Rightarrow> body \<noteq> [] \<and> last body = TurnComplete \<and> list_all in_turn (butlast body) | _ \<Rightarrow> False)"

definition turn_message :: "codex_record list \<Rightarrow> ingest_message list" where
  "turn_message rs =
     (case rs of TurnStarted tid # body \<Rightarrow>
        (if responses body = [] then []
         else [if tid = [] then last (responses body) else (last (responses body))\<lparr>im_ExternalID := tid\<rparr>])
      | _ \<Rightarrow> [])"

lemma codex_run_body:
  "list_all in_turn body \<Longrightarrow> codex_run body st = ([], st\<lparr>cx_pending := (if responses body = [] then cx_pending st else last (responses body))\<rparr>)"
proof (induction body arbitrary: st)
  case (Cons r body)
  then show ?case by (cases r) (auto simp: in_turn_def responses_def)
qed (simp add: responses_def)

lemma responses_content: "list_all in_turn body \<Longrightarrow> m \<in> set (responses body) \<Longrightarrow> im_Content m \<noteq> []"
  by (fastforce simp: responses_def list_all_iff in_turn_def split: codex_record.splits)

lemma codex_run_turn:
  assumes "is_turn rs"
  shows "fst (codex_run rs st) = turn_message rs \<and> im_Content (cx_pending (snd (codex_run rs st))) = []"
proof -
  obtain tid body where rs: "rs = TurnStarted tid # body" "body \<noteq> []" "last body = TurnComplete" "list_all in_turn (butlast body)"
    using assms by (auto simp: is_turn_def split: list.splits codex_record.splits)
  define b where "b = butlast body"
  have body: "body = b @ [TurnComplete]" using rs(2,3) append_butlast_last_id [of body] by (simp add: b_def)
  have res: "responses body = responses b" by (simp add: body responses_def)
  have all: "list_all in_turn b" using rs(4) by (simp add: b_def)
  let ?st = "st\<lparr>cx_turnID := tid, cx_pending := no_message\<rparr>"
  have run: "codex_run rs st = (case codex_finish (?st\<lparr>cx_pending := (if responses b = [] then no_message else last (responses b))\<rparr>) of
      (m, st2) \<Rightarrow> (case m of None \<Rightarrow> [] | Some x \<Rightarrow> [x], st2))"
    by (simp add: rs(1) body codex_run_append codex_run_body [OF all] split: prod.split)
  show ?thesis
  proof (cases "responses b = []")
    case True
    then show ?thesis unfolding run by (simp add: codex_finish_def no_message_def turn_message_def rs(1) res)
  next
    case False
    then have "im_Content (last (responses b)) \<noteq> []" using responses_content [OF all last_in_set] by blast
    with False show ?thesis unfolding run by (simp add: codex_finish_def no_message_def turn_message_def rs(1) res)
  qed
qed

lemma codex_run_turns:
  "\<forall>rs \<in> set turns. is_turn rs \<Longrightarrow> im_Content (cx_pending st) = [] \<Longrightarrow>
    fst (codex_run (concat turns) st) = concat (map turn_message turns) \<and> im_Content (cx_pending (snd (codex_run (concat turns) st))) = []"
proof (induction turns arbitrary: st)
  case (Cons rs turns)
  obtain out st1 where r: "codex_run rs st = (out, st1)" by force
  have "out = turn_message rs" "im_Content (cx_pending st1) = []" using codex_run_turn [of rs st] Cons.prems(1) r by simp_all
  with Cons.IH [of st1] Cons.prems(1) r show ?case by (auto simp: codex_run_append split: prod.splits)
qed simp

section \<open>The scan of a rollout\<close>

lemma codex_record_Nil: "codex_record H [] = Other"
proof -
  have "Unmarshal_struct codexEnvelope [] = None" by code_simp
  then show ?thesis by (simp add: codex_record_def)
qed

lemma scan_record_codex:
  "ts_out (scan_record H AgentCodex raw s) = ts_out s @ (case fst (codex_step (codex_record H raw) (ts_codex s)) of None \<Rightarrow> [] | Some m \<Rightarrow> [m])"
  "ts_codex (scan_record H AgentCodex raw s) = snd (codex_step (codex_record H raw) (ts_codex s))"
  "tr_Lines (ts_report (scan_record H agent raw s)) = tr_Lines (ts_report s) + 1"
proof -
  have agents: "AgentCodex \<noteq> AgentClaude" by (simp add: AgentCodex_def AgentClaude_def)
  obtain p st where c: "codex_consume H raw (ts_codex s) = (p, st)" by force
  then have st: "codex_step (codex_record H raw) (ts_codex s) = (parsed_message p, st)"
    using consume_step [of H raw "ts_codex s"] by simp
  show "ts_out (scan_record H AgentCodex raw s) = ts_out s @ (case fst (codex_step (codex_record H raw) (ts_codex s)) of None \<Rightarrow> [] | Some m \<Rightarrow> [m])"
    "ts_codex (scan_record H AgentCodex raw s) = snd (codex_step (codex_record H raw) (ts_codex s))"
    using st c agents by (cases "raw = []"; cases p;
        simp add: scan_record_def parseTranscriptRecord_def count_line_def keep_message_def parsed_message_def codex_record_Nil Let_def)+
  show "tr_Lines (ts_report (scan_record H agent raw s)) = tr_Lines (ts_report s) + 1"
    by (auto simp: scan_record_def count_line_def keep_message_def Let_def split: prod.split parsed.split)
qed

lemma scan_records_codex:
  "ts_out (fold (scan_record H AgentCodex) ls s) = ts_out s @ fst (codex_run (map (codex_record H) ls) (ts_codex s))
    \<and> ts_codex (fold (scan_record H AgentCodex) ls s) = snd (codex_run (map (codex_record H) ls) (ts_codex s))"
proof (induction ls arbitrary: s)
  case (Cons l ls)
  obtain m st1 where st: "codex_step (codex_record H l) (ts_codex s) = (m, st1)" by force
  show ?case using Cons [of "scan_record H AgentCodex l s"] st
    by (auto simp: scan_record_codex split: prod.splits option.splits)
qed simp

definition lines_text :: "string list \<Rightarrow> string" where
  "lines_text ls = concat (map (\<lambda>l. l @ [CHR 0x0A]) ls)"

definition transcript_line :: "string \<Rightarrow> bool" where
  "transcript_line l \<longleftrightarrow> CHR 0x0A \<notin> set l \<and> length l < transcriptScanBuffer \<and> (l = [] \<or> last l \<noteq> CHR 0x0D)"

lemma scan_line_first:
  "transcript_line l \<Longrightarrow> scan_line transcriptScanBuffer e (l @ CHR 0x0A # t) = ScanLine l t"
proof -
  assume l: "transcript_line l"
  then have "takeWhile (\<lambda>c. c \<noteq> CHR 0x0A) (l @ CHR 0x0A # t) = l" by (auto simp: transcript_line_def takeWhile_append)
  with l show ?thesis by (auto simp: scan_line_def transcript_line_def drop_cr_def Let_def)
qed

lemma scan_transcript_lines:
  "\<forall>l \<in> set ls. transcript_line l \<Longrightarrow> tr_Lines (ts_report s) + int (length ls) \<le> transcriptMaxLines \<Longrightarrow>
    scan_transcript H agent endErr (lines_text ls) s
      = (case endErr of None \<Rightarrow> Inr (fold (scan_record H agent) ls s) | Some e \<Rightarrow> Inl (ErrWrap ''agents: read transcript'' e))"
proof (induction ls arbitrary: s)
  case Nil
  then show ?case by (simp add: lines_text_def scan_transcript.simps scan_line_def split: option.split)
next
  case (Cons l ls)
  have "lines_text (l # ls) = l @ CHR 0x0A # lines_text ls" by (simp add: lines_text_def)
  moreover have "scan_transcript H agent endErr (l @ CHR 0x0A # lines_text ls) s = scan_transcript H agent endErr (lines_text ls) (scan_record H agent l s)"
    using Cons.prems scan_line_first [of l endErr "lines_text ls"] by (subst scan_transcript.simps) simp
  ultimately show ?case using Cons by (simp add: scan_record_codex(3) split: option.split)
qed

lemma finish_turns:
  assumes turns: "\<forall>ls \<in> set turns. is_turn (map (codex_record H) ls)"
  shows "finish_scan AgentCodex (fold (scan_record H AgentCodex) (concat turns) scan_start)
    = (concat (map (turn_message \<circ> map (codex_record H)) turns), ts_report (fold (scan_record H AgentCodex) (concat turns) scan_start))"
proof -
  let ?ls = "concat turns"
  have run: "map (codex_record H) ?ls = concat (map (map (codex_record H)) turns)" by (simp add: map_concat)
  have "fst (codex_run (concat (map (map (codex_record H)) turns)) codex_start) = concat (map turn_message (map (map (codex_record H)) turns))
      \<and> im_Content (cx_pending (snd (codex_run (concat (map (map (codex_record H)) turns)) codex_start))) = []"
    by (rule codex_run_turns) (use turns in \<open>auto simp: codex_start_def no_message_def\<close>)
  then have "ts_out (fold (scan_record H AgentCodex) ?ls scan_start) = concat (map (turn_message \<circ> map (codex_record H)) turns)"
    "im_Content (cx_pending (ts_codex (fold (scan_record H AgentCodex) ?ls scan_start))) = []"
    using scan_records_codex [of H ?ls scan_start] unfolding run by (simp_all add: scan_start_def o_def)
  then show ?thesis by (simp add: finish_scan_def codex_finish_def)
qed

text \<open>A reading with two calls that do not fail, the opening of the file and its last read.\<close>

lemma reconcile_ok:
  assumes "\<not> w_fault w (w_tick w)" "\<not> w_fault w (Suc (w_tick w))"
    and "w_files w path = Some (lines_text (concat turns))" and "\<not> HasSuffix path ''.zst''"
    and lines: "\<forall>ls \<in> set turns. \<forall>l \<in> set ls. transcript_line l" and "int (length (concat turns)) \<le> transcriptMaxLines"
    and turns: "\<forall>ls \<in> set turns. is_turn (map (codex_record H) ls)"
  shows "\<exists>report. ReconcileTranscriptAssistant H zstd AgentCodex path w
      = (Inr (concat (map (turn_message \<circ> map (codex_record H)) turns), report), w\<lparr>w_tick := w_tick w + 2\<rparr>)"
proof -
  let ?ls = "concat turns"
  have opened: "openTranscript zstd AgentCodex path w = (Inr (lines_text ?ls, None), w\<lparr>w_tick := w_tick w + 2\<rparr>)"
    using assms(1-4) by (simp add: openTranscript_def codexRolloutCandidates_def os_Open_def bindE_def tryE_def driver_def ret_def)
  have "scan_transcript H AgentCodex None (lines_text ?ls) scan_start = Inr (fold (scan_record H AgentCodex) ?ls scan_start)"
    by (subst scan_transcript_lines) (use lines assms(6) in \<open>auto simp: scan_start_def\<close>)
  with opened finish_turns [OF turns] show ?thesis
    by (simp add: ReconcileTranscriptAssistant_def bindE_def wrapE_def ret_def)
qed

text \<open>C29. Reading a Codex rollout that is a sequence of complete turns gives one message per turn that
  has an assistant response: the last response of the turn under the identifier of the turn.  The
  database is not touched.\<close>

theorem codex_rollout_turns:
  assumes "healthy w" and "w_files w path = Some (lines_text (concat turns))" and "\<not> HasSuffix path ''.zst''"
    and lines: "\<forall>ls \<in> set turns. \<forall>l \<in> set ls. transcript_line l" and "int (length (concat turns)) \<le> transcriptMaxLines"
    and turns: "\<forall>ls \<in> set turns. is_turn (map (codex_record H) ls)"
  shows "\<exists>report w'. ReconcileTranscriptAssistant H zstd AgentCodex path w
      = (Inr (concat (map (turn_message \<circ> map (codex_record H)) turns), report), w') \<and> w_db w' = w_db w"
proof -
  have "\<not> w_fault w (w_tick w)" "\<not> w_fault w (Suc (w_tick w))" using assms(1) by (simp_all add: healthy_def)
  from reconcile_ok [OF this assms(2-6)] obtain report where "ReconcileTranscriptAssistant H zstd AgentCodex path w
      = (Inr (concat (map (turn_message \<circ> map (codex_record H)) turns), report), w\<lparr>w_tick := w_tick w + 2\<rparr>)" ..
  then show ?thesis by (intro exI [of _ report] exI [of _ "w\<lparr>w_tick := w_tick w + 2\<rparr>"]) simp
qed

definition sample_turn :: "string list" where
  "sample_turn =
     [''{\"type\":\"event_msg\",\"payload\":{\"type\":\"task_started\",\"turn_id\":\"t1\"}}'',
      ''{\"type\":\"response_item\",\"payload\":{\"type\":\"message\",\"role\":\"assistant\",\"content\":[{\"type\":\"output_text\",\"text\":\"hi\"}]}}'',
      ''{\"type\":\"event_msg\",\"payload\":{\"type\":\"task_complete\"}}'']"

lemma sample_turn_records:
  "map (codex_record sample_hash) sample_turn
    = [TurnStarted ''t1'', Response (assistant_message ''hi'' (''transcript-'' @ sample_hash (sample_turn ! 1))), TurnComplete]"
  by code_simp

definition rollout_world :: world where
  "rollout_world = sample_world\<lparr>w_files := [''r.jsonl'' \<mapsto> lines_text (sample_turn @ sample_turn)]\<rparr>"

theorem codex_rollout_turns_witness:
  "\<exists>report w'. ReconcileTranscriptAssistant sample_hash (\<lambda>_. Inl (ErrIO ''zstd'')) AgentCodex ''r.jsonl'' rollout_world
    = (Inr ([assistant_message ''hi'' ''t1'', assistant_message ''hi'' ''t1''], report), w')"
proof -
  have turn: "is_turn (map (codex_record sample_hash) sample_turn)"
    unfolding sample_turn_records by (simp add: is_turn_def in_turn_def assistant_message_def)
  have msg: "turn_message (map (codex_record sample_hash) sample_turn) = [assistant_message ''hi'' ''t1'']"
    unfolding sample_turn_records by (simp add: turn_message_def responses_def assistant_message_def)
  have lines: "\<forall>l \<in> set sample_turn. transcript_line l"
    by (simp add: sample_turn_def transcript_line_def transcriptScanBuffer_def)
  have healthy: "healthy rollout_world" using sample_healthy by (simp add: rollout_world_def healthy_def)
  have "\<exists>report w'. ReconcileTranscriptAssistant sample_hash (\<lambda>_. Inl (ErrIO ''zstd'')) AgentCodex ''r.jsonl'' rollout_world
      = (Inr (concat (map (turn_message \<circ> map (codex_record sample_hash)) [sample_turn, sample_turn]), report), w')
      \<and> w_db w' = w_db rollout_world"
  proof (rule codex_rollout_turns [OF healthy])
    show "\<not> HasSuffix ''r.jsonl'' ''.zst''" by code_simp
    show "int (length (concat [sample_turn, sample_turn])) \<le> transcriptMaxLines"
      by (simp add: sample_turn_def transcriptMaxLines_def)
  qed (use turn lines in \<open>simp_all add: rollout_world_def\<close>)
  then show ?thesis by (auto simp: msg)
qed

section \<open>One turn, captured twice\<close>

text \<open>A reading of a rollout that succeeds has read the file itself, to its end.\<close>

lemma open_first:
  assumes "w_files w path = Some content" and "\<not> HasSuffix path ''.zst''"
    and "openTranscript zstd AgentCodex path w = (Inr (t, endErr), w')"
  shows "t = content \<and> w_db w' = w_db w"
proof -
  have "\<not> errors_Is (ErrIO ''open'') not_exist" by (simp add: not_exist_def)
  with assms show ?thesis
    by (auto simp: openTranscript_def codexRolloutCandidates_def os_Open_def bindE_def tryE_def driver_def ret_def fail_def
        split: if_splits)
qed

lemma reconcile_turns:
  assumes run: "ReconcileTranscriptAssistant H zstd AgentCodex path w = (Inr (ms, report), w')"
    and rollout: "w_files w path = Some (lines_text (concat turns))" "\<not> HasSuffix path ''.zst''"
    and lines: "\<forall>ls \<in> set turns. \<forall>l \<in> set ls. transcript_line l" "int (length (concat turns)) \<le> transcriptMaxLines"
    and turns: "\<forall>ls \<in> set turns. is_turn (map (codex_record H) ls)"
  shows "ms = concat (map (turn_message \<circ> map (codex_record H)) turns) \<and> w_db w' = w_db w"
proof -
  obtain t endErr w1 where o: "openTranscript zstd AgentCodex path w = (Inr (t, endErr), w1)"
    and rest: "(case scan_transcript H AgentCodex endErr t scan_start of Inl e \<Rightarrow> fail e | Inr s \<Rightarrow> ret (finish_scan AgentCodex s)) w1
      = (Inr (ms, report), w')"
    using run by (auto simp: ReconcileTranscriptAssistant_def bindE_Inr wrapE_Inr)
  have t: "t = lines_text (concat turns)" "w_db w1 = w_db w" using open_first [OF rollout o] by auto
  have scan: "scan_transcript H AgentCodex endErr (lines_text (concat turns)) scan_start
      = (case endErr of None \<Rightarrow> Inr (fold (scan_record H AgentCodex) (concat turns) scan_start)
         | Some e \<Rightarrow> Inl (ErrWrap ''agents: read transcript'' e))"
    by (rule scan_transcript_lines) (use lines in \<open>auto simp: scan_start_def\<close>)
  with rest have "endErr = None" unfolding t(1) by (cases endErr) (auto simp: fail_def)
  with rest scan finish_turns [OF turns] t show ?thesis by (auto simp: ret_def)
qed

lemma events_distinct: "EventTurnComplete \<noteq> EventUserPromptSubmit" "EventTurnComplete \<noteq> EventPostToolUse" "EventTurnComplete \<noteq> EventStop"
  "EventStop \<noteq> EventUserPromptSubmit" "EventStop \<noteq> EventPostToolUse"
  by (simp_all add: EventTurnComplete_def EventUserPromptSubmit_def EventPostToolUse_def EventStop_def)

abbreviation hook_session :: "raw_hook \<Rightarrow> string" where
  "hook_session h \<equiv> firstNonEmpty [rk_SessionID h, rk_ThreadID h]"

lemma capture_turn_complete:
  assumes "parse_hook payload = Some h" and "agent_Capture H zstd AgentCodex EventTurnComplete payload w = (Inr req, w')"
  shows "req = \<lparr>iq_Agent = AgentCodex, iq_SessionID = hook_session h, iq_Title = [], iq_Messages = turn_messages h\<rparr>" "w' = w"
  using assms by (simp_all add: agent_Capture_def events_distinct Let_def ret_def)

lemma capture_stop:
  assumes "parse_hook payload = Some h" and "agent_Capture H zstd AgentCodex EventStop payload w = (Inr req, w')"
    and rollout: "w_files w (rk_TranscriptPath h) = Some (lines_text (concat turns))" "\<not> HasSuffix (rk_TranscriptPath h) ''.zst''"
    and "rk_TranscriptPath h \<noteq> []"
    and lines: "\<forall>ls \<in> set turns. \<forall>l \<in> set ls. transcript_line l" "int (length (concat turns)) \<le> transcriptMaxLines"
    and turns: "\<forall>ls \<in> set turns. is_turn (map (codex_record H) ls)"
  shows "req = \<lparr>iq_Agent = AgentCodex, iq_SessionID = hook_session h, iq_Title = [],
      iq_Messages = concat (map (turn_message \<circ> map (codex_record H)) turns)\<rparr>" "w_db w' = w_db w"
proof -
  obtain ms report where r: "ReconcileTranscriptAssistant H zstd AgentCodex (rk_TranscriptPath h) w = (Inr (ms, report), w')"
    and req: "req = \<lparr>iq_Agent = AgentCodex, iq_SessionID = hook_session h, iq_Title = [], iq_Messages = ms\<rparr>"
    using assms(1,2,5) by (auto simp: agent_Capture_def events_distinct Let_def bindE_Inr ret_def)
  from reconcile_turns [OF r rollout lines turns] req
  show "req = \<lparr>iq_Agent = AgentCodex, iq_SessionID = hook_session h, iq_Title = [],
      iq_Messages = concat (map (turn_message \<circ> map (codex_record H)) turns)\<rparr>" "w_db w' = w_db w" by simp_all
qed

text \<open>Redaction leaves the identity of a message with an external identifier alone.\<close>

abbreviation external_key :: "hash \<Rightarrow> string \<Rightarrow> string \<Rightarrow> string" where
  "external_key H cid i \<equiv> DeriveMessageID H cid (digest H [''ext'', i])"

lemma assistant_message_external: "im_ExternalID (assistant_message x i) = i"
  by (simp add: assistant_message_def)

lemma kept_external:
  assumes "kept_message U ord p m r" and "im_ExternalID m = i" "i \<noteq> []"
  shows "message_key H cid r = external_key H cid i"
  using redactMessage_keeps [of p m r "r \<noteq> m"] assms by (auto simp: kept_message_def message_key_def IdentityHash_def)

lemma turn_message_external:
  assumes "codex_record H (hd turn) = TurnStarted tid" "tid \<noteq> []" "m \<in> set (turn_message (map (codex_record H) turn))"
  shows "im_ExternalID m = tid"
  using assms by (cases turn) (auto simp: turn_message_def split: if_splits)

lemma turn_messages_length: "length (concat (map (turn_message \<circ> map (codex_record H)) turns)) \<le> length turns"
proof (induction turns)
  case (Cons ls turns)
  have "length (turn_message rs) \<le> 1" for rs
    by (cases rs) (auto simp: turn_message_def split: codex_record.splits)
  from this [of "map (codex_record H) ls"] Cons show ?case by simp
qed simp

text \<open>What a reading of the rollout adds when the last turn is known.\<close>

lemma ingest_known_turn:
  assumes wf: "wf_tables H (w_db v)"
    and run: "Ingest U (NewService (sqlite_core H U F) Heuristic_Count [policy_Apply U ord p]) req v = (Inr res, v')"
    and req: "iq_Messages req = ms @ known" and "\<forall>m \<in> set known. im_ExternalID m = i" "i \<noteq> []"
    and key: "external_key H (request_conversation H req) i \<in> ms_ID ` set (t_messages (w_db v))"
  shows "\<exists>new. t_messages (w_db v') = t_messages (w_db v) @ new \<and> length new \<le> length ms
    \<and> (\<forall>x \<in> set new. ms_ID x \<noteq> external_key H (request_conversation H req) i)"
proof -
  let ?key = "message_key H (request_conversation H req)"
  obtain req' d where P: "policy_Apply U ord p req = Inr (req', d)"
    and cases: "v' = v \<and> res = policy_counts d (fresh_result []) \<and> (policy_Mode p (iq_SessionID req) \<noteq> SessionCapture \<or> iq_Messages req' = [])
      \<or> policy_Mode p (iq_SessionID req) = SessionCapture \<and> (iq_Messages req = [] \<or> iq_Messages req' \<noteq> [])
        \<and> (\<exists>r. Ingest U (acm_service H U F) req' v = (Inr r, v') \<and> res = policy_counts d r)"
    by (rule ingest_policy_run [OF run])
  show ?thesis
  proof (cases "v' = v")
    case False
    then obtain r where mode: "policy_Mode p (iq_SessionID req) = SessionCapture" and r: "Ingest U (acm_service H U F) req' v = (Inr r, v')"
      using cases by auto
    note pa = policy_Apply_capture [OF P mode]
    have conv: "request_conversation H req' = request_conversation H req" by (subst pa(2), subst (2) pa(2)) simp
    obtain rs1 rs2 where rs: "iq_Messages req' = rs1 @ rs2"
      and all1: "list_all2 (kept_message U ord p) (filter (\<lambda>m. \<not> excludeMessage U ord p m) ms) rs1"
      and all2: "list_all2 (kept_message U ord p) (filter (\<lambda>m. \<not> excludeMessage U ord p m) known) rs2"
      using pa(3) by (auto simp: req list_all2_append1)
    have known: "?key r = external_key H (request_conversation H req) i" if "r \<in> set rs2" for r
      using list_all2_in_right [OF all2 that] kept_external assms(4,5) by fastforce
    obtain new where new: "t_messages (w_db v') = t_messages (w_db v) @ new" "distinct (map ms_ID new)"
      "\<forall>x \<in> set new. ms_ID x \<notin> ms_ID ` set (t_messages (w_db v)) \<and> (\<exists>m \<in> set (iq_Messages req'). ms_ID x = ?key m)"
      using ingest_run(2) [OF wf r] unfolding ingested_def conv by blast
    have sub: "ms_ID ` set new \<subseteq> ?key ` set rs1"
    proof
      fix k assume "k \<in> ms_ID ` set new"
      with new(3) obtain m where m: "m \<in> set (rs1 @ rs2)" "k = ?key m" "k \<notin> ms_ID ` set (t_messages (w_db v))"
        unfolding rs by blast
      with known key show "k \<in> ?key ` set rs1" by auto
    qed
    have "length new = card (ms_ID ` set new)" using distinct_card [OF new(2)] by simp
    also have "\<dots> \<le> card (?key ` set rs1)" by (rule card_mono [OF _ sub]) simp
    also have "\<dots> \<le> length rs1" using card_image_le [of "set rs1" ?key] card_length [of rs1] by simp
    also have "\<dots> \<le> length ms" using list_all2_lengthD [OF all1] length_filter_le [of "\<lambda>m. \<not> excludeMessage U ord p m" ms] by simp
    finally have "length new \<le> length ms" .
    moreover have "\<forall>x \<in> set new. ms_ID x \<noteq> external_key H (request_conversation H req) i" using new(3) key by auto
    ultimately show ?thesis using new(1) by blast
  qed simp
qed

text \<open>C30. Codex reports a finished turn twice: in the notification of the turn and in its rollout.  Once
  the notification has been captured and ingested under the policy of the project, a later Stop event
  whose rollout ends with the same turn stores nothing for that turn, even if its text differs: the row
  stored for the notification is the only one with the identity of the turn, and what is added comes from
  the earlier turns, at most one message for each.\<close>

theorem turn_captured_once:
  assumes "wf_tables H (w_db w)" and h: "parse_hook payload = Some h" "rk_TurnID h \<noteq> []" "rk_LastAssistantMessage h \<noteq> []"
    and "policy_Mode p (hook_session h) = SessionCapture"
    and "\<not> excludeMessage U ord p (assistant_message (rk_LastAssistantMessage h) (rk_TurnID h))"
    and notified: "agent_Capture H zstd AgentCodex EventTurnComplete payload w = (Inr req1, v1)"
      "Ingest U (NewService (sqlite_core H U F) Heuristic_Count [policy_Apply U ord p]) req1 v1 = (Inr r1, w1)"
    and later: "wf_tables H (w_db u)" "set (t_messages (w_db w1)) \<subseteq> set (t_messages (w_db u))"
    and h': "parse_hook payload' = Some h'" "hook_session h' = hook_session h" "rk_TranscriptPath h' \<noteq> []" "\<not> HasSuffix (rk_TranscriptPath h') ''.zst''"
    and rollout: "w_files u (rk_TranscriptPath h') = Some (lines_text (concat (earlier @ [turn])))"
      "\<forall>ls \<in> set (earlier @ [turn]). \<forall>l \<in> set ls. transcript_line l" "int (length (concat (earlier @ [turn]))) \<le> transcriptMaxLines"
      "\<forall>ls \<in> set (earlier @ [turn]). is_turn (map (codex_record H) ls)"
    and same_turn: "codex_record H (hd turn) = TurnStarted (rk_TurnID h)"
    and stopped: "agent_Capture H zstd AgentCodex EventStop payload' u = (Inr req2, v2)"
      "Ingest U (NewService (sqlite_core H U F) Heuristic_Count [policy_Apply U ord' p]) req2 v2 = (Inr r2, w2)"
  shows "\<exists>new. t_messages (w_db w2) = t_messages (w_db u) @ new \<and> length new \<le> length earlier
    \<and> external_key H (request_conversation H req1) (rk_TurnID h) \<in> ms_ID ` set (t_messages (w_db u))
    \<and> (\<forall>x \<in> set new. ms_ID x \<noteq> external_key H (request_conversation H req1) (rk_TurnID h))"
proof -
  let ?m = "assistant_message (rk_LastAssistantMessage h) (rk_TurnID h)"
  note c1 = capture_turn_complete [OF h(1) notified(1)]
  note c2 = capture_stop [OF h'(1) stopped(1) rollout(1) h'(4,3) rollout(2-4)]
  have conv: "request_conversation H req2 = request_conversation H req1" by (simp add: c1(1) c2(1) h'(2) del: firstNonEmpty.simps)
  obtain req1' d where P: "policy_Apply U ord p req1 = Inr (req1', d)"
    and keys: "policy_Mode p (iq_SessionID req1) = SessionCapture \<longrightarrow> request_keys H req1' \<subseteq> ms_ID ` set (t_messages (w_db w1))"
    by (rule ingest_policy_log [OF _ notified(2)]) (simp_all add: c1(2) assms(1))
  have mode: "policy_Mode p (iq_SessionID req1) = SessionCapture" using assms(5) by (simp add: c1(1) del: firstNonEmpty.simps)
  note pa = policy_Apply_capture [OF P mode]
  have "?m \<in> set (filter (\<lambda>m. \<not> excludeMessage U ord p m) (iq_Messages req1))"
    using h(3) assms(6) by (simp add: c1(1) turn_messages_def)
  then obtain r where r: "r \<in> set (iq_Messages req1')" "kept_message U ord p ?m r"
    using list_all2_in_left [OF pa(3)] by blast
  have "request_conversation H req1' = request_conversation H req1" by (subst pa(2), subst (2) pa(2)) simp
  then have "external_key H (request_conversation H req1) (rk_TurnID h) \<in> ms_ID ` set (t_messages (w_db w1))"
    using keys mode r(1) kept_external [OF r(2) _ h(2), of H "request_conversation H req1"]
    by (metis assistant_message_external image_subset_iff)
  then have key: "external_key H (request_conversation H req1) (rk_TurnID h) \<in> ms_ID ` set (t_messages (w_db u))" using later(2) by auto
  let ?earlier = "concat (map (turn_message \<circ> map (codex_record H)) earlier)"
  have msgs: "iq_Messages req2 = ?earlier @ turn_message (map (codex_record H) turn)" by (simp add: c2(1))
  have ext: "\<forall>m \<in> set (turn_message (map (codex_record H) turn)). im_ExternalID m = rk_TurnID h"
    using turn_message_external [OF same_turn h(2)] by blast
  have "wf_tables H (w_db v2)" using later(1) by (simp add: c2(2))
  from ingest_known_turn [OF this stopped(2) msgs ext h(2)] key turn_messages_length [of H earlier] show ?thesis
    unfolding conv c2(2) by fastforce
qed

definition codex_request :: "string \<Rightarrow> ingest_message list \<Rightarrow> ingest_request" where
  "codex_request session ms = \<lparr>iq_Agent = AgentCodex, iq_SessionID = session, iq_Title = [], iq_Messages = ms\<rparr>"

definition sample_notification :: string where
  "sample_notification = ''{\"thread-id\":\"s2\",\"turn-id\":\"t1\",\"last-assistant-message\":\"hello\"}''"

definition sample_stop :: string where
  "sample_stop = ''{\"session_id\":\"s2\",\"transcript_path\":\"r.jsonl\"}''"

definition first_turn :: "string list" where
  "first_turn =
     [''{\"type\":\"event_msg\",\"payload\":{\"type\":\"task_started\",\"turn_id\":\"t0\"}}'',
      ''{\"type\":\"response_item\",\"payload\":{\"type\":\"message\",\"role\":\"assistant\",\"content\":[{\"type\":\"output_text\",\"text\":\"yes\"}]}}'',
      ''{\"type\":\"event_msg\",\"payload\":{\"type\":\"task_complete\"}}'']"

lemma first_turn_records:
  "map (codex_record sample_hash) first_turn
    = [TurnStarted ''t0'', Response (assistant_message ''yes'' (''transcript-'' @ sample_hash (first_turn ! 1))), TurnComplete]"
  by code_simp

definition two_turns_world :: world where
  "two_turns_world = sample_world\<lparr>w_files := [''r.jsonl'' \<mapsto> lines_text (first_turn @ sample_turn)]\<rparr>"

lemma two_turns:
  "\<forall>ls \<in> set ([first_turn] @ [sample_turn]). \<forall>l \<in> set ls. transcript_line l"
  "int (length (concat ([first_turn] @ [sample_turn]))) \<le> transcriptMaxLines"
  "\<forall>ls \<in> set ([first_turn] @ [sample_turn]). is_turn (map (codex_record sample_hash) ls)"
  "concat (map (turn_message \<circ> map (codex_record sample_hash)) ([first_turn] @ [sample_turn]))
    = [assistant_message ''yes'' ''t0'', assistant_message ''hi'' ''t1'']"
  "codex_record sample_hash (hd sample_turn) = TurnStarted ''t1''"
proof -
  have "hd (map (codex_record sample_hash) sample_turn) = TurnStarted ''t1''" unfolding sample_turn_records by simp
  then show "codex_record sample_hash (hd sample_turn) = TurnStarted ''t1''" by (simp add: sample_turn_def)
  show "\<forall>ls \<in> set ([first_turn] @ [sample_turn]). \<forall>l \<in> set ls. transcript_line l"
    "int (length (concat ([first_turn] @ [sample_turn]))) \<le> transcriptMaxLines"
    by (simp_all add: first_turn_def sample_turn_def transcript_line_def transcriptScanBuffer_def transcriptMaxLines_def)
qed (simp_all add: first_turn_records sample_turn_records is_turn_def in_turn_def turn_message_def responses_def assistant_message_def)

lemma sample_hooks:
  obtains h h' where "parse_hook sample_notification = Some h" "rk_TurnID h = ''t1''" "rk_LastAssistantMessage h = ''hello''"
    "hook_session h = ''s2''" "turn_messages h = [assistant_message ''hello'' ''t1'']"
    "parse_hook sample_stop = Some h'" "hook_session h' = ''s2''" "rk_TranscriptPath h' = ''r.jsonl''"
proof (rule that)
  show "parse_hook sample_notification = Some (the (parse_hook sample_notification))"
    "rk_TurnID (the (parse_hook sample_notification)) = ''t1''"
    "rk_LastAssistantMessage (the (parse_hook sample_notification)) = ''hello''"
    "hook_session (the (parse_hook sample_notification)) = ''s2''"
    "turn_messages (the (parse_hook sample_notification)) = [assistant_message ''hello'' ''t1'']"
    "parse_hook sample_stop = Some (the (parse_hook sample_stop))"
    "hook_session (the (parse_hook sample_stop)) = ''s2''" "rk_TranscriptPath (the (parse_hook sample_stop)) = ''r.jsonl''"
    by code_simp+
qed

theorem turn_captured_once_witness:
  "\<exists>req1 req2 v1 v2 r1 r2 w1 w2 new.
     agent_Capture sample_hash (\<lambda>_. Inl (ErrIO ''zstd'')) AgentCodex EventTurnComplete sample_notification two_turns_world = (Inr req1, v1)
     \<and> Ingest ascii_only (NewService (sqlite_core sample_hash ascii_only sample_fts) Heuristic_Count
          [policy_Apply ascii_only id tmp_policy]) req1 v1 = (Inr r1, w1)
     \<and> agent_Capture sample_hash (\<lambda>_. Inl (ErrIO ''zstd'')) AgentCodex EventStop sample_stop w1 = (Inr req2, v2)
     \<and> Ingest ascii_only (NewService (sqlite_core sample_hash ascii_only sample_fts) Heuristic_Count
          [policy_Apply ascii_only rev tmp_policy]) req2 v2 = (Inr r2, w2)
     \<and> ir_Appended r2 = 1 \<and> t_messages (w_db w2) = t_messages (w_db w1) @ new \<and> length new \<le> 1"
proof -
  let ?S = "\<lambda>ord. NewService (sqlite_core sample_hash ascii_only sample_fts) Heuristic_Count [policy_Apply ascii_only ord tmp_policy]"
  let ?capture = "agent_Capture sample_hash (\<lambda>_. Inl (ErrIO ''zstd'')) AgentCodex"
  obtain h h' where h: "parse_hook sample_notification = Some h" "rk_TurnID h = ''t1''" "rk_LastAssistantMessage h = ''hello''"
    "hook_session h = ''s2''" "turn_messages h = [assistant_message ''hello'' ''t1'']"
    and h': "parse_hook sample_stop = Some h'" "hook_session h' = ''s2''" "rk_TranscriptPath h' = ''r.jsonl''"
    by (rule sample_hooks)
  define req1 where "req1 = codex_request ''s2'' [assistant_message ''hello'' ''t1'']"
  define req2 where "req2 = codex_request ''s2'' [assistant_message ''yes'' ''t0'', assistant_message ''hi'' ''t1'']"
  have c1: "?capture EventTurnComplete sample_notification two_turns_world = (Inr req1, two_turns_world)"
    unfolding agent_Capture_def h(1) req1_def codex_request_def using h(4,5)
    by (simp add: events_distinct ret_def Let_def del: firstNonEmpty.simps)
  have "case Ingest ascii_only (?S id) req1 two_turns_world of (Inr r1, w1) \<Rightarrow>
      \<not> w_fault w1 (w_tick w1) \<and> \<not> w_fault w1 (Suc (w_tick w1)) \<and> w_files w1 ''r.jsonl'' = w_files two_turns_world ''r.jsonl''
      \<and> (case Ingest ascii_only (?S rev) req2 (w1\<lparr>w_tick := w_tick w1 + 2\<rparr>) of (Inr r2, w2) \<Rightarrow> ir_Appended r2 = 1 | _ \<Rightarrow> False) | _ \<Rightarrow> False"
    unfolding req1_def req2_def by code_simp
  then obtain r1 w1 r2 w2 where
    i: "Ingest ascii_only (?S id) req1 two_turns_world = (Inr r1, w1)" "\<not> w_fault w1 (w_tick w1)" "\<not> w_fault w1 (Suc (w_tick w1))"
      "w_files w1 ''r.jsonl'' = w_files two_turns_world ''r.jsonl''"
      "Ingest ascii_only (?S rev) req2 (w1\<lparr>w_tick := w_tick w1 + 2\<rparr>) = (Inr r2, w2)" "ir_Appended r2 = 1"
    by (auto split: prod.splits sum.splits)
  have wf: "wf_tables sample_hash (w_db two_turns_world)" using sample_wf by (simp add: two_turns_world_def)
  have wf1: "wf_tables sample_hash (w_db w1)" by (rule ingest_policy_log [OF wf i(1)])
  have mode: "policy_Mode tmp_policy (hook_session h) = SessionCapture" unfolding h(4) by code_simp
  have shown: "\<not> excludeMessage ascii_only id tmp_policy (assistant_message (rk_LastAssistantMessage h) (rk_TurnID h))"
    unfolding h(2,3) by code_simp
  have path: "rk_TranscriptPath h' \<noteq> []" "\<not> HasSuffix (rk_TranscriptPath h') ''.zst''" unfolding h'(3) by code_simp+
  have stored: "w_files w1 (rk_TranscriptPath h') = Some (lines_text (concat ([first_turn] @ [sample_turn])))"
    unfolding h'(3) i(4) by (simp add: two_turns_world_def)
  obtain report where "ReconcileTranscriptAssistant sample_hash (\<lambda>_. Inl (ErrIO ''zstd'')) AgentCodex (rk_TranscriptPath h') w1
      = (Inr ([assistant_message ''yes'' ''t0'', assistant_message ''hi'' ''t1''], report), w1\<lparr>w_tick := w_tick w1 + 2\<rparr>)"
    using reconcile_ok [OF i(2,3) stored path(2) two_turns(1-3)] unfolding two_turns(4) by blast
  then have c2: "?capture EventStop sample_stop w1 = (Inr req2, w1\<lparr>w_tick := w_tick w1 + 2\<rparr>)"
    unfolding agent_Capture_def h'(1) req2_def codex_request_def using path(1) h'(2)
    by (simp add: events_distinct bindE_def ret_def Let_def del: firstNonEmpty.simps)
  have sessions: "hook_session h' = hook_session h" unfolding h(4) h'(2) ..
  have start: "codex_record sample_hash (hd sample_turn) = TurnStarted (rk_TurnID h)" unfolding h(2) by (rule two_turns(5))
  have ids: "rk_TurnID h \<noteq> []" "rk_LastAssistantMessage h \<noteq> []" by (simp_all add: h(2,3))
  have "\<exists>new. t_messages (w_db w2) = t_messages (w_db w1) @ new \<and> length new \<le> length [first_turn]
    \<and> external_key sample_hash (request_conversation sample_hash req1) (rk_TurnID h) \<in> ms_ID ` set (t_messages (w_db w1))
    \<and> (\<forall>x \<in> set new. ms_ID x \<noteq> external_key sample_hash (request_conversation sample_hash req1) (rk_TurnID h))"
    by (rule turn_captured_once [OF wf h(1) ids mode shown c1 i(1) wf1 subset_refl h'(1) sessions path stored two_turns(1-3) start c2 i(5)])
  then obtain new where "t_messages (w_db w2) = t_messages (w_db w1) @ new" "length new \<le> 1" by auto
  with c1 c2 i(1,5,6) show ?thesis by blast
qed

end
