(* ===== verification/OpenCode.thy ===== *)
theory OpenCode
  imports Assemble Recall
begin

text \<open>
  \<open>internal/opencode/context.go\<close>: the bounded context plan that the plugin of OpenCode consumes.
\<close>

section \<open>The plan\<close>

definition SyntheticPrefix :: string where "SyntheticPrefix = ''[Archived by acm:''"
definition planVersion :: int where "planVersion = 1"
definition maxWindowItems :: int where "maxWindowItems = 4096"
definition maxSummaryRoots :: nat where "maxSummaryRoots = 128"
definition maxSummaryChars :: nat where "maxSummaryChars = 12000"
definition maxRecallChars :: nat where "maxRecallChars = 20000"
definition maxResumeChars :: nat where "maxResumeChars = 4000"
definition maxRootChars :: nat where "maxRootChars = 600"

record plan =
  pn_Version :: int
  pn_FreshTailMessages :: int
  pn_FreshMessageIDs :: "string list"
  pn_SummaryRefs :: "string list"
  pn_ArchivePlaceholder :: string
  pn_SummaryText :: string
  pn_RecallText :: string
  pn_ResumeNote :: string

definition oc_truncate :: "string \<Rightarrow> nat \<Rightarrow> string" where
  "oc_truncate value limit =
     (if length (runes value) \<le> limit then value
      else of_runes (take (limit - 3) (runes value)) @ ''...'')"

definition archivePlaceholder :: "string list \<Rightarrow> string" where
  "archivePlaceholder refs =
     SyntheticPrefix @ '' older message elided; active summaries '' @ Join refs '', ''
       @ ''. Recover with acm expand <sum-id>.]''"

definition summaryText :: "string list \<Rightarrow> string list \<Rightarrow> string" where
  "summaryText refs rootLines =
     oc_truncate (SyntheticPrefix @ '' older context is represented by '' @ itoa (int (length refs))
       @ '' active summary nodes.]'' @ newline @ ''Summary roots:'' @ newline @ Join rootLines newline
       @ newline @ ''Use acm expand <sum-id> for verbatim sources.'') maxSummaryChars"

definition resumeNote :: "string list \<Rightarrow> string list \<Rightarrow> string" where
  "resumeNote refs rootLines =
     oc_truncate (SyntheticPrefix @ '' resume note; active summaries '' @ Join refs '', '' @ ''.]'' @ newline
       @ Join rootLines newline @ newline
       @ ''Use acm expand <sum-id>, acm describe <msg-id>, or acm grep <pattern> for details.'') maxResumeChars"

definition root_line :: "rendered_item \<Rightarrow> string" where
  "root_line item =
     ''- '' @ ri_RefID item @ '' (seq '' @ itoa (ri_EarliestSeq item) @ ''-'' @ itoa (ri_LatestSeq item) @ ''): ''
       @ oc_truncate (ri_Content item) maxRootChars"

text \<open>The loop over the window: a message whose external id is unknown is passed over.\<close>

fun plan_loop :: "unicode \<Rightarrow> (string \<Rightarrow> string) \<Rightarrow> rendered_item list \<Rightarrow> plan \<Rightarrow> string list \<Rightarrow> error + (plan \<times> string list)" where
  "plan_loop U externalIDs [] p rootLines = Inr (p, rootLines)"
| "plan_loop U externalIDs (item # items) p rootLines =
     (if ri_Type item = ContextMessage
      then plan_loop U externalIDs items
             (if externalIDs (ri_RefID item) \<noteq> []
              then p\<lparr>pn_FreshMessageIDs := pn_FreshMessageIDs p @ [externalIDs (ri_RefID item)]\<rparr> else p) rootLines
      else if ri_Type item = ContextSummary
      then (if length (pn_SummaryRefs p) = maxSummaryRoots
            then Inl (Errorf ''opencode: active summary roots exceed %d'' [itoa (int maxSummaryRoots)])
            else plan_loop U externalIDs items (p\<lparr>pn_SummaryRefs := pn_SummaryRefs p @ [ri_RefID item]\<rparr>)
                   (rootLines @ [root_line item]))
      else Inl (Errorf ''opencode: unknown context item type %q'' [Quote U (ri_Type item)]))"

definition BuildPlan :: "unicode \<Rightarrow> rendered_item list \<Rightarrow> (string \<Rightarrow> string) \<Rightarrow> string \<Rightarrow> int \<Rightarrow> error + plan" where
  "BuildPlan U items externalIDs recall freshTailMessages =
     (if int (length items) > maxWindowItems \<or> freshTailMessages < 0 \<or> freshTailMessages > maxWindowItems
      then Inl (Errorf ''opencode: invalid context plan bounds'' [])
      else case plan_loop U externalIDs items
          \<lparr>pn_Version = planVersion, pn_FreshTailMessages = freshTailMessages, pn_FreshMessageIDs = [], pn_SummaryRefs = [],
           pn_ArchivePlaceholder = [], pn_SummaryText = [], pn_RecallText = oc_truncate recall maxRecallChars, pn_ResumeNote = []\<rparr> [] of
        Inl e \<Rightarrow> Inl e
      | Inr (p, rootLines) \<Rightarrow>
          Inr (if pn_SummaryRefs p \<noteq> []
               then p\<lparr>pn_ArchivePlaceholder := archivePlaceholder (pn_SummaryRefs p),
                      pn_SummaryText := summaryText (pn_SummaryRefs p) rootLines,
                      pn_ResumeNote := resumeNote (pn_SummaryRefs p) rootLines\<rparr>
               else p))"

end
