(* ===== verification/OpenCode_Props.thy ===== *)
theory OpenCode_Props
  imports OpenCode Privacy
begin

text \<open>
  What the context plan promises: its texts are bounded, and capture recognises them as its own.
\<close>

section \<open>Texts that start with a mark of acm\<close>

definition ascii_char :: "char \<Rightarrow> rune \<times> string" where
  "ascii_char c = (byte c, [c])"

lemma chunks_ascii_prefix: "\<forall>c \<in> set p. byte c < 128 \<Longrightarrow> chunks (p @ t) = map ascii_char p @ chunks t"
proof (induction p)
  case (Cons c p)
  then show ?case using decode_rune_bytes(1) [of "byte c" "p @ t"] by (simp add: ascii_char_def)
qed simp

lemma dropWhile_rev_keep:
  assumes "A \<noteq> []" "\<not> P (last A)"
  shows "\<exists>C. rev (dropWhile P (rev (A @ B))) = A @ C"
proof (cases "\<forall>x \<in> set (rev B). P x")
  case True
  then have "dropWhile P (rev B @ rev A) = dropWhile P (rev A)" by (intro dropWhile_append2) blast
  then have "dropWhile P (rev (A @ B)) = dropWhile P (rev A)" by simp
  moreover have "dropWhile P (rev A) = rev A" using assms by (cases "rev A") (auto simp: last_rev hd_rev dest: arg_cong [of _ _ hd])
  ultimately show ?thesis by simp
next
  case False
  then obtain x where "x \<in> set (rev B)" "\<not> P x" by blast
  then have "dropWhile P (rev (A @ B)) = dropWhile P (rev B) @ rev A" by (simp add: dropWhile_append1)
  then show ?thesis by simp
qed

lemma HasPrefix_append: "HasPrefix (p @ t) p"
  by (simp add: HasPrefix_def)

definition mark :: "string \<Rightarrow> bool" where
  "mark p \<longleftrightarrow> p \<noteq> [] \<and> list_all (\<lambda>c. byte c < 128) p \<and> \<not> IsSpace (byte (hd p)) \<and> \<not> IsSpace (byte (last p))"

lemma TrimSpace_mark:
  assumes "mark p" shows "HasPrefix (TrimSpace (p @ t)) p"
proof -
  let ?A = "map ascii_char p" and ?P = "IsSpace \<circ> fst"
  have p: "p \<noteq> []" "\<forall>c \<in> set p. byte c < 128" "\<not> IsSpace (byte (hd p))" "\<not> IsSpace (byte (last p))"
    using assms by (auto simp: mark_def list_all_iff)
  have c: "chunks (p @ t) = ?A @ chunks t" by (rule chunks_ascii_prefix [OF p(2)])
  have "dropWhile ?P (?A @ chunks t) = ?A @ chunks t" using p(1,3) by (cases p) (auto simp: ascii_char_def)
  moreover have "\<exists>C. rev (dropWhile ?P (rev (?A @ chunks t))) = ?A @ C"
    by (rule dropWhile_rev_keep) (use p(1,4) in \<open>auto simp: last_map ascii_char_def\<close>)
  moreover have "concat (map snd ?A) = p" by (induction p) (simp_all add: ascii_char_def)
  ultimately show ?thesis by (auto simp: TrimSpace_def c HasPrefix_append)
qed

lemma marks: "mark acmArchivePrefix" "mark acmRecallPrefix"
  by (simp_all add: mark_def acmArchivePrefix_def acmRecallPrefix_def IsSpace_def in_range_def byte_def)

lemma synthetic_marked: "syntheticContext (acmArchivePrefix @ t)" "syntheticContext (acmRecallPrefix @ t)"
  using TrimSpace_mark [OF marks(1)] TrimSpace_mark [OF marks(2)] by (simp_all add: syntheticContext_def Let_def)

section \<open>Truncation\<close>

lemma ascii_runes: "\<forall>c \<in> set p. byte c < 128 \<Longrightarrow> of_runes (map byte p) = p"
  by (induction p) (simp_all add: of_runes_def encode_rune_def valid_rune_def in_range_def)

lemma oc_truncate_prefix:
  assumes "list_all (\<lambda>c. byte c < 128) p" "length p + 3 \<le> limit"
  shows "\<exists>t'. oc_truncate (p @ t) limit = p @ t'"
proof (cases "length (runes (p @ t)) \<le> limit")
  case False
  have a: "\<forall>c \<in> set p. byte c < 128" using assms(1) by (simp add: list_all_iff)
  have "runes (p @ t) = map byte p @ runes t"
    by (simp add: runes_def chunks_ascii_prefix [OF a] ascii_char_def)
  then have "take (limit - 3) (runes (p @ t)) = map byte p @ take (limit - 3 - length p) (runes t)" using assms(2) by simp
  then have "of_runes (take (limit - 3) (runes (p @ t))) = p @ of_runes (take (limit - 3 - length p) (runes t))"
    using ascii_runes [OF a] by (simp add: of_runes_def)
  with False show ?thesis by (simp add: oc_truncate_def)
qed (simp add: oc_truncate_def)

lemma length_oc_truncate: "3 \<le> limit \<Longrightarrow> length (runes (oc_truncate v limit)) \<le> limit"
proof (cases "length (runes v) \<le> limit")
  case False
  assume l: "3 \<le> limit"
  have "runes ''...'' = [46, 46, 46]" by code_simp
  with False l runes_of_runes_append [OF take_runes_valid, of "limit - 3" v "''...''"] show ?thesis
    by (simp add: oc_truncate_def)
qed (simp add: oc_truncate_def)

section \<open>The plan\<close>

lemma plan_loop_refs:
  "plan_loop U ext items p ls = Inr (p', ls') \<Longrightarrow> length (pn_SummaryRefs p) \<le> maxSummaryRoots \<Longrightarrow>
    \<exists>ids. p' = p\<lparr>pn_FreshMessageIDs := ids, pn_SummaryRefs := pn_SummaryRefs p @ map ri_RefID (filter (\<lambda>i. ri_Type i = ContextSummary) items)\<rparr>
      \<and> length (pn_SummaryRefs p') \<le> maxSummaryRoots
      \<and> ids = pn_FreshMessageIDs p @ filter (\<lambda>x. x \<noteq> []) (map (ext \<circ> ri_RefID) (filter (\<lambda>i. ri_Type i = ContextMessage) items))"
proof (induction U ext items p ls rule: plan_loop.induct)
  case (2 U ext item items p ls)
  have kinds: "ContextMessage \<noteq> ContextSummary" by (simp add: ContextMessage_def ContextSummary_def)
  consider (msg) "ri_Type item = ContextMessage" | (sum) "ri_Type item = ContextSummary" "length (pn_SummaryRefs p) \<noteq> maxSummaryRoots"
    using 2(3) by (auto split: if_splits)
  then show ?case
  proof cases
    case msg
    with 2(1) [OF msg] 2(3,4) kinds show ?thesis by (auto split: if_splits)
  next
    case sum
    then have "ri_Type item \<noteq> ContextMessage" using kinds by simp
    with 2(2) [OF this sum] 2(3,4) sum kinds show ?thesis by auto
  qed
qed simp

text \<open>C31. A context plan is bounded, and capture never records it again: every text of the plan is
  either absent or carries a mark by which every policy excludes a message that consists of it.\<close>

theorem plan_never_captured:
  assumes "BuildPlan U items ext (RecallBlock hits) n = Inr p"
    and "t \<in> {pn_ArchivePlaceholder p, pn_SummaryText p, pn_ResumeNote p, pn_RecallText p}" and "t \<noteq> []" and "im_Content m = t"
  shows "excludeMessage U ord pol m \<and> length (runes (pn_SummaryText p)) \<le> maxSummaryChars
    \<and> length (runes (pn_ResumeNote p)) \<le> maxResumeChars \<and> length (runes (pn_RecallText p)) \<le> maxRecallChars
    \<and> length (pn_SummaryRefs p) \<le> maxSummaryRoots"
proof -
  let ?p0 = "\<lparr>pn_Version = planVersion, pn_FreshTailMessages = n, pn_FreshMessageIDs = [], pn_SummaryRefs = [],
           pn_ArchivePlaceholder = [], pn_SummaryText = [], pn_RecallText = oc_truncate (RecallBlock hits) maxRecallChars, pn_ResumeNote = []\<rparr>"
  obtain q ls where q: "plan_loop U ext items ?p0 [] = Inr (q, ls)"
    "p = (if pn_SummaryRefs q \<noteq> [] then q\<lparr>pn_ArchivePlaceholder := archivePlaceholder (pn_SummaryRefs q),
            pn_SummaryText := summaryText (pn_SummaryRefs q) ls, pn_ResumeNote := resumeNote (pn_SummaryRefs q) ls\<rparr> else q)"
    using assms(1) by (auto simp: BuildPlan_def split: if_splits sum.splits)
  obtain ids refs where q': "q = ?p0\<lparr>pn_FreshMessageIDs := ids, pn_SummaryRefs := refs\<rparr>" "length (pn_SummaryRefs q) \<le> maxSummaryRoots"
    using plan_loop_refs [OF q(1)] by auto
  have pre: "SyntheticPrefix = acmArchivePrefix" by (simp add: SyntheticPrefix_def acmArchivePrefix_def)
  have asc: "list_all (\<lambda>c. byte c < 128) acmArchivePrefix" "list_all (\<lambda>c. byte c < 128) acmRecallPrefix"
    using marks by (simp_all add: mark_def)
  have cut: "\<exists>t'. summaryText refs ls = acmArchivePrefix @ t'" "\<exists>t'. resumeNote refs ls = acmArchivePrefix @ t'"
    "\<exists>t'. archivePlaceholder refs = acmArchivePrefix @ t'" for refs ls
    unfolding summaryText_def resumeNote_def archivePlaceholder_def pre
    by (rule oc_truncate_prefix [OF asc(1)], simp add: acmArchivePrefix_def maxSummaryChars_def,
        rule oc_truncate_prefix [OF asc(1)], simp add: acmArchivePrefix_def maxResumeChars_def, blast)
  have recall: "oc_truncate (RecallBlock hits) maxRecallChars = [] \<or> (\<exists>t'. oc_truncate (RecallBlock hits) maxRecallChars = acmRecallPrefix @ t')"
  proof (cases "hits = []")
    case True
    have "runes [] = []" by simp
    then show ?thesis using True by (simp add: RecallBlock_def oc_truncate_def maxRecallChars_def)
  next
    case False
    then obtain r where "RecallBlock hits = acmRecallPrefix @ r"
      by (auto simp: RecallBlock_def recall_header_def acmRecallPrefix_def)
    then show ?thesis using oc_truncate_prefix [OF asc(2), of maxRecallChars r] by (auto simp: acmRecallPrefix_def maxRecallChars_def)
  qed
  have "\<exists>t'. t = acmArchivePrefix @ t' \<or> t = acmRecallPrefix @ t'"
  proof -
    obtain t1 t2 t3 where "summaryText refs ls = acmArchivePrefix @ t1" "resumeNote refs ls = acmArchivePrefix @ t2"
      "archivePlaceholder refs = acmArchivePrefix @ t3" using cut by metis
    moreover have "t \<in> {archivePlaceholder refs, summaryText refs ls, resumeNote refs ls, oc_truncate (RecallBlock hits) maxRecallChars}"
      using assms(2,3) q(2) q'(1) by (auto split: if_splits)
    ultimately show ?thesis using recall assms(3) by auto
  qed
  then have "syntheticContext (im_Content m)" using synthetic_marked assms(4) by auto
  then have "excludeMessage U ord pol m" by (simp add: excludeMessage_def)
  moreover have "length (runes (summaryText refs' ls)) \<le> maxSummaryChars" "length (runes (resumeNote refs' ls)) \<le> maxResumeChars"
    "length (runes (oc_truncate (RecallBlock hits) maxRecallChars)) \<le> maxRecallChars" for refs'
    unfolding summaryText_def resumeNote_def
    by (rule length_oc_truncate, simp add: maxSummaryChars_def maxResumeChars_def maxRecallChars_def)+
  ultimately show ?thesis using q(2) q' by auto
qed

definition bare_policy :: policy where
  "bare_policy = \<lparr>pl_redact = True, pl_ignoreSessionGlobs = [], pl_statelessSessionGlobs = [], pl_toolGlobs = [], pl_pathGlobs = [],
     pl_excludedClass = [], pl_allowedValues = [], pl_redactions = [], pl_classDetectors = (\<lambda>_. None)\<rparr>"

definition sample_root :: rendered_item where
  "sample_root = \<lparr>ri_Type = ContextSummary, ri_RefID = ''sum_1'', ri_Role = [], ri_Content = ''earlier work'', ri_Tokens = 4,
     ri_RenderedTokens = 9, ri_Depth = 0, ri_EarliestSeq = 1, ri_LatestSeq = 3, ri_RepresentedMessages = 3, ri_IsSummary = True,
     ri_HasOffloadReference = False\<rparr>"

definition text_message :: "string \<Rightarrow> ingest_message" where
  "text_message x = \<lparr>im_Role = RoleUser, im_Content = x, im_ToolName = [], im_ExternalID = [], im_Raw = []\<rparr>"

theorem plan_never_captured_witness:
  "\<exists>p. BuildPlan ascii_only [sample_root] (\<lambda>_. []) (RecallBlock []) 4 = Inr p \<and> pn_SummaryRefs p = [''sum_1'']
    \<and> excludeMessage ascii_only id bare_policy (text_message (pn_ResumeNote p))"
proof -
  have "case BuildPlan ascii_only [sample_root] (\<lambda>_. []) (RecallBlock []) 4 of
      Inr p \<Rightarrow> pn_SummaryRefs p = [''sum_1''] \<and> pn_ResumeNote p \<noteq> [] | Inl e \<Rightarrow> False" by code_simp
  then obtain p where p: "BuildPlan ascii_only [sample_root] (\<lambda>_. []) (RecallBlock []) 4 = Inr p" "pn_SummaryRefs p = [''sum_1'']"
    "pn_ResumeNote p \<noteq> []" by (auto split: sum.splits)
  from plan_never_captured [OF p(1) _ p(3), where m = "text_message (pn_ResumeNote p)" and ord = id and pol = bare_policy] p(1,2)
  show ?thesis by (simp add: text_message_def)
qed

end
