(* ===== verification/App.thy ===== *)
theory App
  imports Acm_Engine Capture OpenCode
begin

text \<open>
  The command line: what the commands share (\<open>internal/cli/root.go\<close>), and the capture commands
  (\<open>hook.go\<close>, \<open>ingest.go\<close>, \<open>opencode_context.go\<close>).  Opening and migrating the database is one
  driver call; log output is left out.
\<close>

section \<open>The console\<close>

text \<open>A command runs on the world and on what has been written to standard output.\<close>

type_synonym cli = "world \<times> string"

definition lift :: "(world, 'a) prog \<Rightarrow> (cli, 'a) prog" where
  "lift m = (\<lambda>(w, out). case m w of (r, w') \<Rightarrow> (r, (w', out)))"

definition cli_print :: "string \<Rightarrow> (cli, unit) prog" where
  "cli_print s = bindE (lift (driver ''stdout'')) (\<lambda>_ (w, out). (Inr (), (w, out @ s)))"

text \<open>Output whose error the command ignores.\<close>

definition cli_show :: "string \<Rightarrow> (cli, unit) prog" where
  "cli_show s = bindE (tryE (cli_print s)) (\<lambda>_. ret ())"

text \<open>What a command is started with.\<close>

record app =
  ap_hash :: hash
  ap_unicode :: unicode
  ap_fts :: fts_engine
  ap_order :: map_order
  ap_zstd :: zstd_decoder
  ap_describe :: "string \<Rightarrow> (string \<times> string) option"
  ap_DBPath :: string
  ap_policy :: policy

definition newStore :: "(cli, unit) prog" where
  "newStore = lift (driver ''open store'')"

definition app_policy :: "app \<Rightarrow> message_policy" where
  "app_policy a = policy_Apply (ap_unicode a) (ap_order a) (ap_policy a)"

definition coreService :: "app \<Rightarrow> world service" where
  "coreService a = NewService (sqlite_core (ap_hash a) (ap_unicode a) (ap_fts a)) Heuristic_Count [app_policy a]"

definition app_recall :: "app \<Rightarrow> world recall_store" where
  "app_recall a = \<lparr>rs_RecentConversationalMessageIDs = RecentConversationalMessageIDs,
     rs_SearchMessages = SearchMessages (ap_unicode a) (ap_fts a), rs_SearchSummaries = SearchSummaries (ap_unicode a) (ap_fts a)\<rparr>"

definition app_compactor :: "app \<Rightarrow> world compactor" where
  "app_compactor a = newCompactor (ap_hash a) (ap_describe a) DefaultConfig (ap_DBPath a) None"

section \<open>acm hook\<close>

record hook_options =
  ho_agentStr :: agent
  ho_event :: string
  ho_recall :: int
  ho_noCompact :: bool

definition hookPayload :: "string \<Rightarrow> string list \<Rightarrow> (world, string) prog" where
  "hookPayload stdin args =
     (if length args = 1 then ret (hd args)
      else wrapE ''hook: read payload'' (bindE (driver ''stdin'') (\<lambda>_. ret stdin)))"

definition captureRequest :: "app \<Rightarrow> hook_options \<Rightarrow> string \<Rightarrow> string list \<Rightarrow> (world, ingest_request) prog" where
  "captureRequest a opts stdin args =
     (if \<not> agent_Valid (ho_agentStr opts) then fail (Errorf ''hook: invalid --agent %q'' [Quote (ap_unicode a) (ho_agentStr opts)])
      else if ho_event opts = [] then fail (Errorf ''hook: --event is required'' [])
      else if ho_recall opts < 0 \<or> ho_recall opts > MaxRecallItems
      then fail (Errorf ''hook: --recall must be between 0 and %d'' [itoa MaxRecallItems])
      else bindE (wrapE ''hook: read payload'' (hookPayload stdin args))
             (agent_Capture (ap_hash a) (ap_zstd a) (ho_agentStr opts) (ho_event opts)))"

definition automaticRecall :: "app \<Rightarrow> agent \<Rightarrow> string \<Rightarrow> string \<Rightarrow> int \<Rightarrow> (world, recall_hit list) prog" where
  "automaticRecall a agent sessionID prompt limit =
     bindE clock_Now (\<lambda>now.
       AutomaticRecall (ap_hash a) (ap_unicode a) (app_recall a)
         \<lparr>rr_Agent = agent, rr_SessionID = sessionID, rr_Prompt = prompt, rr_Limit = limit,
          rr_FreshTailMessages = cf_FreshTailMessages DefaultConfig, rr_FreshTailTokens = cf_FreshTailTokens DefaultConfig, rr_Now = now\<rparr>)"

definition emitRecall :: "string \<Rightarrow> string \<Rightarrow> (cli, unit) prog" where
  "emitRecall event block = cli_print (AdditionalContextJSON event block @ newline)"

definition handleRecall :: "app \<Rightarrow> hook_options \<Rightarrow> ingest_request \<Rightarrow> (cli, unit) prog" where
  "handleRecall a opts req =
     (if ho_event opts \<noteq> EventUserPromptSubmit \<or> iq_Messages req = [] \<or> ho_recall opts = 0
         \<or> policy_Mode (ap_policy a) (iq_SessionID req) = SessionIgnore
      then ret ()
      else bindE (tryE (lift (automaticRecall a (ho_agentStr opts) (iq_SessionID req) (im_Content (hd (iq_Messages req))) (ho_recall opts))))
        (\<lambda>hits. case hits of
            Inl _ \<Rightarrow> ret ()
          | Inr hs \<Rightarrow> if RecallBlock hs = [] then ret () else emitRecall (ho_event opts) (RecallBlock hs)))"

definition persistCapture :: "app \<Rightarrow> hook_options \<Rightarrow> ingest_request \<Rightarrow> (world, unit) prog" where
  "persistCapture a opts req =
     (if iq_SessionID req = [] \<or> iq_Messages req = [] then ret ()
      else bindE (Ingest (ap_unicode a) (coreService a) req) (\<lambda>result.
        if ho_noCompact opts \<or> (ho_event opts \<noteq> EventStop \<and> ho_event opts \<noteq> EventTurnComplete) then ret ()
        else bindE (tryE (Compact (app_compactor a) (ir_ConversationID result))) (\<lambda>_. ret ())))"

definition hook_run :: "app \<Rightarrow> hook_options \<Rightarrow> string \<Rightarrow> string list \<Rightarrow> (cli, unit) prog" where
  "hook_run a opts stdin args =
     bindE (lift (captureRequest a opts stdin args)) (\<lambda>request.
     bindE newStore (\<lambda>_.
     bindE (handleRecall a opts request) (\<lambda>_.
     lift (persistCapture a opts request))))"

section \<open>acm ingest\<close>

definition ingestMessagePayload :: "(string \<times> go_type) list" where
  "ingestMessagePayload = [(''role'', GoString), (''content'', GoString), (''tool_name'', GoString),
     (''external_id'', GoString), (''raw'', GoString)]"

definition ingestPayload :: "(string \<times> go_type) list" where
  "ingestPayload = [(''agent'', GoString), (''session_id'', GoString), (''title'', GoString),
     (''messages'', GoSlice (GoStruct ingestMessagePayload))]"

definition payload_message :: "json list \<Rightarrow> ingest_message" where
  "payload_message m =
     \<lparr>im_Role = string_field ingestMessagePayload ''role'' m, im_Content = string_field ingestMessagePayload ''content'' m,
      im_ToolName = string_field ingestMessagePayload ''tool_name'' m,
      im_ExternalID = string_field ingestMessagePayload ''external_id'' m, im_Raw = string_field ingestMessagePayload ''raw'' m\<rparr>"

definition payload_request :: "string \<Rightarrow> ingest_request option" where
  "payload_request raw =
     map_option (\<lambda>p. \<lparr>iq_Agent = string_field ingestPayload ''agent'' p, iq_SessionID = string_field ingestPayload ''session_id'' p,
        iq_Title = string_field ingestPayload ''title'' p,
        iq_Messages = map payload_message (slice_values (field_values ingestPayload ''messages'' p))\<rparr>)
       (Unmarshal_struct ingestPayload raw)"

definition ingest_text :: "ingest_result \<Rightarrow> string" where
  "ingest_text res =
     ''conversation '' @ ir_ConversationID res @ '': appended '' @ itoa (ir_Appended res) @ '', deduped ''
       @ itoa (ir_Deduped res) @ '', excluded '' @ itoa (ir_Excluded res) @ '', redacted '' @ itoa (ir_Redacted res)
       @ '', tokens '' @ itoa (ir_Tokens res) @ newline"

definition json_member :: "string \<Rightarrow> string \<Rightarrow> string" where
  "json_member key v = marshal_string key @ CHR '':'' # v"

definition ingest_json :: "ingest_result \<Rightarrow> string" where
  "ingest_json res =
     ''{'' @ Join [json_member ''ConversationID'' (marshal_string (ir_ConversationID res)),
        json_member ''Appended'' (itoa (ir_Appended res)), json_member ''Deduped'' (itoa (ir_Deduped res)),
        json_member ''Tokens'' (itoa (ir_Tokens res)), json_member ''Excluded'' (itoa (ir_Excluded res)),
        json_member ''Redacted'' (itoa (ir_Redacted res))] '','' @ ''}'' @ newline"

definition ingest_cmd :: "app \<Rightarrow> bool \<Rightarrow> string \<Rightarrow> (cli, unit) prog" where
  "ingest_cmd a asJSON stdin =
     bindE (lift (wrapE ''read stdin'' (driver ''stdin''))) (\<lambda>_.
     case payload_request stdin of None \<Rightarrow> fail (Errorf ''parse ingest payload'' [])
     | Some req \<Rightarrow>
         bindE newStore (\<lambda>_.
         bindE (lift (Ingest (ap_unicode a) (coreService a) req)) (\<lambda>res.
         if asJSON then cli_print (ingest_json res) else cli_show (ingest_text res))))"

section \<open>acm opencode-context\<close>

definition maxOpenCodeContextInput :: int where "maxOpenCodeContextInput = 2 ^ 20"

definition openCodeContextInput :: "(string \<times> go_type) list" where
  "openCodeContextInput = [(''session_id'', GoString), (''prompt'', GoString)]"

definition readOpenCodeContextInput :: "string \<Rightarrow> (world, string \<times> string) prog" where
  "readOpenCodeContextInput stdin =
     bindE (wrapE ''opencode-context: read input'' (driver ''stdin'')) (\<lambda>_.
       if int (length stdin) > maxOpenCodeContextInput
       then fail (Errorf ''opencode-context: input exceeds %d bytes'' [itoa maxOpenCodeContextInput])
       else case Unmarshal_struct openCodeContextInput stdin of
         None \<Rightarrow> fail (Errorf ''opencode-context: decode input'' [])
       | Some input \<Rightarrow>
           if string_field openCodeContextInput ''session_id'' input = []
           then fail (Errorf ''opencode-context: session_id is required'' [])
           else ret (string_field openCodeContextInput ''session_id'' input, string_field openCodeContextInput ''prompt'' input))"

definition openCodeRecall :: "app \<Rightarrow> string \<times> string \<Rightarrow> (world, recall_hit list) prog" where
  "openCodeRecall a inp = wrapE ''opencode-context: recall'' (automaticRecall a AgentOpenCode (fst inp) (snd inp) 5)"

fun external_loop :: "rendered_item list \<Rightarrow> (string \<Rightarrow> string) \<Rightarrow> (world, string \<Rightarrow> string) prog" where
  "external_loop [] external = ret external"
| "external_loop (item # items) external =
     (if ri_Type item \<noteq> ContextMessage then external_loop items external
      else bindE (wrapE ''opencode-context: load active message'' (GetMessage (ri_RefID item)))
             (\<lambda>m. external_loop items (external(ri_RefID item := ms_ExternalID m))))"

definition activeExternalIDs :: "rendered_item list \<Rightarrow> (world, string \<Rightarrow> string) prog" where
  "activeExternalIDs items =
     (if length items > 4096 then fail (Errorf ''opencode-context: active window exceeds 4096 items'' [])
      else external_loop items (\<lambda>_. []))"

definition plan_result :: "error + plan \<Rightarrow> (world, plan) prog" where
  "plan_result r = (case r of Inl e \<Rightarrow> fail e | Inr p \<Rightarrow> ret p)"

definition plan_window :: "app \<Rightarrow> string \<Rightarrow> (world, rendered_item list) prog" where
  "plan_window a sessionID =
     (let conversationID = DeriveConversationID (ap_hash a) AgentOpenCode sessionID in
      bindE (wrapE ''opencode-context: archive'' (ArchiveToFreshTail (app_compactor a) conversationID)) (\<lambda>_.
      wrapE ''opencode-context: assemble'' (Assemble (ap_unicode a) (app_compactor a) conversationID)))"

definition buildOpenCodeContextPlan :: "app \<Rightarrow> string \<times> string \<Rightarrow> (world, plan) prog" where
  "buildOpenCodeContextPlan a inp =
     bindE (driver ''open store'') (\<lambda>_.
     let mode = policy_Mode (ap_policy a) (fst inp); tail = cf_FreshTailMessages DefaultConfig in
     if mode = SessionIgnore then plan_result (BuildPlan (ap_unicode a) [] (\<lambda>_. []) [] tail)
     else bindE (if mode = SessionCapture then plan_window a (fst inp) else ret []) (\<lambda>items.
          bindE (openCodeRecall a inp) (\<lambda>recall.
          bindE (activeExternalIDs items) (\<lambda>externalIDs.
          plan_result (BuildPlan (ap_unicode a) items externalIDs (RecallBlock recall) tail)))))"

end
