(* ===== verification/Keeps.thy ===== *)
theory Keeps
  imports App Frame
begin

text \<open>
  Operations that never change a reading of the state, whatever they return: the rules of \<open>Frame\<close> for
  an equality of readings, and how the commands of the command line run.
\<close>

section \<open>Programs that keep a reading\<close>

definition keeps :: "('s \<Rightarrow> 'x) \<Rightarrow> ('s, 'a) prog \<Rightarrow> bool" where
  "keeps g m \<longleftrightarrow> (\<forall>s. g (snd (m s)) = g s)"

named_theorems keeps_intros \<open>rules for programs that keep a reading of the state\<close>

lemma keepsD: "keeps g m \<Longrightarrow> m s = (r, s') \<Longrightarrow> g s' = g s"
  by (metis keeps_def snd_conv)

lemma keeps_moves: "keeps g m \<longleftrightarrow> moves (\<lambda>s s'. g s' = g s) m"
  by (simp add: keeps_def moves_def)

interpretation reading: preorder_rel "\<lambda>s s'. g s' = g s" for g
  by unfold_locales simp_all

lemmas keeps_rules [keeps_intros] = reading.moves_rules [folded keeps_moves]
  reading.moves_mapE [folded keeps_moves] reading.moves_foldE [folded keeps_moves]

section \<open>Readings of the tables\<close>

abbreviation db_keeps :: "(tables \<Rightarrow> 'x) \<Rightarrow> (world, 'a) prog \<Rightarrow> bool" where
  "db_keeps f \<equiv> keeps (\<lambda>w. f (w_db w))"

interpretation table_reading: table_preorder "\<lambda>t t'. f t' = f t" for f
  by unfold_locales simp_all

lemma driver_keeps [keeps_intros]: "db_keeps f (driver op)"
  by (simp add: keeps_moves table_reading.moves_driver)

lemma clock_keeps [keeps_intros]: "db_keeps f clock_Now"
  by (simp add: keeps_moves table_reading.moves_clock)

lemma query_keeps [keeps_intros]: "db_keeps f (sql_query msg q)" "db_keeps f (sql_rows qmsg imsg rows)"
  by (simp_all add: keeps_moves table_reading.moves_query table_reading.moves_rows)

lemma in_tx_keeps_reading:
  assumes body: "keeps g body" and driver: "\<And>op. keeps g (driver op)"
    and reset: "\<And>w1 w2. g w2 = g w1 \<Longrightarrow> g (w2\<lparr>w_db := w_db w1\<rparr>) = g w1"
  shows "keeps g (in_tx b c body)"
  unfolding keeps_moves
  by (rule in_tx_moves [OF reading.preorder_rel_axioms]) (use assms in \<open>simp_all add: keeps_moves\<close>)

section \<open>Commands\<close>

lemma lift_iff: "lift m (w, out) = (r, w', out') \<longleftrightarrow> m w = (r, w') \<and> out' = out"
  by (auto simp: lift_def split: prod.split)

lemma driver_run: "driver op w = (r, w') \<Longrightarrow> w_db w' = w_db w \<and> w_files w' = w_files w \<and> w_now w' = w_now w"
  by (auto simp: driver_def)

lemma newStore_run:
  "newStore (w, out) = (r, w', out') \<Longrightarrow> w_db w' = w_db w \<and> w_files w' = w_files w \<and> w_now w' = w_now w \<and> out' = out"
  by (auto simp: newStore_def lift_iff dest: driver_run)

lemma cli_print_run:
  assumes "cli_print s (w, out) = (r, w', out')"
  shows "w_db w' = w_db w" "w_files w' = w_files w" "r = Inr () \<Longrightarrow> out' = out @ s"
  using assms by (auto simp: cli_print_def lift_def bindE_def split: prod.splits sum.splits dest: driver_run)

lemma cli_show_run:
  assumes "cli_show s (w, out) = (r, w', out')"
  shows "r = Inr ()" "w_db w' = w_db w" "w_files w' = w_files w"
proof -
  obtain r1 w1 o1 where p: "cli_print s (w, out) = (r1, w1, o1)" by (metis prod_cases3)
  then have "r = Inr () \<and> w' = w1" using assms by (simp add: cli_show_def bindE_def tryE_def ret_def)
  then show "r = Inr ()" "w_db w' = w_db w" "w_files w' = w_files w" using cli_print_run [OF p] by auto
qed

end
