(* ===== verification/App_Props.thy ===== *)
theory App_Props
  imports Keeps Privacy_Props
begin

text \<open>
  What the capture commands guarantee end to end: a hook run stores the captured turn under the
  policy, whatever becomes of recall and compaction.
\<close>

section \<open>Reading the runs\<close>

text \<open>Capturing a request and recalling read the database and never change it.\<close>

lemma open_candidates_keeps: "db_keeps f (open_candidates zstd path cs)"
  by (induction cs) (auto simp: os_Open_def intro!: keeps_intros split: sum.split, (simp add: keeps_def)+)

lemma Reconcile_keeps [keeps_intros]: "db_keeps f (ReconcileTranscriptAssistant H zstd agent path)"
  unfolding ReconcileTranscriptAssistant_def openTranscript_def
  by (intro keeps_intros open_candidates_keeps)

lemma captureRequest_keeps: "db_keeps f (captureRequest a opts stdin args)"
  unfolding captureRequest_def hookPayload_def agent_Capture_def Let_def by (intro keeps_intros)

lemma searches_keep [keeps_intros]:
  "db_keeps f (RecentConversationalMessageIDs c m k r)" "db_keeps f (SearchMessages U F q)" "db_keeps f (SearchSummaries U F q)"
  unfolding RecentConversationalMessageIDs_def SearchMessages_def searchSubstr_def searchFTS_def queryHits_def SearchSummaries_def Let_def
  by (intro keeps_intros)+

lemma AutomaticRecall_keeps: "db_keeps f (AutomaticRecall H U (app_recall a) req)"
  unfolding AutomaticRecall_def automaticFreshTail_def Let_def
  by (intro keeps_intros) (simp_all add: app_recall_def searches_keep)

lemma automaticRecall_keeps: "db_keeps f (automaticRecall a agent sid prompt n)"
  unfolding automaticRecall_def by (intro keeps_intros AutomaticRecall_keeps)

lemma Compact_keeps_messages: "db_keeps t_messages (Compact (app_compactor a) c)"
  unfolding Compact_def app_compactor_def keeps_moves by (rule log.compactWindow_moves) simp

section \<open>A hook run\<close>

text \<open>Recall prints one line of JSON or nothing, and leaves the database alone.\<close>

lemma handleRecall_run:
  assumes run: "handleRecall a opts req (w, out) = (Inr u, w', out')"
  shows "w_db w' = w_db w"
    "out' = out \<or> ho_event opts = EventUserPromptSubmit \<and> (\<exists>hits. out' = out @ AdditionalContextJSON (ho_event opts) (RecallBlock hits) @ newline)"
proof -
  have "w_db w' = w_db w \<and> (out' = out \<or> ho_event opts = EventUserPromptSubmit
      \<and> (\<exists>hits. out' = out @ AdditionalContextJSON (ho_event opts) (RecallBlock hits) @ newline))"
  proof (cases "ho_event opts \<noteq> EventUserPromptSubmit \<or> iq_Messages req = [] \<or> ho_recall opts = 0
         \<or> policy_Mode (ap_policy a) (iq_SessionID req) = SessionIgnore")
    case True
    then show ?thesis using run by (simp add: handleRecall_def ret_def)
  next
    case False
    then obtain hits w1 where h: "automaticRecall a (ho_agentStr opts) (iq_SessionID req) (im_Content (hd (iq_Messages req))) (ho_recall opts) w = (hits, w1)"
      and rest: "(case hits of Inl _ \<Rightarrow> ret () | Inr hs \<Rightarrow> if RecallBlock hs = [] then ret () else emitRecall (ho_event opts) (RecallBlock hs)) (w1, out)
        = (Inr u, w', out')"
      using run by (auto simp: handleRecall_def bindE_Inr tryE_Inr lift_iff)
    have "w_db w1 = w_db w" using keepsD [OF automaticRecall_keeps [where f = "\<lambda>t. t"] h] by simp
    then show ?thesis
      using rest False cli_print_run [where w = w1 and out = out and w' = w' and out' = out' and r = "Inr u"]
      by (auto simp: emitRecall_def ret_def split: sum.splits if_splits)
  qed
  then show "w_db w' = w_db w"
    "out' = out \<or> ho_event opts = EventUserPromptSubmit \<and> (\<exists>hits. out' = out @ AdditionalContextJSON (ho_event opts) (RecallBlock hits) @ newline)"
    by blast+
qed

text \<open>
  A capture is stored: the log grew only by redacted forms of messages of the request that no rule
  excludes, by none outside capture mode, and afterwards each of those messages is in it.
\<close>

definition capture_stored :: "app \<Rightarrow> ingest_request \<Rightarrow> tables \<Rightarrow> tables \<Rightarrow> bool" where
  "capture_stored a req t t' \<longleftrightarrow>
     (let kept = kept_message (ap_unicode a) (ap_order a) (ap_policy a);
          stays = (\<lambda>m. \<not> excludeMessage (ap_unicode a) (ap_order a) (ap_policy a) m);
          capturing = (policy_Mode (ap_policy a) (iq_SessionID req) = SessionCapture) in
      (\<exists>new. t_messages t' = t_messages t @ new \<and> (capturing \<or> new = [])
         \<and> (\<forall>x \<in> set new. \<exists>m \<in> set (iq_Messages req). \<exists>r. kept m r
              \<and> ms_Content x = im_Content r \<and> ms_Raw x = im_Raw r \<and> ms_Role x = im_Role r))
      \<and> (capturing \<and> iq_SessionID req \<noteq> [] \<longrightarrow>
          (\<exists>rs. list_all2 kept (filter stays (iq_Messages req)) rs
             \<and> message_key (ap_hash a) (request_conversation (ap_hash a) req) ` set rs \<subseteq> ms_ID ` set (t_messages t'))))"

lemma persistCapture_stored:
  assumes wf: "wf_tables (ap_hash a) (w_db w)" and run: "persistCapture a opts req w = (Inr u, w')"
  shows "capture_stored a req (w_db w) (w_db w')"
proof (cases "iq_SessionID req = [] \<or> iq_Messages req = []")
  case True
  then have "w' = w" using run by (simp add: persistCapture_def ret_def)
  with True show ?thesis by (auto simp: capture_stored_def)
next
  case False
  let ?P = "policy_Apply (ap_unicode a) (ap_order a) (ap_policy a)"
  obtain res w1 where i: "Ingest (ap_unicode a) (coreService a) req w = (Inr res, w1)"
    and rest: "w' = w1 \<or> (\<exists>r. Compact (app_compactor a) (ir_ConversationID res) w1 = (r, w'))"
    using run False by (auto simp: persistCapture_def bindE_Inr tryE_Inr ret_def split: if_splits)
  have same: "t_messages (w_db w') = t_messages (w_db w1)"
    using rest keepsD [OF Compact_keeps_messages] by blast
  obtain req' d new where P: "?P req = Inr (req', d)" and new: "t_messages (w_db w1) = t_messages (w_db w) @ new"
    "\<forall>x \<in> set new. \<exists>m \<in> set (iq_Messages req). \<exists>r. kept_message (ap_unicode a) (ap_order a) (ap_policy a) m r
       \<and> ms_Content x = im_Content r \<and> ms_Raw x = im_Raw r \<and> ms_Role x = im_Role r"
    and none: "policy_Mode (ap_policy a) (iq_SessionID req) = SessionCapture \<or> new = []"
    and keys: "policy_Mode (ap_policy a) (iq_SessionID req) = SessionCapture
      \<longrightarrow> request_keys (ap_hash a) req' \<subseteq> ms_ID ` set (t_messages (w_db w1))" and "wf_tables (ap_hash a) (w_db w1)"
    by (rule ingest_policy_log [OF wf i [unfolded coreService_def app_policy_def]])
  have "\<exists>rs. list_all2 (kept_message (ap_unicode a) (ap_order a) (ap_policy a))
          (filter (\<lambda>m. \<not> excludeMessage (ap_unicode a) (ap_order a) (ap_policy a) m) (iq_Messages req)) rs
      \<and> message_key (ap_hash a) (request_conversation (ap_hash a) req) ` set rs \<subseteq> ms_ID ` set (t_messages (w_db w1))"
    if mode: "policy_Mode (ap_policy a) (iq_SessionID req) = SessionCapture"
  proof -
    note pa = policy_Apply_capture [OF P mode]
    have "iq_Agent req' = iq_Agent req" "iq_SessionID req' = iq_SessionID req" by (subst pa(2), simp)+
    with keys mode pa(3) show ?thesis by auto
  qed
  with new none show ?thesis unfolding capture_stored_def Let_def same by blast
qed

text \<open>C26. A hook run that ends without an error has stored what it captured: every message of the event
  that no rule excludes, redacted, and nothing else, whether or not recall and compaction succeed.  It
  prints at most one line, the recalled context of a prompt event.\<close>

theorem hook_run_stores_capture:
  assumes "wf_tables (ap_hash a) (w_db w)" and "captureRequest a opts stdin args w = (Inr req, w1)"
    and "hook_run a opts stdin args (w, out) = (Inr (), w', out')"
  shows "capture_stored a req (w_db w) (w_db w')
    \<and> (out' = out \<or> ho_event opts = EventUserPromptSubmit
         \<and> (\<exists>hits. out' = out @ AdditionalContextJSON (ho_event opts) (RecallBlock hits) @ newline))"
proof -
  obtain w2 o2 w3 o3 where n: "newStore (w1, out) = (Inr (), w2, o2)"
    and h: "handleRecall a opts req (w2, o2) = (Inr (), w3, o3)" and p: "persistCapture a opts req w3 = (Inr (), w')" "out' = o3"
    using assms(2,3) by (auto simp: hook_run_def bindE_Inr lift_iff)
  have "w_db w1 = w_db w" using keepsD [OF captureRequest_keeps [where f = "\<lambda>t. t"] assms(2)] by simp
  with newStore_run [OF n] have db: "w_db w2 = w_db w" and o: "o2 = out" by auto
  note r = handleRecall_run [OF h]
  from persistCapture_stored [of a w3, OF _ p(1)] assms(1) have "capture_stored a req (w_db w) (w_db w')"
    by (simp add: r(1) db)
  with r(2) p(2) show ?thesis by (simp add: o)
qed

definition sample_app :: app where
  "sample_app = \<lparr>ap_hash = sample_hash, ap_unicode = ascii_only, ap_fts = sample_fts, ap_order = id,
     ap_zstd = (\<lambda>_. Inl (ErrIO ''zstd'')), ap_describe = no_describe, ap_DBPath = sample_db_path, ap_policy = tmp_policy\<rparr>"

definition prompt_hook :: hook_options where
  "prompt_hook = \<lparr>ho_agentStr = AgentClaude, ho_event = EventUserPromptSubmit, ho_recall = 5, ho_noCompact = False\<rparr>"

definition prompt_payload :: string where
  "prompt_payload = ''{'' @ [CHR 0x22] @ ''session_id'' @ [CHR 0x22] @ '':'' @ [CHR 0x22] @ ''s1'' @ [CHR 0x22] @ '',''
     @ [CHR 0x22] @ ''prompt'' @ [CHR 0x22] @ '':'' @ [CHR 0x22] @ ''alpha beta'' @ [CHR 0x22] @ ''}''"

theorem hook_run_stores_capture_witness:
  "\<exists>w1 w' req out. captureRequest sample_app prompt_hook [] [prompt_payload] sample_world = (Inr req, w1)
     \<and> hook_run sample_app prompt_hook [] [prompt_payload] (sample_world, []) = (Inr (), w', out)
     \<and> capture_stored sample_app req (w_db sample_world) (w_db w')"
proof -
  have "case captureRequest sample_app prompt_hook [] [prompt_payload] sample_world of (Inr req, w1) \<Rightarrow> True | _ \<Rightarrow> False"
    by code_simp
  then obtain req w1 where c: "captureRequest sample_app prompt_hook [] [prompt_payload] sample_world = (Inr req, w1)"
    by (auto split: prod.splits sum.splits)
  have "case hook_run sample_app prompt_hook [] [prompt_payload] (sample_world, []) of (Inr u, w', out) \<Rightarrow> True | _ \<Rightarrow> False"
    by code_simp
  then obtain w' out where r: "hook_run sample_app prompt_hook [] [prompt_payload] (sample_world, []) = (Inr (), w', out)"
    by (auto split: prod.splits sum.splits)
  have "wf_tables (ap_hash sample_app) (w_db sample_world)" using sample_wf by (simp add: sample_app_def)
  from hook_run_stores_capture [OF this c r] c r show ?thesis by blast
qed

end
