(* ===== verification/Maintenance.thy ===== *)
theory Maintenance
  imports App
begin

text \<open>
  The maintenance commands of \<open>internal/cli\<close>: \<open>backup.go\<close>, \<open>prune.go\<close>, \<open>backfill.go\<close>,
  \<open>carryover.go\<close>.  A database file is text to the file system; what \<open>VACUUM INTO\<close> writes for given
  tables, and what opening a file reads, are parameters.
\<close>

section \<open>acm backup\<close>

record db_files =
  df_dump :: "tables \<Rightarrow> string"
  df_open :: "string \<Rightarrow> tables option"
  df_integrity :: "tables \<Rightarrow> string"

definition os_Remove :: "string \<Rightarrow> (world, unit) prog" where
  "os_Remove path = bindE (driver ''remove'')
     (\<lambda>_ w. case w_files w path of None \<Rightarrow> (Inl not_exist, w) | Some _ \<Rightarrow> (Inr (), w\<lparr>w_files := (w_files w)(path := None)\<rparr>))"

definition os_Stat :: "string \<Rightarrow> (world, unit) prog" where
  "os_Stat path = bindE (driver ''stat'') (\<lambda>_ w. (case w_files w path of None \<Rightarrow> Inl not_exist | Some _ \<Rightarrow> Inr (), w))"

text \<open>A \<open>VACUUM INTO\<close> that fails leaves no file.\<close>

definition vacuum_into :: "db_files \<Rightarrow> string \<Rightarrow> (world, unit) prog" where
  "vacuum_into D path = bindE (driver ''vacuum into'')
     (\<lambda>_ w. (Inr (), w\<lparr>w_files := (w_files w)(path \<mapsto> df_dump D (w_db w))\<rparr>))"

text \<open>The health check on another database file.\<close>

definition with_file :: "db_files \<Rightarrow> string \<Rightarrow> (world, 'a) prog \<Rightarrow> (world, 'a) prog" where
  "with_file D path m = bindE (driver ''open backup'') (\<lambda>_ w.
     case Option.bind (w_files w path) (df_open D) of
       None \<Rightarrow> (Inl (ErrIO ''not a database''), w)
     | Some t \<Rightarrow> (case m (w\<lparr>w_db := t\<rparr>) of (r, w') \<Rightarrow> (r, w'\<lparr>w_db := w_db w\<rparr>)))"

definition verifyBackup :: "db_files \<Rightarrow> string \<Rightarrow> (world, unit) prog" where
  "verifyBackup D path =
     bindE (with_file D path (CheckHealth (df_integrity D))) (\<lambda>health.
       if \<not> health_OK health then fail (Errorf ''backup: verification failed for %s'' [path]) else ret ())"

definition backupDatabase :: "db_files \<Rightarrow> string \<Rightarrow> (world, unit) prog" where
  "backupDatabase D destination =
     bindE (wrapE ''backup: create destination dir'' (os_MkdirAll (path_Dir destination))) (\<lambda>_.
     bindE (tryE (os_Stat destination)) (\<lambda>st. case st of
         Inr _ \<Rightarrow> fail (Errorf ''backup: destination %s already exists'' [destination])
       | Inl e \<Rightarrow>
           if \<not> errors_Is e not_exist then fail (ErrWrap ''backup: inspect destination'' e)
           else bindE (wrapE (''backup: vacuum into '' @ destination) (vacuum_into D destination)) (\<lambda>_.
                bindE (wrapE (''backup: secure '' @ destination) (driver ''chmod'')) (\<lambda>_.
                verifyBackup D destination))))"

text \<open>The default destination carries a timestamp; its text is a parameter of the commands.\<close>

definition backup_path :: "app \<Rightarrow> string \<Rightarrow> string \<Rightarrow> string" where
  "backup_path a prefix stamp = path_Join [path_Dir (ap_DBPath a), ''backups'', prefix @ stamp @ ''.db'']"

definition backup_cmd :: "app \<Rightarrow> db_files \<Rightarrow> (time \<Rightarrow> string) \<Rightarrow> string list \<Rightarrow> (cli, unit) prog" where
  "backup_cmd a D stamp args =
     bindE newStore (\<lambda>_.
     bindE (lift clock_Now) (\<lambda>now.
     let dest = (if length args = 1 then hd args else backup_path a ''acm-'' (stamp now)) in
     bindE (lift (backupDatabase D dest)) (\<lambda>_. cli_show (''backup written to '' @ dest @ newline))))"

section \<open>acm prune\<close>

definition defaultPruneLimit :: int where "defaultPruneLimit = 1000"

definition prune_status :: "bool \<Rightarrow> prune_candidate \<Rightarrow> string" where
  "prune_status force c =
     (if pc_Pinned c then ''pinned'' else if pc_UnexpandedSummary c > 0 \<and> \<not> force then ''unexpanded'' else ''eligible'')"

definition prune_line :: "(time \<Rightarrow> string) \<Rightarrow> bool \<Rightarrow> prune_candidate \<Rightarrow> string" where
  "prune_line stamp force c =
     cv_ID (pc_Conversation c) @ '' updated='' @ stamp (cv_UpdatedAt (pc_Conversation c)) @ '' summaries='' @ itoa (pc_SummaryCount c)
       @ '' unexpanded='' @ itoa (pc_UnexpandedSummary c) @ '' status='' @ prune_status force c @ newline"

fun printPrunePlan :: "(time \<Rightarrow> string) \<Rightarrow> bool \<Rightarrow> prune_candidate list \<Rightarrow> string list \<Rightarrow> (cli, string list) prog" where
  "printPrunePlan stamp force [] ids = ret ids"
| "printPrunePlan stamp force (c # cs) ids =
     bindE (cli_show (prune_line stamp force c)) (\<lambda>_.
       printPrunePlan stamp force cs (if prune_status force c = ''eligible'' then ids @ [cv_ID (pc_Conversation c)] else ids))"

fun removeOffloads :: "string list \<Rightarrow> (world, unit) prog" where
  "removeOffloads [] = ret ()"
| "removeOffloads (path # paths) =
     bindE (tryE (os_Remove path)) (\<lambda>r. case r of
         Inl e \<Rightarrow> if errors_Is e not_exist then removeOffloads paths else fail (ErrWrap (''remove '' @ path) e)
       | Inr _ \<Rightarrow> removeOffloads paths)"

definition pruneMode :: "bool \<Rightarrow> string" where
  "pruneMode apply_it = (if apply_it then ''apply'' else ''dry-run'')"

definition runPrune :: "app \<Rightarrow> db_files \<Rightarrow> (time \<Rightarrow> string) \<Rightarrow> (time \<Rightarrow> string) \<Rightarrow> duration \<Rightarrow> bool \<Rightarrow> bool \<Rightarrow> string \<Rightarrow> int \<Rightarrow> (cli, unit) prog" where
  "runPrune a D stamp rfc3339 olderThan apply_it force backupPath limit =
     bindE newStore (\<lambda>_.
     bindE (lift clock_Now) (\<lambda>now.
     bindE (lift (ListPruneCandidates (now - olderThan) limit)) (\<lambda>candidates.
     bindE (printPrunePlan rfc3339 force candidates []) (\<lambda>ids.
     if \<not> apply_it \<or> ids = []
     then cli_show (''mode='' @ pruneMode apply_it @ '' eligible='' @ itoa (int (length ids)) @ '' considered=''
            @ itoa (int (length candidates)) @ newline)
     else bindE (lift clock_Now) (\<lambda>later.
     let path = (if backupPath = [] then backup_path a ''pre-prune-'' (stamp later) else backupPath) in
     bindE (lift (backupDatabase D path)) (\<lambda>_.
     bindE (lift (DeleteConversations ids)) (\<lambda>result.
     bindE (lift (wrapE (''prune: database committed but offload cleanup failed; restore '' @ path @ '' if rollback is required'')
              (removeOffloads (dr_OffloadPaths result)))) (\<lambda>_.
     cli_show (''backup='' @ path @ '' deleted='' @ itoa (dr_Deleted result) @ '' offloads=''
        @ itoa (int (length (dr_OffloadPaths result))) @ '' mode=apply'' @ newline)))))))))"

definition prune_cmd :: "app \<Rightarrow> db_files \<Rightarrow> (time \<Rightarrow> string) \<Rightarrow> (time \<Rightarrow> string) \<Rightarrow> duration \<Rightarrow> bool \<Rightarrow> bool \<Rightarrow> string \<Rightarrow> int \<Rightarrow> (cli, unit) prog" where
  "prune_cmd a D stamp rfc3339 olderThan apply_it force backupPath limit =
     (if olderThan \<le> 0 \<or> limit \<le> 0 \<or> limit > defaultPruneLimit
      then fail (Errorf ''prune: --older-than must be positive and --max-conversations must be 1..1000'' [])
      else runPrune a D stamp rfc3339 olderThan apply_it force backupPath limit)"

section \<open>acm backfill\<close>

definition defaultBackfillConversations :: int where "defaultBackfillConversations = 1000"

record backfill_result =
  bf_ConversationID :: string
  bf_Transcripts :: int
  bf_Unavailable :: int
  bf_Candidates :: int
  bf_Missing :: int
  bf_Malformed :: int
  bf_Appended :: int

record transcript_total =
  tt_candidates :: "ingest_message list"
  tt_malformed :: int
  tt_unavailable :: int

text \<open>\<open>byID\<close> is a Go map: of two conversations with one id the later stays.\<close>

fun filterConversations :: "conversation list \<Rightarrow> string list \<Rightarrow> error + conversation list" where
  "filterConversations all [] = Inr []"
| "filterConversations all (i # ids) =
     (case find (\<lambda>c. cv_ID c = i) (rev all) of
        None \<Rightarrow> Inl (Errorf ''backfill: Codex conversation %s not found'' [i])
      | Some c \<Rightarrow> (case filterConversations all ids of Inl e \<Rightarrow> Inl e | Inr cs \<Rightarrow> Inr (c # cs)))"

definition selectBackfillConversations :: "string list \<Rightarrow> int \<Rightarrow> (world, conversation list) prog" where
  "selectBackfillConversations ids limit =
     bindE (ListConversations AgentCodex) (\<lambda>all.
       if ids = []
       then (if int (length all) > limit
             then fail (Errorf ''backfill: %d Codex conversations exceed --max-conversations %d'' [itoa (int (length all)), itoa limit])
             else ret all)
       else if int (length ids) > limit
       then fail (Errorf ''backfill: %d requested conversations exceed --max-conversations %d'' [itoa (int (length ids)), itoa limit])
       else case filterConversations all ids of Inl e \<Rightarrow> fail e | Inr cs \<Rightarrow> ret cs)"

definition transcript_path_of :: "string \<Rightarrow> string option" where
  "transcript_path_of raw =
     (if raw = [] then None
      else case Unmarshal_struct [(''transcript_path'', GoString)] raw of None \<Rightarrow> None
      | Some p \<Rightarrow> let path = string_field [(''transcript_path'', GoString)] ''transcript_path'' p in
          if path = [] then None else Some path)"

fun transcript_paths_loop :: "message list \<Rightarrow> int \<Rightarrow> string list \<Rightarrow> error + string list" where
  "transcript_paths_loop [] limit paths = Inr paths"
| "transcript_paths_loop (m # ms) limit paths =
     (case transcript_path_of (ms_Raw m) of
        None \<Rightarrow> transcript_paths_loop ms limit paths
      | Some p \<Rightarrow>
          if p \<in> set paths then transcript_paths_loop ms limit paths
          else if int (length paths) = limit
          then Inl (Errorf ''backfill: conversation %s exceeds --max-transcripts %d'' [ms_ConversationID m, itoa limit])
          else transcript_paths_loop ms limit (paths @ [p]))"

definition transcriptPaths :: "message list \<Rightarrow> int \<Rightarrow> error + string list" where
  "transcriptPaths messages limit = transcript_paths_loop messages limit []"

fun scanCodexTranscripts :: "app \<Rightarrow> string list \<Rightarrow> transcript_total \<Rightarrow> (world, transcript_total) prog" where
  "scanCodexTranscripts a [] tally = ret tally"
| "scanCodexTranscripts a (path # paths) tally =
     bindE (tryE (ReconcileTranscriptAssistant (ap_hash a) (ap_zstd a) AgentCodex path)) (\<lambda>r. case r of
         Inl e \<Rightarrow>
           if errors_Is e not_exist
           then scanCodexTranscripts a paths (tally\<lparr>tt_unavailable := tt_unavailable tally + 1\<rparr>)
           else fail e
       | Inr (messages, report) \<Rightarrow>
           if tr_LimitReached report then fail (Errorf ''backfill: transcript %s reached its line limit'' [path])
           else scanCodexTranscripts a paths
                  (tally\<lparr>tt_malformed := tt_malformed tally + tr_Malformed report, tt_candidates := tt_candidates tally @ messages\<rparr>))"

fun missing_loop :: "string set \<Rightarrow> ingest_message list \<Rightarrow> ingest_message list" where
  "missing_loop ids [] = []"
| "missing_loop ids (c # cs) =
     (if im_ExternalID c \<in> ids then missing_loop ids cs else c # missing_loop (insert (im_ExternalID c) ids) cs)"

definition missingTranscriptMessages :: "message list \<Rightarrow> ingest_message list \<Rightarrow> ingest_message list" where
  "missingTranscriptMessages existing candidates =
     missing_loop (set (map ms_ExternalID (filter (\<lambda>m. ms_Role m = RoleAssistant) existing))) candidates"

definition backfillConversation :: "app \<Rightarrow> conversation \<Rightarrow> bool \<Rightarrow> int \<Rightarrow> (world, backfill_result) prog" where
  "backfillConversation a conv apply_it maxTranscripts =
     bindE (ListMessages (cv_ID conv) 0 0) (\<lambda>messages.
     case transcriptPaths messages maxTranscripts of Inl e \<Rightarrow> fail e
     | Inr paths \<Rightarrow>
         bindE (scanCodexTranscripts a paths \<lparr>tt_candidates = [], tt_malformed = 0, tt_unavailable = 0\<rparr>) (\<lambda>scan.
         let missing = missingTranscriptMessages messages (tt_candidates scan);
             result = \<lparr>bf_ConversationID = cv_ID conv, bf_Transcripts = int (length paths), bf_Unavailable = tt_unavailable scan,
               bf_Candidates = int (length (tt_candidates scan)), bf_Missing = int (length missing),
               bf_Malformed = tt_malformed scan, bf_Appended = 0\<rparr> in
         if \<not> apply_it \<or> missing = [] then ret result
         else bindE (Ingest (ap_unicode a) (coreService a)
                \<lparr>iq_Agent = AgentCodex, iq_SessionID = cv_SessionID conv, iq_Title = [], iq_Messages = missing\<rparr>)
              (\<lambda>ingested. ret (result\<lparr>bf_Appended := ir_Appended ingested\<rparr>))))"

definition backfillMode :: "bool \<Rightarrow> string" where
  "backfillMode apply_it = (if apply_it then ''apply'' else ''dry-run'')"

definition backfill_line :: "bool \<Rightarrow> backfill_result \<Rightarrow> string" where
  "backfill_line apply_it r =
     bf_ConversationID r @ '': transcripts='' @ itoa (bf_Transcripts r) @ '' unavailable='' @ itoa (bf_Unavailable r)
       @ '' candidates='' @ itoa (bf_Candidates r) @ '' missing='' @ itoa (bf_Missing r) @ '' appended='' @ itoa (bf_Appended r)
       @ '' malformed='' @ itoa (bf_Malformed r) @ '' mode='' @ backfillMode apply_it @ newline"

definition runBackfill :: "app \<Rightarrow> string list \<Rightarrow> bool \<Rightarrow> int \<Rightarrow> int \<Rightarrow> (cli, unit) prog" where
  "runBackfill a ids apply_it maxConversations maxTranscripts =
     bindE newStore (\<lambda>_.
     bindE (lift (selectBackfillConversations ids maxConversations)) (\<lambda>conversations.
     foldE (\<lambda>conv _. bindE (lift (backfillConversation a conv apply_it maxTranscripts)) (\<lambda>r. cli_print (backfill_line apply_it r)))
       conversations ()))"

definition backfill_cmd :: "app \<Rightarrow> string list \<Rightarrow> bool \<Rightarrow> int \<Rightarrow> int \<Rightarrow> (cli, unit) prog" where
  "backfill_cmd a ids apply_it maxConversations maxTranscripts =
     (if maxConversations \<le> 0 \<or> maxTranscripts \<le> 0 then fail (Errorf ''backfill: limits must be positive'' [])
      else runBackfill a ids apply_it maxConversations maxTranscripts)"

section \<open>acm carry-over\<close>

definition maxCarryOverSummaries :: int where "maxCarryOverSummaries = 64"
definition maxCarryOverChars :: int where "maxCarryOverChars = 60000"

definition carryOverAgent :: "unicode \<Rightarrow> agent \<Rightarrow> string \<Rightarrow> error + agent" where
  "carryOverAgent U source requested =
     (if requested = [] then Inr source
      else if \<not> agent_Valid requested then Inl (Errorf ''carry-over: invalid target agent %q'' [Quote U requested])
      else Inr requested)"

definition choose_summaries :: "string \<Rightarrow> int \<Rightarrow> int \<Rightarrow> summary list \<Rightarrow> error + summary list" where
  "choose_summaries conversationID depth limit summaries =
     (if summaries = [] then Inl (Errorf ''carry-over: source conversation %s has no summaries'' [conversationID])
      else let selectedDepth = (if depth < 0 then sm_Depth (hd summaries) else depth);
               selected = filter (\<lambda>s. sm_Depth s = selectedDepth) summaries in
           if selected = [] then Inl (Errorf ''carry-over: source has no summaries at depth %d'' [itoa selectedDepth])
           else if int (length selected) > limit
           then Inl (Errorf ''carry-over: %d summaries at depth %d exceed --max-summaries %d''
                  [itoa (int (length selected)), itoa selectedDepth, itoa limit])
           else Inr selected)"

definition selectCarryOverSummaries :: "string \<Rightarrow> int \<Rightarrow> int \<Rightarrow> (world, summary list) prog" where
  "selectCarryOverSummaries conversationID depth limit =
     bindE (ListConversationSummaries conversationID) (\<lambda>summaries.
       case choose_summaries conversationID depth limit summaries of Inl e \<Rightarrow> fail e | Inr s \<Rightarrow> ret s)"

definition carry_block :: "unicode \<Rightarrow> summary \<Rightarrow> string" where
  "carry_block U s =
     ''<summary id='' @ Quote U (sm_ID s) @ '' depth='' @ itoa (sm_Depth s) @ '' seq='' @ itoa (sm_EarliestSeq s) @ ''-''
       @ itoa (sm_LatestSeq s) @ ''>'' @ newline @ sm_Content s @ newline @ ''</summary>'' @ newline"

fun carry_loop :: "unicode \<Rightarrow> summary list \<Rightarrow> string \<Rightarrow> error + string" where
  "carry_loop U [] output = Inr output"
| "carry_loop U (s # ss) output =
     (let out = output @ carry_block U s in
      if int (length out) > maxCarryOverChars
      then Inl (Errorf ''carry-over: rendered seed exceeds %d characters'' [itoa maxCarryOverChars])
      else carry_loop U ss out)"

definition renderCarryOver :: "unicode \<Rightarrow> string \<Rightarrow> summary list \<Rightarrow> error + (string \<times> int)" where
  "renderCarryOver U sourceID summaries =
     (let depth = sm_Depth (hd summaries) in
      case carry_loop U summaries
          (''<acm-carry-over source='' @ Quote U sourceID @ '' depth='' @ itoa depth @ ''>'' @ newline) of
        Inl e \<Rightarrow> Inl e
      | Inr out \<Rightarrow> Inr (out @ ''</acm-carry-over>'', depth))"

definition carry_request :: "agent \<Rightarrow> string \<Rightarrow> string \<Rightarrow> string \<Rightarrow> int \<Rightarrow> ingest_request" where
  "carry_request agent targetSession sourceID content depth =
     \<lparr>iq_Agent = agent, iq_SessionID = targetSession, iq_Title = [],
      iq_Messages = [\<lparr>im_Role = RoleSystem, im_Content = content, im_ToolName = [],
        im_ExternalID = ''carry-over:'' @ sourceID @ '':depth:'' @ itoa depth, im_Raw = []\<rparr>]\<rparr>"

definition runCarryOver :: "app \<Rightarrow> string \<Rightarrow> string \<Rightarrow> string \<Rightarrow> int \<Rightarrow> int \<Rightarrow> (cli, unit) prog" where
  "runCarryOver a sourceID targetSession agentName depth limit =
     (if policy_Mode (ap_policy a) targetSession \<noteq> SessionCapture
      then fail (Errorf ''carry-over: target session %q is not persistent under project policy'' [Quote (ap_unicode a) targetSession])
      else
      bindE newStore (\<lambda>_.
      bindE (lift (ConversationByID sourceID)) (\<lambda>source.
      case carryOverAgent (ap_unicode a) (cv_Agent source) agentName of Inl e \<Rightarrow> fail e
      | Inr targetAgent \<Rightarrow>
        bindE (lift (selectCarryOverSummaries sourceID depth limit)) (\<lambda>summaries.
        case renderCarryOver (ap_unicode a) sourceID summaries of Inl e \<Rightarrow> fail e
        | Inr (content, selectedDepth) \<Rightarrow>
          bindE (lift (Ingest (ap_unicode a) (coreService a) (carry_request targetAgent targetSession sourceID content selectedDepth)))
          (\<lambda>result.
          bindE (lift (wrapE ''carry-over: seed stored but source pin failed'' (SetConversationPin sourceID True))) (\<lambda>_.
          cli_print (''source='' @ sourceID @ '' target='' @ ir_ConversationID result @ '' depth='' @ itoa selectedDepth
            @ '' summaries='' @ itoa (int (length summaries)) @ '' appended='' @ itoa (ir_Appended result) @ '' deduped=''
            @ itoa (ir_Deduped result) @ '' pinned=true'' @ newline)))))))"

definition carryover_cmd :: "app \<Rightarrow> string \<Rightarrow> string \<Rightarrow> string \<Rightarrow> int \<Rightarrow> int \<Rightarrow> (cli, unit) prog" where
  "carryover_cmd a sourceID targetSession agentName depth limit =
     (if depth < -1 \<or> limit \<le> 0 \<or> limit > maxCarryOverSummaries
      then fail (Errorf ''carry-over: --depth must be -1 or greater and --max-summaries must be 1..64'' [])
      else runCarryOver a sourceID targetSession agentName depth limit)"

end
