(* ===== verification/Maintenance_Props.thy ===== *)
theory Maintenance_Props
  imports Keeps Maintenance Sample
begin

text \<open>
  What the maintenance commands guarantee: a prune run deletes only what its plan allows, and only
  after a backup of the whole database has been written and verified.
\<close>

section \<open>Backups\<close>

text \<open>A file that opens as a database whose indexes are in parity.\<close>

definition verified_backup :: "db_files \<Rightarrow> string \<Rightarrow> bool" where
  "verified_backup D file \<longleftrightarrow> (case df_open D file of None \<Rightarrow> False
     | Some t \<Rightarrow> df_integrity D t = ''ok'' \<and> length (t_messages t) = length (t_messages_fts t)
          \<and> length (t_summaries t) = length (t_summaries_fts t))"

lemma sql_query_run:
  "sql_query msg q w = (Inr x, w') \<Longrightarrow> x = q (w_db w) \<and> w_db w' = w_db w"
  by (auto simp: sql_query_def bindE_Inr wrapE_Inr dest: driver_run)

lemma sql_rows_run: "sql_rows qmsg imsg q w = (Inr x, w') \<Longrightarrow> x = q (w_db w) \<and> w_db w' = w_db w"
  by (auto simp: sql_rows_def bindE_Inr wrapE_Inr ret_Inr dest!: driver_run sql_query_run)

lemma query_keeps_files [keeps_intros]: "keeps w_files (sql_query msg q)"
  unfolding sql_query_def by (intro keeps_intros) (simp_all add: keeps_def driver_def)

lemma CheckHealth_run:
  assumes "CheckHealth integrity w = (r, w')"
  shows "w_files w' = w_files w" "w_db w' = w_db w"
    "r = Inr h \<Longrightarrow> health_OK h \<longleftrightarrow> integrity (w_db w) = ''ok'' \<and> length (t_messages (w_db w)) = length (t_messages_fts (w_db w))
       \<and> length (t_summaries (w_db w)) = length (t_summaries_fts (w_db w))"
proof -
  have "keeps w_files (CheckHealth integrity)" "db_keeps (\<lambda>t. t) (CheckHealth integrity)"
    unfolding CheckHealth_def by (intro keeps_intros)+
  then show "w_files w' = w_files w" "w_db w' = w_db w" using assms by (auto dest: keepsD)
  show "r = Inr h \<Longrightarrow> health_OK h \<longleftrightarrow> integrity (w_db w) = ''ok'' \<and> length (t_messages (w_db w)) = length (t_messages_fts (w_db w))
       \<and> length (t_summaries (w_db w)) = length (t_summaries_fts (w_db w))"
    using assms by (auto simp: CheckHealth_def bindE_Inr ret_Inr health_OK_def dest!: sql_query_run)
qed

lemma verifyBackup_run:
  assumes "verifyBackup D path w = (r, w')"
  shows "w_db w' = w_db w" "w_files w' = w_files w"
    "r = Inr () \<Longrightarrow> \<exists>file. w_files w path = Some file \<and> verified_backup D file"
proof -
  obtain r1 w1 where d: "driver ''open backup'' w = (r1, w1)" by force
  note same = driver_run [OF d]
  have "w_db w' = w_db w \<and> w_files w' = w_files w
      \<and> (r = Inr () \<longrightarrow> (\<exists>file. w_files w path = Some file \<and> verified_backup D file))"
  proof (cases "\<exists>u t. r1 = Inr u \<and> Option.bind (w_files w1 path) (df_open D) = Some t")
    case False
    then show ?thesis
      using assms d same
      by (auto simp: verifyBackup_def with_file_def bindE_def fail_def split: sum.splits option.splits)
  next
    case True
    then obtain t where t: "r1 = Inr ()" "Option.bind (w_files w1 path) (df_open D) = Some t" by auto
    obtain r2 w2 where c: "CheckHealth (df_integrity D) (w1\<lparr>w_db := t\<rparr>) = (r2, w2)" by force
    note h = CheckHealth_run [OF c]
    have "verifyBackup D path w = bindE (\<lambda>w. (r2, w2\<lparr>w_db := w_db w1\<rparr>))
        (\<lambda>health. if \<not> health_OK health then fail (Errorf ''backup: verification failed for %s'' [path]) else ret ()) w"
      by (simp add: verifyBackup_def with_file_def bindE_def d t c)
    then show ?thesis
      using assms h same t(2)
      by (auto simp: bindE_def fail_def ret_def verified_backup_def bind_eq_Some_conv split: sum.splits if_splits)
  qed
  then show "w_db w' = w_db w" "w_files w' = w_files w"
    "r = Inr () \<Longrightarrow> \<exists>file. w_files w path = Some file \<and> verified_backup D file" by blast+
qed

lemma backupDatabase_keeps: "db_keeps f (backupDatabase D path)"
  unfolding backupDatabase_def os_MkdirAll_def
proof (intro keeps_intros)
  show "db_keeps f (os_Stat path)" "db_keeps f (vacuum_into D path)"
    unfolding os_Stat_def vacuum_into_def by (intro keeps_intros; simp add: keeps_def)+
  show "db_keeps f (verifyBackup D path)"
    unfolding keeps_def
  proof
    fix w
    obtain r w' where "verifyBackup D path w = (r, w')" by force
    with verifyBackup_run(1) [OF this] show "f (w_db (snd (verifyBackup D path w))) = f (w_db w)" by simp
  qed
qed

lemma os_Stat_run: "os_Stat path w = (r, w') \<Longrightarrow>
  w_db w' = w_db w \<and> w_files w' = w_files w \<and> (r = Inl e \<longrightarrow> errors_Is e not_exist \<longrightarrow> w_files w path = None)"
  by (auto simp: os_Stat_def bindE_def driver_def not_exist_def split: if_splits option.splits)

lemma vacuum_into_run: "vacuum_into D path w = (Inr u, w') \<Longrightarrow>
  w_db w' = w_db w \<and> w_files w' = (w_files w)(path \<mapsto> df_dump D (w_db w))"
  by (auto simp: vacuum_into_def bindE_Inr dest!: driver_run)

lemma backupDatabase_run:
  assumes "backupDatabase D path w = (Inr (), w')"
  shows "w_files w path = None \<and> w_files w' = (w_files w)(path \<mapsto> df_dump D (w_db w))
    \<and> verified_backup D (df_dump D (w_db w))"
proof -
  obtain u w1 r2 w2 where 1: "driver ''mkdir'' w = (Inr u, w1)" "os_Stat path w1 = (r2, w2)"
    and r: "(case r2 of Inr _ \<Rightarrow> fail (Errorf ''backup: destination %s already exists'' [path])
       | Inl e \<Rightarrow>
           if \<not> errors_Is e not_exist then fail (ErrWrap ''backup: inspect destination'' e)
           else bindE (wrapE (''backup: vacuum into '' @ path) (vacuum_into D path)) (\<lambda>_.
                bindE (wrapE (''backup: secure '' @ path) (driver ''chmod'')) (\<lambda>_.
                verifyBackup D path))) w2 = (Inr (), w')"
    using assms unfolding backupDatabase_def os_MkdirAll_def by (simp only: bindE_Inr wrapE_Inr tryE_Inr) blast
  then obtain e w3 w4 where e: "r2 = Inl e" "errors_Is e not_exist" and 2: "vacuum_into D path w2 = (Inr (), w3)"
    "driver ''chmod'' w3 = (Inr (), w4)" "verifyBackup D path w4 = (Inr (), w')"
    by (cases r2) (auto simp: bindE_Inr wrapE_Inr fail_Inr split: if_splits)
  show ?thesis
    using driver_run [OF 1(1)] os_Stat_run [OF 1(2), of e] e vacuum_into_run [OF 2(1)] driver_run [OF 2(2)]
      verifyBackup_run(2,3) [OF 2(3)] by auto
qed

section \<open>What a prune run may delete\<close>

definition prunable :: "tables \<Rightarrow> bool \<Rightarrow> time \<Rightarrow> string \<Rightarrow> bool" where
  "prunable t force before i \<longleftrightarrow> (\<exists>c \<in> set (t_conversations t). cv_ID c = i \<and> fmtTime (cv_UpdatedAt c) < fmtTime before
     \<and> i \<notin> fst ` set (t_conversation_pins t)
     \<and> (force \<or> (\<forall>s \<in> set (t_summaries t). sm_ConversationID s = i \<longrightarrow> sm_ID s \<in> fst ` set (t_summary_expansions t))))"

lemma prune_candidate_eligible:
  assumes "pc = prune_candidate_of t c" and "prune_status force pc = ''eligible''"
  shows "cv_ID c \<notin> fst ` set (t_conversation_pins t)
    \<and> (force \<or> (\<forall>s \<in> set (t_summaries t). sm_ConversationID s = cv_ID c \<longrightarrow> sm_ID s \<in> fst ` set (t_summary_expansions t)))"
  using assms by (auto simp: prune_status_def prune_candidate_of_def Let_def filter_empty_conv split: if_splits)

lemma ListPruneCandidates_run:
  assumes "ListPruneCandidates before limit w = (Inr pcs, w')"
  shows "w_db w' = w_db w" "int (length pcs) \<le> limit"
    "pc \<in> set pcs \<Longrightarrow> \<exists>c \<in> set (t_conversations (w_db w)). pc = prune_candidate_of (w_db w) c \<and> fmtTime (cv_UpdatedAt c) < fmtTime before"
proof -
  have pos: "\<not> (limit \<le> 0 \<or> limit > int maxLifecycleBatch)"
    using assms by (auto simp: ListPruneCandidates_def fail_Inr)
  have rows: "pcs = prune_rows before limit (w_db w) \<and> w_db w' = w_db w"
    using assms pos by (auto simp: ListPruneCandidates_def dest!: sql_rows_run)
  then show "w_db w' = w_db w" by simp
  show "int (length pcs) \<le> limit" using rows pos by (auto simp: prune_rows_def sql_limit_def min_def)
  show "pc \<in> set pcs \<Longrightarrow> \<exists>c \<in> set (t_conversations (w_db w)). pc = prune_candidate_of (w_db w) c \<and> fmtTime (cv_UpdatedAt c) < fmtTime before"
    using rows by (auto simp: prune_rows_def sql_limit_def split: if_splits dest!: in_set_takeD)
qed

lemma printPrunePlan_run:
  "printPrunePlan stamp force pcs ids (w, out) = (r, w', out') \<Longrightarrow> w_db w' = w_db w \<and> w_files w' = w_files w
    \<and> r = Inr (ids @ map (\<lambda>pc. cv_ID (pc_Conversation pc)) (filter (\<lambda>pc. prune_status force pc = ''eligible'') pcs))"
proof (induction pcs arbitrary: ids w out)
  case (Cons pc pcs)
  obtain r1 w1 o1 where s: "cli_show (prune_line stamp force pc) (w, out) = (r1, w1, o1)" by (metis prod_cases3)
  note same = cli_show_run [OF s]
  show ?case
    using Cons.prems s same Cons.IH [of "if prune_status force pc = ''eligible'' then ids @ [cv_ID (pc_Conversation pc)] else ids" w1 o1]
    by (simp add: bindE_def)
qed (simp add: ret_def)

lemma DeleteConversations_run:
  assumes "DeleteConversations ids w = (r, w')"
  shows "if isl r then w_db w' = w_db w else w_db w' = fold purge_tables ids (w_db w)"
proof (cases r)
  case (Inl e)
  from hoare_errD [OF DeleteConversations_at [of False "w_db w" ids], of w e w'] assms Inl show ?thesis by (simp add: at_db_def)
next
  case (Inr x)
  from hoare_okD [OF DeleteConversations_at [of False "w_db w" ids], of w x w'] assms Inr show ?thesis by (simp add: at_db_def on_db_def)
qed

text \<open>The transaction touches no file, and lists only stored offloads for removal.\<close>

lemma in_tx_keeps_files: "keeps w_files body \<Longrightarrow> keeps w_files (in_tx b c body)"
  by (rule in_tx_keeps_reading) (simp_all add: keeps_def driver_def)

lemma exec_keeps_files [keeps_intros]: "keeps w_files (sql_exec msg stmt)"
  unfolding sql_exec_def by (intro keeps_intros) (auto simp: keeps_def driver_def split: option.split)

lemma DeleteConversations_files: "keeps w_files (DeleteConversations ids)"
  unfolding DeleteConversations_def deleteConversationRows_def selectOffloadPaths_def sql_rows_def
  by (intro keeps_intros in_tx_keeps_files) (simp_all add: keeps_def driver_def)

lemma deleteConversationRows_paths:
  assumes "deleteConversationRows cid w = (Inr (paths, n), w')"
  shows "set paths \<subseteq> lf_StorageURI ` set (t_large_files (w_db w))" "set (t_large_files (w_db w')) \<subseteq> set (t_large_files (w_db w))"
proof -
  have "paths = map lf_StorageURI (filter (\<lambda>f. lf_ConversationID f = cid) (t_large_files (w_db w)))"
    using assms by (auto simp: deleteConversationRows_def selectOffloadPaths_def bindE_Inr ret_Inr dest!: sql_rows_run)
  then show "set paths \<subseteq> lf_StorageURI ` set (t_large_files (w_db w))" by auto
  have "w_db w' = purge_tables cid (w_db w)"
    using hoare_okD [OF purge_at [of False "w_db w" cid], of w] assms by (auto simp: at_db_def on_db_def)
  then show "set (t_large_files (w_db w')) \<subseteq> set (t_large_files (w_db w))" by (auto simp: purge_tables_def Let_def)
qed

lemma delete_fold_paths:
  assumes "foldE (\<lambda>cid (r :: delete_result). bindE (deleteConversationRows cid) (\<lambda>(paths, deleted).
            ret (r\<lparr>dr_Deleted := dr_Deleted r + deleted, dr_OffloadPaths := dr_OffloadPaths r @ paths\<rparr>))) ids res w = (Inr res', w')"
    and "set (t_large_files (w_db w)) \<subseteq> L" and "set (dr_OffloadPaths res) \<subseteq> lf_StorageURI ` L"
  shows "set (dr_OffloadPaths res') \<subseteq> lf_StorageURI ` L"
  using assms
proof (induction ids arbitrary: res w)
  case (Cons i ids)
  obtain paths n w1 where 1: "deleteConversationRows i w = (Inr (paths, n), w1)"
    and rest: "foldE (\<lambda>cid (r :: delete_result). bindE (deleteConversationRows cid) (\<lambda>(paths, deleted).
            ret (r\<lparr>dr_Deleted := dr_Deleted r + deleted, dr_OffloadPaths := dr_OffloadPaths r @ paths\<rparr>))) ids
       (res\<lparr>dr_Deleted := dr_Deleted res + n, dr_OffloadPaths := dr_OffloadPaths res @ paths\<rparr>) w1 = (Inr res', w')"
    using Cons.prems(1) by (auto simp: bindE_Inr ret_Inr)
  have "set paths \<subseteq> lf_StorageURI ` L" "set (t_large_files (w_db w1)) \<subseteq> L"
    using deleteConversationRows_paths [OF 1] Cons.prems(2) by blast+
  then show ?case using Cons.prems(3) by (intro Cons.IH [OF rest]) auto
qed (simp add: ret_Inr)

lemma DeleteConversations_paths:
  assumes "DeleteConversations ids w = (Inr res, w')"
  shows "set (dr_OffloadPaths res) \<subseteq> lf_StorageURI ` set (t_large_files (w_db w))"
proof -
  obtain w1 w2 where "w_db w1 = w_db w" and run: "foldE (\<lambda>cid (r :: delete_result). bindE (deleteConversationRows cid) (\<lambda>(paths, deleted).
            ret (r\<lparr>dr_Deleted := dr_Deleted r + deleted, dr_OffloadPaths := dr_OffloadPaths r @ paths\<rparr>))) ids
      \<lparr>dr_Deleted = 0, dr_OffloadPaths = []\<rparr> w1 = (Inr res, w2)"
    using assms
    by (auto simp: DeleteConversations_def in_tx_def fail_Inr bindE_Inr wrapE_Inr ret_Inr split: if_splits prod.splits sum.splits
        dest!: driver_run)
  then show ?thesis by (intro delete_fold_paths [OF run]) simp_all
qed

lemma removeOffloads_run:
  "removeOffloads paths w = (r, w') \<Longrightarrow> w_db w' = w_db w \<and> (p \<notin> set paths \<longrightarrow> w_files w' p = w_files w p)"
proof (induction paths arbitrary: w)
  case (Cons x xs)
  obtain r1 w1 where 1: "os_Remove x w = (r1, w1)" by force
  have same: "w_db w1 = w_db w" "p \<noteq> x \<Longrightarrow> w_files w1 p = w_files w p"
    using 1 by (auto simp: os_Remove_def bindE_def driver_def split: if_splits option.splits)
  show ?case
    using Cons.prems 1 same Cons.IH [of w1]
    by (auto simp: bindE_def tryE_def fail_def split: sum.splits if_splits)
qed (simp add: ret_def)

section \<open>A prune run\<close>

text \<open>
  The end of a run, from the plan on: an error before the deletion commits leaves the database as it
  was; after it the tables are the planned ones and the backup file is still there, unless the
  cleanup was told to remove a file of that name.
\<close>

definition backed_up :: "db_files \<Rightarrow> world \<Rightarrow> world \<Rightarrow> string \<Rightarrow> bool" where
  "backed_up D w w' path \<longleftrightarrow> verified_backup D (df_dump D (w_db w)) \<and> w_files w path = None
     \<and> (w_files w' path = Some (df_dump D (w_db w)) \<or> path \<in> lf_StorageURI ` set (t_large_files (w_db w)))"

definition prune_tail :: "db_files \<Rightarrow> string \<Rightarrow> string list \<Rightarrow> (cli, unit) prog" where
  "prune_tail D path ids =
     bindE (lift (backupDatabase D path)) (\<lambda>_.
     bindE (lift (DeleteConversations ids)) (\<lambda>result.
     bindE (lift (wrapE (''prune: database committed but offload cleanup failed; restore '' @ path @ '' if rollback is required'')
              (removeOffloads (dr_OffloadPaths result)))) (\<lambda>_.
     cli_show (''backup='' @ path @ '' deleted='' @ itoa (dr_Deleted result) @ '' offloads=''
        @ itoa (int (length (dr_OffloadPaths result))) @ '' mode=apply'' @ newline))))"

lemma runPrune_tail:
  "runPrune a D stamp rfc3339 olderThan apply_it force backupPath limit =
     bindE newStore (\<lambda>_.
     bindE (lift clock_Now) (\<lambda>now.
     bindE (lift (ListPruneCandidates (now - olderThan) limit)) (\<lambda>candidates.
     bindE (printPrunePlan rfc3339 force candidates []) (\<lambda>ids.
     if \<not> apply_it \<or> ids = []
     then cli_show (''mode='' @ pruneMode apply_it @ '' eligible='' @ itoa (int (length ids)) @ '' considered=''
            @ itoa (int (length candidates)) @ newline)
     else bindE (lift clock_Now) (\<lambda>later.
       prune_tail D (if backupPath = [] then backup_path a ''pre-prune-'' (stamp later) else backupPath) ids)))))"
  unfolding runPrune_def prune_tail_def Let_def by (rule refl)

lemma prune_tail_run:
  assumes run: "prune_tail D path ids (w, out) = (r, w', out')" and changed: "w_db w' \<noteq> w_db w"
  shows "w_db w' = fold purge_tables ids (w_db w) \<and> backed_up D w w' path"
proof -
  obtain r1 w1 where b: "backupDatabase D path w = (r1, w1)" by force
  have db1: "w_db w1 = w_db w" using keepsD [OF backupDatabase_keeps [where f = "\<lambda>t. t"] b] by simp
  have "r1 = Inr ()"
    using run b changed db1 by (cases r1) (auto simp: prune_tail_def bindE_def lift_def)
  note backup = backupDatabase_run [OF b [unfolded this]]
  obtain r2 w2 where d: "DeleteConversations ids w1 = (r2, w2)" by force
  have files: "w_files w2 = w_files w1" by (rule keepsD [OF DeleteConversations_files d])
  note delete = DeleteConversations_run [OF d]
  show ?thesis
  proof (cases r2)
    case (Inl e)
    then have "w_db w' = w_db w"
      using run b d delete db1 \<open>r1 = Inr ()\<close> by (auto simp: prune_tail_def bindE_def lift_def)
    with changed show ?thesis by simp
  next
    case (Inr res)
    note paths = DeleteConversations_paths [OF d [unfolded Inr]]
    obtain r3 w3 where o: "removeOffloads (dr_OffloadPaths res) w2 = (r3, w3)" by force
    have fin: "w_db w' = w_db w3 \<and> w_files w' = w_files w3"
      using run b d o Inr \<open>r1 = Inr ()\<close> cli_show_run
      by (auto simp: prune_tail_def bindE_def lift_def wrapE_def split: sum.splits)
    have "w_db w' = fold purge_tables ids (w_db w)"
      using fin removeOffloads_run [OF o, of path] delete Inr db1 by simp
    moreover have "path \<in> lf_StorageURI ` set (t_large_files (w_db w)) \<or> w_files w' path = Some (df_dump D (w_db w))"
      using fin removeOffloads_run [OF o, of path] paths backup files db1 by auto
    ultimately show ?thesis using backup by (auto simp: backed_up_def)
  qed
qed

text \<open>C27. Pruning is safe.  If a prune run changes the database at all, whatever it returns, then it was
  asked to apply, a backup with the whole database was written to a new file and verified first, and
  what is gone is exactly a list of conversations, within the limit, that were old enough, not pinned and,
  unless forced, without a summary that was never expanded.\<close>

theorem prune_after_backup:
  assumes "prune_cmd a D stamp rfc3339 olderThan apply_it force backupPath limit (w, out) = (r, w', out')"
    and "w_db w' \<noteq> w_db w"
  shows "apply_it \<and> 0 < olderThan \<and> (\<exists>path ids k. backed_up D w w' path
    \<and> w_db w' = fold purge_tables ids (w_db w) \<and> int (length ids) \<le> limit
    \<and> (\<forall>i \<in> set ids. prunable (w_db w) force (w_now w k - olderThan) i))"
proof -
  have args: "\<not> (olderThan \<le> 0 \<or> limit \<le> 0 \<or> limit > defaultPruneLimit)"
    using assms by (auto simp: prune_cmd_def fail_def)
  obtain r1 w1 o1 where n: "newStore (w, out) = (r1, w1, o1)" by (metis prod_cases3)
  note same1 = newStore_run [OF n]
  let ?before = "w_now w1 (w_tick w1) - olderThan"
  obtain r2 w2 where l: "ListPruneCandidates ?before limit w1 = (r2, w2)" by force
  have files2: "w_files w2 = w_files w1" and db2: "w_db w2 = w_db w1"
  proof -
    have "keeps w_files (ListPruneCandidates ?before limit)" "db_keeps (\<lambda>t. t) (ListPruneCandidates ?before limit)"
      unfolding ListPruneCandidates_def sql_rows_def by (intro keeps_intros; simp add: keeps_def driver_def)+
    then show "w_files w2 = w_files w1" "w_db w2 = w_db w1" using l by (auto dest: keepsD)
  qed
  have "r1 = Inr ()" using assms args n same1
    by (cases r1) (auto simp: prune_cmd_def runPrune_tail bindE_def)
  moreover have "\<not> isl r2" using assms args n same1 l db2 calculation
    by (cases r2) (auto simp: prune_cmd_def runPrune_tail bindE_def lift_def clock_Now_def)
  then obtain pcs where r2: "r2 = Inr pcs" by (cases r2) auto
  note plan = ListPruneCandidates_run [OF l [unfolded r2]]
  obtain r3 w3 o3 where p: "printPrunePlan rfc3339 force pcs [] (w2, o1) = (r3, w3, o3)" by (metis prod_cases3)
  note printed = printPrunePlan_run [OF p, simplified]
  define ids where "ids = map (\<lambda>pc. cv_ID (pc_Conversation pc)) (filter (\<lambda>pc. prune_status force pc = ''eligible'') pcs)"
  have r3: "r3 = Inr ids" using printed by (simp add: ids_def)
  have go: "apply_it \<and> ids \<noteq> []"
  proof (rule ccontr)
    assume "\<not> (apply_it \<and> ids \<noteq> [])"
    then have "w_db w' = w_db w3"
      using assms(1) args n l p r2 r3 \<open>r1 = Inr ()\<close> cli_show_run(2)
      by (auto simp: prune_cmd_def runPrune_tail bindE_def lift_def clock_Now_def)
    with assms(2) same1 printed db2 show False by simp
  qed
  define path where "path = (if backupPath = [] then backup_path a ''pre-prune-'' (stamp (w_now w3 (w_tick w3))) else backupPath)"
  have tail: "prune_tail D path ids (w3, o3) = (r, w', out')"
    using assms(1) args n l p r2 r3 \<open>r1 = Inr ()\<close> go
    by (auto simp: prune_cmd_def runPrune_tail bindE_def lift_def clock_Now_def path_def)
  have "w_db w3 = w_db w" "w_files w3 = w_files w" using same1 printed db2 files2 by auto
  with prune_tail_run [OF tail] assms(2) have "w_db w' = fold purge_tables ids (w_db w)" "backed_up D w w' path"
    by (auto simp: backed_up_def)
  moreover have "int (length ids) \<le> limit"
  proof -
    have "length ids \<le> length pcs" by (simp add: ids_def)
    with plan(2) show ?thesis by linarith
  qed
  moreover have "prunable (w_db w) force (w_now w (w_tick w1) - olderThan) i" if "i \<in> set ids" for i
  proof -
    obtain pc where pc: "pc \<in> set pcs" "prune_status force pc = ''eligible''" "i = cv_ID (pc_Conversation pc)"
      using \<open>i \<in> set ids\<close> by (auto simp: ids_def)
    obtain c where c: "c \<in> set (t_conversations (w_db w1))" "pc = prune_candidate_of (w_db w1) c"
      "fmtTime (cv_UpdatedAt c) < fmtTime ?before" using plan(3) [OF pc(1)] by blast
    have "i = cv_ID c" by (simp add: pc(3) c(2) prune_candidate_of_def Let_def)
    with prune_candidate_eligible [OF c(2) pc(2)] c same1 show ?thesis by (auto simp: prunable_def)
  qed
  ultimately show ?thesis using go args by auto
qed

text \<open>A run on the sample database, long after its last message.\<close>

definition sample_files :: db_files where
  "sample_files = \<lparr>df_dump = (\<lambda>t. ''SQLite format 3''), df_open = (\<lambda>_. Some (w_db sample_world)), df_integrity = (\<lambda>_. ''ok'')\<rparr>"

definition late_world :: world where
  "late_world = sample_world\<lparr>w_now := (\<lambda>n. 4000000000)\<rparr>"

definition bare_app :: app where
  "bare_app = \<lparr>ap_hash = sample_hash, ap_unicode = ascii_only, ap_fts = \<lparr>fe_match = (\<lambda>q x. False), fe_bm25 = (\<lambda>rows q r. 0), fe_snippet = (\<lambda>q x. x)\<rparr>,
     ap_order = id, ap_zstd = (\<lambda>_. Inl (ErrIO ''zstd'')), ap_describe = no_describe, ap_DBPath = sample_db_path,
     ap_policy = \<lparr>pl_redact = False, pl_ignoreSessionGlobs = [], pl_statelessSessionGlobs = [], pl_toolGlobs = [], pl_pathGlobs = [],
       pl_excludedClass = [], pl_allowedValues = [], pl_redactions = [], pl_classDetectors = (\<lambda>_. None)\<rparr>\<rparr>"

lemma late_plan:
  obtains pc where "prune_rows 3000000000 10 (w_db late_world) = [pc]" "prune_status False pc = ''eligible''"
    "cv_ID (pc_Conversation pc) = sample_conv"
proof -
  have "case prune_rows 3000000000 10 (w_db late_world) of
      [pc] \<Rightarrow> prune_status False pc = ''eligible'' \<and> cv_ID (pc_Conversation pc) = sample_conv | _ \<Rightarrow> False"
    by code_simp
  then show ?thesis using that by (auto split: list.splits)
qed

lemma late_prune:
  obtains w' out where "prune_cmd bare_app sample_files fmtTime fmtTime 1000000000 True False ''/b/pre.db'' 10 (late_world, []) = (Inr (), w', out)"
    "t_conversations (w_db w') = []"
proof -
  have "w_fault late_world n = False" for n by code_simp
  then have calm: "w_fault late_world = (\<lambda>_. False)" "w_now late_world = (\<lambda>_. 4000000000)"
    by (auto simp: late_world_def)
  have tail: "case prune_tail sample_files ''/b/pre.db'' [sample_conv] (late_world\<lparr>w_tick := n\<rparr>, out) of
      (Inr u, w', out') \<Rightarrow> t_conversations (w_db w') = [] | _ \<Rightarrow> False" for n out by code_simp
  obtain pc where pc: "prune_rows 3000000000 10 (w_db late_world) = [pc]" "prune_status False pc = ''eligible''"
    "cv_ID (pc_Conversation pc) = sample_conv" by (rule late_plan)
  define out where "out = prune_line fmtTime False pc"
  define n where "n = Suc (Suc (Suc (Suc (w_tick late_world))))"
  have "prune_cmd bare_app sample_files fmtTime fmtTime 1000000000 True False ''/b/pre.db'' 10 (late_world, [])
      = prune_tail sample_files ''/b/pre.db'' [sample_conv] (late_world\<lparr>w_tick := n\<rparr>, out)"
    by (simp add: prune_cmd_def runPrune_tail bindE_def lift_def clock_Now_def newStore_def driver_def calm pc
        ListPruneCandidates_def maxLifecycleBatch_def defaultPruneLimit_def sql_rows_def sql_query_def wrapE_def ret_def
        cli_show_def cli_print_def tryE_def out_def n_def)
  with tail [of n out] show ?thesis using that by (auto split: prod.splits sum.splits)
qed

theorem prune_after_backup_witness:
  "\<exists>w' out path ids. prune_cmd bare_app sample_files fmtTime fmtTime 1000000000 True False ''/b/pre.db'' 10 (late_world, []) = (Inr (), w', out)
     \<and> backed_up sample_files late_world w' path \<and> ids \<noteq> [] \<and> (\<forall>i \<in> set ids. cv_ID ` set (t_conversations (w_db late_world)) \<inter> {i} \<noteq> {})"
proof -
  obtain w' out where r: "prune_cmd bare_app sample_files fmtTime fmtTime 1000000000 True False ''/b/pre.db'' 10 (late_world, []) = (Inr (), w', out)"
    "t_conversations (w_db w') = []" by (rule late_prune)
  have "t_conversations (w_db late_world) \<noteq> []" by code_simp
  with r(2) have "w_db w' \<noteq> w_db late_world" by auto
  from prune_after_backup [OF r(1) this] obtain path ids k where *: "backed_up sample_files late_world w' path"
    "w_db w' = fold purge_tables ids (w_db late_world)" "\<forall>i \<in> set ids. prunable (w_db late_world) False (w_now late_world k - 1000000000) i"
    by blast
  have "ids \<noteq> []" using *(2) r(2) \<open>t_conversations (w_db late_world) \<noteq> []\<close> by auto
  moreover have "\<forall>i \<in> set ids. cv_ID ` set (t_conversations (w_db late_world)) \<inter> {i} \<noteq> {}"
    using *(3) by (fastforce simp: prunable_def)
  ultimately show ?thesis using r(1) *(1) by blast
qed

end
