(* ===== verification/Batch.thy ===== *)
theory Batch
  imports App Json_Encode
begin

text \<open>
  \<open>internal/llmmap\<close>: bounded, resumable map runs over the lines of a file.  A state file is modelled by
  the state it decodes to and its size (\<open>durable\<close> says what encoding and decoding change); the files
  are on a disk whose calls may fail.  Texts of item errors are the strings that \<open>err.Error()\<close> gives.
\<close>

section \<open>Limits and types\<close>

definition defaultConcurrency :: int where "defaultConcurrency = 8"
definition defaultInputBytes :: int where "defaultInputBytes = 2 ^ 30"
definition defaultItemBytes :: int where "defaultItemBytes = 2 ^ 20"
definition defaultOutputBytes :: int where "defaultOutputBytes = 2 ^ 20"
definition defaultMaxItems :: int where "defaultMaxItems = 100000"
definition defaultRunTimeout :: int where "defaultRunTimeout = 0"
definition hardConcurrency :: int where "hardConcurrency = 64"
definition hardInputBytes :: int where "hardInputBytes = 8 * 2 ^ 30"
definition hardItemBytes :: int where "hardItemBytes = 8 * 2 ^ 20"
definition hardMaxItems :: int where "hardMaxItems = 1000000"
definition hardMaxLines :: nat where "hardMaxLines = 2000000"
definition hardMaxCalls :: int where "hardMaxCalls = 10000000"
definition hardAttempts :: int where "hardAttempts = 10"
definition hardRunTimeout :: int where "hardRunTimeout = 86400000000000"
definition maxErrorBytes :: nat where "maxErrorBytes = 4 * 1024"
definition maxStateBytes :: int where "maxStateBytes = hardItemBytes + 4 * 1024 + 64 * 1024"
definition maxManifestBytes :: int where "maxManifestBytes = 64 * 1024"
definition stateVersion :: int where "stateVersion = 1"

type_synonym processor = "nat \<Rightarrow> string \<Rightarrow> int \<Rightarrow> string \<Rightarrow> string + string"

type_synonym validator = "string \<Rightarrow> string option"

record mapper =
  mp_Concurrency :: int
  mp_MaxRetries :: int
  mp_MaxInputBytes :: int
  mp_MaxItemBytes :: int
  mp_MaxOutputBytes :: int
  mp_MaxItems :: int
  mp_MaxCalls :: int
  mp_RunTimeout :: duration
  mp_StateDir :: string
  mp_ConfigKey :: string
  mp_Process :: "processor option"
  mp_Validate :: "validator option"

record map_result =
  mr_Total :: int
  mr_Succeeded :: int
  mr_Failed :: int
  mr_PeakInFlight :: int

type_synonym item_status = string

definition ItemPending :: item_status where "ItemPending = ''pending''"
definition ItemRunning :: item_status where "ItemRunning = ''running''"
definition ItemCompleted :: item_status where "ItemCompleted = ''completed''"
definition ItemFailed :: item_status where "ItemFailed = ''failed''"

record item_state =
  is_Index :: nat
  is_InputHash :: string
  is_Status :: item_status
  is_Attempts :: int
  is_Output :: string
  is_Error :: string

record run_manifest =
  rm_Version :: int
  rm_InputPath :: string
  rm_InputHash :: string
  rm_Items :: int
  rm_ConfigKey :: string
  rm_MaxAttempts :: int
  rm_MaxInputBytes :: int
  rm_MaxItemBytes :: int
  rm_MaxOutputBytes :: int

record run_settings =
  rs_concurrency :: int
  rs_maxAttempts :: int
  rs_maxItemBytes :: int
  rs_maxOutputBytes :: int
  rs_maxItems :: int
  rs_maxCalls :: int
  rs_maxInputBytes :: int
  rs_stateDir :: string

record dataset_info =
  ds_path :: string
  ds_hash :: string
  ds_items :: int

record work_item =
  wi_index :: nat
  wi_priorAttempts :: int
  wi_raw :: string
  wi_hash :: string
  wi_feedback :: string

section \<open>Settings\<close>

definition valueOrDefault :: "int \<Rightarrow> int \<Rightarrow> int" where
  "valueOrDefault value fallback = (if value = 0 then fallback else value)"

definition initial_settings :: "mapper \<Rightarrow> string \<Rightarrow> run_settings" where
  "initial_settings M outputPath =
     \<lparr>rs_concurrency = valueOrDefault (mp_Concurrency M) defaultConcurrency,
      rs_maxAttempts = max (wrap64 (mp_MaxRetries M + 1)) 1,
      rs_maxItemBytes = valueOrDefault (mp_MaxItemBytes M) defaultItemBytes,
      rs_maxOutputBytes = valueOrDefault (mp_MaxOutputBytes M) defaultOutputBytes,
      rs_maxItems = valueOrDefault (mp_MaxItems M) defaultMaxItems, rs_maxCalls = mp_MaxCalls M,
      rs_maxInputBytes = valueOrDefault (mp_MaxInputBytes M) defaultInputBytes,
      rs_stateDir = (if mp_StateDir M = [] then outputPath @ ''.acm-map-state'' else mp_StateDir M)\<rparr>"

definition settings :: "mapper \<Rightarrow> string \<Rightarrow> error + run_settings" where
  "settings M outputPath =
     (let s = initial_settings M outputPath in
      if mp_Process M = None then Inl (Errorf ''llmmap: processor is required'' [])
      else if outputPath = [] then Inl (Errorf ''llmmap: output path is required'' [])
      else if mp_MaxRetries M < 0 \<or> rs_concurrency s < 1 \<or> rs_concurrency s > hardConcurrency \<or> rs_maxAttempts s > hardAttempts
      then Inl (Errorf ''llmmap: concurrency must be 1..%d and attempts 1..%d'' [itoa hardConcurrency, itoa hardAttempts])
      else if rs_maxItemBytes s < 1 \<or> rs_maxItemBytes s > hardItemBytes \<or> rs_maxOutputBytes s < 1 \<or> rs_maxOutputBytes s > hardItemBytes
      then Inl (Errorf ''llmmap: item/output bytes must be 1..%d'' [itoa hardItemBytes])
      else if rs_maxInputBytes s < 1 \<or> rs_maxInputBytes s > hardInputBytes
      then Inl (Errorf ''llmmap: input bytes must be 1..%d'' [itoa hardInputBytes])
      else if rs_maxItems s < 1 \<or> rs_maxItems s > hardMaxItems \<or> rs_maxCalls s < 0 \<or> rs_maxCalls s > hardMaxCalls
           \<or> mp_RunTimeout M < defaultRunTimeout \<or> mp_RunTimeout M > hardRunTimeout
      then Inl (Errorf ''llmmap: invalid item, call, or timeout limit'' [])
      else Inr s)"

section \<open>Scanning the input\<close>

definition isSpace :: "char \<Rightarrow> bool" where
  "isSpace c \<longleftrightarrow> c = CHR '' '' \<or> c = CHR 0x09 \<or> c = CHR 0x0D \<or> c = CHR 0x0A"

definition trimSpace :: "string \<Rightarrow> string" where
  "trimSpace value = rev (dropWhile isSpace (rev (dropWhile isSpace value)))"

text \<open>A line fits if it is shorter than the buffer, which starts with 64 KiB and grows to the item limit.\<close>

definition line_buffer :: "nat \<Rightarrow> nat" where
  "line_buffer maxBytes = max 65536 (Suc maxBytes)"

text \<open>
  \<open>scan_items\<close> is the loop of \<open>scanJSONL\<close> over what the limited reader lets through; the consumer of an
  item may be none.  Errors of the scanner itself are a line longer than the buffer and a failed read.
\<close>

function scan_items :: "error option \<Rightarrow> nat \<Rightarrow> int \<Rightarrow> (nat \<Rightarrow> string \<Rightarrow> ('st, unit) prog) option \<Rightarrow> string \<Rightarrow> nat \<Rightarrow> nat \<Rightarrow> ('st, nat) prog" where
  "scan_items endErr maxBytes maxItems consume text items line =
     (case scan_line (line_buffer maxBytes) endErr text of
        ScanEnd None \<Rightarrow> ret items
      | ScanEnd (Some e) \<Rightarrow> fail (ErrWrap ''llmmap: read input'' e)
      | ScanLine l rest \<Rightarrow>
          if Suc line > hardMaxLines then fail (Errorf ''llmmap: input exceeds %d lines'' [itoa (int hardMaxLines)])
          else
          let raw = trimSpace l in
          if raw = [] then scan_items endErr maxBytes maxItems consume rest items (Suc line)
          else if length raw > maxBytes then fail (Errorf ''llmmap: input line %d exceeds %d bytes'' [itoa (int (Suc line)), itoa (int maxBytes)])
          else if \<not> json_Valid raw then fail (Errorf ''llmmap: input line %d is not valid JSON'' [itoa (int (Suc line))])
          else if int items = maxItems then fail (Errorf ''llmmap: input exceeds %d items'' [itoa maxItems])
          else bindE (case consume of None \<Rightarrow> ret () | Some f \<Rightarrow> f items raw)
                 (\<lambda>_. scan_items endErr maxBytes maxItems consume rest (Suc items) (Suc line)))"
  by pat_completeness auto
termination
  by (relation "measure (\<lambda>(e, m, i, c, text, n, l). length text)") (auto simp: scan_line_def Let_def split: if_splits)

declare scan_items.simps [simp del]

definition scanJSONL :: "error option \<Rightarrow> string \<Rightarrow> run_settings \<Rightarrow> (nat \<Rightarrow> string \<Rightarrow> ('st, unit) prog) option \<Rightarrow> ('st, nat) prog" where
  "scanJSONL endErr text s consume =
     bindE (scan_items endErr (nat (rs_maxItemBytes s)) (rs_maxItems s) consume (take (nat (rs_maxInputBytes s + 1)) text) 0 0) (\<lambda>items.
       if int (length text) \<ge> rs_maxInputBytes s + 1
       then fail (Errorf ''llmmap: input exceeds %d bytes'' [itoa (rs_maxInputBytes s)])
       else ret items)"

section \<open>Durable states\<close>

text \<open>\<open>json.Marshal\<close> of a \<open>RawMessage\<close>: white space between tokens goes, HTML characters are escaped.\<close>

fun compact :: "bool \<Rightarrow> string \<Rightarrow> string" where
  "compact quoted [] = []"
| "compact quoted (c # cs) =
     (if c = CHR ''<'' \<or> c = CHR ''>'' \<or> c = CHR ''&'' then CHR 0x5C # ''u00'' @ hex2 (byte c) @ compact quoted cs
      else if c = CHR 0xE2 \<and> take 2 cs \<in> {[CHR 0x80, CHR 0xA8], [CHR 0x80, CHR 0xA9]}
      then CHR 0x5C # ''u202'' @ [if cs ! 1 = CHR 0xA8 then CHR ''8'' else CHR ''9''] @ compact quoted (drop 2 cs)
      else if quoted
      then (if c = CHR 0x5C then c # take 1 cs @ compact True (drop 1 cs)
            else c # compact (c \<noteq> CHR 0x22) cs)
      else if json_space c then compact False cs
      else c # compact (c = CHR 0x22) cs)"

definition state_json :: "item_state \<Rightarrow> string" where
  "state_json s =
     ''{'' @ Join ([json_member ''index'' (itoa (int (is_Index s))), json_member ''input_hash'' (marshal_string (is_InputHash s)),
        json_member ''status'' (marshal_string (is_Status s)), json_member ''attempts'' (itoa (is_Attempts s))]
        @ (if is_Output s = [] then [] else [json_member ''output'' (compact False (is_Output s))])
        @ (if is_Error s = [] then [] else [json_member ''error'' (marshal_string (is_Error s))])) '','' @ ''}''"

text \<open>What reading back the encoded state gives; hashes and status words are ASCII.\<close>

definition durable :: "item_state \<Rightarrow> item_state" where
  "durable s = s\<lparr>is_Output := compact False (is_Output s), is_Error := clean_utf8 (is_Error s)\<rparr>"

record state_file =
  sf_state :: item_state
  sf_size :: int

definition state_file_of :: "item_state \<Rightarrow> state_file" where
  "state_file_of s = \<lparr>sf_state = durable s, sf_size = int (length (state_json s))\<rparr>"

record manifest_file =
  mf_manifest :: run_manifest
  mf_size :: int

record batch =
  bt_files :: "string \<Rightarrow> string option"
  bt_manifest :: "manifest_file option"
  bt_items :: "nat \<Rightarrow> state_file option"
  bt_tick :: nat
  bt_fault :: "nat \<Rightarrow> bool"
  bt_done :: "nat \<Rightarrow> bool"

definition disk :: "string \<Rightarrow> (batch, unit) prog" where
  "disk op = (\<lambda>w. (if bt_fault w (bt_tick w) then Inl (ErrIO op) else Inr (), w\<lparr>bt_tick := Suc (bt_tick w)\<rparr>))"

text \<open>The six calls of \<open>writeJSONAtomic\<close>; only the last makes the file visible.\<close>

definition writeJSONAtomic :: "(batch \<Rightarrow> batch) \<Rightarrow> (batch, unit) prog" where
  "writeJSONAtomic publish =
     bindE (wrapE ''llmmap: create state'' (disk ''create'')) (\<lambda>_.
     bindE (wrapE ''llmmap: secure state'' (disk ''chmod'')) (\<lambda>_.
     bindE (wrapE ''llmmap: write state'' (disk ''write'')) (\<lambda>_.
     bindE (wrapE ''llmmap: sync state'' (disk ''sync'')) (\<lambda>_.
     bindE (wrapE ''llmmap: close state'' (disk ''close'')) (\<lambda>_.
     bindE (wrapE ''llmmap: publish state'' (disk ''rename'')) (\<lambda>_ w. (Inr (), publish w)))))))"

definition encodable :: "item_state \<Rightarrow> bool" where
  "encodable s \<longleftrightarrow> is_Output s = [] \<or> json_Valid (is_Output s)"

definition publish_state :: "item_state \<Rightarrow> (nat \<Rightarrow> state_file option) \<Rightarrow> nat \<Rightarrow> state_file option" where
  "publish_state s items = items(is_Index s \<mapsto> state_file_of s)"

definition save :: "item_state \<Rightarrow> (batch, unit) prog" where
  "save s = (if \<not> encodable s then fail (Errorf ''llmmap: encode state'' [])
             else writeJSONAtomic (\<lambda>w. w\<lparr>bt_items := publish_state s (bt_items w)\<rparr>))"

definition read_state :: "(nat \<Rightarrow> state_file option) \<Rightarrow> nat \<Rightarrow> error + item_state" where
  "read_state items index =
     (case items index of None \<Rightarrow> Inl not_exist
      | Some f \<Rightarrow> if sf_size f > maxStateBytes then Inl (Errorf ''llmmap: file %s exceeds %d bytes'' [itoa (int index), itoa maxStateBytes])
                  else Inr (sf_state f))"

text \<open>
  The decoding error of a state file is left out: what \<open>save\<close> wrote decodes again, unless its output is
  nested as deep as the decoder goes, one level above its place in the file.
\<close>

definition load :: "nat \<Rightarrow> (batch, item_state) prog" where
  "load index = bindE (disk ''open'') (\<lambda>_.
     bindE (\<lambda>w. (if bt_items w index = None then Inl not_exist else Inr (), w)) (\<lambda>_.
     bindE (wrapE ''llmmap: read state'' (disk ''read'')) (\<lambda>_ w. (read_state (bt_items w) index, w))))"

definition resume_item :: "hash \<Rightarrow> nat \<Rightarrow> string \<Rightarrow> error + item_state \<Rightarrow> error + work_item option" where
  "resume_item H index raw stored =
     (case stored of
        Inl e \<Rightarrow> if e = not_exist
                 then Inr (Some \<lparr>wi_index = index, wi_priorAttempts = 0, wi_raw = raw, wi_hash = H raw, wi_feedback = []\<rparr>)
                 else Inl e
      | Inr s \<Rightarrow>
          if is_InputHash s \<noteq> H raw then Inl (Errorf ''llmmap: item %d does not match resume state'' [itoa (int index)])
          else if is_Status s = ItemCompleted \<or> is_Status s = ItemFailed then Inr None
          else Inr (Some \<lparr>wi_index = index, wi_priorAttempts = is_Attempts s, wi_raw = raw, wi_hash = H raw,
                         wi_feedback = is_Error s\<rparr>))"

definition resumableWork :: "hash \<Rightarrow> nat \<Rightarrow> string \<Rightarrow> (batch, work_item option) prog" where
  "resumableWork H index raw = bindE (tryE (load index)) (\<lambda>stored w. (resume_item H index raw stored, w))"

section \<open>One item\<close>

definition boundedError :: "string \<Rightarrow> string" where
  "boundedError message = take maxErrorBytes message"

definition validateOutput :: "mapper \<Rightarrow> string \<Rightarrow> int \<Rightarrow> string option" where
  "validateOutput M out maxBytes =
     (if int (length out) > maxBytes then Some (''output exceeds '' @ itoa maxBytes @ '' bytes'')
      else if \<not> json_Valid out then Some ''output is not valid JSON''
      else (case mp_Validate M of None \<Rightarrow> None | Some f \<Rightarrow> f out))"

definition start_state :: "work_item \<Rightarrow> item_state" where
  "start_state item = \<lparr>is_Index = wi_index item, is_InputHash = wi_hash item, is_Status = ItemRunning,
     is_Attempts = wi_priorAttempts item, is_Output = [], is_Error = wi_feedback item\<rparr>"

text \<open>The outcome of an attempt: the output if it is valid, otherwise the text of the error.\<close>

definition attempt_outcome :: "mapper \<Rightarrow> run_settings \<Rightarrow> string + string \<Rightarrow> string + string" where
  "attempt_outcome M s answer =
     (case answer of Inl e \<Rightarrow> Inl (boundedError e)
      | Inr out \<Rightarrow> (case validateOutput M out (rs_maxOutputBytes s) of None \<Rightarrow> Inr out | Some e \<Rightarrow> Inl (boundedError e)))"

definition completed_state :: "string \<Rightarrow> item_state \<Rightarrow> item_state" where
  "completed_state out st = st\<lparr>is_Status := ItemCompleted, is_Output := out, is_Error := []\<rparr>"

definition call_process :: "mapper \<Rightarrow> string \<Rightarrow> int \<Rightarrow> string \<Rightarrow> (batch, string + string) prog" where
  "call_process M raw attempt feedback =
     (\<lambda>w. (case mp_Process M of None \<Rightarrow> Inl (GoPanic ''nil processor'') | Some f \<Rightarrow> Inr (f (bt_tick w) raw attempt feedback),
           w\<lparr>bt_tick := Suc (bt_tick w)\<rparr>))"

text \<open>One turn of the loop up to its end; \<open>Inl\<close> is the state the next attempt starts from.\<close>

definition attempt :: "mapper \<Rightarrow> run_settings \<Rightarrow> work_item \<Rightarrow> int \<Rightarrow> item_state \<Rightarrow> (batch, item_state + item_state) prog" where
  "attempt M s item n st = (\<lambda>w.
     if bt_done w (bt_tick w) then (Inr (Inr st), w)
     else bindE (save (st\<lparr>is_Attempts := n\<rparr>)) (\<lambda>_.
          bindE (call_process M (wi_raw item) n (is_Error st)) (\<lambda>answer.
          case attempt_outcome M s answer of
            Inr out \<Rightarrow> ret (Inr (completed_state out (st\<lparr>is_Attempts := n\<rparr>)))
          | Inl e \<Rightarrow> bindE (save (st\<lparr>is_Attempts := n, is_Error := e\<rparr>))
              (\<lambda>_. ret (Inl (st\<lparr>is_Attempts := n, is_Error := e\<rparr>))))) w)"

text \<open>\<open>left\<close> attempts are left, so the next one has number \<open>maxAttempts + 1 - left\<close>.\<close>

primrec attempts_loop :: "mapper \<Rightarrow> run_settings \<Rightarrow> work_item \<Rightarrow> nat \<Rightarrow> item_state \<Rightarrow> (batch, item_state) prog" where
  "attempts_loop M s item 0 st = ret (st\<lparr>is_Status := ItemFailed\<rparr>)"
| "attempts_loop M s item (Suc left) st =
     bindE (attempt M s item (rs_maxAttempts s - int left) st) (\<lambda>r. case r of
         Inr final \<Rightarrow> ret final
       | Inl next_st \<Rightarrow> attempts_loop M s item left next_st)"

definition processOne :: "mapper \<Rightarrow> run_settings \<Rightarrow> work_item \<Rightarrow> (batch, item_state) prog" where
  "processOne M s item = attempts_loop M s item (nat (rs_maxAttempts s - wi_priorAttempts item)) (start_state item)"

text \<open>What a worker does with an item it has taken.\<close>

definition worker_item :: "mapper \<Rightarrow> run_settings \<Rightarrow> work_item \<Rightarrow> (batch, unit) prog" where
  "worker_item M s item = bindE (processOne M s item) save"

section \<open>The files around a run\<close>

definition filepath_Abs :: "string \<Rightarrow> string \<Rightarrow> (batch, string) prog" where
  "filepath_Abs cwd path =
     (if HasPrefix path ''/'' then ret (path_Clean path)
      else bindE (disk ''getwd'') (\<lambda>_. ret (path_Join [cwd, path])))"

definition distinctPaths :: "string \<Rightarrow> string \<Rightarrow> string \<Rightarrow> (batch, unit) prog" where
  "distinctPaths cwd inputPath outputPath =
     bindE (wrapE ''llmmap: resolve input'' (filepath_Abs cwd inputPath)) (\<lambda>inp.
     bindE (wrapE ''llmmap: resolve output'' (filepath_Abs cwd outputPath)) (\<lambda>out.
       if path_Clean inp = path_Clean out then fail (Errorf ''llmmap: input and output must be different files'' []) else ret ()))"

definition open_file :: "string \<Rightarrow> (batch, string) prog" where
  "open_file path = bindE (disk ''open'') (\<lambda>_ w. (case bt_files w path of None \<Rightarrow> Inl not_exist | Some text \<Rightarrow> Inr text, w))"

text \<open>Scanning an open file without a consumer; a read may fail.\<close>

definition scan_file :: "string \<Rightarrow> run_settings \<Rightarrow> (batch, nat) prog" where
  "scan_file text s = bindE (tryE (disk ''read'')) (\<lambda>r. scanJSONL (case r of Inl e \<Rightarrow> Some e | Inr _ \<Rightarrow> None) text s None)"

definition preflightInput :: "hash \<Rightarrow> string \<Rightarrow> string \<Rightarrow> run_settings \<Rightarrow> (batch, dataset_info) prog" where
  "preflightInput H cwd path s =
     bindE (wrapE ''llmmap: resolve input'' (filepath_Abs cwd path)) (\<lambda>absolute.
     bindE (wrapE ''llmmap: open input'' (open_file absolute)) (\<lambda>text.
     bindE (scan_file text s) (\<lambda>n. ret \<lparr>ds_path = absolute, ds_hash = H text, ds_items = int n\<rparr>)))"

definition finishInputSnapshot :: "string \<Rightarrow> string \<Rightarrow> (batch, unit) prog" where
  "finishInputSnapshot text path =
     bindE (wrapE ''llmmap: sync input snapshot'' (disk ''sync'')) (\<lambda>_.
     bindE (wrapE ''llmmap: secure input snapshot'' (disk ''chmod'')) (\<lambda>_.
     bindE (wrapE ''llmmap: close input snapshot'' (disk ''close'')) (\<lambda>_.
     bindE (wrapE ''llmmap: publish input snapshot'' (disk ''rename'')) (\<lambda>_ w.
       (Inr (), w\<lparr>bt_files := (bt_files w)(path \<mapsto> text)\<rparr>)))))"

definition writeInputSnapshot :: "hash \<Rightarrow> string \<Rightarrow> dataset_info \<Rightarrow> run_settings \<Rightarrow> (batch, unit) prog" where
  "writeInputSnapshot H path dataset s =
     bindE (wrapE ''llmmap: reopen input for snapshot'' (open_file (ds_path dataset))) (\<lambda>text.
     bindE (wrapE ''llmmap: create input snapshot'' (disk ''create'')) (\<lambda>_.
     bindE (scan_file text s) (\<lambda>items.
       if int items \<noteq> ds_items dataset \<or> H text \<noteq> ds_hash dataset
       then fail (Errorf ''llmmap: input changed while creating validated snapshot'' [])
       else finishInputSnapshot text path)))"

definition snapshot_path :: "run_settings \<Rightarrow> string" where
  "snapshot_path s = path_Join [rs_stateDir s, ''input.jsonl'']"

definition prepareInputSnapshot :: "hash \<Rightarrow> string \<Rightarrow> dataset_info \<Rightarrow> run_settings \<Rightarrow> (batch, string) prog" where
  "prepareInputSnapshot H cwd dataset s =
     bindE (tryE (preflightInput H cwd (snapshot_path s) s)) (\<lambda>existing. case existing of
         Inr e \<Rightarrow> if ds_hash e \<noteq> ds_hash dataset \<or> ds_items e \<noteq> ds_items dataset
                  then fail (Errorf ''llmmap: resume input snapshot does not match source input'' [])
                  else ret (snapshot_path s)
       | Inl err \<Rightarrow> if \<not> errors_Is err not_exist then fail err
                    else bindE (writeInputSnapshot H (snapshot_path s) dataset s) (\<lambda>_. ret (snapshot_path s)))"

definition run_manifest_of :: "dataset_info \<Rightarrow> string \<Rightarrow> run_settings \<Rightarrow> run_manifest" where
  "run_manifest_of dataset configKey s =
     \<lparr>rm_Version = stateVersion, rm_InputPath = ds_path dataset, rm_InputHash = ds_hash dataset, rm_Items = ds_items dataset,
      rm_ConfigKey = configKey, rm_MaxAttempts = rs_maxAttempts s, rm_MaxInputBytes = rs_maxInputBytes s,
      rm_MaxItemBytes = rs_maxItemBytes s, rm_MaxOutputBytes = rs_maxOutputBytes s\<rparr>"

text \<open>What the encoded manifest decodes to.\<close>

definition durable_manifest :: "run_manifest \<Rightarrow> run_manifest" where
  "durable_manifest m = m\<lparr>rm_InputPath := clean_utf8 (rm_InputPath m), rm_ConfigKey := clean_utf8 (rm_ConfigKey m)\<rparr>"

definition manifest_json :: "run_manifest \<Rightarrow> string" where
  "manifest_json m =
     ''{'' @ Join [json_member ''version'' (itoa (rm_Version m)), json_member ''input_path'' (marshal_string (rm_InputPath m)),
        json_member ''input_hash'' (marshal_string (rm_InputHash m)), json_member ''items'' (itoa (rm_Items m)),
        json_member ''config_key'' (marshal_string (rm_ConfigKey m)), json_member ''max_attempts'' (itoa (rm_MaxAttempts m)),
        json_member ''max_input_bytes'' (itoa (rm_MaxInputBytes m)), json_member ''max_item_bytes'' (itoa (rm_MaxItemBytes m)),
        json_member ''max_output_bytes'' (itoa (rm_MaxOutputBytes m))] '','' @ ''}''"

definition manifest_file_of :: "run_manifest \<Rightarrow> manifest_file" where
  "manifest_file_of m = \<lparr>mf_manifest = durable_manifest m, mf_size = int (length (manifest_json m))\<rparr>"

definition readManifest :: "(batch, run_manifest) prog" where
  "readManifest = bindE (disk ''open'') (\<lambda>_.
     bindE (\<lambda>w. (case bt_manifest w of None \<Rightarrow> Inl not_exist | Some m \<Rightarrow> Inr m, w)) (\<lambda>m.
     bindE (wrapE ''llmmap: read state'' (disk ''read'')) (\<lambda>_.
       if mf_size m > maxManifestBytes then fail (Errorf ''llmmap: file %s exceeds %d bytes'' [''manifest.json'', itoa maxManifestBytes])
       else ret (mf_manifest m))))"

definition openStateStore :: "dataset_info \<Rightarrow> string \<Rightarrow> run_settings \<Rightarrow> (batch, unit) prog" where
  "openStateStore dataset configKey s =
     bindE (wrapE ''llmmap: create state directory'' (disk ''mkdir'')) (\<lambda>_.
     bindE (wrapE ''llmmap: secure state directory'' (disk ''chmod'')) (\<lambda>_.
     bindE (wrapE ''llmmap: secure item state directory'' (disk ''chmod'')) (\<lambda>_.
     let manifest = run_manifest_of dataset configKey s in
     bindE (tryE readManifest) (\<lambda>existing. case existing of
         Inl e \<Rightarrow> if e = not_exist then writeJSONAtomic (\<lambda>w. w\<lparr>bt_manifest := Some (manifest_file_of manifest)\<rparr>) else fail e
       | Inr m \<Rightarrow> if m \<noteq> manifest
                  then fail (Errorf ''llmmap: resume state does not match input or processing configuration'' []) else ret ()))))"

section \<open>Output\<close>

definition terminal :: "item_state \<Rightarrow> bool" where
  "terminal st \<longleftrightarrow> is_Status st = ItemCompleted \<or> is_Status st = ItemFailed"

definition output_json :: "nat \<Rightarrow> item_state \<Rightarrow> string" where
  "output_json index st =
     ''{'' @ Join ([json_member ''index'' (itoa (int index)),
        json_member ''ok'' (if is_Status st = ItemCompleted then ''true'' else ''false'')]
        @ (if is_Output st = [] then [] else [json_member ''output'' (compact False (is_Output st))])
        @ (if is_Error st = [] then [] else [json_member ''error'' (marshal_string (is_Error st))])
        @ [json_member ''attempts'' (itoa (is_Attempts st))]) '','' @ ''}'' @ newline"

text \<open>An output that was decoded from a state file is valid JSON, so encoding fails only on a write.\<close>

fun assemble_loop :: "nat list \<Rightarrow> map_result \<Rightarrow> string \<Rightarrow> (batch, map_result \<times> string) prog" where
  "assemble_loop [] result text = ret (result, text)"
| "assemble_loop (index # rest) result text =
     bindE (tryE (load index)) (\<lambda>r.
       case r of Inl _ \<Rightarrow> fail (Errorf ''llmmap: item %d has no terminal state'' [itoa (int index)])
       | Inr st \<Rightarrow>
           if \<not> terminal st then fail (Errorf ''llmmap: item %d has no terminal state'' [itoa (int index)])
           else bindE (wrapE ''llmmap: encode output'' (disk ''write'')) (\<lambda>_.
                assemble_loop rest
                  (if is_Status st = ItemCompleted then result\<lparr>mr_Succeeded := mr_Succeeded result + 1\<rparr>
                   else result\<lparr>mr_Failed := mr_Failed result + 1\<rparr>)
                  (text @ output_json index st)))"

definition finishAtomicOutput :: "string \<Rightarrow> string \<Rightarrow> (batch, unit) prog" where
  "finishAtomicOutput text outputPath =
     bindE (wrapE ''llmmap: flush output'' (disk ''write'')) (\<lambda>_.
     bindE (wrapE ''llmmap: sync output'' (disk ''sync'')) (\<lambda>_.
     bindE (wrapE ''llmmap: secure output'' (disk ''chmod'')) (\<lambda>_.
     bindE (wrapE ''llmmap: close output'' (disk ''close'')) (\<lambda>_.
     bindE (wrapE ''llmmap: publish output'' (disk ''rename'')) (\<lambda>_ w.
       (Inr (), w\<lparr>bt_files := (bt_files w)(outputPath \<mapsto> text)\<rparr>))))))"

definition assembleOutput :: "string \<Rightarrow> int \<Rightarrow> int \<Rightarrow> (batch, map_result) prog" where
  "assembleOutput path n peak =
     bindE (wrapE ''llmmap: create output directory'' (disk ''mkdir'')) (\<lambda>_.
     bindE (wrapE ''llmmap: create temporary output'' (disk ''create'')) (\<lambda>_.
     bindE (assemble_loop [0..<nat n] \<lparr>mr_Total = n, mr_Succeeded = 0, mr_Failed = 0, mr_PeakInFlight = peak\<rparr> [])
       (\<lambda>(result, text). bindE (finishAtomicOutput text path) (\<lambda>_. ret result))))"

section \<open>A whole run\<close>

definition remove_state :: "run_settings \<Rightarrow> (batch, unit) prog" where
  "remove_state s = bindE (wrapE ''llmmap: remove completed state'' (disk ''remove''))
     (\<lambda>_ w. (Inr (), w\<lparr>bt_items := (\<lambda>_. None), bt_manifest := None, bt_files := (bt_files w)(snapshot_path s := None)\<rparr>))"

definition over_budget :: "run_settings \<Rightarrow> int \<Rightarrow> bool" where
  "over_budget s items \<longleftrightarrow> rs_maxCalls s > 0 \<and> items * rs_maxAttempts s > rs_maxCalls s"

text \<open>\<open>stream\<close> is the concurrent part, \<open>processStream\<close>, under the schedule it happens to run with.\<close>

definition Mapper_Run :: "hash \<Rightarrow> string \<Rightarrow> mapper \<Rightarrow> (dataset_info \<Rightarrow> run_settings \<Rightarrow> (batch, map_result) prog)
    \<Rightarrow> string \<Rightarrow> string \<Rightarrow> (batch, map_result) prog" where
  "Mapper_Run H cwd M stream inputPath outputPath =
     (case settings M outputPath of Inl e \<Rightarrow> fail e
      | Inr s \<Rightarrow>
        bindE (distinctPaths cwd inputPath outputPath) (\<lambda>_.
        bindE (preflightInput H cwd inputPath s) (\<lambda>dataset.
        if over_budget s (ds_items dataset)
        then fail (Errorf ''llmmap: worst-case calls %d exceed --max-calls %d''
               [itoa (ds_items dataset * rs_maxAttempts s), itoa (rs_maxCalls s)])
        else
        bindE (openStateStore dataset (mp_ConfigKey M) s) (\<lambda>_.
        bindE (prepareInputSnapshot H cwd dataset s) (\<lambda>snapshotPath.
        bindE (stream (dataset\<lparr>ds_path := snapshotPath\<rparr>) s) (\<lambda>streamed.
        bindE (assembleOutput outputPath (ds_items dataset) (mr_PeakInFlight streamed)) (\<lambda>result.
        bindE (remove_state s) (\<lambda>_. ret result))))))))"

section \<open>Validators\<close>

definition RequireFields :: "unicode \<Rightarrow> string list \<Rightarrow> validator" where
  "RequireFields U required out =
     (case json_parse out of
        Some (JObject ms) \<Rightarrow> (case find (\<lambda>f. f \<notin> fst ` set ms) required of None \<Rightarrow> None
          | Some f \<Rightarrow> Some (''missing required field '' @ Quote U f))
      | Some JNull \<Rightarrow> (case required of [] \<Rightarrow> None | f # _ \<Rightarrow> Some (''missing required field '' @ Quote U f))
      | _ \<Rightarrow> Some ''output is not a JSON object'')"

fun CombineValidators :: "validator option list \<Rightarrow> validator" where
  "CombineValidators [] out = None"
| "CombineValidators (None # vs) out = CombineValidators vs out"
| "CombineValidators (Some f # vs) out = (case f out of Some e \<Rightarrow> Some e | None \<Rightarrow> CombineValidators vs out)"

end
