(* ===== verification/Batch_Pool.thy ===== *)
theory Batch_Pool
  imports Batch
begin

text \<open>
  The concurrent part of \<open>llmmap.go\<close>: a producer that scans the input, a bounded queue, workers.
  \<open>pool_step\<close> has one rule per action between two durable effects, in any interleaving, with any
  answer of the processor and a failure of the disk at any call; \<open>batch_step\<close> adds a crash and the
  resumption from the state files.  Each worker takes at most \<open>maxItems\<close> items, which a run never has
  more of.  A report sends the first error and cancels the run in one step: in the code another worker may
  begin one more attempt in between, a step that the relation also has just before the report.
\<close>

section \<open>The pool\<close>

datatype worker =
    Idle
  | Starting work_item item_state
  | Calling work_item item_state
  | Saving work_item item_state
  | Finishing item_state
  | Gone

record pool =
  pl_next :: nat
  pl_scan :: "error option option"
  pl_pending :: "work_item option"
  pl_queue :: "work_item list"
  pl_workers :: "worker list"
  pl_inFlight :: int
  pl_peak :: int
  pl_error :: "error option"
  pl_expired :: bool
  pl_items :: "nat \<Rightarrow> state_file option"
  pl_calls :: "(nat \<times> int) list"

definition newWorkerPool :: "run_settings \<Rightarrow> (nat \<Rightarrow> state_file option) \<Rightarrow> (nat \<times> int) list \<Rightarrow> pool" where
  "newWorkerPool s items calls =
     \<lparr>pl_next = 0, pl_scan = None, pl_pending = None, pl_queue = [], pl_workers = replicate (nat (rs_concurrency s)) Idle,
      pl_inFlight = 0, pl_peak = 0, pl_error = None, pl_expired = False, pl_items = items, pl_calls = calls\<rparr>"

text \<open>The context of the pool is done when its parent is or a worker has reported an error.\<close>

definition ctx_done :: "pool \<Rightarrow> bool" where
  "ctx_done p \<longleftrightarrow> pl_expired p \<or> pl_error p \<noteq> None"

definition updatePeak :: "int \<Rightarrow> int \<Rightarrow> int" where
  "updatePeak peak current = (if current > peak then current else peak)"

definition announce :: "work_item \<Rightarrow> pool \<Rightarrow> pool" where
  "announce item p =
     p\<lparr>pl_next := Suc (pl_next p), pl_pending := Some item, pl_inFlight := pl_inFlight p + 1,
       pl_peak := updatePeak (pl_peak p) (pl_inFlight p + 1)\<rparr>"

definition report :: "error \<Rightarrow> pool \<Rightarrow> pool" where
  "report e p = (case pl_error p of None \<Rightarrow> p\<lparr>pl_error := Some e\<rparr> | Some _ \<Rightarrow> p)"

definition set_worker :: "nat \<Rightarrow> worker \<Rightarrow> pool \<Rightarrow> pool" where
  "set_worker k x p = p\<lparr>pl_workers := (pl_workers p)[k := x]\<rparr>"

definition publish :: "item_state \<Rightarrow> pool \<Rightarrow> pool" where
  "publish st p = p\<lparr>pl_items := publish_state st (pl_items p)\<rparr>"

definition release :: "pool \<Rightarrow> pool" where
  "release p = p\<lparr>pl_inFlight := pl_inFlight p - 1\<rparr>"

text \<open>A worker whose save failed reports the error and ends.\<close>

definition give_up :: "nat \<Rightarrow> error \<Rightarrow> pool \<Rightarrow> pool" where
  "give_up k e p = report e (release (set_worker k Gone p))"

section \<open>The steps\<close>

inductive pool_step :: "mapper \<Rightarrow> run_settings \<Rightarrow> hash \<Rightarrow> string list \<Rightarrow> error option \<Rightarrow> pool \<Rightarrow> pool \<Rightarrow> bool"
  for M s H raws endErr where
  scan_item: "\<lbrakk>pl_scan p = None; pl_pending p = None; pl_next p < length raws;
      resume_item H (pl_next p) (raws ! pl_next p) (read_state (pl_items p) (pl_next p)) = Inr (Some item)\<rbrakk>
    \<Longrightarrow> pool_step M s H raws endErr p (announce item p)"
| scan_skip: "\<lbrakk>pl_scan p = None; pl_pending p = None; pl_next p < length raws;
      resume_item H (pl_next p) (raws ! pl_next p) (read_state (pl_items p) (pl_next p)) = Inr None\<rbrakk>
    \<Longrightarrow> pool_step M s H raws endErr p (p\<lparr>pl_next := Suc (pl_next p)\<rparr>)"
| scan_refuse: "\<lbrakk>pl_scan p = None; pl_pending p = None; pl_next p < length raws;
      resume_item H (pl_next p) (raws ! pl_next p) (read_state (pl_items p) (pl_next p)) = Inl e\<rbrakk>
    \<Longrightarrow> pool_step M s H raws endErr p (p\<lparr>pl_scan := Some (Some e)\<rparr>)"
| scan_fault: "\<lbrakk>pl_scan p = None; pl_pending p = None; pl_next p < length raws\<rbrakk>
    \<Longrightarrow> pool_step M s H raws endErr p (p\<lparr>pl_scan := Some (Some e)\<rparr>)"
| scan_end: "\<lbrakk>pl_scan p = None; pl_pending p = None; pl_next p = length raws\<rbrakk>
    \<Longrightarrow> pool_step M s H raws endErr p (p\<lparr>pl_scan := Some endErr\<rparr>)"
| send: "\<lbrakk>pl_pending p = Some item; int (length (pl_queue p)) < rs_concurrency s\<rbrakk>
    \<Longrightarrow> pool_step M s H raws endErr p (p\<lparr>pl_pending := None, pl_queue := pl_queue p @ [item]\<rparr>)"
| send_cancelled: "\<lbrakk>pl_pending p = Some item; ctx_done p\<rbrakk>
    \<Longrightarrow> pool_step M s H raws endErr p (release (p\<lparr>pl_pending := None, pl_scan := Some (Some e)\<rparr>))"
| take_item: "\<lbrakk>k < length (pl_workers p); pl_workers p ! k = Idle; pl_queue p = item # q\<rbrakk>
    \<Longrightarrow> pool_step M s H raws endErr p (set_worker k (Starting item (start_state item)) (p\<lparr>pl_queue := q\<rparr>))"
| exhausted: "\<lbrakk>k < length (pl_workers p); pl_workers p ! k = Starting item st; is_Attempts st \<ge> rs_maxAttempts s\<rbrakk>
    \<Longrightarrow> pool_step M s H raws endErr p (set_worker k (Finishing (st\<lparr>is_Status := ItemFailed\<rparr>)) p)"
| interrupted: "\<lbrakk>k < length (pl_workers p); pl_workers p ! k = Starting item st; is_Attempts st < rs_maxAttempts s; ctx_done p\<rbrakk>
    \<Longrightarrow> pool_step M s H raws endErr p (set_worker k (Finishing st) p)"
| begin_attempt: "\<lbrakk>k < length (pl_workers p); pl_workers p ! k = Starting item st; is_Attempts st < rs_maxAttempts s; \<not> ctx_done p;
      st1 = st\<lparr>is_Attempts := is_Attempts st + 1\<rparr>\<rbrakk>
    \<Longrightarrow> pool_step M s H raws endErr p
         (set_worker k (Calling item st1) (publish st1 (p\<lparr>pl_calls := (wi_index item, is_Attempts st1) # pl_calls p\<rparr>)))"
| begin_fault: "\<lbrakk>k < length (pl_workers p); pl_workers p ! k = Starting item st; is_Attempts st < rs_maxAttempts s; \<not> ctx_done p\<rbrakk>
    \<Longrightarrow> pool_step M s H raws endErr p (give_up k e p)"
| answer_valid: "\<lbrakk>k < length (pl_workers p); pl_workers p ! k = Calling item st; attempt_outcome M s answer = Inr out\<rbrakk>
    \<Longrightarrow> pool_step M s H raws endErr p (set_worker k (Finishing (completed_state out st)) p)"
| answer_bad: "\<lbrakk>k < length (pl_workers p); pl_workers p ! k = Calling item st; attempt_outcome M s answer = Inl msg\<rbrakk>
    \<Longrightarrow> pool_step M s H raws endErr p (set_worker k (Saving item (st\<lparr>is_Error := msg\<rparr>)) p)"
| save_error: "\<lbrakk>k < length (pl_workers p); pl_workers p ! k = Saving item st\<rbrakk>
    \<Longrightarrow> pool_step M s H raws endErr p (set_worker k (Starting item st) (publish st p))"
| save_fault: "\<lbrakk>k < length (pl_workers p); pl_workers p ! k = Saving item st\<rbrakk>
    \<Longrightarrow> pool_step M s H raws endErr p (give_up k e p)"
| finish_item: "\<lbrakk>k < length (pl_workers p); pl_workers p ! k = Finishing st\<rbrakk>
    \<Longrightarrow> pool_step M s H raws endErr p (release (set_worker k Idle (publish st p)))"
| finish_fault: "\<lbrakk>k < length (pl_workers p); pl_workers p ! k = Finishing st\<rbrakk>
    \<Longrightarrow> pool_step M s H raws endErr p (give_up k e p)"
| expire: "pool_step M s H raws endErr p (p\<lparr>pl_expired := True\<rparr>)"

text \<open>A crash loses everything but the state files; a new run starts from them.\<close>

inductive batch_step :: "mapper \<Rightarrow> run_settings \<Rightarrow> hash \<Rightarrow> string list \<Rightarrow> error option \<Rightarrow> pool \<Rightarrow> pool \<Rightarrow> bool"
  for M s H raws endErr where
  work: "pool_step M s H raws endErr p p' \<Longrightarrow> batch_step M s H raws endErr p p'"
| resume: "batch_step M s H raws endErr p (newWorkerPool s (pl_items p) (pl_calls p))"

text \<open>A run is over when the producer has stopped and every worker has nothing left to take.\<close>

definition pool_over :: "pool \<Rightarrow> bool" where
  "pool_over p \<longleftrightarrow> pl_scan p \<noteq> None \<and> pl_pending p = None
     \<and> (\<forall>x \<in> set (pl_workers p). x = Gone \<or> x = Idle \<and> pl_queue p = [])"

definition pool_finish :: "nat \<Rightarrow> pool \<Rightarrow> error + map_result" where
  "pool_finish items p =
     (case pl_error p of Some e \<Rightarrow> Inl e
      | None \<Rightarrow> (case pl_scan p of Some (Some e) \<Rightarrow> Inl e
        | _ \<Rightarrow> if pl_expired p then Inl (Errorf ''context canceled'' [])
               else Inr \<lparr>mr_Total = int items, mr_Succeeded = 0, mr_Failed = 0, mr_PeakInFlight = pl_peak p\<rparr>))"

lemmas pool_defs = announce_def report_def set_worker_def publish_def release_def give_up_def publish_state_def

end
