(* ===== verification/Batch_Props.thy ===== *)
theory Batch_Props
  imports Batch_Pool
begin

text \<open>
  Properties of map runs over every interleaving of the workers, every answer of the processor, failing
  disks, crashes and resumptions.
\<close>

section \<open>The invariant\<close>

text \<open>How many attempts the state files record for an item, and whether it has a terminal state.\<close>

definition recorded :: "(nat \<Rightarrow> state_file option) \<Rightarrow> nat \<Rightarrow> int" where
  "recorded items i = (case items i of None \<Rightarrow> 0 | Some f \<Rightarrow> is_Attempts (sf_state f))"

definition settled :: "(nat \<Rightarrow> state_file option) \<Rightarrow> nat \<Rightarrow> bool" where
  "settled items i = (case items i of None \<Rightarrow> False | Some f \<Rightarrow> terminal (sf_state f))"

text \<open>A state that may stand in a file: that of item \<open>i\<close>, with a verdict that the attempts justify.\<close>

definition sound_state :: "mapper \<Rightarrow> run_settings \<Rightarrow> hash \<Rightarrow> string list \<Rightarrow> nat \<Rightarrow> item_state \<Rightarrow> bool" where
  "sound_state M s H raws i st \<longleftrightarrow> is_Index st = i \<and> i < length raws \<and> is_InputHash st = H (raws ! i)
     \<and> 0 \<le> is_Attempts st \<and> is_Attempts st \<le> rs_maxAttempts s
     \<and> (is_Status st = ItemRunning \<and> is_Output st = []
        \<or> is_Status st = ItemCompleted \<and> 1 \<le> is_Attempts st \<and> validateOutput M (is_Output st) (rs_maxOutputBytes s) = None
        \<or> is_Status st = ItemFailed \<and> is_Output st = [] \<and> is_Attempts st = rs_maxAttempts s)"

definition sound_items :: "mapper \<Rightarrow> run_settings \<Rightarrow> hash \<Rightarrow> string list \<Rightarrow> (nat \<Rightarrow> state_file option) \<Rightarrow> bool" where
  "sound_items M s H raws items \<longleftrightarrow>
     (\<forall>i f. items i = Some f \<longrightarrow> (\<exists>st. f = state_file_of st \<and> sound_state M s H raws i st))"

text \<open>A work item on its way: not settled, and it knows the attempts on record.\<close>

definition item_ok :: "hash \<Rightarrow> string list \<Rightarrow> pool \<Rightarrow> work_item \<Rightarrow> bool" where
  "item_ok H raws p item \<longleftrightarrow> wi_index item < pl_next p \<and> wi_index item < length raws \<and> wi_raw item = raws ! wi_index item
     \<and> wi_hash item = H (raws ! wi_index item) \<and> wi_priorAttempts item = recorded (pl_items p) (wi_index item)
     \<and> \<not> settled (pl_items p) (wi_index item)"

text \<open>The state a worker holds: that of its item, still running, with the attempts on record.\<close>

definition running_ok :: "mapper \<Rightarrow> run_settings \<Rightarrow> hash \<Rightarrow> string list \<Rightarrow> pool \<Rightarrow> work_item \<Rightarrow> item_state \<Rightarrow> bool" where
  "running_ok M s H raws p item st \<longleftrightarrow> wi_index item < pl_next p \<and> sound_state M s H raws (wi_index item) st
     \<and> wi_raw item = raws ! wi_index item \<and> is_Status st = ItemRunning \<and> is_Attempts st = recorded (pl_items p) (wi_index item)
     \<and> \<not> settled (pl_items p) (wi_index item)"

fun worker_ok :: "mapper \<Rightarrow> run_settings \<Rightarrow> hash \<Rightarrow> string list \<Rightarrow> pool \<Rightarrow> worker \<Rightarrow> bool" where
  "worker_ok M s H raws p (Starting item st) = running_ok M s H raws p item st"
| "worker_ok M s H raws p (Calling item st) = (running_ok M s H raws p item st \<and> 1 \<le> is_Attempts st)"
| "worker_ok M s H raws p (Saving item st) = running_ok M s H raws p item st"
| "worker_ok M s H raws p (Finishing st) =
     (is_Index st < pl_next p \<and> sound_state M s H raws (is_Index st) st \<and> is_Attempts st = recorded (pl_items p) (is_Index st)
      \<and> \<not> settled (pl_items p) (is_Index st) \<and> (is_Status st = ItemRunning \<longrightarrow> ctx_done p))"
| "worker_ok M s H raws p _ = True"

fun held_by :: "worker \<Rightarrow> nat list" where
  "held_by (Starting item st) = [wi_index item]"
| "held_by (Calling item st) = [wi_index item]"
| "held_by (Saving item st) = [wi_index item]"
| "held_by (Finishing st) = [is_Index st]"
| "held_by _ = []"

definition waiting :: "pool \<Rightarrow> work_item list" where
  "waiting p = pl_queue p @ (case pl_pending p of None \<Rightarrow> [] | Some item \<Rightarrow> [item])"

definition held :: "pool \<Rightarrow> nat list" where
  "held p = map wi_index (waiting p) @ concat (map held_by (pl_workers p))"

definition calls_ok :: "pool \<Rightarrow> bool" where
  "calls_ok p \<longleftrightarrow> distinct (pl_calls p) \<and> (\<forall>(i, n) \<in> set (pl_calls p). 1 \<le> n \<and> n \<le> recorded (pl_items p) i)"

definition pool_inv :: "mapper \<Rightarrow> run_settings \<Rightarrow> hash \<Rightarrow> string list \<Rightarrow> pool \<Rightarrow> bool" where
  "pool_inv M s H raws p \<longleftrightarrow> sound_items M s H raws (pl_items p) \<and> (\<forall>item \<in> set (waiting p). item_ok H raws p item)
     \<and> (\<forall>x \<in> set (pl_workers p). worker_ok M s H raws p x) \<and> distinct (held p) \<and> calls_ok p
     \<and> pl_next p \<le> length raws
     \<and> (\<forall>i < pl_next p. i \<in> set (held p) \<or> settled (pl_items p) i \<or> ctx_done p)"

section \<open>Steps of one worker\<close>

lemma concat_disjoint:
  assumes "distinct (concat (map f xs))" "k < length xs" "l < length xs" "k \<noteq> l" "i \<in> set (f (xs ! k))"
  shows "i \<notin> set (f (xs ! l))"
  using assms
proof (induction xs arbitrary: k l)
  case (Cons x xs)
  have in_rest: "set (f (xs ! n)) \<subseteq> set (concat (map f xs))" if "n < length xs" for n
    using that by (force simp: in_set_conv_nth)
  show ?case
  proof (cases k)
    case 0
    then obtain l' where "l = Suc l'" using Cons.prems by (cases l) auto
    then show ?thesis using 0 Cons.prems in_rest [of l'] by auto
  next
    case k: (Suc k')
    then show ?thesis
    proof (cases l)
      case 0
      then show ?thesis using k Cons.prems in_rest [of k'] by auto
    next
      case (Suc l')
      then show ?thesis using k Cons.prems Cons.IH [of k' l'] by auto
    qed
  qed
qed simp

lemma concat_update:
  "k < length xs \<Longrightarrow> mset (concat (map f (xs[k := y]))) + mset (f (xs ! k)) = mset (concat (map f xs)) + mset (f y)"
  by (induction xs arbitrary: k) (auto split: nat.split simp: add.commute add.left_commute)

lemma distinct_submset:
  assumes "distinct xs" "mset ys \<subseteq># mset xs"
  shows "distinct ys"
proof -
  obtain C where C: "mset xs = mset ys + C" using assms(2) by (auto simp: mset_subset_eq_exists_conv)
  obtain zs where "mset zs = C" using ex_mset by blast
  with C have "mset xs = mset (ys @ zs)" by simp
  with assms(1) have "distinct (ys @ zs)" by (metis mset_eq_imp_distinct_iff)
  then show ?thesis by simp
qed

lemma held_worker: "k < length (pl_workers p) \<Longrightarrow> set (held_by (pl_workers p ! k)) \<subseteq> set (held p)"
  by (force simp: held_def in_set_conv_nth)

lemma worker_frame:
  assumes "worker_ok M s H raws p y" and "\<And>i. i \<in> set (held_by y) \<Longrightarrow> items' i = pl_items p i"
    and "pl_items p' = items'" "pl_next p' = pl_next p" and "ctx_done p \<Longrightarrow> ctx_done p'"
  shows "worker_ok M s H raws p' y"
  using assms by (cases y) (auto simp: running_ok_def recorded_def settled_def)

lemma item_frame:
  assumes "item_ok H raws p item" and "items' (wi_index item) = pl_items p (wi_index item)"
    and "pl_items p' = items'" "pl_next p \<le> pl_next p'"
  shows "item_ok H raws p' item"
  using assms by (auto simp: item_ok_def recorded_def settled_def)

lemma worker_step_inv:
  assumes inv: "pool_inv M s H raws p" and k: "k < length (pl_workers p)"
    and p': "pl_workers p' = (pl_workers p)[k := x]" "pl_next p' = pl_next p" "waiting p' = waiting p"
    and ctx: "ctx_done p \<Longrightarrow> ctx_done p'"
    and frame: "\<And>i. i \<notin> set (held_by (pl_workers p ! k)) \<Longrightarrow> pl_items p' i = pl_items p i"
    and hold: "held_by x = held_by (pl_workers p ! k)
        \<or> held_by x = [] \<and> (\<forall>i \<in> set (held_by (pl_workers p ! k)). settled (pl_items p') i \<or> ctx_done p')"
    and new: "worker_ok M s H raws p' x" and items: "sound_items M s H raws (pl_items p')" and calls: "calls_ok p'"
  shows "pool_inv M s H raws p'"
proof -
  let ?ws = "pl_workers p" and ?I = "pl_items p'"
  have d: "distinct (held p)" and d2: "distinct (concat (map held_by ?ws))" using inv by (auto simp: pool_inv_def held_def)
  have others: "worker_ok M s H raws p' y" if mem: "y \<in> set (?ws[k := x])" for y
  proof -
    obtain l where l: "l < length ?ws" "y = ?ws[k := x] ! l" using mem unfolding in_set_conv_nth length_list_update by blast
    show ?thesis
    proof (cases "l = k")
      case True
      then show ?thesis using l new by simp
    next
      case False
      then have y: "y = ?ws ! l" using l by simp
      show ?thesis
      proof (rule worker_frame [OF _ _ refl p'(2) ctx])
        have "\<forall>y \<in> set ?ws. worker_ok M s H raws p y" using inv by (simp add: pool_inv_def)
        then show "worker_ok M s H raws p y" using nth_mem [OF l(1)] by (simp only: y)
        show "?I i = pl_items p i" if "i \<in> set (held_by y)" for i
        proof -
          have "i \<in> set (held_by (?ws ! l))" using that by (simp only: y)
          from concat_disjoint [OF d2 l(1) k False this] show ?thesis by (rule frame)
        qed
      qed
    qed
  qed
  have waiters: "item_ok H raws p' item" if "item \<in> set (waiting p)" for item
  proof -
    have "wi_index item \<in> set (map wi_index (waiting p))" using that by simp
    moreover have "set (held_by (?ws ! k)) \<subseteq> set (concat (map held_by ?ws))" using k nth_mem by fastforce
    moreover have "set (map wi_index (waiting p)) \<inter> set (concat (map held_by ?ws)) = {}"
      using d unfolding held_def distinct_append by blast
    ultimately have "wi_index item \<notin> set (held_by (?ws ! k))" by blast
    then have same: "?I (wi_index item) = pl_items p (wi_index item)" by (rule frame)
    have "item_ok H raws p item" using inv that unfolding pool_inv_def by blast
    then show ?thesis by (rule item_frame [OF _ same refl]) (simp add: p'(2))
  qed
  have m: "mset (held p') + mset (held_by (?ws ! k)) = mset (held p) + mset (held_by x)"
    using concat_update [OF k, of held_by x] by (simp add: held_def p' add.assoc)
  have e: "mset (held p') = mset (held p) \<or> held_by x = [] \<and> mset (held p') + mset (held_by (?ws ! k)) = mset (held p)"
    using m hold by auto
  then have sub: "mset (held p') \<subseteq># mset (held p)"
    by (elim disjE conjE) (simp, metis mset_subset_eq_add_left)
  have keep: "i \<in> set (held p')" if i: "i \<in> set (held p)" "i \<notin> set (held_by (?ws ! k)) \<or> held_by x \<noteq> []" for i
    using e
  proof (elim disjE conjE)
    assume "mset (held p') = mset (held p)"
    then show ?thesis using i(1) mset_eq_setD by blast
  next
    assume "held_by x = []" "mset (held p') + mset (held_by (?ws ! k)) = mset (held p)"
    then have "mset (held p' @ held_by (?ws ! k)) = mset (held p)" by simp
    from mset_eq_setD [OF this] show ?thesis using i \<open>held_by x = []\<close> by auto
  qed
  have "distinct (held p')" by (rule distinct_submset [OF d sub])
  moreover have "i \<in> set (held p') \<or> settled ?I i \<or> ctx_done p'" if "i < pl_next p'" for i
  proof (cases "i \<in> set (held_by (?ws ! k))")
    case True
    have "i \<in> set (held p)" using True held_worker [OF k] by blast
    then show ?thesis using hold keep True by (cases "held_by x = []") auto
  next
    case False
    have "i \<in> set (held p) \<or> settled (pl_items p) i \<or> ctx_done p" using inv that p'(2) by (auto simp: pool_inv_def)
    then show ?thesis using keep False ctx frame [OF False] by (auto simp: settled_def)
  qed
  ultimately show ?thesis
    using others waiters items calls inv by (auto simp: pool_inv_def p')
qed

section \<open>What publishing a state changes\<close>

lemma durable_fields [simp]:
  "is_Index (durable st) = is_Index st" "is_InputHash (durable st) = is_InputHash st" "is_Status (durable st) = is_Status st"
  "is_Attempts (durable st) = is_Attempts st" "terminal (durable st) = terminal st"
  by (simp_all add: durable_def terminal_def)

lemma publish_recorded: "recorded (publish_state st items) i = (if i = is_Index st then is_Attempts st else recorded items i)"
  by (simp add: recorded_def publish_state_def state_file_of_def)

lemma publish_settled: "settled (publish_state st items) i = (if i = is_Index st then terminal st else settled items i)"
  by (simp add: settled_def publish_state_def state_file_of_def)

lemma publish_other: "i \<noteq> is_Index st \<Longrightarrow> publish_state st items i = items i"
  by (simp add: publish_state_def)

lemma publish_sound:
  "sound_items M s H raws items \<Longrightarrow> sound_state M s H raws (is_Index st) st \<Longrightarrow> sound_items M s H raws (publish_state st items)"
  by (auto simp: sound_items_def publish_state_def)

lemma statuses_differ [simp]:
  "ItemRunning \<noteq> ItemCompleted" "ItemRunning \<noteq> ItemFailed" "ItemCompleted \<noteq> ItemFailed"
  "ItemCompleted \<noteq> ItemRunning" "ItemFailed \<noteq> ItemRunning" "ItemFailed \<noteq> ItemCompleted"
  by (simp_all add: ItemRunning_def ItemCompleted_def ItemFailed_def)

lemma running_not_terminal: "is_Status st = ItemRunning \<Longrightarrow> \<not> terminal st"
  by (auto simp: terminal_def)

lemma publish_calls:
  assumes "calls_ok p" "pl_calls p' = pl_calls p" "pl_items p' = publish_state st (pl_items p)"
    and "is_Attempts st = recorded (pl_items p) (is_Index st)"
  shows "calls_ok p'"
  using assms by (auto simp: calls_ok_def publish_recorded)

lemma publish_new_call:
  assumes "calls_ok p" "pl_calls p' = (i, n) # pl_calls p" "pl_items p' = publish_state st (pl_items p)"
    and "is_Index st = i" "is_Attempts st = n" "n = recorded (pl_items p) i + 1" "1 \<le> n"
  shows "calls_ok p'"
proof -
  have new: "(i, n) \<notin> set (pl_calls p)" using assms(1,6) by (auto simp: calls_ok_def)
  have "1 \<le> m \<and> m \<le> recorded (pl_items p') j" if "(j, m) \<in> set (pl_calls p)" for j m
    using assms(1) that assms(6) by (auto simp: calls_ok_def assms(3-5) publish_recorded)
  with new assms show ?thesis by (auto simp: calls_ok_def publish_recorded)
qed

lemma waiting_same: "pl_pending p' = pl_pending p \<Longrightarrow> pl_queue p' = pl_queue p \<Longrightarrow> waiting p' = waiting p"
  by (simp add: waiting_def)

lemma report_fields [simp]:
  "pl_next (report e p) = pl_next p" "pl_pending (report e p) = pl_pending p" "pl_queue (report e p) = pl_queue p"
  "pl_workers (report e p) = pl_workers p" "pl_items (report e p) = pl_items p" "pl_calls (report e p) = pl_calls p"
  "pl_inFlight (report e p) = pl_inFlight p" "pl_peak (report e p) = pl_peak p" "pl_scan (report e p) = pl_scan p"
  "ctx_done (report e p)"
  by (auto simp: report_def ctx_done_def split: option.split)

section \<open>Every step keeps the invariant\<close>

lemma give_up_inv:
  assumes inv: "pool_inv M s H raws p" and k: "k < length (pl_workers p)"
  shows "pool_inv M s H raws (give_up k e p)"
proof (rule worker_step_inv [OF inv k, where x = Gone])
  have "sound_items M s H raws (pl_items p)" "calls_ok p" using inv by (simp_all add: pool_inv_def)
  then show "sound_items M s H raws (pl_items (give_up k e p))" "calls_ok (give_up k e p)"
    by (simp_all add: give_up_def release_def set_worker_def calls_ok_def)
qed (simp_all add: give_up_def release_def set_worker_def waiting_def)

text \<open>A worker that changes nothing but its own phase.\<close>

lemma phase_inv:
  assumes inv: "pool_inv M s H raws p" and k: "k < length (pl_workers p)"
    and hold: "held_by x = held_by (pl_workers p ! k)" and new: "worker_ok M s H raws p x"
  shows "pool_inv M s H raws (set_worker k x p)"
proof (rule worker_step_inv [OF inv k])
  show "worker_ok M s H raws (set_worker k x p) x"
    by (rule worker_frame [OF new _ refl]) (simp_all add: set_worker_def ctx_done_def)
  show "sound_items M s H raws (pl_items (set_worker k x p))" "calls_ok (set_worker k x p)"
    using inv by (simp_all add: pool_inv_def set_worker_def calls_ok_def)
qed (simp_all add: set_worker_def waiting_def ctx_done_def hold)

text \<open>A worker that saves the state it holds.\<close>

lemma save_inv:
  assumes inv: "pool_inv M s H raws p" and k: "k < length (pl_workers p)"
    and p': "pl_workers p' = (pl_workers p)[k := x]" "pl_next p' = pl_next p" "waiting p' = waiting p"
      "pl_items p' = publish_state st (pl_items p)" "ctx_done p' = ctx_done p"
    and own: "held_by (pl_workers p ! k) = [is_Index st]" and st: "sound_state M s H raws (is_Index st) st"
    and hold: "held_by x = [is_Index st] \<or> held_by x = [] \<and> (terminal st \<or> ctx_done p)"
    and new: "worker_ok M s H raws p' x" and calls: "calls_ok p'"
  shows "pool_inv M s H raws p'"
proof (rule worker_step_inv [OF inv k p'(1-3)])
  show "sound_items M s H raws (pl_items p')"
    using inv publish_sound [OF _ st] by (simp add: pool_inv_def p'(4))
  show "pl_items p' i = pl_items p i" if "i \<notin> set (held_by (pl_workers p ! k))" for i
    using that by (simp add: own p'(4) publish_other)
  show "held_by x = held_by (pl_workers p ! k)
      \<or> held_by x = [] \<and> (\<forall>i \<in> set (held_by (pl_workers p ! k)). settled (pl_items p') i \<or> ctx_done p')"
    using hold by (auto simp: own p'(4,5) publish_settled)
qed (use new calls p'(5) in simp_all)

lemma resume_item_work:
  assumes "resume_item H i raw (read_state items i) = Inr (Some item)"
  shows "wi_index item = i" "wi_raw item = raw" "wi_hash item = H raw" "wi_priorAttempts item = recorded items i" "\<not> settled items i"
  using assms
  by (auto simp: resume_item_def read_state_def recorded_def settled_def terminal_def not_exist_def
      split: option.splits if_splits)

lemma resume_item_skip: "resume_item H i raw (read_state items i) = Inr None \<Longrightarrow> settled items i"
  by (auto simp: resume_item_def read_state_def settled_def terminal_def not_exist_def split: option.splits if_splits)

lemma worker_held:
  "worker_ok M s H raws p x \<Longrightarrow> i \<in> set (held_by x) \<Longrightarrow> i < pl_next p \<and> i < length raws \<and> \<not> settled (pl_items p) i"
  by (cases x) (auto simp: running_ok_def sound_state_def)

lemma held_bound:
  assumes "pool_inv M s H raws p" and "i \<in> set (held p)"
  shows "i < pl_next p \<and> i < length raws \<and> \<not> settled (pl_items p) i"
  using assms worker_held by (fastforce simp: pool_inv_def held_def item_ok_def)

lemma producer_inv:
  assumes inv: "pool_inv M s H raws p"
    and p': "pl_workers p' = pl_workers p" "pl_items p' = pl_items p" "pl_calls p' = pl_calls p"
    and next_le: "pl_next p \<le> pl_next p'" "pl_next p' \<le> length raws" and ctx: "ctx_done p' = ctx_done p"
    and wait: "\<forall>item \<in> set (waiting p'). item \<in> set (waiting p) \<or> item_ok H raws p' item" and dist: "distinct (held p')"
    and all: "\<And>i. i < pl_next p' \<Longrightarrow> i \<in> set (held p) \<and> i \<notin> set (held p') \<or> pl_next p \<le> i
         \<Longrightarrow> i \<in> set (held p') \<or> settled (pl_items p) i \<or> ctx_done p"
  shows "pool_inv M s H raws p'"
proof -
  have "worker_ok M s H raws p' x" if "x \<in> set (pl_workers p)" for x
  proof -
    have "worker_ok M s H raws p x" using inv that by (simp add: pool_inv_def)
    then show ?thesis using next_le(1) by (cases x) (auto simp: running_ok_def p' ctx)
  qed
  moreover have "item_ok H raws p' item" if "item \<in> set (waiting p')" for item
  proof (cases "item \<in> set (waiting p)")
    case True
    then have "item_ok H raws p item" using inv by (simp add: pool_inv_def)
    then show ?thesis by (rule item_frame [where items' = "pl_items p"]) (simp_all add: p' next_le(1))
  qed (use wait that in blast)
  moreover have "i \<in> set (held p') \<or> settled (pl_items p') i \<or> ctx_done p'" if "i < pl_next p'" for i
  proof (cases "i < pl_next p")
    case True
    then have "i \<in> set (held p) \<or> settled (pl_items p) i \<or> ctx_done p" using inv by (simp add: pool_inv_def)
    then show ?thesis using all [OF that] by (auto simp: p' ctx)
  qed (use all [OF that] in \<open>auto simp: p' ctx\<close>)
  moreover have "sound_items M s H raws (pl_items p')" "calls_ok p'" using inv by (simp_all add: pool_inv_def p' calls_ok_def)
  ultimately show ?thesis using dist next_le(2) by (simp add: pool_inv_def p')
qed

lemma worker_at:
  "pool_inv M s H raws p \<Longrightarrow> k < length (pl_workers p) \<Longrightarrow> pl_workers p ! k = x \<Longrightarrow> worker_ok M s H raws p x"
  by (auto simp: pool_inv_def)

lemma recorded_bounds:
  assumes "pool_inv M s H raws p" and "0 \<le> rs_maxAttempts s"
  shows "0 \<le> recorded (pl_items p) i \<and> recorded (pl_items p) i \<le> rs_maxAttempts s"
proof (cases "pl_items p i")
  case (Some f)
  then obtain st where "f = state_file_of st" "sound_state M s H raws i st" using assms(1) by (auto simp: pool_inv_def sound_items_def)
  then show ?thesis using Some by (simp add: recorded_def sound_state_def state_file_of_def)
qed (use assms(2) in \<open>simp add: recorded_def\<close>)

lemma take_inv:
  assumes inv: "pool_inv M s H raws p" and m: "0 \<le> rs_maxAttempts s"
    and k: "k < length (pl_workers p)" "pl_workers p ! k = Idle" and q: "pl_queue p = item # q"
  shows "pool_inv M s H raws (set_worker k (Starting item (start_state item)) (p\<lparr>pl_queue := q\<rparr>))" (is "pool_inv _ _ _ _ ?p")
proof -
  let ?x = "Starting item (start_state item)"
  have wait: "waiting p = item # waiting ?p" by (simp add: waiting_def q set_worker_def)
  have it: "item_ok H raws p item" using inv wait by (simp add: pool_inv_def)
  have "mset (held ?p) = mset (held p)"
    using concat_update [OF k(1), of held_by ?x] by (simp add: held_def wait k(2)) (simp add: set_worker_def)
  from mset_eq_imp_distinct_iff [OF this] mset_eq_setD [OF this]
  have held: "distinct (held ?p)" "set (held ?p) = set (held p)" using inv by (simp_all add: pool_inv_def)
  have new: "worker_ok M s H raws ?p ?x"
    using it recorded_bounds [OF inv m, of "wi_index item"]
    by (simp add: running_ok_def item_ok_def start_state_def sound_state_def set_worker_def)
  have "worker_ok M s H raws ?p y" if "y \<in> set (pl_workers ?p)" for y
  proof (cases "y = ?x")
    case False
    then have "y \<in> set (pl_workers p)" using that set_update_subset_insert [of "pl_workers p" k ?x] by (auto simp: set_worker_def)
    then have "worker_ok M s H raws p y" using inv by (simp add: pool_inv_def)
    then show ?thesis by (rule worker_frame [OF _ _ refl]) (simp_all add: set_worker_def ctx_done_def)
  qed (simp only: new)
  moreover have "item_ok H raws ?p x" if "x \<in> set (waiting ?p)" for x
    using inv that wait by (simp add: pool_inv_def item_ok_def) (simp add: set_worker_def)
  moreover have "sound_items M s H raws (pl_items ?p)" "calls_ok ?p" using inv by (simp_all add: pool_inv_def set_worker_def calls_ok_def)
  moreover have "i \<in> set (held ?p) \<or> settled (pl_items ?p) i \<or> ctx_done ?p" if "i < pl_next ?p" for i
    using inv that unfolding held(2) by (simp add: pool_inv_def set_worker_def ctx_done_def)
  ultimately show ?thesis using held(1) inv by (simp add: pool_inv_def) (simp add: set_worker_def)
qed

lemma flags_inv:
  assumes inv: "pool_inv M s H raws p"
    and p': "pl_workers p' = pl_workers p" "pl_items p' = pl_items p" "pl_calls p' = pl_calls p" "pl_next p' = pl_next p"
      "waiting p' = waiting p" and ctx: "ctx_done p \<Longrightarrow> ctx_done p'"
  shows "pool_inv M s H raws p'"
proof -
  have "worker_ok M s H raws p' x" if "x \<in> set (pl_workers p)" for x
  proof -
    have "worker_ok M s H raws p x" using inv that by (simp add: pool_inv_def)
    then show ?thesis by (rule worker_frame [OF _ _ refl]) (simp_all add: p' ctx)
  qed
  moreover have held: "held p' = held p" by (simp add: held_def p')
  moreover have "i \<in> set (held p') \<or> settled (pl_items p') i \<or> ctx_done p'" if "i < pl_next p'" for i
    using inv that ctx unfolding held p' pool_inv_def by blast
  moreover have "calls_ok p'" using inv by (simp add: pool_inv_def calls_ok_def p')
  moreover have "item_ok H raws p' item = item_ok H raws p item" for item by (simp add: item_ok_def p')
  ultimately show ?thesis using inv by (simp add: pool_inv_def p')
qed

lemma inv_scan: "pool_inv M s H raws p \<Longrightarrow> pool_inv M s H raws (p\<lparr>pl_scan := x\<rparr>)"
  by (rule flags_inv) (simp_all add: waiting_def ctx_done_def)

lemma inv_expired: "pool_inv M s H raws p \<Longrightarrow> pool_inv M s H raws (p\<lparr>pl_expired := True\<rparr>)"
  by (rule flags_inv) (simp_all add: waiting_def ctx_done_def)

lemma validated_output:
  assumes "attempt_outcome M s answer = Inr out"
  shows "validateOutput M out (rs_maxOutputBytes s) = None"
  using assms by (auto simp: attempt_outcome_def split: sum.splits option.splits)

lemma begin_inv:
  assumes inv: "pool_inv M s H raws p" and k: "k < length (pl_workers p)" "pl_workers p ! k = Starting item st"
    and less: "is_Attempts st < rs_maxAttempts s" and st1: "st1 = st\<lparr>is_Attempts := is_Attempts st + 1\<rparr>"
  shows "pool_inv M s H raws
    (set_worker k (Calling item st1) (publish st1 (p\<lparr>pl_calls := (wi_index item, is_Attempts st1) # pl_calls p\<rparr>)))" (is "pool_inv _ _ _ _ ?p")
proof -
  have ok: "running_ok M s H raws p item st" using worker_at [OF inv k] by simp
  then have idx: "is_Index st = wi_index item" "is_Index st1 = wi_index item" "is_Status st1 = ItemRunning"
    "is_Attempts st = recorded (pl_items p) (wi_index item)" "sound_state M s H raws (wi_index item) st1" "0 \<le> is_Attempts st"
    using less by (auto simp: running_ok_def sound_state_def st1)
  show ?thesis
  proof (rule save_inv [OF inv k(1), where st = st1 and x = "Calling item st1"])
    show "calls_ok ?p"
      by (rule publish_new_call [where p = p and i = "wi_index item" and n = "is_Attempts st1" and st = st1])
        (use inv idx in \<open>auto simp: set_worker_def publish_def st1 pool_inv_def\<close>)
    show "worker_ok M s H raws ?p (Calling item st1)"
      using ok idx running_not_terminal [of st1]
      by (auto simp: running_ok_def set_worker_def publish_def publish_recorded publish_settled st1)
  qed (use k idx in \<open>simp_all add: set_worker_def publish_def waiting_def ctx_done_def\<close>)
qed

lemma save_error_inv:
  assumes inv: "pool_inv M s H raws p" and k: "k < length (pl_workers p)" "pl_workers p ! k = Saving item st"
  shows "pool_inv M s H raws (set_worker k (Starting item st) (publish st p))" (is "pool_inv _ _ _ _ ?p")
proof -
  have ok: "running_ok M s H raws p item st" using worker_at [OF inv k] by simp
  then have idx: "is_Index st = wi_index item" "is_Attempts st = recorded (pl_items p) (is_Index st)" "\<not> terminal st"
    by (auto simp: running_ok_def sound_state_def running_not_terminal)
  show ?thesis
  proof (rule save_inv [OF inv k(1), where st = st and x = "Starting item st"])
    show "calls_ok ?p"
      by (rule publish_calls [where p = p and st = st]) (use inv idx in \<open>simp_all add: set_worker_def publish_def pool_inv_def\<close>)
    show "worker_ok M s H raws ?p (Starting item st)"
      using ok idx by (simp add: running_ok_def set_worker_def publish_def publish_recorded publish_settled)
  qed (use k ok idx in \<open>simp_all add: set_worker_def publish_def waiting_def ctx_done_def running_ok_def\<close>)
qed

lemma finish_inv:
  assumes inv: "pool_inv M s H raws p" and k: "k < length (pl_workers p)" "pl_workers p ! k = Finishing st"
  shows "pool_inv M s H raws (release (set_worker k Idle (publish st p)))" (is "pool_inv _ _ _ _ ?p")
proof -
  have ok: "sound_state M s H raws (is_Index st) st" "is_Attempts st = recorded (pl_items p) (is_Index st)"
    "is_Status st = ItemRunning \<Longrightarrow> ctx_done p"
    using worker_at [OF inv k] by auto
  then have verdict: "terminal st \<or> ctx_done p" by (auto simp: sound_state_def terminal_def)
  show ?thesis
  proof (rule save_inv [OF inv k(1), where st = st and x = Idle])
    show "calls_ok ?p"
      by (rule publish_calls [where p = p and st = st]) (use inv ok in \<open>simp_all add: set_worker_def publish_def release_def pool_inv_def\<close>)
  qed (use k ok verdict in \<open>simp_all add: set_worker_def publish_def release_def waiting_def ctx_done_def\<close>)
qed

lemma pool_step_inv:
  assumes "pool_step M s H raws endErr p p'" and inv: "pool_inv M s H raws p" and m: "0 \<le> rs_maxAttempts s"
  shows "pool_inv M s H raws p'"
  using assms(1)
proof cases
  case (scan_item item)
  note r = resume_item_work [OF scan_item(5)]
  have wait: "waiting (announce item p) = waiting p @ [item]" using scan_item by (simp add: announce_def waiting_def)
  have fresh: "pl_next p \<notin> set (held p)" using held_bound [OF inv] by blast
  have "mset (held (announce item p)) = mset (pl_next p # held p)"
    by (simp add: held_def wait r(1)) (simp add: announce_def)
  then have h: "distinct (held (announce item p))" "set (held (announce item p)) = insert (pl_next p) (set (held p))"
    using inv fresh mset_eq_imp_distinct_iff [of "held (announce item p)" "pl_next p # held p"] mset_eq_setD [of "held (announce item p)" "pl_next p # held p"]
    by (auto simp: pool_inv_def)
  show ?thesis
    unfolding scan_item(1)
  proof (rule producer_inv [OF inv])
    show "\<forall>x \<in> set (waiting (announce item p)). x \<in> set (waiting p) \<or> item_ok H raws (announce item p) x"
      using r scan_item(4) by (auto simp: wait) (simp add: item_ok_def announce_def)
  qed (use scan_item(4) h in \<open>auto simp: announce_def ctx_done_def\<close>)
next
  case scan_skip
  show ?thesis
    unfolding scan_skip(1) using inv scan_skip resume_item_skip [OF scan_skip(5)]
    by (intro producer_inv [OF inv]) (auto simp: ctx_done_def waiting_def held_def pool_inv_def less_Suc_eq)
next
  case (send item)
  have wait: "waiting p' = waiting p" using send by (simp add: waiting_def)
  then have "held p' = held p" using send(1) by (simp add: held_def)
  then show ?thesis
    using inv by (intro producer_inv [OF inv]) (simp_all only: wait, auto simp: send(1) ctx_done_def pool_inv_def)
next
  case (send_cancelled item e)
  have wait: "waiting p = waiting p' @ [item]" using send_cancelled by (simp add: waiting_def release_def)
  have "held p = map wi_index (waiting p') @ wi_index item # concat (map held_by (pl_workers p'))"
    using send_cancelled(1) by (simp add: held_def wait release_def)
  then have "distinct (held p')" "set (held p') \<subseteq> set (held p)" using inv by (auto simp: pool_inv_def held_def)
  then show ?thesis
    using inv send_cancelled(3) by (intro producer_inv [OF inv]) (auto simp: send_cancelled(1) wait release_def ctx_done_def pool_inv_def)
next
  case (take_item k item q)
  then show ?thesis using take_inv [OF inv m] by simp
next
  case (begin_attempt k item st st1)
  show ?thesis unfolding begin_attempt(1) by (rule begin_inv [OF inv begin_attempt(2-4,6)])
next
  case (exhausted k item st)
  then show ?thesis
    using worker_at [OF inv exhausted(2,3)] inv
    by (auto intro!: phase_inv simp: running_ok_def sound_state_def)
next
  case (interrupted k item st)
  then show ?thesis
    using worker_at [OF inv interrupted(2,3)] inv by (auto intro!: phase_inv simp: running_ok_def sound_state_def)
next
  case (answer_valid k item st answer out)
  then show ?thesis
    using worker_at [OF inv answer_valid(2,3)] inv validated_output [OF answer_valid(4)]
    by (auto intro!: phase_inv simp: running_ok_def sound_state_def completed_state_def)
next
  case (answer_bad k item st answer msg)
  then show ?thesis
    using worker_at [OF inv answer_bad(2,3)] inv by (auto intro!: phase_inv simp: running_ok_def sound_state_def)
qed (insert inv, simp_all add: give_up_inv inv_scan inv_expired save_error_inv finish_inv)

text \<open>A fresh run, with or without states from an earlier one, starts inside the invariant.\<close>

lemma start_inv:
  assumes "sound_items M s H raws items" and "distinct calls" and "\<forall>(i, n) \<in> set calls. 1 \<le> n \<and> n \<le> recorded items i"
  shows "pool_inv M s H raws (newWorkerPool s items calls)"
proof -
  have "held (newWorkerPool s items calls) = []" by (simp add: held_def waiting_def newWorkerPool_def)
  with assms show ?thesis by (auto simp: pool_inv_def newWorkerPool_def waiting_def calls_ok_def)
qed

lemma batch_step_inv:
  assumes "batch_step M s H raws endErr p p'" and "pool_inv M s H raws p" and "0 \<le> rs_maxAttempts s"
  shows "pool_inv M s H raws p'"
  using assms
proof cases
  case resume
  show ?thesis unfolding resume
    by (rule start_inv) (use assms(2) in \<open>auto simp: pool_inv_def calls_ok_def\<close>)
qed (auto intro: pool_step_inv)

lemma batch_reach_inv:
  assumes "(batch_step M s H raws endErr)\<^sup>*\<^sup>* p p'" and "pool_inv M s H raws p" and "0 \<le> rs_maxAttempts s"
  shows "pool_inv M s H raws p'"
  using assms by (induction rule: rtranclp_induct) (auto intro: batch_step_inv)

section \<open>How often an item is processed\<close>

lemma settings_bounds:
  assumes "settings M outputPath = Inr s"
  shows "1 \<le> rs_maxAttempts s" "1 \<le> rs_concurrency s" "rs_concurrency s \<le> hardConcurrency" "rs_maxAttempts s \<le> hardAttempts"
    "1 \<le> rs_maxItems s" "0 \<le> rs_maxItemBytes s" "0 \<le> rs_maxInputBytes s"
  using assms by (auto simp: settings_def Let_def initial_settings_def split: if_splits)

abbreviation batch_reach where
  "batch_reach M s H raws endErr \<equiv> (batch_step M s H raws endErr)\<^sup>*\<^sup>* (newWorkerPool s (\<lambda>_. None) [])"

lemma reach_inv:
  assumes "batch_reach M s H raws endErr p" and "0 \<le> rs_maxAttempts s"
  shows "pool_inv M s H raws p"
  by (rule batch_reach_inv [OF assms(1) start_inv assms(2)]) (simp_all add: sound_items_def)

lemma calls_within:
  assumes inv: "pool_inv M s H raws p" and m: "0 \<le> rs_maxAttempts s"
  shows "set (pl_calls p) \<subseteq> {..<length raws} \<times> {1..rs_maxAttempts s}"
proof
  fix x assume x: "x \<in> set (pl_calls p)"
  obtain i n where [simp]: "x = (i, n)" by force
  have n: "1 \<le> n" "n \<le> recorded (pl_items p) i" using inv x by (auto simp: pool_inv_def calls_ok_def)
  then obtain f where "pl_items p i = Some f" by (cases "pl_items p i") (auto simp: recorded_def)
  then have "i < length raws" using inv by (auto simp: pool_inv_def sound_items_def sound_state_def)
  then show "x \<in> {..<length raws} \<times> {1..rs_maxAttempts s}" using n recorded_bounds [OF inv m, of i] by auto
qed

lemma calls_bounded:
  assumes inv: "pool_inv M s H raws p" and m: "0 \<le> rs_maxAttempts s"
  shows "int (length (pl_calls p)) \<le> int (length raws) * rs_maxAttempts s"
proof -
  have "distinct (pl_calls p)" using inv by (simp add: pool_inv_def calls_ok_def)
  then have "length (pl_calls p) = card (set (pl_calls p))" by (simp add: distinct_card)
  also have "\<dots> \<le> card ({..<length raws} \<times> {1..rs_maxAttempts s})"
    by (rule card_mono [OF _ calls_within [OF inv m]]) simp
  also have "\<dots> = length raws * nat (rs_maxAttempts s)" by (simp add: card_cartesian_product)
  finally have "length (pl_calls p) \<le> length raws * nat (rs_maxAttempts s)" .
  then have "int (length (pl_calls p)) \<le> int (length raws * nat (rs_maxAttempts s))" by (simp only: zle_int)
  then show ?thesis using m by simp
qed

section \<open>A small run\<close>

text \<open>One worker, one item, a processor that answers with the item.\<close>

definition echo_mapper :: mapper where
  "echo_mapper = \<lparr>mp_Concurrency = 1, mp_MaxRetries = 0, mp_MaxInputBytes = 0, mp_MaxItemBytes = 0, mp_MaxOutputBytes = 0,
     mp_MaxItems = 0, mp_MaxCalls = 0, mp_RunTimeout = 0, mp_StateDir = [], mp_ConfigKey = ''k'',
     mp_Process = Some (\<lambda>t raw n feedback. Inr raw), mp_Validate = None\<rparr>"

definition echo_settings :: run_settings where
  "echo_settings = initial_settings echo_mapper ''o''"

definition echo_hash :: hash where "echo_hash raw = ''h'' @ raw"

definition echo_item :: work_item where
  "echo_item = \<lparr>wi_index = 0, wi_priorAttempts = 0, wi_raw = ''7'', wi_hash = ''h7'', wi_feedback = []\<rparr>"

definition echo_state :: item_state where
  "echo_state = (start_state echo_item)\<lparr>is_Attempts := 1\<rparr>"

definition echo_queued :: pool where
  "echo_queued = (announce echo_item (newWorkerPool echo_settings (\<lambda>_. None) []))\<lparr>pl_pending := None, pl_queue := [echo_item]\<rparr>"

definition echo_calling :: pool where
  "echo_calling = set_worker 0 (Calling echo_item echo_state) (publish echo_state
     ((set_worker 0 (Starting echo_item (start_state echo_item)) (echo_queued\<lparr>pl_queue := []\<rparr>))\<lparr>pl_calls := [(0, 1)]\<rparr>))"

definition echo_done :: pool where
  "echo_done = release (set_worker 0 Idle (publish (completed_state ''7'' echo_state)
     (set_worker 0 (Finishing (completed_state ''7'' echo_state)) echo_calling)))"

definition echo_over :: pool where
  "echo_over = echo_done\<lparr>pl_scan := Some None\<rparr>"

lemma echo_settings: "settings echo_mapper ''o'' = Inr echo_settings"
  by (simp add: echo_settings_def settings_def) code_simp

lemma echo_limits: "nat (rs_concurrency echo_settings) = 1" "rs_concurrency echo_settings = 1" "rs_maxAttempts echo_settings = 1"
  by code_simp+

lemma echo_valid: "attempt_outcome echo_mapper echo_settings (Inr ''7'') = Inr ''7''"
  by code_simp

abbreviation echo_step :: "pool \<Rightarrow> pool \<Rightarrow> bool" where
  "echo_step \<equiv> batch_step echo_mapper echo_settings echo_hash [''7''] None"

lemma echo_queue: "echo_step\<^sup>*\<^sup>* (newWorkerPool echo_settings (\<lambda>_. None) []) echo_queued"
proof -
  let ?p = "newWorkerPool echo_settings (\<lambda>_. None) []"
  have "echo_step ?p (announce echo_item ?p)"
    by (rule batch_step.work, rule pool_step.scan_item)
      (simp_all add: newWorkerPool_def resume_item_def read_state_def echo_item_def echo_hash_def)
  moreover have "echo_step (announce echo_item ?p) echo_queued"
    unfolding echo_queued_def
    by (rule batch_step.work) (use pool_step.send [of "announce echo_item ?p" echo_item echo_settings] in
        \<open>simp add: announce_def newWorkerPool_def echo_limits\<close>)
  ultimately show ?thesis by (rule converse_rtranclp_into_rtranclp [OF _ r_into_rtranclp])
qed

lemma echo_call: "echo_step\<^sup>*\<^sup>* echo_queued echo_calling"
proof -
  let ?p = "set_worker 0 (Starting echo_item (start_state echo_item)) (echo_queued\<lparr>pl_queue := []\<rparr>)"
  have w: "pl_workers echo_queued = [Idle]" "pl_queue echo_queued = [echo_item]" "pl_calls echo_queued = []"
    "pl_error echo_queued = None" "\<not> pl_expired echo_queued"
    by (simp_all add: echo_queued_def announce_def newWorkerPool_def echo_limits)
  have "echo_step echo_queued ?p" by (rule batch_step.work, rule pool_step.take_item) (simp_all add: w)
  moreover have "echo_step ?p echo_calling"
    unfolding echo_calling_def
  proof (rule batch_step.work)
    show "pool_step echo_mapper echo_settings echo_hash [''7''] None ?p (set_worker 0 (Calling echo_item echo_state) (publish echo_state (?p\<lparr>pl_calls := [(0, 1)]\<rparr>)))"
      using pool_step.begin_attempt [of 0 ?p echo_item "start_state echo_item" echo_settings echo_state echo_mapper echo_hash "[''7'']" None]
      by (simp add: w set_worker_def echo_limits start_state_def echo_state_def echo_item_def ctx_done_def)
  qed
  ultimately show ?thesis by (rule converse_rtranclp_into_rtranclp [OF _ r_into_rtranclp])
qed

lemma echo_finish: "echo_step\<^sup>*\<^sup>* echo_calling echo_done"
proof -
  let ?p = "set_worker 0 (Finishing (completed_state ''7'' echo_state)) echo_calling"
  have w: "pl_workers echo_calling = [Calling echo_item echo_state]"
    by (simp add: echo_calling_def set_worker_def publish_def echo_queued_def announce_def newWorkerPool_def echo_limits)
  have "echo_step echo_calling ?p"
    by (rule batch_step.work, rule pool_step.answer_valid [OF _ _ echo_valid]) (simp_all add: w)
  moreover have "echo_step ?p echo_done"
    unfolding echo_done_def by (rule batch_step.work, rule pool_step.finish_item) (simp_all add: set_worker_def w)
  ultimately show ?thesis by (rule converse_rtranclp_into_rtranclp [OF _ r_into_rtranclp])
qed

lemma echo_scan: "pool_step echo_mapper echo_settings echo_hash [''7''] None echo_done echo_over" "echo_over \<noteq> echo_done"
proof -
  have d: "pl_scan echo_done = None" "pl_pending echo_done = None" "pl_next echo_done = 1"
    by (simp_all add: echo_done_def echo_calling_def echo_queued_def pool_defs newWorkerPool_def)
  then show "pool_step echo_mapper echo_settings echo_hash [''7''] None echo_done echo_over"
    unfolding echo_over_def by (intro pool_step.scan_end) simp_all
  have "pl_scan echo_over \<noteq> pl_scan echo_done" using d(1) by (simp add: echo_over_def)
  then show "echo_over \<noteq> echo_done" by auto
qed

lemma echo_end: "echo_step echo_done echo_over"
  by (rule batch_step.work [OF echo_scan(1)])

lemma echo_reach:
  "batch_reach echo_mapper echo_settings echo_hash [''7''] None echo_done"
  "batch_reach echo_mapper echo_settings echo_hash [''7''] None echo_over"
proof -
  show r: "batch_reach echo_mapper echo_settings echo_hash [''7''] None echo_done"
    by (rule rtranclp_trans [OF echo_queue rtranclp_trans [OF echo_call echo_finish]])
  show "batch_reach echo_mapper echo_settings echo_hash [''7''] None echo_over"
    by (rule rtranclp.rtrancl_into_rtrancl [OF r echo_end])
qed

lemma echo_items: "pl_items echo_done = publish_state (completed_state ''7'' echo_state) (publish_state echo_state (\<lambda>_. None))"
  by (simp add: echo_done_def echo_calling_def echo_queued_def newWorkerPool_def announce_def set_worker_def publish_def release_def)

lemma echo_settled: "settled (pl_items echo_done) 0"
  by (simp add: echo_items publish_settled completed_state_def echo_state_def start_state_def echo_item_def terminal_def)

section \<open>Bounded attempts\<close>

text \<open>C32. A map run spends a bounded number of calls.  However the workers interleave, whatever the
  processor answers, and however often the run fails, is cancelled, crashes and is resumed: no attempt
  of an item is ever made twice, all calls together are at most items times attempts, and each state
  file is that of its item, completed only with an output that passed validation, failed only when its
  attempts were used up.\<close>

theorem map_attempts_bounded:
  assumes "settings M outputPath = Inr s" and "batch_reach M s H raws endErr p"
  shows "distinct (pl_calls p) \<and> int (length (pl_calls p)) \<le> int (length raws) * rs_maxAttempts s
    \<and> sound_items M s H raws (pl_items p)"
proof -
  have m: "0 \<le> rs_maxAttempts s" using settings_bounds(1) [OF assms(1)] by simp
  note inv = reach_inv [OF assms(2) m]
  show ?thesis using calls_bounded [OF inv m] inv by (simp add: pool_inv_def calls_ok_def)
qed

theorem map_attempts_bounded_witness:
  "distinct (pl_calls echo_over) \<and> length (pl_calls echo_over) \<le> 1
    \<and> sound_items echo_mapper echo_settings echo_hash [''7''] (pl_items echo_over)"
  using map_attempts_bounded [OF echo_settings echo_reach(2)] by (simp add: echo_limits)

section \<open>Settled items stay\<close>

lemma publish_held:
  assumes "pool_inv M s H raws p" "k < length (pl_workers p)" "is_Index st \<in> set (held_by (pl_workers p ! k))" "settled (pl_items p) i"
  shows "publish_state st (pl_items p) i = pl_items p i"
proof -
  have "worker_ok M s H raws p (pl_workers p ! k)" using assms(1,2) by (simp add: pool_inv_def)
  then have "i \<noteq> is_Index st" using worker_held [OF _ assms(3)] assms(4) by blast
  then show ?thesis by (rule publish_other)
qed

lemma pool_step_settled:
  assumes "pool_step M s H raws endErr p p'" and inv: "pool_inv M s H raws p" and i: "settled (pl_items p) i"
  shows "pl_items p' i = pl_items p i \<and> {n. (i, n) \<in> set (pl_calls p')} = {n. (i, n) \<in> set (pl_calls p)}"
  using assms(1)
proof cases
  case (begin_attempt k item st st1)
  have ok: "running_ok M s H raws p item st" using worker_at [OF inv begin_attempt(2,3)] by simp
  then have "is_Index st1 = wi_index item" "i \<noteq> wi_index item" using i by (auto simp: running_ok_def sound_state_def begin_attempt(6))
  then show ?thesis by (simp add: begin_attempt(1) set_worker_def publish_def publish_other)
next
  case (save_error k item st)
  have "running_ok M s H raws p item st" using worker_at [OF inv save_error(2,3)] by simp
  then have "is_Index st \<in> set (held_by (pl_workers p ! k))" by (simp add: save_error(3) running_ok_def sound_state_def)
  from publish_held [OF inv save_error(2) this i] show ?thesis by (simp add: save_error(1) set_worker_def publish_def)
next
  case (finish_item k st)
  then have "is_Index st \<in> set (held_by (pl_workers p ! k))" by simp
  from publish_held [OF inv finish_item(2) this i] show ?thesis by (simp add: finish_item(1) set_worker_def publish_def release_def)
qed (simp_all add: announce_def set_worker_def give_up_def release_def)

text \<open>C33. A verdict is final.  Once an item has a completed or failed state, no later step of this run or
  of any resumed run changes its state file or calls the processor on it again.\<close>

theorem map_verdict_final:
  assumes "settings M outputPath = Inr s" and "batch_reach M s H raws endErr p"
    and "settled (pl_items p) i" and "(batch_step M s H raws endErr)\<^sup>*\<^sup>* p p'"
  shows "pl_items p' i = pl_items p i \<and> {n. (i, n) \<in> set (pl_calls p')} = {n. (i, n) \<in> set (pl_calls p)}"
proof -
  have m: "0 \<le> rs_maxAttempts s" using settings_bounds(1) [OF assms(1)] by simp
  note inv = reach_inv [OF assms(2) m]
  from assms(4) have "pl_items p' i = pl_items p i \<and> {n. (i, n) \<in> set (pl_calls p')} = {n. (i, n) \<in> set (pl_calls p)}
      \<and> pool_inv M s H raws p'"
  proof (induction rule: rtranclp_induct)
    case (step q q')
    then have "settled (pl_items q) i" using assms(3) by (simp add: settled_def)
    moreover have "pool_inv M s H raws q'" using step batch_step_inv m by blast
    ultimately show ?case
      using step pool_step_settled [of M s H raws endErr q q' i] by (auto elim!: batch_step.cases simp: newWorkerPool_def)
  qed (simp add: inv)
  then show ?thesis by blast
qed

theorem map_verdict_final_witness:
  "pl_items echo_over 0 = pl_items echo_done 0"
  using map_verdict_final [OF echo_settings echo_reach(1) echo_settled r_into_rtranclp [of echo_step, OF echo_end]] by blast

end
