(* ===== verification/Batch_Run.thy ===== *)
theory Batch_Run
  imports Batch_Props
begin

text \<open>
  More on map runs: how much is buffered, that a run cannot get stuck or go on forever, and that its
  output accounts for every item.
\<close>

section \<open>How much is in flight\<close>

lemma held_by_one: "length (held_by x) \<le> 1"
  by (cases x) simp_all

definition flight_inv :: "run_settings \<Rightarrow> pool \<Rightarrow> bool" where
  "flight_inv s p \<longleftrightarrow> pl_inFlight p = int (length (held p)) \<and> length (pl_workers p) = nat (rs_concurrency s)
     \<and> int (length (pl_queue p)) \<le> rs_concurrency s \<and> pl_inFlight p \<le> pl_peak p \<and> pl_peak p \<le> 2 * rs_concurrency s + 1"

lemma held_length: "length (held p) = length (waiting p) + length (concat (map held_by (pl_workers p)))"
  by (simp add: held_def)

lemma held_update_length:
  "k < length ws \<Longrightarrow> length (concat (map held_by (ws[k := x]))) + length (held_by (ws ! k))
     = length (concat (map held_by ws)) + length (held_by x)"
  using arg_cong [OF concat_update [of k ws held_by x], of size] by (simp only: size_union size_mset)

lemma workers_hold: "length (concat (map held_by ws)) \<le> length ws"
proof (induction ws)
  case (Cons x ws)
  then show ?case using held_by_one [of x] by simp
qed simp

lemma flight_worker:
  assumes f: "flight_inv s p" and k: "k < length (pl_workers p)"
    and p': "pl_workers p' = (pl_workers p)[k := x]" "pl_queue p' = pl_queue p" "pl_pending p' = pl_pending p" "pl_peak p' = pl_peak p"
    and fl: "pl_inFlight p' + int (length (held_by (pl_workers p ! k))) = pl_inFlight p + int (length (held_by x))"
    and less: "length (held_by x) \<le> length (held_by (pl_workers p ! k))"
  shows "flight_inv s p'"
proof -
  have "waiting p' = waiting p" by (simp add: waiting_def p')
  then have "length (held p') + length (held_by (pl_workers p ! k)) = length (held p) + length (held_by x)"
    using held_update_length [OF k, of x] by (simp add: held_length p'(1))
  then show ?thesis using f fl less by (simp add: flight_inv_def p')
qed

lemma flight_announce:
  assumes f: "flight_inv s p" and c: "0 \<le> rs_concurrency s" and pending: "pl_pending p = None"
  shows "flight_inv s (announce item p)"
proof -
  have w: "waiting (announce item p) = waiting p @ [item]" by (simp add: waiting_def announce_def pending)
  then have "length (held (announce item p)) = length (held p) + 1" by (simp add: held_length) (simp add: announce_def)
  moreover have "length (held p) \<le> length (pl_queue p) + length (pl_workers p)"
    using workers_hold [of "pl_workers p"] by (simp add: held_length waiting_def pending)
  ultimately show ?thesis using f c by (auto simp: flight_inv_def announce_def updatePeak_def)
qed

lemma flight_step:
  assumes "pool_step M s H raws endErr p p'" and f: "flight_inv s p" and c: "0 \<le> rs_concurrency s"
  shows "flight_inv s p'"
  using assms(1)
proof cases
  case (scan_item item)
  then show ?thesis using flight_announce [OF f c] by simp
next
  case (send item)
  then have "waiting p' = waiting p" by (simp add: waiting_def)
  then show ?thesis using f send by (simp add: flight_inv_def held_length)
next
  case (send_cancelled item e)
  have "length (waiting p) = length (waiting p') + 1" using send_cancelled by (simp add: waiting_def release_def)
  then have "length (held p) = length (held p') + 1" using send_cancelled(1) by (simp add: held_length release_def)
  then show ?thesis using f by (simp add: flight_inv_def send_cancelled(1) release_def)
next
  case (take_item k item q)
  have "length (waiting p) = length (waiting p') + 1" using take_item by (simp add: waiting_def set_worker_def)
  then have "length (held p') = length (held p)"
    using held_update_length [OF take_item(2), of "Starting item (start_state item)"] take_item(3)
    by (simp add: held_length) (simp add: take_item(1) set_worker_def)
  then show ?thesis using f take_item(4) by (simp add: flight_inv_def take_item(1) set_worker_def)
next
  case (exhausted k item st)
  then show ?thesis using f flight_worker [OF f, of k p' "Finishing (st\<lparr>is_Status := ItemFailed\<rparr>)"] by (simp add: set_worker_def)
next
  case (interrupted k item st)
  then show ?thesis using f flight_worker [OF f, of k p' "Finishing st"] by (simp add: set_worker_def)
next
  case (begin_attempt k item st st1)
  then show ?thesis using f flight_worker [OF f, of k p' "Calling item st1"] by (simp add: set_worker_def publish_def)
next
  case (begin_fault k item st e)
  then show ?thesis using f flight_worker [OF f, of k p' Gone] by (simp add: give_up_def set_worker_def release_def)
next
  case (answer_valid k item st answer out)
  then show ?thesis using f flight_worker [OF f, of k p' "Finishing (completed_state out st)"] by (simp add: set_worker_def)
next
  case (answer_bad k item st answer msg)
  then show ?thesis using f flight_worker [OF f, of k p' "Saving item (st\<lparr>is_Error := msg\<rparr>)"] by (simp add: set_worker_def)
next
  case (save_error k item st)
  then show ?thesis using f flight_worker [OF f, of k p' "Starting item st"] by (simp add: set_worker_def publish_def)
next
  case (save_fault k item st e)
  then show ?thesis using f flight_worker [OF f, of k p' Gone] by (simp add: give_up_def set_worker_def release_def)
next
  case (finish_item k st)
  then show ?thesis using f flight_worker [OF f, of k p' Idle] by (simp add: set_worker_def publish_def release_def)
next
  case (finish_fault k st e)
  then show ?thesis using f flight_worker [OF f, of k p' Gone] by (simp add: give_up_def set_worker_def release_def)
qed (use f in \<open>simp_all add: flight_inv_def held_length waiting_def\<close>)

lemma flight_start: "0 \<le> rs_concurrency s \<Longrightarrow> flight_inv s (newWorkerPool s items calls)"
proof -
  assume "0 \<le> rs_concurrency s"
  moreover have "concat (map held_by (replicate n Idle)) = []" for n by (induction n) simp_all
  ultimately show ?thesis by (simp add: flight_inv_def held_def waiting_def newWorkerPool_def)
qed

lemma flight_reach:
  assumes "(batch_step M s H raws endErr)\<^sup>*\<^sup>* p p'" and "flight_inv s p" and c: "0 \<le> rs_concurrency s"
  shows "flight_inv s p'"
  using assms(1,2)
proof (induction rule: rtranclp_induct)
  case (step q q')
  then show ?case using flight_step [OF _ _ c] flight_start [OF c] by (auto elim!: batch_step.cases)
qed simp

text \<open>C34. Buffering is bounded.  At every moment of a run the count of items in flight is the number of
  items that are queued, waiting to be queued or being worked on; the queue never exceeds the concurrency, and
  the peak that the run reports is at most twice the concurrency plus one.\<close>

theorem map_buffer_bounded:
  assumes "settings M outputPath = Inr s" and "batch_reach M s H raws endErr p"
  shows "pl_inFlight p = int (length (held p)) \<and> int (length (pl_queue p)) \<le> rs_concurrency s
    \<and> pl_inFlight p \<le> pl_peak p \<and> pl_peak p \<le> 2 * rs_concurrency s + 1 \<and> 2 * rs_concurrency s + 1 \<le> 129"
proof -
  have c: "0 \<le> rs_concurrency s" using settings_bounds(2) [OF assms(1)] by simp
  from flight_reach [OF assms(2) flight_start [OF c] c] settings_bounds(3) [OF assms(1)] show ?thesis
    by (simp add: flight_inv_def hardConcurrency_def)
qed

theorem map_buffer_bounded_witness:
  "pl_inFlight echo_over = int (length (held echo_over)) \<and> pl_peak echo_over \<le> 3"
  using map_buffer_bounded [OF echo_settings echo_reach(2)] by (simp add: echo_limits)

section \<open>A run comes to its end\<close>

text \<open>The work that is left, as a number that every step but the expiry of the context lowers.\<close>

definition attempts_left :: "run_settings \<Rightarrow> int \<Rightarrow> nat" where
  "attempts_left s n = 3 * nat (rs_maxAttempts s - n)"

fun work_left :: "run_settings \<Rightarrow> worker \<Rightarrow> nat" where
  "work_left s (Starting item st) = attempts_left s (is_Attempts st) + 2"
| "work_left s (Calling item st) = attempts_left s (is_Attempts st) + 4"
| "work_left s (Saving item st) = attempts_left s (is_Attempts st) + 3"
| "work_left s (Finishing st) = 1"
| "work_left s _ = 0"

definition variant :: "run_settings \<Rightarrow> string list \<Rightarrow> pool \<Rightarrow> nat" where
  "variant s raws p =
     (length raws - pl_next p) * (attempts_left s 0 + 5)
     + (case pl_pending p of None \<Rightarrow> 0 | Some item \<Rightarrow> attempts_left s (wi_priorAttempts item) + 4)
     + sum_list (map (\<lambda>item. attempts_left s (wi_priorAttempts item) + 3) (pl_queue p))
     + sum_list (map (work_left s) (pl_workers p))
     + (if pl_scan p = None then 1 else 0) + (if pl_expired p then 0 else 1)"

lemma work_update:
  "k < length ws \<Longrightarrow> sum_list (map (work_left s) (ws[k := x])) + work_left s (ws ! k) = sum_list (map (work_left s) ws) + work_left s x"
proof (induction ws arbitrary: k)
  case (Cons w ws)
  then show ?case by (cases k) auto
qed simp

lemma variant_worker:
  assumes "k < length (pl_workers p)" and "work_left s x < work_left s (pl_workers p ! k)"
    and "pl_workers p' = (pl_workers p)[k := x]" "pl_next p' = pl_next p" "pl_queue p' = pl_queue p" "pl_pending p' = pl_pending p"
      "pl_scan p' = pl_scan p" "pl_expired p' = pl_expired p"
  shows "variant s raws p' < variant s raws p"
  using work_update [OF assms(1), of s x] assms(2) by (simp add: variant_def assms(3-))

lemma attempts_left_mono: "n \<le> m \<Longrightarrow> attempts_left s m \<le> attempts_left s n"
  by (simp add: attempts_left_def)

lemma attempts_left_less: "n < rs_maxAttempts s \<Longrightarrow> attempts_left s (n + 1) + 3 = attempts_left s n"
  by (simp add: attempts_left_def)

lemma next_weight: "n < m \<Longrightarrow> (m - Suc n) * x + x = (m - n) * (x :: nat)"
  by (metis Suc_diff_Suc add.commute mult_Suc)

lemma variant_step:
  assumes "pool_step M s H raws endErr p p'" and inv: "pool_inv M s H raws p" and m: "0 \<le> rs_maxAttempts s"
  shows "variant s raws p' < variant s raws p \<or> p' = p"
  using assms(1)
proof cases
  case (scan_item item)
  have "attempts_left s (wi_priorAttempts item) \<le> attempts_left s 0"
    using resume_item_work(4) [OF scan_item(5)] recorded_bounds [OF inv m] by (simp add: attempts_left_mono)
  then show ?thesis
    using scan_item next_weight [OF scan_item(4), of "attempts_left s 0 + 5"] by (simp add: variant_def announce_def)
next
  case scan_skip
  have "length raws - Suc (pl_next p) < length raws - pl_next p" using scan_skip(4) by simp
  then have "variant s raws p' < variant s raws p" by (simp add: scan_skip(1) variant_def)
  then show ?thesis ..
next
  case (take_item k item q)
  have "work_left s (Starting item (start_state item)) = attempts_left s (wi_priorAttempts item) + 2" by (simp add: start_state_def)
  then show ?thesis
    using take_item work_update [OF take_item(2), of s "Starting item (start_state item)"]
    by (simp add: variant_def set_worker_def)
next
  case (exhausted k item st)
  then have "variant s raws p' < variant s raws p"
    by (intro variant_worker [where k = k and x = "Finishing (st\<lparr>is_Status := ItemFailed\<rparr>)"]) (simp_all add: set_worker_def)
  then show ?thesis ..
next
  case (interrupted k item st)
  then have "variant s raws p' < variant s raws p"
    by (intro variant_worker [where k = k and x = "Finishing st"]) (simp_all add: set_worker_def)
  then show ?thesis ..
next
  case (begin_attempt k item st st1)
  then have "variant s raws p' < variant s raws p"
    using attempts_left_less [of "is_Attempts st" s]
    by (intro variant_worker [where k = k and x = "Calling item st1"]) (simp_all add: set_worker_def publish_def)
  then show ?thesis ..
next
  case (answer_valid k item st answer out)
  then have "variant s raws p' < variant s raws p"
    by (intro variant_worker [where k = k and x = "Finishing (completed_state out st)"]) (simp_all add: set_worker_def)
  then show ?thesis ..
next
  case (answer_bad k item st answer msg)
  then have "variant s raws p' < variant s raws p"
    by (intro variant_worker [where k = k and x = "Saving item (st\<lparr>is_Error := msg\<rparr>)"]) (simp_all add: set_worker_def)
  then show ?thesis ..
next
  case (save_error k item st)
  then have "variant s raws p' < variant s raws p"
    by (intro variant_worker [where k = k and x = "Starting item st"]) (simp_all add: set_worker_def publish_def)
  then show ?thesis ..
next
  case (finish_item k st)
  then have "variant s raws p' < variant s raws p"
    by (intro variant_worker [where k = k and x = Idle]) (simp_all add: set_worker_def publish_def release_def)
  then show ?thesis ..
next
  case (begin_fault k item st e)
  then have "variant s raws p' < variant s raws p"
    by (intro variant_worker [where k = k and x = Gone]) (simp_all add: give_up_def set_worker_def release_def report_def split: option.split)
  then show ?thesis ..
next
  case (save_fault k item st e)
  then have "variant s raws p' < variant s raws p"
    by (intro variant_worker [where k = k and x = Gone]) (simp_all add: give_up_def set_worker_def release_def report_def split: option.split)
  then show ?thesis ..
next
  case (finish_fault k st e)
  then have "variant s raws p' < variant s raws p"
    by (intro variant_worker [where k = k and x = Gone]) (simp_all add: give_up_def set_worker_def release_def report_def split: option.split)
  then show ?thesis ..
next
  case expire
  then show ?thesis by (cases "pl_expired p") (auto simp: variant_def)
qed (simp_all add: variant_def release_def)

text \<open>As long as a run is not over, some step of it that is neither a failure nor an expiry is possible.\<close>

definition calm_step :: "mapper \<Rightarrow> run_settings \<Rightarrow> hash \<Rightarrow> string list \<Rightarrow> error option \<Rightarrow> pool \<Rightarrow> pool \<Rightarrow> bool" where
  "calm_step M s H raws endErr p p' \<longleftrightarrow> pool_step M s H raws endErr p p' \<and> variant s raws p' < variant s raws p
     \<and> pl_error p' = pl_error p \<and> pl_expired p' = pl_expired p"

lemma busy_worker_moves:
  assumes inv: "pool_inv M s H raws p" and k: "k < length (pl_workers p)" "pl_workers p ! k = x" and busy: "held_by x \<noteq> []"
  shows "\<exists>p'. calm_step M s H raws endErr p p'"
proof (cases x)
  case (Starting item st)
  then consider "is_Attempts st \<ge> rs_maxAttempts s" | "is_Attempts st < rs_maxAttempts s" "ctx_done p"
    | "is_Attempts st < rs_maxAttempts s" "\<not> ctx_done p" by linarith
  then show ?thesis
  proof cases
    case 1
    show ?thesis unfolding calm_step_def
      by (rule exI, rule conjI [OF pool_step.exhausted [OF k(1) _ 1]], use k Starting in simp,
          intro conjI variant_worker [where k = k and x = "Finishing (st\<lparr>is_Status := ItemFailed\<rparr>)"])
        (use k Starting in \<open>simp_all add: set_worker_def\<close>)
  next
    case 2
    show ?thesis unfolding calm_step_def
      by (rule exI, rule conjI [OF pool_step.interrupted [OF k(1) _ 2]], use k Starting in simp,
          intro conjI variant_worker [where k = k and x = "Finishing st"])
        (use k Starting 2 in \<open>simp_all add: set_worker_def\<close>)
  next
    case 3
    let ?st = "st\<lparr>is_Attempts := is_Attempts st + 1\<rparr>"
    show ?thesis unfolding calm_step_def
      by (rule exI, rule conjI [OF pool_step.begin_attempt [OF k(1) _ 3 refl]], use k Starting in simp,
          intro conjI variant_worker [where k = k and x = "Calling item ?st"])
        (use k Starting 3 attempts_left_less [of "is_Attempts st" s] in \<open>simp_all add: set_worker_def publish_def\<close>)
  qed
next
  case (Calling item st)
  obtain out where "attempt_outcome M s (Inl []) = Inl out" by (simp add: attempt_outcome_def)
  show ?thesis unfolding calm_step_def
    by (rule exI, rule conjI [OF pool_step.answer_bad [OF k(1) _ \<open>attempt_outcome M s (Inl []) = Inl out\<close>]], use k Calling in simp,
        intro conjI variant_worker [where k = k and x = "Saving item (st\<lparr>is_Error := out\<rparr>)"])
      (use k Calling in \<open>simp_all add: set_worker_def\<close>)
next
  case (Saving item st)
  show ?thesis unfolding calm_step_def
    by (rule exI, rule conjI [OF pool_step.save_error [OF k(1)]], use k Saving in simp,
        intro conjI variant_worker [where k = k and x = "Starting item st"])
      (use k Saving in \<open>simp_all add: set_worker_def publish_def\<close>)
next
  case (Finishing st)
  show ?thesis unfolding calm_step_def
    by (rule exI, rule conjI [OF pool_step.finish_item [OF k(1)]], use k Finishing in simp,
        intro conjI variant_worker [where k = k and x = Idle])
      (use k Finishing in \<open>simp_all add: set_worker_def publish_def release_def\<close>)
qed (use busy in simp_all)

text \<open>A worker ends early only after it has reported an error.\<close>

lemma gone_step:
  assumes "pool_step M s H raws endErr p p'" and "Gone \<in> set (pl_workers p) \<Longrightarrow> pl_error p \<noteq> None" and "Gone \<in> set (pl_workers p')"
  shows "pl_error p' \<noteq> None"
  using assms
  by cases (auto simp: announce_def release_def set_worker_def publish_def give_up_def report_def split: option.splits
      dest!: set_update_subset_insert [THEN subsetD])

lemma gone_reach:
  assumes "batch_reach M s H raws endErr p" and "Gone \<in> set (pl_workers p)"
  shows "pl_error p \<noteq> None"
  using assms
proof (induction rule: rtranclp_induct)
  case (step q q')
  from step(2) show ?case
  proof cases
    case work
    then show ?thesis using gone_step step(3,4) by blast
  qed (use step(4) in \<open>simp add: newWorkerPool_def\<close>)
qed (simp add: newWorkerPool_def)

lemma calm_stepI:
  assumes "pool_step M s H raws endErr p p'" and "pool_inv M s H raws p" and "0 \<le> rs_maxAttempts s"
    and "pl_error p' = pl_error p" "pl_expired p' = pl_expired p"
    and "pl_next p' \<noteq> pl_next p \<or> pl_scan p' \<noteq> pl_scan p \<or> pl_pending p' \<noteq> pl_pending p \<or> pl_queue p' \<noteq> pl_queue p"
  shows "calm_step M s H raws endErr p p'"
  using variant_step [OF assms(1-3)] assms by (auto simp: calm_step_def)

lemma scan_moves:
  assumes "pool_inv M s H raws p" "0 \<le> rs_maxAttempts s" "pl_scan p = None" "pl_pending p = None"
  shows "\<exists>p'. calm_step M s H raws endErr p p'"
proof (cases "pl_next p = length raws")
  case True
  show ?thesis by (rule exI, rule calm_stepI [OF pool_step.scan_end [OF assms(3,4) True] assms(1,2)]) (simp_all add: assms)
next
  case False
  then have less: "pl_next p < length raws" using assms(1) by (simp add: pool_inv_def)
  show ?thesis
  proof (cases "resume_item H (pl_next p) (raws ! pl_next p) (read_state (pl_items p) (pl_next p))")
    case (Inl e)
    show ?thesis
      by (rule exI, rule calm_stepI [OF pool_step.scan_refuse [OF assms(3,4) less Inl] assms(1,2)]) (simp_all add: assms)
  next
    case (Inr r)
    show ?thesis
    proof (cases r)
      case None
      show ?thesis
        by (rule exI, rule calm_stepI [OF pool_step.scan_skip [OF assms(3,4) less Inr [unfolded None]] assms(1,2)]) simp_all
    next
      case (Some item)
      show ?thesis
        by (rule exI, rule calm_stepI [OF pool_step.scan_item [OF assms(3,4) less Inr [unfolded Some]] assms(1,2)])
          (simp_all add: announce_def)
    qed
  qed
qed

lemma run_moves:
  assumes inv: "pool_inv M s H raws p" and m: "0 \<le> rs_maxAttempts s" and c: "1 \<le> rs_concurrency s"
    and ws: "length (pl_workers p) = nat (rs_concurrency s)" and gone: "Gone \<in> set (pl_workers p) \<Longrightarrow> pl_error p \<noteq> None"
    and more: "\<not> pool_over p"
  shows "\<exists>p'. calm_step M s H raws endErr p p'"
proof (cases "\<exists>k < length (pl_workers p). held_by (pl_workers p ! k) \<noteq> []")
  case True
  then show ?thesis using busy_worker_moves [OF inv] by blast
next
  case False
  then have rest: "x = Idle \<or> x = Gone" if "x \<in> set (pl_workers p)" for x
    using that by (cases x) (auto simp: in_set_conv_nth)
  show ?thesis
  proof (cases "\<exists>item q. pl_queue p = item # q \<and> Idle \<in> set (pl_workers p)")
    case True
    then obtain item q k where q: "pl_queue p = item # q" "k < length (pl_workers p)" "pl_workers p ! k = Idle"
      by (auto simp: in_set_conv_nth)
    show ?thesis
      by (rule exI, rule calm_stepI [OF pool_step.take_item [OF q(2,3,1)] inv m]) (simp_all add: set_worker_def q)
  next
    case no_take: False
    show ?thesis
    proof (cases "pl_pending p")
      case None
      show ?thesis
      proof (cases "pl_scan p = None")
        case True
        then show ?thesis using scan_moves [OF inv m _ None] by blast
      next
        case False
        then have "pool_over p" using None rest no_take by (cases "pl_queue p") (auto simp: pool_over_def)
        with more show ?thesis by simp
      qed
    next
      case (Some item)
      show ?thesis
      proof (cases "pl_queue p")
        case Nil
        then have "int (length (pl_queue p)) < rs_concurrency s" using c by simp
        from pool_step.send [OF Some this] show ?thesis
          by (intro exI calm_stepI [OF _ inv m]) (assumption | simp add: Some)+
      next
        case (Cons a q)
        have "pl_workers p \<noteq> []" using ws c by auto
        then have "Gone \<in> set (pl_workers p)" using rest no_take Cons by (cases "pl_workers p") auto
        then have "ctx_done p" using gone by (simp add: ctx_done_def)
        show ?thesis
          by (rule exI, rule calm_stepI [OF pool_step.send_cancelled [OF Some \<open>ctx_done p\<close>] inv m]) (simp_all add: release_def Some)
      qed
    qed
  qed
qed

text \<open>C35. A map run comes to its end.  From every state that a run or a resumed run can be in, each
  sequence of effective steps is at most as long as the work left, whatever the schedule and the failures;
  and as long as the run is not over a step without a failure is possible: the producer and the workers
  cannot block each other.\<close>

theorem map_run_ends:
  assumes "settings M outputPath = Inr s" and "batch_reach M s H raws endErr (f 0)"
    and "\<forall>i < n. pool_step M s H raws endErr (f i) (f (Suc i)) \<and> f (Suc i) \<noteq> f i"
  shows "n \<le> variant s raws (f 0) \<and> (pool_over (f n) \<or> (\<exists>q. calm_step M s H raws endErr (f n) q))"
proof -
  have m: "0 \<le> rs_maxAttempts s" and c: "1 \<le> rs_concurrency s" using settings_bounds [OF assms(1)] by simp_all
  have "i \<le> n \<Longrightarrow> batch_reach M s H raws endErr (f i) \<and> variant s raws (f i) + i \<le> variant s raws (f 0)" for i
  proof (induction i)
    case (Suc i)
    then have reach: "batch_reach M s H raws endErr (f i)" and v: "variant s raws (f i) + i \<le> variant s raws (f 0)" by simp_all
    have step: "pool_step M s H raws endErr (f i) (f (Suc i))" "f (Suc i) \<noteq> f i" using assms(3) Suc.prems by simp_all
    then have "variant s raws (f (Suc i)) < variant s raws (f i)" using variant_step [OF _ reach_inv [OF reach m] m] by blast
    then show ?case using v rtranclp.rtrancl_into_rtrancl [OF reach batch_step.work [OF step(1)]] by simp
  qed (simp add: assms(2))
  from this [of n] have reach: "batch_reach M s H raws endErr (f n)" and "n \<le> variant s raws (f 0)" by auto
  have "length (pl_workers (f n)) = nat (rs_concurrency s)"
    using flight_reach [OF reach flight_start] c by (simp add: flight_inv_def)
  with run_moves [OF reach_inv [OF reach m] m c _ gone_reach [OF reach]] \<open>n \<le> variant s raws (f 0)\<close> show ?thesis by blast
qed

theorem map_run_ends_witness:
  "1 \<le> variant echo_settings [''7''] echo_done"
  using map_run_ends [OF echo_settings, of echo_hash "[''7'']" None "\<lambda>i. if i = 0 then echo_done else echo_over" 1]
    echo_reach(1) echo_end echo_scan by simp

end
