(* ===== verification/Batch_Output.thy ===== *)
theory Batch_Output
  imports Batch_Run
begin

text \<open>
  The end of a map run: every item has its verdict, the output lists them in order; and the sequential
  code of one worker as steps of the pool.
\<close>

section \<open>A finished run has a verdict for every item\<close>

lemma scan_complete_step:
  assumes "pool_step M s H raws endErr p p'" and "pl_scan p = Some None \<Longrightarrow> pl_next p = length raws"
  shows "pl_scan p' = Some None \<Longrightarrow> pl_next p' = length raws"
  using assms
  by cases (auto simp: announce_def release_def set_worker_def publish_def give_up_def)

lemma scan_complete:
  assumes "batch_reach M s H raws endErr p"
  shows "pl_scan p = Some None \<Longrightarrow> pl_next p = length raws"
  using assms
proof (induction rule: rtranclp_induct)
  case (step q q')
  from step(2) show ?case
  proof cases
    case work
    from scan_complete_step [OF this step(3) step(4)] show ?thesis by simp
  qed (use step(4) in \<open>simp add: newWorkerPool_def\<close>)
qed (simp add: newWorkerPool_def)

lemma finished_settled:
  assumes st: "settings M outputPath = Inr s" and reach: "batch_reach M s H raws endErr p"
    and over: "pool_over p" and fin: "pool_finish n p = Inr r" and i: "i < length raws"
  shows "settled (pl_items p) i"
proof -
  have m: "0 \<le> rs_maxAttempts s" and c: "1 \<le> rs_concurrency s" using settings_bounds [OF st] by simp_all
  have calm: "pl_error p = None" "\<not> pl_expired p" and scan: "pl_scan p = Some None"
    using fin over by (auto simp: pool_finish_def pool_over_def split: option.splits if_splits)
  have "Gone \<notin> set (pl_workers p)" using gone_reach [OF reach] calm by blast
  then have idle: "\<forall>x \<in> set (pl_workers p). x = Idle \<and> pl_queue p = []" using over by (auto simp: pool_over_def)
  have "length (pl_workers p) = nat (rs_concurrency s)"
    using flight_reach [OF reach flight_start] c by (simp add: flight_inv_def)
  then have "pl_workers p \<noteq> []" using c by auto
  then have "pl_queue p = []" using idle by (cases "pl_workers p") auto
  moreover have "concat (map held_by (pl_workers p)) = []" using idle by auto
  ultimately have "held p = []" using over by (simp add: held_def waiting_def pool_over_def)
  moreover have "i < pl_next p" using scan_complete [OF reach scan] i by simp
  moreover have "\<not> ctx_done p" using calm by (simp add: ctx_done_def)
  ultimately show ?thesis using reach_inv [OF reach m] by (auto simp: pool_inv_def)
qed

section \<open>Assembling the output\<close>

lemma disk_calm: "\<not> bt_fault w (bt_tick w) \<Longrightarrow> disk op w = (Inr (), w\<lparr>bt_tick := Suc (bt_tick w)\<rparr>)"
  by (simp add: disk_def)

lemma load_calm:
  assumes "\<forall>n. \<not> bt_fault w n" and "bt_items w i = Some f"
  shows "load i w = (read_state (bt_items w) i, w\<lparr>bt_tick := bt_tick w + 2\<rparr>)"
  using assms by (simp add: load_def bindE_def wrapE_def disk_calm)

definition tally :: "item_state list \<Rightarrow> map_result \<Rightarrow> map_result" where
  "tally sts r = r\<lparr>mr_Succeeded := mr_Succeeded r + int (length (filter (\<lambda>st. is_Status st = ItemCompleted) sts)),
     mr_Failed := mr_Failed r + int (length (filter (\<lambda>st. is_Status st \<noteq> ItemCompleted) sts))\<rparr>"

lemma assemble_loop_calm:
  assumes "\<forall>n. \<not> bt_fault w n" and "list_all2 (\<lambda>i st. read_state (bt_items w) i = Inr st \<and> terminal st) idx sts"
  shows "\<exists>t. assemble_loop idx r out w
    = (Inr (tally sts r, out @ concat (map (\<lambda>(i, st). output_json i st) (zip idx sts))), w\<lparr>bt_tick := t\<rparr>)"
  using assms
proof (induction idx arbitrary: sts r out w)
  case Nil
  have "w = w\<lparr>bt_tick := bt_tick w\<rparr>" by simp
  then show ?case using Nil by (auto simp: ret_def tally_def intro!: exI [of _ "bt_tick w"])
next
  case (Cons i idx)
  obtain st sts' where sts: "sts = st # sts'" "read_state (bt_items w) i = Inr st" "terminal st"
    and rest: "list_all2 (\<lambda>i st. read_state (bt_items w) i = Inr st \<and> terminal st) idx sts'"
    using Cons.prems(2) by (auto simp: list_all2_Cons1)
  obtain f where f: "bt_items w i = Some f" using sts(2) by (cases "bt_items w i") (auto simp: read_state_def)
  let ?w = "w\<lparr>bt_tick := bt_tick w + 3\<rparr>"
  let ?r = "if is_Status st = ItemCompleted then r\<lparr>mr_Succeeded := mr_Succeeded r + 1\<rparr> else r\<lparr>mr_Failed := mr_Failed r + 1\<rparr>"
  have "assemble_loop (i # idx) r out w = assemble_loop idx ?r (out @ output_json i st) ?w"
    using Cons.prems(1) sts
    by (simp add: bindE_def tryE_def wrapE_def load_calm [OF Cons.prems(1) f] disk_calm numeral_3_eq_3)
  moreover obtain t where "assemble_loop idx ?r (out @ output_json i st) ?w
      = (Inr (tally sts' ?r, (out @ output_json i st) @ concat (map (\<lambda>(i, st). output_json i st) (zip idx sts'))), ?w\<lparr>bt_tick := t\<rparr>)"
    using Cons.IH [of ?w sts' ?r "out @ output_json i st"] Cons.prems(1) rest by auto
  moreover have "tally sts' ?r = tally sts r" by (simp add: tally_def sts(1))
  ultimately have "assemble_loop (i # idx) r out w
      = (Inr (tally sts r, out @ concat (map (\<lambda>(i, st). output_json i st) (zip (i # idx) sts))), w\<lparr>bt_tick := t\<rparr>)"
    by (simp only: sts(1)) simp
  then show ?case by blast
qed

lemma assembleOutput_calm:
  assumes calm: "\<forall>n. \<not> bt_fault w n"
    and all: "list_all2 (\<lambda>i st. read_state (bt_items w) i = Inr st \<and> terminal st) [0..<nat n] sts"
  shows "\<exists>t. assembleOutput path n peak w
    = (Inr (tally sts \<lparr>mr_Total = n, mr_Succeeded = 0, mr_Failed = 0, mr_PeakInFlight = peak\<rparr>),
       w\<lparr>bt_tick := t, bt_files := (bt_files w)(path \<mapsto> concat (map (\<lambda>(i, st). output_json i st) (zip [0..<nat n] sts)))\<rparr>)"
proof -
  let ?r = "\<lparr>mr_Total = n, mr_Succeeded = 0, mr_Failed = 0, mr_PeakInFlight = peak\<rparr>" and ?w = "w\<lparr>bt_tick := Suc (Suc (bt_tick w))\<rparr>"
  obtain t where loop: "assemble_loop [0..<nat n] ?r [] ?w
      = (Inr (tally sts ?r, concat (map (\<lambda>(i, st). output_json i st) (zip [0..<nat n] sts))), ?w\<lparr>bt_tick := t\<rparr>)"
    using assemble_loop_calm [of ?w "[0..<nat n]" sts ?r "[]"] calm all by auto
  have fin: "finishAtomicOutput out path (w\<lparr>bt_tick := t\<rparr>)
      = (Inr (), w\<lparr>bt_tick := t + 5, bt_files := (bt_files w)(path \<mapsto> out)\<rparr>)" for out
    using calm by (simp add: finishAtomicOutput_def bindE_def wrapE_def disk_calm)
  have "assembleOutput path n peak w = (Inr (tally sts ?r),
      w\<lparr>bt_tick := t + 5, bt_files := (bt_files w)(path \<mapsto> concat (map (\<lambda>(i, st). output_json i st) (zip [0..<nat n] sts)))\<rparr>)"
    using calm by (simp add: assembleOutput_def bindE_def wrapE_def disk_calm loop fin ret_def)
  then show ?thesis by blast
qed

text \<open>C36. The output of a finished run is complete.  When the workers and the producer of a run, or of any
  resumed run, have ended without an error, and every state file is within \<open>maxStateBytes\<close> (a state beyond it can be
  saved, but not read again), assembling on a working disk succeeds: the output has one
  line for each item, in the order of the input, each with a verdict that the item earned, and the
  counts of successes and failures add up to the number of items.\<close>

theorem map_output_complete:
  assumes "settings M outputPath = Inr s" and "batch_reach M s H raws endErr p" and "pool_over p"
    and "pool_finish (length raws) p = Inr r" and items: "bt_items w = pl_items p"
    and calm: "\<forall>n. \<not> bt_fault w n" and sizes: "\<forall>i < length raws. sf_size (the (pl_items p i)) \<le> maxStateBytes"
  shows "\<exists>r' w' sts. assembleOutput path (int (length raws)) (mr_PeakInFlight r) w = (Inr r', w')
    \<and> mr_Total r' = int (length raws) \<and> mr_Succeeded r' + mr_Failed r' = int (length raws) \<and> length sts = length raws
    \<and> (\<forall>i < length raws. \<exists>st. sts ! i = durable st \<and> sound_state M s H raws i st \<and> terminal st)
    \<and> bt_files w' path = Some (concat (map (\<lambda>(i, st). output_json i st) (enumerate 0 sts)))"
proof -
  have m: "0 \<le> rs_maxAttempts s" using settings_bounds [OF assms(1)] by simp
  have inv: "pool_inv M s H raws p" by (rule reach_inv [OF assms(2) m])
  define sts where "sts = map (\<lambda>i. sf_state (the (pl_items p i))) [0..<length raws]"
  have each: "\<exists>st. read_state (bt_items w) i = Inr (sts ! i) \<and> sts ! i = durable st \<and> sound_state M s H raws i st \<and> terminal st \<and> terminal (sts ! i)"
    if i: "i < length raws" for i
  proof -
    have "settled (pl_items p) i" by (rule finished_settled [OF assms(1-4) i])
    then obtain f where f: "pl_items p i = Some f" "terminal (sf_state f)" by (auto simp: settled_def split: option.splits)
    then obtain st where "f = state_file_of st" "sound_state M s H raws i st" using inv by (auto simp: pool_inv_def sound_items_def)
    then show ?thesis using f i sizes by (auto simp: sts_def items read_state_def state_file_of_def terminal_def durable_def)
  qed
  have len: "length sts = length raws" by (simp add: sts_def)
  have "list_all2 (\<lambda>i st. read_state (bt_items w) i = Inr st \<and> terminal st) [0..<nat (int (length raws))] sts"
    using each by (auto simp: list_all2_conv_all_nth len)
  from assembleOutput_calm [OF calm this, of path "mr_PeakInFlight r"] obtain t where
    run: "assembleOutput path (int (length raws)) (mr_PeakInFlight r) w
      = (Inr (tally sts \<lparr>mr_Total = int (length raws), mr_Succeeded = 0, mr_Failed = 0, mr_PeakInFlight = mr_PeakInFlight r\<rparr>),
         w\<lparr>bt_tick := t, bt_files := (bt_files w)(path \<mapsto> concat (map (\<lambda>(i, st). output_json i st) (zip [0..<nat (int (length raws))] sts)))\<rparr>)"
    by blast
  have sum: "int (length (filter (\<lambda>st. is_Status st = ItemCompleted) sts)) + int (length (filter (\<lambda>st. is_Status st \<noteq> ItemCompleted) sts))
      = int (length raws)"
    using sum_length_filter_compl [of "\<lambda>st. is_Status st = ItemCompleted" sts] len by linarith
  show ?thesis
    by (intro exI conjI, rule run) (use each len sum in \<open>auto simp: tally_def enumerate_eq_zip\<close>)
qed

definition echo_disk :: batch where
  "echo_disk = \<lparr>bt_files = (\<lambda>_. None), bt_manifest = None, bt_items = pl_items echo_over, bt_tick = 0,
     bt_fault = (\<lambda>_. False), bt_done = (\<lambda>_. False)\<rparr>"

lemma echo_ended: "pool_over echo_over" "pool_finish (length [''7'']) echo_over
    = Inr \<lparr>mr_Total = 1, mr_Succeeded = 0, mr_Failed = 0, mr_PeakInFlight = 1\<rparr>"
  "sf_size (the (pl_items echo_over 0)) \<le> maxStateBytes"
proof -
  show "pool_over echo_over"
    by (simp add: pool_over_def echo_over_def echo_done_def echo_calling_def echo_queued_def pool_defs newWorkerPool_def echo_limits)
  show "pool_finish (length [''7'']) echo_over = Inr \<lparr>mr_Total = 1, mr_Succeeded = 0, mr_Failed = 0, mr_PeakInFlight = 1\<rparr>"
    by (simp add: pool_finish_def echo_over_def echo_done_def echo_calling_def echo_queued_def pool_defs newWorkerPool_def updatePeak_def)
  have "int (length (state_json (completed_state ''7'' echo_state))) \<le> maxStateBytes" by code_simp
  then show "sf_size (the (pl_items echo_over 0)) \<le> maxStateBytes"
    by (simp add: echo_over_def echo_items publish_state_def state_file_of_def completed_state_def echo_state_def start_state_def echo_item_def)
qed

theorem map_output_complete_witness:
  "\<exists>r' w'. assembleOutput ''o'' 1 1 echo_disk = (Inr r', w') \<and> mr_Total r' = 1 \<and> mr_Succeeded r' + mr_Failed r' = 1"
proof -
  have w: "bt_items echo_disk = pl_items echo_over" "\<forall>n. \<not> bt_fault echo_disk n" by (simp_all add: echo_disk_def)
  show ?thesis
    using map_output_complete [OF echo_settings echo_reach(2) echo_ended(1,2) w, of "''o''"] echo_ended(3) by auto
qed

end
