(* ===== verification/Batch_Worker.thy ===== *)
theory Batch_Worker
  imports Batch_Output
begin

text \<open>
  The sequential code of a worker refines the steps of the pool: running \<open>processOne\<close> and the final save
  as one program, on any disk and under any context that stays done, is a sequence of pool steps.
\<close>

section \<open>One durable write\<close>

definition later :: "batch \<Rightarrow> batch \<Rightarrow> bool" where
  "later w w' \<longleftrightarrow> bt_tick w \<le> bt_tick w' \<and> bt_done w' = bt_done w"

definition quiet :: "(batch, 'a) prog \<Rightarrow> bool" where
  "quiet P \<longleftrightarrow> (\<forall>w r w'. P w = (r, w') \<longrightarrow> later w w' \<and> bt_items w' = bt_items w)"

text \<open>A program that publishes a state if it succeeds and leaves the items alone if it fails.\<close>

definition writes :: "(batch, unit) prog \<Rightarrow> item_state \<Rightarrow> bool" where
  "writes P st \<longleftrightarrow> (\<forall>w r w'. P w = (r, w') \<longrightarrow> later w w'
     \<and> bt_items w' = (case r of Inl _ \<Rightarrow> bt_items w | Inr _ \<Rightarrow> publish_state st (bt_items w)))"

lemma quiet_disk: "quiet (disk op)"
  by (auto simp: quiet_def disk_def later_def)

lemma quiet_wrap: "quiet P \<Longrightarrow> quiet (wrapE c P)"
  by (fastforce simp: quiet_def wrapE_def split: prod.splits sum.splits)

lemma writes_bind:
  assumes "quiet P" "\<And>x. writes (F x) st"
  shows "writes (bindE P F) st"
  unfolding writes_def
proof (intro allI impI)
  fix w r w'
  assume run: "bindE P F w = (r, w')"
  obtain r1 w1 where P: "P w = (r1, w1)" by (cases "P w")
  then have q: "later w w1" "bt_items w1 = bt_items w" using assms(1) by (auto simp: quiet_def)
  show "later w w' \<and> bt_items w' = (case r of Inl _ \<Rightarrow> bt_items w | Inr _ \<Rightarrow> publish_state st (bt_items w))"
  proof (cases r1)
    case (Inl e)
    then show ?thesis using run q by (auto simp: bindE_def P)
  next
    case (Inr x)
    then have "F x w1 = (r, w')" using run by (simp add: bindE_def P)
    then show ?thesis using assms(2) [of x, unfolded writes_def, rule_format, of w1 r w'] q by (auto simp: later_def split: sum.splits)
  qed
qed

lemma save_writes: "encodable st \<Longrightarrow> writes (save st) st"
  unfolding save_def writeJSONAtomic_def
  by (simp, intro writes_bind quiet_wrap quiet_disk) (auto simp: writes_def later_def)

lemma save_run:
  assumes "encodable st" "save st w = (r, w')"
  shows "later w w'" "r = Inr () \<Longrightarrow> bt_items w' = publish_state st (bt_items w)" "r = Inl e \<Longrightarrow> bt_items w' = bt_items w"
  using save_writes [OF assms(1)] assms(2) by (fastforce simp: writes_def)+

section \<open>The simulation\<close>

lemma two_steps: "R a b \<Longrightarrow> R b c \<Longrightarrow> R\<^sup>*\<^sup>* a c"
  by (rule rtranclp.rtrancl_into_rtrancl [OF r_into_rtranclp])

text \<open>The pool in which worker \<open>k\<close> stands at \<open>x\<close> and the world of its program agree.\<close>

definition at_worker :: "pool \<Rightarrow> nat \<Rightarrow> worker \<Rightarrow> pool \<Rightarrow> batch \<Rightarrow> bool" where
  "at_worker p0 k x p w \<longleftrightarrow> k < length (pl_workers p0) \<and> pl_workers p = (pl_workers p0)[k := x] \<and> pl_items p = bt_items w
     \<and> pl_queue p = pl_queue p0 \<and> pl_pending p = pl_pending p0 \<and> pl_next p = pl_next p0 \<and> pl_scan p = pl_scan p0
     \<and> pl_error p = pl_error p0 \<and> (ctx_done p \<longrightarrow> bt_done w (bt_tick w)) \<and> mono (bt_done w)"

lemma at_worker_step:
  assumes "at_worker p0 k x p w" "later w w'" "pl_items q = bt_items w'"
    and "q = set_worker k y (p\<lparr>pl_items := items, pl_calls := calls\<rparr>)"
  shows "at_worker p0 k y q w'"
  using assms by (auto simp: at_worker_def set_worker_def ctx_done_def later_def mono_def le_bool_def)

definition at_gone :: "pool \<Rightarrow> nat \<Rightarrow> error \<Rightarrow> pool \<Rightarrow> batch \<Rightarrow> bool" where
  "at_gone p0 k e p w \<longleftrightarrow> pl_workers p = (pl_workers p0)[k := Gone] \<and> pl_items p = bt_items w
     \<and> pl_error p = (case pl_error p0 of None \<Rightarrow> Some e | Some e' \<Rightarrow> Some e')"

lemma at_worker_gone:
  assumes "at_worker p0 k x p w" "bt_items w' = bt_items w"
  shows "at_gone p0 k e (give_up k e p) w'"
  using assms by (auto simp: at_worker_def at_gone_def give_up_def report_def release_def set_worker_def split: option.splits)

lemma at_workerD:
  assumes "at_worker p0 k x p w"
  shows "k < length (pl_workers p)" "pl_workers p ! k = x" "pl_items p = bt_items w" "ctx_done p \<Longrightarrow> bt_done w (bt_tick w)"
  using assms by (auto simp: at_worker_def)

lemma at_worker_move:
  "at_worker p0 k x p w \<Longrightarrow> later w w' \<Longrightarrow> bt_items w' = bt_items w \<Longrightarrow> at_worker p0 k y (set_worker k y p) w'"
  by (rule at_worker_step [where items = "pl_items p" and calls = "pl_calls p"]) (auto simp: at_worker_def set_worker_def)

lemma at_worker_save:
  "at_worker p0 k x p w \<Longrightarrow> later w w' \<Longrightarrow> bt_items w' = publish_state st (bt_items w)
   \<Longrightarrow> at_worker p0 k y (set_worker k y (publish st (p\<lparr>pl_calls := calls\<rparr>))) w'"
  by (rule at_worker_step [where items = "publish_state st (pl_items p)" and calls = calls])
    (auto simp: at_worker_def set_worker_def publish_def)

definition attempt_end :: "pool \<Rightarrow> nat \<Rightarrow> work_item \<Rightarrow> int \<Rightarrow> error + (item_state + item_state) \<Rightarrow> pool \<Rightarrow> batch \<Rightarrow> bool" where
  "attempt_end p0 k item n r q w = (case r of
       Inl e \<Rightarrow> at_gone p0 k e q w
     | Inr (Inr final) \<Rightarrow> at_worker p0 k (Finishing final) q w \<and> encodable final
     | Inr (Inl st) \<Rightarrow> at_worker p0 k (Starting item st) q w \<and> is_Attempts st = n \<and> is_Output st = [])"

lemma interrupted_sim:
  assumes sim: "at_worker p0 k (Starting item st) p w" and less: "is_Attempts st < rs_maxAttempts s" and "bt_done w (bt_tick w)"
  shows "\<exists>q. (pool_step M s H raws endErr)\<^sup>*\<^sup>* p q \<and> at_worker p0 k (Finishing st) q w"
proof -
  let ?p = "p\<lparr>pl_expired := True\<rparr>"
  have "pool_step M s H raws endErr p ?p" by (rule pool_step.expire)
  moreover have "pool_step M s H raws endErr ?p (set_worker k (Finishing st) ?p)"
    by (rule pool_step.interrupted [OF _ _ less]) (use at_workerD [OF sim] in \<open>simp_all add: ctx_done_def\<close>)
  moreover have "at_worker p0 k (Finishing st) (set_worker k (Finishing st) ?p) w"
    using sim assms(3) by (auto simp: at_worker_def set_worker_def)
  ultimately show ?thesis by (blast intro: converse_rtranclp_into_rtranclp)
qed

lemma answer_sim:
  assumes sim: "at_worker p0 k (Calling item st) p w" and out: "is_Output st = []" "is_Attempts st = n"
    and run: "(case attempt_outcome M s answer of Inr out \<Rightarrow> ret (Inr (completed_state out st))
        | Inl e \<Rightarrow> bindE (save (st\<lparr>is_Error := e\<rparr>)) (\<lambda>_. ret (Inl (st\<lparr>is_Error := e\<rparr>)))) w = (r, w')"
  shows "\<exists>q. (pool_step M s H raws endErr)\<^sup>*\<^sup>* p q \<and> attempt_end p0 k item n r q w'"
proof (cases "attempt_outcome M s answer")
  case (Inr out)
  then have r: "r = Inr (Inr (completed_state out st))" "w' = w" using run by (auto simp: ret_def)
  have "encodable (completed_state out st)" using Inr
    by (auto simp: attempt_outcome_def encodable_def completed_state_def validateOutput_def split: sum.splits option.splits if_splits)
  moreover have "pool_step M s H raws endErr p (set_worker k (Finishing (completed_state out st)) p)"
    by (rule pool_step.answer_valid [OF at_workerD(1,2) [OF sim] Inr])
  moreover have "at_worker p0 k (Finishing (completed_state out st)) (set_worker k (Finishing (completed_state out st)) p) w'"
    by (rule at_worker_move [OF sim]) (simp_all add: r later_def)
  ultimately show ?thesis by (auto simp: attempt_end_def r(1) intro: r_into_rtranclp)
next
  case (Inl e)
  let ?st = "st\<lparr>is_Error := e\<rparr>" let ?p = "set_worker k (Saving item ?st) p"
  have sim2: "at_worker p0 k (Saving item ?st) ?p w" by (rule at_worker_move [OF sim]) (simp_all add: later_def)
  have bad: "pool_step M s H raws endErr p ?p" by (rule pool_step.answer_bad [OF at_workerD(1,2) [OF sim] Inl])
  obtain r1 w1 where sv: "save ?st w = (r1, w1)" by (cases "save ?st w")
  have enc: "encodable ?st" using out by (simp add: encodable_def)
  show ?thesis
  proof (cases r1)
    case fault: (Inl e1)
    then have r: "r = Inl e1" "w' = w1" using run Inl sv by (auto simp: bindE_def)
    have "pool_step M s H raws endErr ?p (give_up k e1 ?p)" by (rule pool_step.save_fault [OF at_workerD(1,2) [OF sim2]])
    then have "(pool_step M s H raws endErr)\<^sup>*\<^sup>* p (give_up k e1 ?p)" by (rule two_steps [of "pool_step M s H raws endErr", OF bad])
    moreover have "at_gone p0 k e1 (give_up k e1 ?p) w'"
      by (rule at_worker_gone [OF sim2]) (use save_run(3) [OF enc sv] fault r in simp)
    ultimately show ?thesis by (auto simp: attempt_end_def r(1))
  next
    case ok: (Inr u)
    then have r: "r = Inr (Inl ?st)" "w' = w1" using run Inl sv by (auto simp: bindE_def ret_def)
    let ?q = "set_worker k (Starting item ?st) (publish ?st ?p)"
    have "pool_step M s H raws endErr ?p ?q" by (rule pool_step.save_error [OF at_workerD(1,2) [OF sim2]])
    then have "(pool_step M s H raws endErr)\<^sup>*\<^sup>* p ?q" by (rule two_steps [of "pool_step M s H raws endErr", OF bad])
    moreover have "at_worker p0 k (Starting item ?st) ?q w'"
      using at_worker_save [OF sim2, of w1 ?st "Starting item ?st" "pl_calls ?p"] save_run(1,2) [OF enc sv] ok r by simp
    ultimately show ?thesis using out by (auto simp: attempt_end_def r(1))
  qed
qed

lemma attempt_sim:
  assumes sim: "at_worker p0 k (Starting item st) p w" and less: "is_Attempts st < rs_maxAttempts s" and out: "is_Output st = []"
    and n: "n = is_Attempts st + 1" and "mp_Process M \<noteq> None" and run: "attempt M s item n st w = (r, w')"
  shows "\<exists>q. (pool_step M s H raws endErr)\<^sup>*\<^sup>* p q \<and> attempt_end p0 k item n r q w'"
proof (cases "bt_done w (bt_tick w)")
  case True
  then have "r = Inr (Inr st)" "w' = w" using run by (auto simp: attempt_def)
  then show ?thesis using interrupted_sim [OF sim less True, of M H raws endErr] out by (auto simp: attempt_end_def encodable_def)
next
  case False
  let ?st = "st\<lparr>is_Attempts := n\<rparr>"
  obtain f where f: "mp_Process M = Some f" using assms(5) by auto
  have idle: "\<not> ctx_done p" using False at_workerD(4) [OF sim] by blast
  obtain r1 w1 where sv: "save ?st w = (r1, w1)" by (cases "save ?st w")
  have enc: "encodable ?st" using out by (simp add: encodable_def)
  show ?thesis
  proof (cases r1)
    case fault: (Inl e1)
    then have r: "r = Inl e1" "w' = w1" using run False sv by (auto simp: attempt_def bindE_def)
    have "pool_step M s H raws endErr p (give_up k e1 p)" by (rule pool_step.begin_fault [OF at_workerD(1,2) [OF sim] less idle])
    moreover have "at_gone p0 k e1 (give_up k e1 p) w'"
      by (rule at_worker_gone [OF sim]) (use save_run(3) [OF enc sv] fault r in simp)
    ultimately show ?thesis by (auto simp: attempt_end_def r(1) intro: r_into_rtranclp)
  next
    case ok: (Inr u)
    let ?p = "set_worker k (Calling item ?st) (publish ?st (p\<lparr>pl_calls := (wi_index item, is_Attempts ?st) # pl_calls p\<rparr>))"
      and ?w = "w1\<lparr>bt_tick := Suc (bt_tick w1)\<rparr>"
    have begin_it: "pool_step M s H raws endErr p ?p"
      by (rule pool_step.begin_attempt [OF at_workerD(1,2) [OF sim] less idle]) (simp add: n)
    have "later w ?w" "bt_items ?w = publish_state ?st (bt_items w)"
      using save_run(1,2) [OF enc sv] ok by (simp_all add: later_def)
    then have sim2: "at_worker p0 k (Calling item ?st) ?p ?w" by (rule at_worker_save [OF sim])
    have rest: "(case attempt_outcome M s (f (bt_tick w1) (wi_raw item) n (is_Error st)) of
          Inr out \<Rightarrow> ret (Inr (completed_state out ?st))
        | Inl e \<Rightarrow> bindE (save (?st\<lparr>is_Error := e\<rparr>)) (\<lambda>_. ret (Inl (?st\<lparr>is_Error := e\<rparr>)))) ?w = (r, w')"
      using run False sv ok f by (simp add: attempt_def bindE_def call_process_def cong: sum.case_cong)
    obtain q where "(pool_step M s H raws endErr)\<^sup>*\<^sup>* ?p q" "attempt_end p0 k item n r q w'"
      using answer_sim [OF sim2 _ _ rest, of n H raws endErr] out by auto
    then show ?thesis using converse_rtranclp_into_rtranclp [of "pool_step M s H raws endErr", OF begin_it] by blast
  qed
qed

definition loop_end :: "pool \<Rightarrow> nat \<Rightarrow> error + item_state \<Rightarrow> pool \<Rightarrow> batch \<Rightarrow> bool" where
  "loop_end p0 k r q w = (case r of Inl e \<Rightarrow> at_gone p0 k e q w
     | Inr final \<Rightarrow> at_worker p0 k (Finishing final) q w \<and> encodable final)"

lemma attempts_sim:
  assumes "at_worker p0 k (Starting item st) p w" and "left = nat (rs_maxAttempts s - is_Attempts st)" and "is_Output st = []"
    and proc: "mp_Process M \<noteq> None" and "attempts_loop M s item left st w = (r, w')"
  shows "\<exists>q. (pool_step M s H raws endErr)\<^sup>*\<^sup>* p q \<and> loop_end p0 k r q w'"
  using assms(1-3,5)
proof (induction left arbitrary: st p w)
  case 0
  let ?st = "st\<lparr>is_Status := ItemFailed\<rparr>"
  have r: "r = Inr ?st" "w' = w" using 0(4) by (auto simp: ret_def)
  have "pool_step M s H raws endErr p (set_worker k (Finishing ?st) p)"
    by (rule pool_step.exhausted [OF at_workerD(1,2) [OF 0(1)]]) (use 0(2) in simp)
  moreover have "at_worker p0 k (Finishing ?st) (set_worker k (Finishing ?st) p) w"
    by (rule at_worker_move [OF 0(1)]) (simp_all add: later_def)
  ultimately show ?case using 0(3) r by (auto simp: loop_end_def encodable_def intro: r_into_rtranclp)
next
  case (Suc left)
  let ?n = "is_Attempts st + 1"
  have n: "rs_maxAttempts s - int left = ?n" and less: "is_Attempts st < rs_maxAttempts s" using Suc.prems(2) by linarith+
  obtain r1 w1 where att: "attempt M s item ?n st w = (r1, w1)" by (cases "attempt M s item ?n st w")
  obtain q where q: "(pool_step M s H raws endErr)\<^sup>*\<^sup>* p q" "attempt_end p0 k item ?n r1 q w1"
    using attempt_sim [OF Suc.prems(1) less Suc.prems(3) refl proc att] by blast
  show ?case
  proof (cases "\<exists>st'. r1 = Inr (Inl st')")
    case False
    then have "loop_end p0 k r q w'" using q(2) Suc.prems(4) att n
      by (auto simp: attempt_end_def loop_end_def bindE_def ret_def split: sum.splits)
    then show ?thesis using q(1) by blast
  next
    case True
    then obtain st' where st': "r1 = Inr (Inl st')" by blast
    have next_st: "at_worker p0 k (Starting item st') q w1" "is_Attempts st' = ?n" "is_Output st' = []"
      using q(2) by (simp_all add: attempt_end_def st')
    have "attempts_loop M s item left st' w1 = (r, w')" using Suc.prems(4) att n st' by (simp add: bindE_def)
    then obtain q' where "(pool_step M s H raws endErr)\<^sup>*\<^sup>* q q'" "loop_end p0 k r q' w'"
      using Suc.IH [OF next_st(1) _ next_st(3)] next_st(2) Suc.prems(2) by fastforce
    then show ?thesis using rtranclp_trans [OF q(1)] by blast
  qed
qed

section \<open>The worker\<close>

text \<open>C37. The code of a worker refines the pool.  Let a worker have taken an item.  Whatever its processor
  answers, whichever disk call fails and whenever the context is done, running \<open>processOne\<close> and saving its
  result amounts to a sequence of pool steps: when it is over the state files agree, the worker is idle
  again, or, if a save failed, gone, and the pool has kept its first error or got this one.\<close>

theorem worker_refines_pool:
  assumes st: "settings M outputPath = Inr s" and k: "k < length (pl_workers p)" "pl_workers p ! k = Starting item (start_state item)"
    and items: "pl_items p = bt_items w" and stays: "mono (bt_done w)" and "ctx_done p \<longrightarrow> bt_done w (bt_tick w)"
    and run: "worker_item M s item w = (r, w')"
  shows "\<exists>q. (pool_step M s H raws endErr)\<^sup>*\<^sup>* p q \<and> pl_items q = bt_items w'
    \<and> pl_workers q = (pl_workers p)[k := (case r of Inl _ \<Rightarrow> Gone | Inr _ \<Rightarrow> Idle)]
    \<and> pl_error q = (case pl_error p of Some e \<Rightarrow> Some e | None \<Rightarrow> (case r of Inl e \<Rightarrow> Some e | Inr _ \<Rightarrow> None))"
proof -
  have proc: "mp_Process M \<noteq> None" using st by (cases "mp_Process M = None") (simp_all add: settings_def)
  have sim: "at_worker p k (Starting item (start_state item)) p w"
    using k items stays assms(6) list_update_id [of "pl_workers p" k] by (simp add: at_worker_def)
  obtain r1 w1 where one: "processOne M s item w = (r1, w1)" by (cases "processOne M s item w")
  obtain q where q: "(pool_step M s H raws endErr)\<^sup>*\<^sup>* p q" "loop_end p k r1 q w1"
    using attempts_sim [OF sim _ _ proc one [unfolded processOne_def], of H raws endErr] by (auto simp: start_state_def)
  show ?thesis
  proof (cases r1)
    case (Inl e)
    then have "r = Inl e" "w' = w1" using run one by (auto simp: worker_item_def bindE_def)
    then show ?thesis using q Inl by (auto simp: loop_end_def at_gone_def split: option.splits)
  next
    case (Inr fin)
    then have sim2: "at_worker p k (Finishing fin) q w1" and enc: "encodable fin" using q(2) by (simp_all add: loop_end_def)
    have sv: "save fin w1 = (r, w')" using run one Inr by (simp add: worker_item_def bindE_def)
    show ?thesis
    proof (cases r)
      case fault: (Inl e)
      have "pool_step M s H raws endErr q (give_up k e q)" by (rule pool_step.finish_fault [OF at_workerD(1,2) [OF sim2]])
      then have "(pool_step M s H raws endErr)\<^sup>*\<^sup>* p (give_up k e q)" by (rule rtranclp.rtrancl_into_rtrancl [OF q(1)])
      moreover have "at_gone p k e (give_up k e q) w'"
        by (rule at_worker_gone [OF sim2 save_run(3) [OF enc sv fault]])
      ultimately show ?thesis using fault by (auto simp: at_gone_def split: option.splits)
    next
      case ok: (Inr u)
      let ?q = "release (set_worker k Idle (publish fin q))"
      have "pool_step M s H raws endErr q ?q" by (rule pool_step.finish_item [OF at_workerD(1,2) [OF sim2]])
      then have "(pool_step M s H raws endErr)\<^sup>*\<^sup>* p ?q" by (rule rtranclp.rtrancl_into_rtrancl [OF q(1)])
      moreover have "pl_items ?q = bt_items w'" using save_run(2) [OF enc sv] ok sim2
        by (simp add: release_def set_worker_def publish_def at_worker_def)
      moreover have "pl_workers ?q = (pl_workers p)[k := Idle]" "pl_error ?q = pl_error p"
        using sim2 by (auto simp: release_def set_worker_def publish_def at_worker_def)
      ultimately show ?thesis using ok by (auto split: option.splits)
    qed
  qed
qed

theorem worker_refines_pool_witness:
  "\<exists>q. (pool_step echo_mapper echo_settings echo_hash [''7''] None)\<^sup>*\<^sup>*
       ((newWorkerPool echo_settings (\<lambda>_. None) [])\<lparr>pl_workers := [Starting echo_item (start_state echo_item)]\<rparr>) q
     \<and> pl_items q = bt_items (snd (worker_item echo_mapper echo_settings echo_item (echo_disk\<lparr>bt_items := \<lambda>_. None\<rparr>)))"
proof -
  let ?p = "(newWorkerPool echo_settings (\<lambda>_. None) [])\<lparr>pl_workers := [Starting echo_item (start_state echo_item)]\<rparr>"
    and ?w = "echo_disk\<lparr>bt_items := \<lambda>_. None\<rparr>"
  obtain r w' where run: "worker_item echo_mapper echo_settings echo_item ?w = (r, w')"
    by (cases "worker_item echo_mapper echo_settings echo_item ?w")
  have "pl_items ?p = bt_items ?w" "mono (bt_done ?w)" "ctx_done ?p \<longrightarrow> bt_done ?w (bt_tick ?w)"
    by (auto simp: newWorkerPool_def ctx_done_def echo_disk_def mono_def)
  then show ?thesis
    using worker_refines_pool [OF echo_settings, of 0 ?p echo_item ?w r w' echo_hash "[''7'']" None] run by auto
qed

end
