(* ===== verification/Batch_Scan.thy ===== *)
theory Batch_Scan
  imports Batch_Props
begin

text \<open>
  The scanner of a map run: what the validating pass over the input accepts is exactly what the second
  pass hands to the workers.
\<close>

section \<open>Lines and items\<close>

fun lines_of :: "string \<Rightarrow> string list" where
  "lines_of [] = [[]]"
| "lines_of (c # cs) = (if c = CHR 0x0A then [] # lines_of cs else (c # hd (lines_of cs)) # tl (lines_of cs))"

definition json_items :: "string \<Rightarrow> string list" where
  "json_items inp = filter (\<lambda>l. l \<noteq> []) (map trimSpace (lines_of inp))"

primrec feed :: "(nat \<Rightarrow> string \<Rightarrow> ('st, unit) prog) \<Rightarrow> nat \<Rightarrow> string list \<Rightarrow> ('st, unit) prog" where
  "feed f n [] = ret ()"
| "feed f n (x # xs) = bindE (f n x) (\<lambda>_. feed f (Suc n) xs)"

lemma trim_nil [simp]: "trimSpace [] = []"
  by (simp add: trimSpace_def)

lemma trim_snoc:
  assumes "isSpace c"
  shows "trimSpace (l @ [c]) = trimSpace l"
proof (cases "dropWhile isSpace l")
  case Nil
  then have "dropWhile isSpace (l @ [c]) = []" using assms by (auto simp: dropWhile_eq_Nil_conv)
  then show ?thesis by (simp add: trimSpace_def Nil)
next
  case (Cons x xs)
  then have "dropWhile isSpace l \<noteq> []" by simp
  then have "\<exists>x \<in> set l. \<not> isSpace x" unfolding dropWhile_eq_Nil_conv by blast
  then have "dropWhile isSpace (l @ [c]) = dropWhile isSpace l @ [c]" by (simp add: dropWhile_append)
  then show ?thesis using assms by (simp add: trimSpace_def)
qed

lemma trim_drop_cr: "trimSpace (drop_cr l) = trimSpace l"
proof (cases "l \<noteq> [] \<and> last l = CHR 0x0D")
  case True
  then have "l = butlast l @ [CHR 0x0D]" using append_butlast_last_id [of l] by simp
  then have "trimSpace l = trimSpace (butlast l)" using trim_snoc [of "CHR 0x0D" "butlast l"] by (simp add: isSpace_def)
  then show ?thesis using True by (simp add: drop_cr_def)
next
  case False
  then show ?thesis by (auto simp: drop_cr_def)
qed

lemma lines_nonempty [simp]: "lines_of inp \<noteq> []"
  by (induction inp) simp_all

lemma json_items_nil [simp]: "json_items [] = []"
  by (simp add: json_items_def)

lemma lines_first:
  "lines_of inp = takeWhile (\<lambda>c. c \<noteq> CHR 0x0A) inp #
     (if CHR 0x0A \<in> set inp then lines_of (drop (Suc (length (takeWhile (\<lambda>c. c \<noteq> CHR 0x0A) inp))) inp) else [])"
  by (induction inp) auto

lemma json_items_line:
  "json_items inp = (let l = trimSpace (takeWhile (\<lambda>c. c \<noteq> CHR 0x0A) inp) in if l = [] then [] else [l])
     @ json_items (drop (Suc (length (takeWhile (\<lambda>c. c \<noteq> CHR 0x0A) inp))) inp)"
proof (cases "CHR 0x0A \<in> set inp")
  case True
  then show ?thesis using lines_first [of inp] by (simp add: json_items_def Let_def)
next
  case False
  then have tw: "takeWhile (\<lambda>c. c \<noteq> CHR 0x0A) inp = inp" by auto
  show ?thesis using False lines_first [of inp] unfolding tw by (simp add: json_items_def Let_def)
qed

section \<open>The two passes\<close>

lemma bindE_assoc: "bindE (bindE m f) g = bindE m (\<lambda>x. bindE (f x) g)"
  by (auto simp: bindE_def fun_eq_iff split: prod.split sum.split)

definition item_fits :: "nat \<Rightarrow> string \<Rightarrow> bool" where
  "item_fits maxBytes raw \<longleftrightarrow> raw \<noteq> [] \<and> length raw \<le> maxBytes \<and> json_Valid raw"

lemma scan_twice:
  assumes "scan_items endErr mb mi (None :: (nat \<Rightarrow> string \<Rightarrow> ('a, unit) prog) option) inp items line w = (Inr n, w')"
  shows "n = items + length (json_items inp) \<and> (\<forall>raw \<in> set (json_items inp). item_fits mb raw) \<and> endErr = None
    \<and> (int items \<le> mi \<longrightarrow> int n \<le> mi) \<and> scan_items endErr mb mi (Some f) inp items line = bindE (feed f items (json_items inp)) (\<lambda>_. ret n)"
  using assms
proof (induction "length inp" arbitrary: inp items line rule: less_induct)
  case less
  show ?case
  proof (cases "inp = []")
    case True
    then show ?thesis using less.prems
      by (cases endErr) (simp_all add: scan_items.simps [of _ _ _ _ "[]"] scan_line_def ret_def fail_def bindE_def)
  next
    case False
    let ?l = "takeWhile (\<lambda>c. c \<noteq> CHR 0x0A) inp" let ?rest = "drop (Suc (length ?l)) inp" let ?raw = "trimSpace ?l"
    have short: "length ?l < line_buffer mb" using less.prems False
      by (subst (asm) scan_items.simps) (auto simp: scan_line_def Let_def fail_def split: if_splits)
    then have sl: "scan_line (line_buffer mb) endErr inp = ScanLine (drop_cr ?l) ?rest"
      using False by (simp add: scan_line_def Let_def)
    have lines: "\<not> Suc line > hardMaxLines" using less.prems
      by (subst (asm) scan_items.simps) (auto simp: sl fail_def split: if_splits)
    have smaller: "length ?rest < length inp" using False by simp
    show ?thesis
    proof (cases "?raw = []")
      case True
      then have skip: "scan_items endErr mb mi c inp items line = scan_items endErr mb mi c ?rest items (Suc line)"
        for c :: "(nat \<Rightarrow> string \<Rightarrow> ('z, unit) prog) option"
        using lines by (subst scan_items.simps) (simp add: sl trim_drop_cr Let_def)
      have same: "json_items inp = json_items ?rest" using json_items_line [of inp] True by (simp add: Let_def)
      have "scan_items endErr mb mi (None :: (nat \<Rightarrow> string \<Rightarrow> ('a, unit) prog) option) ?rest items (Suc line) w = (Inr n, w')"
        using less.prems by (rule trans [OF fun_cong [OF skip [symmetric]]])
      from less.hyps [OF smaller this] show ?thesis unfolding same skip [of "Some f"] .
    next
      case raw: False
      have "item_fits mb ?raw \<and> int items \<noteq> mi" using less.prems lines raw
        by (subst (asm) scan_items.simps) (auto simp: sl trim_drop_cr fail_def item_fits_def Let_def split: if_splits)
      then have fits: "item_fits mb ?raw" and more: "int items \<noteq> mi" by simp_all
      then have step: "scan_items endErr mb mi c inp items line
          = bindE (case c of None \<Rightarrow> ret () | Some f \<Rightarrow> f items ?raw) (\<lambda>_. scan_items endErr mb mi c ?rest (Suc items) (Suc line))"
        for c :: "(nat \<Rightarrow> string \<Rightarrow> ('z, unit) prog) option"
        using lines raw by (subst scan_items.simps) (simp add: sl trim_drop_cr item_fits_def Let_def)
      have "scan_items endErr mb mi (None :: (nat \<Rightarrow> string \<Rightarrow> ('a, unit) prog) option) ?rest (Suc items) (Suc line) w = (Inr n, w')"
        using less.prems by (simp add: step bindE_def ret_def)
      note rest = less.hyps [OF smaller this]
      have split: "json_items inp = ?raw # json_items ?rest" using json_items_line [of inp] raw by (simp add: Let_def)
      have "scan_items endErr mb mi (Some f) inp items line = bindE (f items ?raw) (\<lambda>_. bindE (feed f (Suc items) (json_items ?rest)) (\<lambda>_. ret n))"
        unfolding step [of "Some f"] conjunct2 [OF conjunct2 [OF conjunct2 [OF conjunct2 [OF rest]]]] by simp
      moreover have "int items \<le> mi \<longrightarrow> int n \<le> mi" using rest more by linarith
      moreover have "bindE (feed f items (?raw # json_items ?rest)) (\<lambda>_. ret n)
          = bindE (f items ?raw) (\<lambda>_. bindE (feed f (Suc items) (json_items ?rest)) (\<lambda>_. ret n))"
        by (simp add: bindE_assoc)
      ultimately show ?thesis using rest fits unfolding split by auto
    qed
  qed
qed

text \<open>C38. The workers get what was validated.  If the first pass over an input succeeds with \<open>n\<close> items, then
  the input has exactly \<open>n\<close> lines that are not blank, no more than the limit, each of which, trimmed, is
  valid JSON within the item size; and a second pass over the same bytes hands these to the consumer
  one by one, in order, numbered from zero, and fails only if the consumer does.\<close>

theorem map_input_validated:
  assumes "settings M outputPath = Inr s"
    and "scanJSONL endErr inp s (None :: (nat \<Rightarrow> string \<Rightarrow> ('a, unit) prog) option) w = (Inr n, w')"
  shows "n = length (json_items inp) \<and> int n \<le> rs_maxItems s \<and> int (length inp) \<le> rs_maxInputBytes s
    \<and> (\<forall>raw \<in> set (json_items inp). raw \<noteq> [] \<and> int (length raw) \<le> rs_maxItemBytes s \<and> json_Valid raw)
    \<and> scanJSONL endErr inp s (Some f) = bindE (feed f 0 (json_items inp)) (\<lambda>_. ret n)"
proof -
  have limits: "1 \<le> rs_maxItems s" "1 \<le> rs_maxItemBytes s"
    using assms(1) by (auto simp: settings_def Let_def split: if_splits)
  have len: "int (length inp) < rs_maxInputBytes s + 1"
    and scan: "scan_items endErr (nat (rs_maxItemBytes s)) (rs_maxItems s) (None :: (nat \<Rightarrow> string \<Rightarrow> ('a, unit) prog) option)
      (take (nat (rs_maxInputBytes s + 1)) inp) 0 0 w = (Inr n, w')"
    using assms(2) by (auto simp: scanJSONL_def bindE_Inr ret_def fail_def split: if_splits)
  have whole: "take (nat (rs_maxInputBytes s + 1)) inp = inp" using len by simp
  note twice = scan_twice [OF scan [unfolded whole], of f]
  have "scanJSONL endErr inp s (Some f) = bindE (feed f 0 (json_items inp)) (\<lambda>_. ret n)"
  proof -
    have "scanJSONL endErr inp s (Some f)
        = bindE (scan_items endErr (nat (rs_maxItemBytes s)) (rs_maxItems s) (Some f) inp 0 0) ret"
      using len whole by (simp add: scanJSONL_def)
    also have "\<dots> = bindE (bindE (feed f 0 (json_items inp)) (\<lambda>_. ret n)) ret"
      using conjunct2 [OF conjunct2 [OF conjunct2 [OF conjunct2 [OF twice]]]] by (rule arg_cong)
    finally show ?thesis unfolding bindE_assoc by (simp add: bindE_def ret_def)
  qed
  moreover have "n = length (json_items inp)" "int n \<le> rs_maxItems s" "\<forall>raw \<in> set (json_items inp). item_fits (nat (rs_maxItemBytes s)) raw"
    using twice limits(1) by simp_all
  moreover have "item_fits (nat (rs_maxItemBytes s)) raw \<Longrightarrow> raw \<noteq> [] \<and> int (length raw) \<le> rs_maxItemBytes s \<and> json_Valid raw" for raw
    using limits(2) unfolding item_fits_def by linarith
  ultimately show ?thesis using len by simp
qed

definition echo_lines :: string where
  "echo_lines = [CHR ''7'', CHR 0x0A, CHR 0x0A]"

lemma echo_json: "json_Valid ''7''"
  by code_simp

lemma echo_sizes: "rs_maxItemBytes echo_settings = 1048576" "rs_maxInputBytes echo_settings = 1073741824" "rs_maxItems echo_settings = 100000"
  by code_simp+

lemma echo_first_pass:
  "scanJSONL None echo_lines echo_settings (None :: (nat \<Rightarrow> string \<Rightarrow> (unit, unit) prog) option) () = (Inr 1, ())"
  by (simp add: scanJSONL_def echo_sizes echo_lines_def scan_items.simps scan_line_def drop_cr_def line_buffer_def
      hardMaxLines_def trimSpace_def isSpace_def echo_json Let_def bindE_def ret_def)

theorem map_input_validated_witness:
  "length (json_items echo_lines) = 1
   \<and> scanJSONL None echo_lines echo_settings (Some (\<lambda>n raw w. (Inr (), w @ [raw]))) = bindE (feed (\<lambda>n raw w. (Inr (), w @ [raw])) 0 (json_items echo_lines)) (\<lambda>_. ret 1)"
  using map_input_validated [OF echo_settings echo_first_pass, of "\<lambda>n raw w. (Inr (), w @ [raw])"] by simp

end
