(* ===== verification/Agent_Map.thy ===== *)
theory Agent_Map
  imports Batch
begin

text \<open>
  \<open>internal/agentmap\<close> and the \<open>map\<close> command: agentic processors with limits on tools and turns, counted
  on the event stream of the host, and the mapper that the command line builds.  What a child process
  prints and how it ends, the compiler of output schemas and the texts of errors are parameters.
\<close>

section \<open>Streaming a child process\<close>

text \<open>What happens to a streamed child: pipe and start errors, its output with the error the pipe ends
  with, the error of the context and of \<open>Wait\<close>, and its error output.\<close>

record stream_outcome =
  so_pipe :: "error option"
  so_start :: "error option"
  so_stdout :: string
  so_end :: "error option"
  so_ctx :: "error option"
  so_wait :: "error option"
  so_stderr :: string

type_synonym stream_run = "string list \<Rightarrow> string \<Rightarrow> stream_outcome"

definition ExecJSONLines :: "stream_run \<Rightarrow> string list \<Rightarrow> string \<Rightarrow> duration \<Rightarrow> int \<Rightarrow> int \<Rightarrow> (string \<Rightarrow> ('st, unit) prog) \<Rightarrow> ('st, unit) prog" where
  "ExecJSONLines P argv stdin timeout maxEvents maxLineBytes handler =
     (case validateStreamRequest argv timeout maxEvents maxLineBytes True of Some e \<Rightarrow> fail e
      | None \<Rightarrow> let oc = P argv stdin in
        (case so_pipe oc of Some e \<Rightarrow> fail (ErrWrap (''summarize: open '' @ hd argv @ '' stdout'') e)
         | None \<Rightarrow>
        (case so_start oc of Some e \<Rightarrow> fail (ErrWrap (''summarize: start '' @ hd argv) e)
         | None \<Rightarrow>
           bindE (tryE (consumeEvents (nat maxEvents) (nat maxEvents) (nat maxLineBytes) (so_end oc) handler (so_stdout oc))) (\<lambda>r.
           case streamRunError (so_ctx oc) (hd argv) (case r of Inl e \<Rightarrow> Some e | Inr _ \<Rightarrow> None) (so_wait oc)
                  (take (nat maxLineBytes) (so_stderr oc)) of
             Some e \<Rightarrow> fail e
           | None \<Rightarrow> ret ()))))"

section \<open>Requests\<close>

definition agent_defaultModel :: string where "agent_defaultModel = ''gpt-5.4-mini''"
definition hardMaxTools :: int where "hardMaxTools = 100"
definition hardMaxTurns :: int where "hardMaxTurns = 50"
definition hardItemTimeout :: duration where "hardItemTimeout = 30 * 60 * 1000000000"
definition maxEventLineBytes :: int where "maxEventLineBytes = 2 * 2 ^ 20"
definition baseEventBudget :: int where "baseEventBudget = 512"
definition toolEventMultiplier :: int where "toolEventMultiplier = 8"
definition turnEventMultiplier :: int where "turnEventMultiplier = 16"

type_synonym host = string

definition HostClaude :: host where "HostClaude = ''claude-agent''"
definition HostCodex :: host where "HostCodex = ''codex-agent''"

record request =
  aq_Host :: host
  aq_Prompt :: string
  aq_SchemaPath :: string
  aq_MaxTools :: int
  aq_MaxTurns :: int
  aq_Timeout :: duration

definition Request_Validate :: "unicode \<Rightarrow> request \<Rightarrow> error option" where
  "Request_Validate U r =
     (if aq_Host r \<noteq> HostClaude \<and> aq_Host r \<noteq> HostCodex then Some (Errorf ''agentmap: unsupported host %q'' [Quote U (aq_Host r)])
      else if aq_MaxTools r < 1 \<or> aq_MaxTools r > hardMaxTools then Some (Errorf ''agentmap: max tools must be 1..%d'' [itoa hardMaxTools])
      else if aq_MaxTurns r < 1 \<or> aq_MaxTurns r > hardMaxTurns then Some (Errorf ''agentmap: max turns must be 1..%d'' [itoa hardMaxTurns])
      else if aq_Timeout r \<le> 0 \<or> aq_Timeout r > hardItemTimeout
      then Some (Errorf ''agentmap: item timeout must be positive and at most %s'' [''30m0s''])
      else None)"

definition claudeCommand :: "request \<Rightarrow> string list" where
  "claudeCommand r =
     [''claude'', ''-p'', ''--model'', ''haiku'', ''--output-format'', ''stream-json'', ''--verbose'',
      ''--permission-mode'', ''plan'', ''--safe-mode'', ''--strict-mcp-config'',
      ''--mcp-config'', [CHR ''{'', CHR 0x22] @ ''mcpServers'' @ [CHR 0x22] @ '':{}}'', ''--disable-slash-commands'', ''--no-chrome'',
      ''--no-session-persistence'', ''--tools'', ''Read,Glob,Grep'',
      ''--disallowedTools'', ''Edit,Write,NotebookEdit'', ''--max-turns'', itoa (aq_MaxTurns r)]"

definition codexCommand :: "request \<Rightarrow> string list" where
  "codexCommand r =
     [''codex'', ''exec'', ''--sandbox'', ''read-only'', ''--ephemeral'', ''--json'', ''--color'', ''never'',
      ''--strict-config'', ''--ignore-user-config'', ''--ignore-rules'', ''--skip-git-repo-check'', ''-m'', agent_defaultModel]
     @ (if aq_SchemaPath r \<noteq> [] then [''--output-schema'', aq_SchemaPath r] else []) @ [''-'']"

definition request_command :: "unicode \<Rightarrow> request \<Rightarrow> error + (string list \<times> string)" where
  "request_command U r =
     (if aq_Host r = HostClaude then Inr (claudeCommand r, aq_Prompt r)
      else if aq_Host r = HostCodex then Inr (codexCommand r, aq_Prompt r)
      else Inl (Errorf ''agentmap: unsupported host %q'' [Quote U (aq_Host r)]))"

section \<open>Events\<close>

definition hostContent :: "(string \<times> go_type) list" where
  "hostContent = [(''type'', GoString)]"

definition hostMessage :: "(string \<times> go_type) list" where
  "hostMessage = [(''id'', GoString), (''content'', GoSlice (GoStruct hostContent))]"

definition hostItem :: "(string \<times> go_type) list" where
  "hostItem = [(''type'', GoString), (''text'', GoString)]"

definition hostEvent :: "(string \<times> go_type) list" where
  "hostEvent = [(''type'', GoString), (''result'', GoString), (''num_turns'', GoInt), (''is_error'', GoBool),
     (''item'', GoStruct hostItem), (''message'', GoStruct hostMessage)]"

text \<open>A decoded event is given by the values decoded into it; the item and the message are pointers.\<close>

definition event_type :: "json list \<Rightarrow> string" where
  "event_type e = string_field hostEvent ''type'' e"

definition event_item :: "json list \<Rightarrow> json list" where
  "event_item e = pointer_values (field_values hostEvent ''item'' e)"

definition event_message :: "json list \<Rightarrow> json list" where
  "event_message e = pointer_values (field_values hostEvent ''message'' e)"

definition message_tools :: "json list \<Rightarrow> int" where
  "message_tools m = int (length (filter (\<lambda>c. string_field hostContent ''type'' c = ''tool_use'')
     (slice_values (field_values hostMessage ''content'' m))))"

definition isToolItem :: "string \<Rightarrow> bool" where
  "isToolItem itemType \<longleftrightarrow> itemType \<noteq> ''agent_message'' \<and> itemType \<noteq> ''reasoning'' \<and> itemType \<noteq> ''plan''"

record event_state =
  ev_host :: host
  ev_maxTools :: int
  ev_maxTurns :: int
  ev_tools :: int
  ev_turns :: int
  ev_output :: string
  ev_seenTurns :: "string set"

definition newEventState :: "request \<Rightarrow> event_state" where
  "newEventState r = \<lparr>ev_host = aq_Host r, ev_maxTools = aq_MaxTools r, ev_maxTurns = aq_MaxTurns r, ev_tools = 0, ev_turns = 0,
     ev_output = [], ev_seenTurns = {}\<rparr>"

definition checkLimits :: "(event_state, unit) prog" where
  "checkLimits = (\<lambda>st.
     (if ev_tools st > ev_maxTools st then Inl (Errorf ''agent tool calls exceed %d'' [itoa (ev_maxTools st)])
      else if ev_turns st > ev_maxTurns st then Inl (Errorf ''agent turns exceed %d'' [itoa (ev_maxTurns st)])
      else Inr (), st))"

definition claude_message :: "json list \<Rightarrow> event_state \<Rightarrow> event_state" where
  "claude_message m st =
     (let mid = string_field hostMessage ''id'' m;
          st1 = (if mid \<in> ev_seenTurns st then st
                 else st\<lparr>ev_seenTurns := insert mid (ev_seenTurns st), ev_turns := ev_turns st + 1\<rparr>) in
      st1\<lparr>ev_tools := ev_tools st1 + message_tools m\<rparr>)"

definition consumeClaude :: "json list \<Rightarrow> (event_state, unit) prog" where
  "consumeClaude e = (\<lambda>st.
     let st1 = (if event_type e = ''assistant'' \<and> event_message e \<noteq> [] then claude_message (event_message e) st else st) in
     if event_type e = ''result''
     then (if bool_value (field_values hostEvent ''is_error'' e) then (Inl (Errorf ''claude agent returned an error result'' []), st1)
           else checkLimits (st1\<lparr>ev_output := string_field hostEvent ''result'' e,
                  ev_turns := max (ev_turns st1) (int_value (field_values hostEvent ''num_turns'' e))\<rparr>))
     else checkLimits st1)"

definition consumeCodex :: "json list \<Rightarrow> (event_state, unit) prog" where
  "consumeCodex e = (\<lambda>st.
     let st1 = (if event_type e = ''turn.started'' then st\<lparr>ev_turns := ev_turns st + 1\<rparr> else st);
         st2 = (if event_type e = ''item.started'' \<and> event_item e \<noteq> [] \<and> isToolItem (string_field hostItem ''type'' (event_item e))
                then st1\<lparr>ev_tools := ev_tools st1 + 1\<rparr> else st1);
         st3 = (if event_type e = ''item.completed'' \<and> event_item e \<noteq> [] \<and> string_field hostItem ''type'' (event_item e) = ''agent_message''
                then st2\<lparr>ev_output := string_field hostItem ''text'' (event_item e)\<rparr> else st2) in
     checkLimits st3)"

definition consume_event :: "string \<Rightarrow> (event_state, unit) prog" where
  "consume_event line =
     (case Unmarshal_struct hostEvent line of None \<Rightarrow> fail (Errorf ''decode host event'' [])
      | Some e \<Rightarrow> (\<lambda>st. if ev_host st = HostClaude then consumeClaude e st
                      else if ev_host st = HostCodex then consumeCodex e st
                      else (Inl (Errorf ''agentmap: event host was not validated'' []), st)))"

definition event_budget :: "request \<Rightarrow> int" where
  "event_budget r = baseEventBudget + aq_MaxTools r * toolEventMultiplier + aq_MaxTurns r * turnEventMultiplier"

definition agent_Run :: "unicode \<Rightarrow> stream_run \<Rightarrow> request \<Rightarrow> error + string" where
  "agent_Run U P r =
     (case Request_Validate U r of Some e \<Rightarrow> Inl e
      | None \<Rightarrow>
        (case request_command U r of Inl e \<Rightarrow> Inl e
         | Inr (argv, stdin) \<Rightarrow>
           (case ExecJSONLines P argv stdin (aq_Timeout r) (event_budget r) maxEventLineBytes consume_event (newEventState r) of
              (Inl e, _) \<Rightarrow> Inl (ErrWrap (''agentmap: '' @ aq_Host r) e)
            | (Inr _, st) \<Rightarrow> if ev_output st = [] then Inl (Errorf ''agentmap: %s returned no final response'' [aq_Host r])
                            else Inr (ev_output st))))"

section \<open>The map command\<close>

record map_options =
  mo_input :: string
  mo_output :: string
  mo_processor :: string
  mo_prompt :: string
  mo_stateDir :: string
  mo_schemaPath :: string
  mo_require :: "string list option"
  mo_concurrency :: int
  mo_maxRetries :: int
  mo_maxItemBytes :: int
  mo_maxOutputBytes :: int
  mo_maxItems :: int
  mo_maxCalls :: int
  mo_maxTools :: int
  mo_maxTurns :: int
  mo_maxInputBytes :: int
  mo_runTimeout :: duration
  mo_itemTimeout :: duration

definition defaultAgentMaxCalls :: int where "defaultAgentMaxCalls = 100"
definition defaultAgentRunTimeout :: duration where "defaultAgentRunTimeout = 60 * 60 * 1000000000"

text \<open>The values the flags have when they are not given.\<close>

definition default_map_options :: map_options where
  "default_map_options = \<lparr>mo_input = [], mo_output = [], mo_processor = ''passthrough'', mo_prompt = [], mo_stateDir = [],
     mo_schemaPath = [], mo_require = None, mo_concurrency = 8, mo_maxRetries = 2, mo_maxItemBytes = 2 ^ 20, mo_maxOutputBytes = 2 ^ 20,
     mo_maxItems = 100000, mo_maxCalls = 0, mo_maxTools = 16, mo_maxTurns = 8, mo_maxInputBytes = 2 ^ 30, mo_runTimeout = 0,
     mo_itemTimeout = 2 * 60 * 1000000000\<rparr>"

definition isAgentic :: "map_options \<Rightarrow> bool" where
  "isAgentic opts \<longleftrightarrow> mo_processor opts = HostClaude \<or> mo_processor opts = HostCodex"

definition effectiveMaxCalls :: "map_options \<Rightarrow> int" where
  "effectiveMaxCalls opts = (if isAgentic opts \<and> mo_maxCalls opts = 0 then defaultAgentMaxCalls else mo_maxCalls opts)"

definition effectiveRunTimeout :: "map_options \<Rightarrow> duration" where
  "effectiveRunTimeout opts = (if isAgentic opts \<and> mo_runTimeout opts = 0 then defaultAgentRunTimeout else mo_runTimeout opts)"

definition itemPrompt :: "string \<Rightarrow> string \<Rightarrow> string \<Rightarrow> bool \<Rightarrow> string" where
  "itemPrompt prompt item feedback agentic =
     prompt @ newline @ newline @ ''ITEM:'' @ newline @ item
     @ (if agentic then newline @ newline @ ''Use only read-only tools. Return only the final JSON value.'' else [])
     @ (if feedback \<noteq> [] then newline @ newline @ ''Your previous attempt failed: '' @ feedback @ newline @ ''Correct the output.'' else [])"

text \<open>The outside world of the processors at each moment: one-shot runs, streamed runs, texts of errors.\<close>

record hosts =
  ho_exec :: "nat \<Rightarrow> string list \<Rightarrow> string \<Rightarrow> error + string"
  ho_stream :: "nat \<Rightarrow> stream_run"
  ho_text :: "error \<Rightarrow> string"

definition execProcessor :: "hosts \<Rightarrow> string list \<Rightarrow> bool \<Rightarrow> string \<Rightarrow> processor" where
  "execProcessor W argv promptOnStdin prompt t item n feedback =
     (let full = itemPrompt prompt item feedback False in
      case (if promptOnStdin then ho_exec W t argv full else ho_exec W t (argv @ [full]) []) of
        Inl e \<Rightarrow> Inl (ho_text W e)
      | Inr out \<Rightarrow> Inr (TrimSpace out))"

definition buildProcessor :: "unicode \<Rightarrow> hosts \<Rightarrow> string \<Rightarrow> string \<Rightarrow> error + processor" where
  "buildProcessor U W name prompt =
     (if name = ''passthrough'' then Inr (\<lambda>t item n feedback. Inr item)
      else if name = ''claude'' then Inr (execProcessor W [''claude'', ''-p'', ''--model'', ''haiku'', ''--output-format'', ''text''] True prompt)
      else if name = ''codex'' then Inr (execProcessor W [''codex'', ''exec'', ''-c'', ''model=gpt-5.4-mini''] False prompt)
      else Inl (Errorf ''unknown processor %q (want passthrough|claude|codex|claude-agent|codex-agent)'' [Quote U name]))"

definition agent_request :: "map_options \<Rightarrow> string \<Rightarrow> request" where
  "agent_request opts schemaPath = \<lparr>aq_Host = mo_processor opts, aq_Prompt = [], aq_SchemaPath = schemaPath,
     aq_MaxTools = mo_maxTools opts, aq_MaxTurns = mo_maxTurns opts, aq_Timeout = mo_itemTimeout opts\<rparr>"

definition agentProcessor :: "unicode \<Rightarrow> hosts \<Rightarrow> string \<Rightarrow> request \<Rightarrow> processor" where
  "agentProcessor U W prompt r t item n feedback =
     (case agent_Run U (ho_stream W t) (r\<lparr>aq_Prompt := itemPrompt prompt item feedback True\<rparr>) of
        Inl e \<Rightarrow> Inl (ho_text W e) | Inr out \<Rightarrow> Inr out)"

definition options_buildProcessor :: "unicode \<Rightarrow> hosts \<Rightarrow> map_options \<Rightarrow> string \<Rightarrow> error + processor" where
  "options_buildProcessor U W opts schemaPath =
     (if \<not> isAgentic opts then buildProcessor U W (mo_processor opts) (mo_prompt opts)
      else case Request_Validate U (agent_request opts schemaPath) of Some e \<Rightarrow> Inl e
           | None \<Rightarrow> Inr (agentProcessor U W (mo_prompt opts) (agent_request opts schemaPath)))"

definition maxSchemaBytes :: int where "maxSchemaBytes = 2 ^ 20"

text \<open>\<open>K\<close> stands for the third-party package: it compiles a schema text to a validator.\<close>

definition LoadJSONSchema :: "(string \<Rightarrow> error + validator) \<Rightarrow> hash \<Rightarrow> string \<Rightarrow> (batch, validator option \<times> string) prog" where
  "LoadJSONSchema K H path =
     (if path = [] then ret (None, [])
      else bindE (wrapE ''llmmap: read output schema'' (open_file path)) (\<lambda>content.
           bindE (wrapE ''llmmap: read output schema'' (wrapE ''llmmap: read state'' (disk ''read''))) (\<lambda>_.
           if int (length content) > maxSchemaBytes
           then fail (ErrWrap ''llmmap: read output schema'' (Errorf ''llmmap: file %s exceeds %d bytes'' [path, itoa maxSchemaBytes]))
           else case K content of Inl e \<Rightarrow> fail e | Inr v \<Rightarrow> ret (Some v, H content))))"

definition loadMapSchema :: "(string \<Rightarrow> error + validator) \<Rightarrow> hash \<Rightarrow> string \<Rightarrow> string \<Rightarrow> (batch, validator option \<times> string \<times> string) prog" where
  "loadMapSchema K H cwd path =
     bindE (LoadJSONSchema K H path) (\<lambda>(v, schemaHash).
       if path = [] then ret (v, schemaHash, path)
       else bindE (wrapE ''map: resolve output schema'' (filepath_Abs cwd path)) (\<lambda>absolute. ret (v, schemaHash, absolute)))"

definition mapValidator :: "unicode \<Rightarrow> string list option \<Rightarrow> validator option" where
  "mapValidator U require = (case require of None \<Rightarrow> None | Some fs \<Rightarrow> if fs = [] then None else Some (RequireFields U fs))"

definition config_json :: "map_options \<Rightarrow> string \<Rightarrow> string" where
  "config_json opts schemaHash =
     ''{'' @ Join [json_member ''processor'' (marshal_string (mo_processor opts)), json_member ''prompt'' (marshal_string (mo_prompt opts)),
        json_member ''require'' (case mo_require opts of None \<Rightarrow> ''null'' | Some fs \<Rightarrow> ''['' @ Join (map marshal_string fs) '','' @ '']''),
        json_member ''schema_hash'' (marshal_string schemaHash), json_member ''max_tools'' (itoa (mo_maxTools opts)),
        json_member ''max_turns'' (itoa (mo_maxTurns opts)), json_member ''item_timeout'' (itoa (mo_itemTimeout opts))] '','' @ ''}''"

definition mapConfigKey :: "hash \<Rightarrow> map_options \<Rightarrow> string \<Rightarrow> string" where
  "mapConfigKey H opts schemaHash = H (config_json opts schemaHash)"

definition mapper_of :: "unicode \<Rightarrow> hash \<Rightarrow> map_options \<Rightarrow> validator option \<Rightarrow> string \<Rightarrow> processor \<Rightarrow> mapper" where
  "mapper_of U H opts schemaValidator schemaHash process =
     \<lparr>mp_Concurrency = mo_concurrency opts, mp_MaxRetries = mo_maxRetries opts, mp_MaxInputBytes = mo_maxInputBytes opts,
      mp_MaxItemBytes = mo_maxItemBytes opts, mp_MaxOutputBytes = mo_maxOutputBytes opts, mp_MaxItems = mo_maxItems opts,
      mp_MaxCalls = effectiveMaxCalls opts, mp_RunTimeout = effectiveRunTimeout opts, mp_StateDir = mo_stateDir opts,
      mp_ConfigKey = mapConfigKey H opts schemaHash, mp_Process = Some process,
      mp_Validate = Some (CombineValidators [mapValidator U (mo_require opts), schemaValidator])\<rparr>"

definition options_mapper :: "unicode \<Rightarrow> hosts \<Rightarrow> (string \<Rightarrow> error + validator) \<Rightarrow> hash \<Rightarrow> string \<Rightarrow> map_options \<Rightarrow> (batch, mapper) prog" where
  "options_mapper U W K H cwd opts =
     (if mo_input opts = [] \<or> mo_output opts = [] then fail (Errorf ''map: --input and --output are required'' [])
      else bindE (loadMapSchema K H cwd (mo_schemaPath opts)) (\<lambda>(schemaValidator, schemaHash, schemaPath).
           case options_buildProcessor U W opts schemaPath of Inl e \<Rightarrow> fail e
           | Inr process \<Rightarrow> ret (mapper_of U H opts schemaValidator schemaHash process)))"

definition map_line :: "map_result \<Rightarrow> string \<Rightarrow> string" where
  "map_line r outputPath =
     ''mapped '' @ itoa (mr_Total r) @ '' items: '' @ itoa (mr_Succeeded r) @ '' ok, '' @ itoa (mr_Failed r)
     @ '' failed (peak buffered: '' @ itoa (mr_PeakInFlight r) @ '') -> '' @ outputPath @ newline"

text \<open>The command with the line it prints; \<open>stream\<close> is the concurrent part of the run.\<close>

definition map_run :: "unicode \<Rightarrow> hosts \<Rightarrow> (string \<Rightarrow> error + validator) \<Rightarrow> hash \<Rightarrow> string
    \<Rightarrow> (mapper \<Rightarrow> dataset_info \<Rightarrow> run_settings \<Rightarrow> (batch, map_result) prog) \<Rightarrow> map_options \<Rightarrow> (batch, string) prog" where
  "map_run U W K H cwd stream opts =
     bindE (options_mapper U W K H cwd opts) (\<lambda>M.
     bindE (Mapper_Run H cwd M (stream M) (mo_input opts) (mo_output opts)) (\<lambda>result. ret (map_line result (mo_output opts))))"

end
