(* ===== verification/Agent_Map_Props.thy ===== *)
theory Agent_Map_Props
  imports Agent_Map Batch_Props
begin

text \<open>
  Agentic processors stay within their limits: the counters of the event stream against counts over the
  whole output of the host, and the budget of calls that the command line sets for a run.
\<close>

section \<open>Counting over the whole output\<close>

function event_lines :: "string \<Rightarrow> string list" where
  "event_lines t = (if t = [] then []
     else drop_cr (takeWhile (\<lambda>c. c \<noteq> CHR 0x0A) t) # event_lines (drop (Suc (length (takeWhile (\<lambda>c. c \<noteq> CHR 0x0A) t))) t))"
  by pat_completeness auto
termination by (relation "measure length") auto

declare event_lines.simps [simp del]

definition decode_event :: "string \<Rightarrow> json list" where
  "decode_event l = the (Unmarshal_struct hostEvent l)"

definition events_of :: "string \<Rightarrow> json list list" where
  "events_of t = map decode_event (event_lines t)"

text \<open>Tool calls, turns, and final responses that an event stands for.\<close>

definition tool_calls :: "host \<Rightarrow> json list \<Rightarrow> int" where
  "tool_calls h e =
     (if h = HostClaude then (if event_type e = ''assistant'' \<and> event_message e \<noteq> [] then message_tools (event_message e) else 0)
      else if event_type e = ''item.started'' \<and> event_item e \<noteq> [] \<and> isToolItem (string_field hostItem ''type'' (event_item e)) then 1 else 0)"

definition turn_ids :: "host \<Rightarrow> json list \<Rightarrow> string set" where
  "turn_ids h e = (if h = HostClaude \<and> event_type e = ''assistant'' \<and> event_message e \<noteq> []
     then {string_field hostMessage ''id'' (event_message e)} else {})"

definition turns_used :: "host \<Rightarrow> json list list \<Rightarrow> int" where
  "turns_used h es = (if h = HostClaude then int (card (\<Union> (turn_ids h ` set es)))
     else int (length (filter (\<lambda>e. event_type e = ''turn.started'') es)))"

definition reported_turns :: "host \<Rightarrow> json list \<Rightarrow> int" where
  "reported_turns h e = (if h = HostClaude \<and> event_type e = ''result'' then int_value (field_values hostEvent ''num_turns'' e) else 0)"

definition answers :: "host \<Rightarrow> json list \<Rightarrow> string list" where
  "answers h e =
     (if h = HostClaude then (if event_type e = ''result'' then [string_field hostEvent ''result'' e] else [])
      else if event_type e = ''item.completed'' \<and> event_item e \<noteq> [] \<and> string_field hostItem ''type'' (event_item e) = ''agent_message''
      then [string_field hostItem ''text'' (event_item e)] else [])"

definition final_answer :: "host \<Rightarrow> json list list \<Rightarrow> string" where
  "final_answer h es = last ([] # concat (map (answers h) es))"

section \<open>The counters\<close>

lemma hosts_differ [simp]: "HostCodex \<noteq> HostClaude" "HostClaude \<noteq> HostCodex"
  by (simp_all add: HostCodex_def HostClaude_def)

definition counted :: "request \<Rightarrow> json list list \<Rightarrow> event_state \<Rightarrow> bool" where
  "counted r es st \<longleftrightarrow> ev_host st = aq_Host r \<and> ev_maxTools st = aq_MaxTools r \<and> ev_maxTurns st = aq_MaxTurns r
     \<and> ev_tools st = sum_list (map (tool_calls (aq_Host r)) es) \<and> ev_output st = final_answer (aq_Host r) es
     \<and> ev_seenTurns st = \<Union> (turn_ids (aq_Host r) ` set es) \<and> turns_used (aq_Host r) es \<le> ev_turns st
     \<and> (\<forall>e \<in> set es. reported_turns (aq_Host r) e \<le> ev_turns st) \<and> 0 \<le> ev_turns st
     \<and> ev_tools st \<le> aq_MaxTools r \<and> ev_turns st \<le> aq_MaxTurns r"

lemma checkLimits_ok: "checkLimits st = (Inr (), st') \<longleftrightarrow> st' = st \<and> ev_tools st \<le> ev_maxTools st \<and> ev_turns st \<le> ev_maxTurns st"
  by (auto simp: checkLimits_def)

lemma final_answer_snoc: "final_answer h (es @ [e]) = (if answers h e = [] then final_answer h es else last (answers h e))"
  by (auto simp: final_answer_def)

lemma finite_turn_ids: "finite (turn_ids h e)"
  by (simp add: turn_ids_def)

lemma claude_step:
  assumes c: "counted r es st" and h: "aq_Host r = HostClaude" and run: "consumeClaude e st = (Inr (), st')"
  shows "counted r (es @ [e]) st'"
proof -
  let ?ids = "\<Union> (turn_ids HostClaude ` set es)"
  define st1 where "st1 = (if event_type e = ''assistant'' \<and> event_message e \<noteq> [] then claude_message (event_message e) st else st)"
  have fin: "finite ?ids" by (simp add: finite_turn_ids)
  have seen: "ev_seenTurns st = ?ids" and turns: "int (card ?ids) \<le> ev_turns st" using c h by (simp_all add: counted_def turns_used_def)
  have st1: "ev_host st1 = ev_host st" "ev_maxTools st1 = ev_maxTools st" "ev_maxTurns st1 = ev_maxTurns st" "ev_output st1 = ev_output st"
    "ev_tools st1 = ev_tools st + tool_calls HostClaude e" "ev_seenTurns st1 = ?ids \<union> turn_ids HostClaude e"
    "ev_turns st \<le> ev_turns st1" "int (card (?ids \<union> turn_ids HostClaude e)) \<le> ev_turns st1"
    using seen turns fin by (auto simp: st1_def claude_message_def tool_calls_def turn_ids_def Let_def insert_absorb card_insert_if)
  have shape: "st' = (if event_type e = ''result'' then st1\<lparr>ev_output := string_field hostEvent ''result'' e,
      ev_turns := max (ev_turns st1) (int_value (field_values hostEvent ''num_turns'' e))\<rparr> else st1)"
    "ev_tools st' \<le> ev_maxTools st'" "ev_turns st' \<le> ev_maxTurns st'"
    using run unfolding consumeClaude_def st1_def [symmetric] by (auto simp: checkLimits_ok Let_def split: if_splits)
  have nonneg: "0 \<le> ev_turns st1" using c st1(7) by (simp add: counted_def)
  have st': "ev_host st' = ev_host st1" "ev_maxTools st' = ev_maxTools st1" "ev_maxTurns st' = ev_maxTurns st1" "ev_tools st' = ev_tools st1"
    "ev_seenTurns st' = ev_seenTurns st1" "ev_turns st1 \<le> ev_turns st'" "reported_turns HostClaude e \<le> ev_turns st'"
    "ev_tools st' \<le> ev_maxTools st'" "ev_turns st' \<le> ev_maxTurns st'"
    "ev_output st' = (if answers HostClaude e = [] then ev_output st1 else last (answers HostClaude e))"
    using shape nonneg by (auto simp: reported_turns_def answers_def)
  have ids: "turn_ids HostClaude e \<union> ?ids = ?ids \<union> turn_ids HostClaude e" by (rule Un_commute)
  have "\<forall>x \<in> set es. reported_turns HostClaude x \<le> ev_turns st'" using c h st1(7) st'(6) by (auto simp: counted_def intro: order_trans)
  then show ?thesis
    using c h st1 st' ids by (simp add: counted_def turns_used_def final_answer_snoc)
qed

lemma codex_step:
  assumes c: "counted r es st" and h: "aq_Host r = HostCodex" and run: "consumeCodex e st = (Inr (), st')"
  shows "counted r (es @ [e]) st'"
proof -
  have nc: "HostCodex \<noteq> HostClaude" by (simp add: HostCodex_def HostClaude_def)
  have st': "ev_host st' = ev_host st" "ev_maxTools st' = ev_maxTools st" "ev_maxTurns st' = ev_maxTurns st"
    "ev_tools st' = ev_tools st + tool_calls HostCodex e" "ev_seenTurns st' = ev_seenTurns st"
    "ev_turns st' = ev_turns st + (if event_type e = ''turn.started'' then 1 else 0)"
    "ev_tools st' \<le> ev_maxTools st'" "ev_turns st' \<le> ev_maxTurns st'"
    "ev_output st' = (if answers HostCodex e = [] then ev_output st else last (answers HostCodex e))"
    using run nc by (auto simp: consumeCodex_def checkLimits_ok tool_calls_def answers_def Let_def split: if_splits)
  have none: "turn_ids HostCodex e = {}" "reported_turns HostCodex e = 0" using nc by (simp_all add: turn_ids_def reported_turns_def)
  show ?thesis using c h st' none nc by (auto simp: counted_def turns_used_def final_answer_snoc)
qed

lemma event_step:
  assumes "counted r es st" and "consume_event l st = (Inr (), st')"
  shows "Unmarshal_struct hostEvent l \<noteq> None \<and> counted r (es @ [decode_event l]) st'"
proof -
  obtain e where e: "Unmarshal_struct hostEvent l = Some e"
    using assms(2) by (cases "Unmarshal_struct hostEvent l") (auto simp: consume_event_def fail_def)
  have "ev_host st = aq_Host r" using assms(1) by (simp add: counted_def)
  then have "counted r (es @ [e]) st'"
    using assms claude_step codex_step by (auto simp: consume_event_def e split: if_splits)
  then show ?thesis using e by (simp add: decode_event_def)
qed

lemma scan_line_cases:
  assumes "scan_line limit endErr t = ScanLine l rest"
  shows "event_lines t = l # event_lines rest"
  using assms by (subst event_lines.simps) (auto simp: scan_line_def Let_def split: if_splits)

lemma scan_end_clean: "scan_line limit endErr t = ScanEnd None \<Longrightarrow> t = [] \<and> endErr = None"
  by (auto simp: scan_line_def Let_def split: if_splits)

lemma events_run:
  assumes "counted r es st" and "consumeEvents m left limit endErr consume_event t st = (Inr (), st')"
  shows "length (event_lines t) \<le> left \<and> endErr = None \<and> (\<forall>l \<in> set (event_lines t). Unmarshal_struct hostEvent l \<noteq> None)
    \<and> counted r (es @ events_of t) st'"
  using assms
proof (induction left arbitrary: es st t)
  case 0
  then obtain e where "scan_line limit endErr t = ScanEnd e" "scannerError e st = (Inr (), st')"
    by (auto simp: fail_def split: scan.splits)
  moreover from this have "e = None" "st' = st" by (auto simp: scannerError_def ret_def fail_def split: option.splits)
  ultimately show ?case using 0(1) scan_end_clean [of limit endErr t] by (simp add: events_of_def event_lines.simps [of "[]"])
next
  case (Suc left)
  show ?case
  proof (cases "scan_line limit endErr t")
    case (ScanEnd e)
    then have "e = None" "st' = st" using Suc.prems(2) by (auto simp: scannerError_def ret_def fail_def split: option.splits)
    then show ?thesis using Suc.prems(1) ScanEnd scan_end_clean [of limit endErr t] by (simp add: events_of_def event_lines.simps [of "[]"])
  next
    case (ScanLine l rest)
    obtain st1 where one: "consume_event l st = (Inr (), st1)" and more: "consumeEvents m left limit endErr consume_event rest st1 = (Inr (), st')"
      using Suc.prems(2) by (auto simp: ScanLine bindE_Inr)
    have ev: "Unmarshal_struct hostEvent l \<noteq> None" "counted r (es @ [decode_event l]) st1"
      using event_step [OF Suc.prems(1) one] by simp_all
    show ?thesis using Suc.IH [OF ev(2) more] ev(1) scan_line_cases [OF ScanLine] by (simp add: events_of_def)
  qed
qed

section \<open>Agentic runs\<close>

lemma final_answer_nil: "counted r [] (newEventState r) \<longleftrightarrow> 0 \<le> aq_MaxTools r \<and> 0 \<le> aq_MaxTurns r"
  by (auto simp: counted_def newEventState_def final_answer_def turns_used_def)

lemma stream_ok:
  assumes "ExecJSONLines P argv stdin timeout m limit handler st = (Inr (), st')"
  shows "consumeEvents (nat m) (nat m) (nat limit) (so_end (P argv stdin)) handler (so_stdout (P argv stdin)) st = (Inr (), st')
    \<and> so_ctx (P argv stdin) = None \<and> so_wait (P argv stdin) = None"
  using assms by (auto simp: ExecJSONLines_def Let_def fail_def ret_def bindE_Inr tryE_Inr streamRunError_def
      split: option.splits sum.splits)

text \<open>C39. An agentic attempt stays within its limits.  If a run of a host agent gives an answer, its request
  was valid, the host ended without an error in time, every line it printed was an event, at most as
  many as the budget, and counted over the whole output it used no more tools and turns than allowed;
  the answer is the last final response, and it is not empty.\<close>

theorem agent_run_within_limits:
  assumes "agent_Run U P r = Inr out"
  shows "\<exists>argv oc. request_command U r = Inr (argv, aq_Prompt r) \<and> oc = P argv (aq_Prompt r) \<and> Request_Validate U r = None
    \<and> so_ctx oc = None \<and> so_wait oc = None
    \<and> (\<forall>l \<in> set (event_lines (so_stdout oc)). Unmarshal_struct hostEvent l \<noteq> None)
    \<and> int (length (events_of (so_stdout oc))) \<le> event_budget r
    \<and> sum_list (map (tool_calls (aq_Host r)) (events_of (so_stdout oc))) \<le> aq_MaxTools r
    \<and> turns_used (aq_Host r) (events_of (so_stdout oc)) \<le> aq_MaxTurns r
    \<and> (\<forall>e \<in> set (events_of (so_stdout oc)). reported_turns (aq_Host r) e \<le> aq_MaxTurns r)
    \<and> out = final_answer (aq_Host r) (events_of (so_stdout oc)) \<and> out \<noteq> []"
proof -
  have valid: "Request_Validate U r = None" using assms by (auto simp: agent_Run_def split: option.splits)
  then have limits: "1 \<le> aq_MaxTools r" "1 \<le> aq_MaxTurns r" by (auto simp: Request_Validate_def split: if_splits)
  obtain argv where cmd: "request_command U r = Inr (argv, aq_Prompt r)"
    using valid by (auto simp: Request_Validate_def request_command_def split: if_splits)
  obtain st where run: "ExecJSONLines P argv (aq_Prompt r) (aq_Timeout r) (event_budget r) maxEventLineBytes consume_event (newEventState r) = (Inr (), st)"
    and out: "ev_output st = out" "out \<noteq> []"
    using assms by (auto simp: agent_Run_def valid cmd split: prod.splits sum.splits if_splits)
  note ok = stream_ok [OF run]
  have "counted r [] (newEventState r)" using limits by (simp add: final_answer_nil)
  note es = events_run [OF this conjunct1 [OF ok]]
  have "0 \<le> event_budget r"
    using limits by (simp add: event_budget_def baseEventBudget_def toolEventMultiplier_def turnEventMultiplier_def)
  then have "int (length (events_of (so_stdout (P argv (aq_Prompt r))))) \<le> event_budget r" using es by (simp add: events_of_def le_nat_iff)
  moreover have "counted r (events_of (so_stdout (P argv (aq_Prompt r)))) st" using es by simp
  moreover have "reported_turns (aq_Host r) e \<le> aq_MaxTurns r" if e: "e \<in> set (events_of (so_stdout (P argv (aq_Prompt r))))" for e
    using calculation(2) e by (auto simp: counted_def intro: order_trans)
  ultimately show ?thesis using ok es out valid cmd by (auto simp: counted_def)
qed

definition seven_line :: string where
  "seven_line = ''{'' @ Join [json_member ''type'' (marshal_string ''item.completed''),
     json_member ''item'' (''{'' @ Join [json_member ''type'' (marshal_string ''agent_message''), json_member ''text'' (marshal_string ''7'')] '','' @ ''}'')] '','' @ ''}''"

definition seven_run :: stream_run where
  "seven_run argv stdin = \<lparr>so_pipe = None, so_start = None, so_stdout = seven_line, so_end = None, so_ctx = None, so_wait = None, so_stderr = []\<rparr>"

definition seven_request :: request where
  "seven_request = \<lparr>aq_Host = HostCodex, aq_Prompt = ''p'', aq_SchemaPath = [], aq_MaxTools = 2, aq_MaxTurns = 3, aq_Timeout = 1000000000\<rparr>"

lemma seven_event:
  "consume_event seven_line (newEventState seven_request) = (Inr (), (newEventState seven_request)\<lparr>ev_output := ''7''\<rparr>)"
  by code_simp

lemma seven_shape: "seven_line \<noteq> []" "takeWhile (\<lambda>c. c \<noteq> CHR 0x0A) seven_line = seven_line" "drop_cr seven_line = seven_line" "length seven_line < 100"
  by code_simp+

lemma consume_single:
  assumes "t \<noteq> []" "takeWhile (\<lambda>c. c \<noteq> CHR 0x0A) t = t" "drop_cr t = t" "length t < limit" "handler t st = (Inr (), st')"
  shows "consumeEvents m (Suc (Suc left)) limit None handler t st = (Inr (), st')"
proof -
  have "scan_line limit None t = ScanLine t []"
    unfolding scan_line_def Let_def assms(2,3) using assms(1,4) by simp
  moreover have "scan_line limit None [] = ScanEnd None" by (simp add: scan_line_def)
  ultimately show ?thesis using assms(5) by (simp add: bindE_def scannerError_def ret_def)
qed

lemma seven_agent: "agent_Run ascii_only seven_run seven_request = Inr ''7''"
proof -
  have valid: "Request_Validate ascii_only seven_request = None" "event_budget seven_request = 576" by code_simp+
  have cmd: "request_command ascii_only seven_request = Inr (codexCommand seven_request, ''p'')"
    by (simp add: request_command_def seven_request_def)
  have stream: "validateStreamRequest (codexCommand seven_request) 1000000000 576 maxEventLineBytes True = None" by code_simp
  have budget: "nat 576 = Suc (Suc 574)" by simp
  have "consumeEvents (nat 576) (Suc (Suc 574)) (nat maxEventLineBytes) None consume_event seven_line (newEventState seven_request)
      = (Inr (), (newEventState seven_request)\<lparr>ev_output := ''7''\<rparr>)"
    by (rule consume_single) (use seven_shape seven_event in \<open>simp_all add: maxEventLineBytes_def\<close>)
  then have "ExecJSONLines seven_run (codexCommand seven_request) ''p'' 1000000000 576 maxEventLineBytes consume_event (newEventState seven_request)
      = (Inr (), (newEventState seven_request)\<lparr>ev_output := ''7''\<rparr>)"
    unfolding ExecJSONLines_def stream budget by (simp add: seven_run_def Let_def bindE_def tryE_def streamRunError_def ret_def)
  then show ?thesis
    by (simp add: agent_Run_def valid cmd) (simp add: seven_request_def)
qed

theorem agent_run_within_limits_witness:
  "\<exists>oc. oc = seven_run (codexCommand seven_request) ''p'' \<and> ''7'' = final_answer HostCodex (events_of (so_stdout oc))
     \<and> sum_list (map (tool_calls HostCodex) (events_of (so_stdout oc))) \<le> 2"
  using agent_run_within_limits [OF seven_agent] by (auto simp: seven_request_def request_command_def)

section \<open>The budget of an agentic run\<close>

text \<open>C40. An agentic map is always bounded.  If the command line asks for an agentic processor and the
  mapper and its settings are accepted, the run has a time limit of at most a day and a call limit,
  set by the user or the default; each call is an attempt with a valid request; and over all
  schedules, failures and resumptions of an input within the budget, the number of calls does not
  exceed the call limit.\<close>

theorem agentic_map_bounded:
  assumes mapper: "options_mapper U W K H cwd opts w = (Inr M, w')" and agentic: "isAgentic opts"
    and st: "settings M (mo_output opts) = Inr s" and budget: "\<not> over_budget s (int (length raws))"
    and reach: "batch_reach M s H' raws endErr p"
  shows "int (length (pl_calls p)) \<le> effectiveMaxCalls opts \<and> effectiveMaxCalls opts \<le> hardMaxCalls
    \<and> 0 < mp_RunTimeout M \<and> mp_RunTimeout M \<le> hardRunTimeout
    \<and> (\<exists>r. Request_Validate U r = None \<and> aq_MaxTools r = mo_maxTools opts \<and> aq_MaxTurns r = mo_maxTurns opts
         \<and> aq_Timeout r = mo_itemTimeout opts \<and> mp_Process M = Some (agentProcessor U W (mo_prompt opts) r))"
proof -
  have "\<exists>v hh sp process. options_buildProcessor U W opts sp = Inr process \<and> M = mapper_of U H opts v hh process"
  proof -
    obtain v hh sp w1 where "(case options_buildProcessor U W opts sp of Inl e \<Rightarrow> fail e
        | Inr process \<Rightarrow> ret (mapper_of U H opts v hh process)) w1 = (Inr M, w')"
      using mapper by (auto simp: options_mapper_def bindE_Inr fail_Inr split: if_splits)
    then show ?thesis by (cases "options_buildProcessor U W opts sp") (auto simp: ret_Inr fail_Inr)
  qed
  then obtain sp where M: "mp_MaxCalls M = effectiveMaxCalls opts" "mp_RunTimeout M = effectiveRunTimeout opts"
    and proc: "options_buildProcessor U W opts sp = Inr (the (mp_Process M))" "mp_Process M \<noteq> None"
    by (auto simp: mapper_of_def)
  have limits: "0 \<le> mp_MaxCalls M" "mp_MaxCalls M \<le> hardMaxCalls" "0 \<le> mp_RunTimeout M" "mp_RunTimeout M \<le> hardRunTimeout"
    and calls: "rs_maxCalls s = mp_MaxCalls M"
    using st by (auto simp: settings_def initial_settings_def defaultRunTimeout_def Let_def split: if_splits)
  have positive: "effectiveMaxCalls opts \<noteq> 0" "effectiveRunTimeout opts \<noteq> 0"
    using agentic by (auto simp: effectiveMaxCalls_def effectiveRunTimeout_def defaultAgentMaxCalls_def defaultAgentRunTimeout_def)
  have m: "0 \<le> rs_maxAttempts s" using settings_bounds(1) [OF st] by simp
  have "int (length (pl_calls p)) \<le> int (length raws) * rs_maxAttempts s" by (rule calls_bounded [OF reach_inv [OF reach m] m])
  also have "\<dots> \<le> effectiveMaxCalls opts" using budget limits(1) positive(1) calls M(1) by (auto simp: over_budget_def)
  finally have "int (length (pl_calls p)) \<le> effectiveMaxCalls opts" .
  moreover have "Request_Validate U (agent_request opts sp) = None"
    and "mp_Process M = Some (agentProcessor U W (mo_prompt opts) (agent_request opts sp))"
    using proc agentic by (auto simp: options_buildProcessor_def split: option.splits)
  ultimately show ?thesis using limits M positive by (auto simp: agent_request_def)
qed

definition agentic_options :: map_options where
  "agentic_options = default_map_options\<lparr>mo_input := ''i'', mo_output := ''o'', mo_processor := HostCodex\<rparr>"

definition idle_hosts :: hosts where
  "idle_hosts = \<lparr>ho_exec = (\<lambda>_ _ _. Inl not_exist), ho_stream = (\<lambda>_. seven_run), ho_text = (\<lambda>_. ''failed'')\<rparr>"

definition agentic_mapper :: mapper where
  "agentic_mapper = mapper_of ascii_only echo_hash agentic_options None []
     (agentProcessor ascii_only idle_hosts [] (agent_request agentic_options []))"

lemma agentic_built: "options_mapper ascii_only idle_hosts (\<lambda>_. Inl not_exist) echo_hash ''/'' agentic_options w = (Inr agentic_mapper, w)"
proof -
  have o: "isAgentic agentic_options" "mo_input agentic_options = ''i''" "mo_output agentic_options = ''o''"
    "mo_schemaPath agentic_options = []" "mo_prompt agentic_options = []" "Request_Validate ascii_only (agent_request agentic_options []) = None"
    by code_simp+
  show ?thesis
    by (simp add: options_mapper_def o loadMapSchema_def LoadJSONSchema_def options_buildProcessor_def bindE_def ret_def agentic_mapper_def)
qed

lemma agentic_settings: "settings agentic_mapper ''o'' = Inr (initial_settings agentic_mapper ''o'')"
  by (simp add: settings_def agentic_mapper_def mapper_of_def initial_settings_def) code_simp

theorem agentic_map_bounded_witness:
  "0 < mp_RunTimeout agentic_mapper \<and> effectiveMaxCalls agentic_options \<le> hardMaxCalls
   \<and> int (length (pl_calls (newWorkerPool (initial_settings agentic_mapper ''o'') (\<lambda>_. None) []))) \<le> effectiveMaxCalls agentic_options"
proof -
  have o: "isAgentic agentic_options" "mo_output agentic_options = ''o''" by code_simp+
  have budget: "\<not> over_budget (initial_settings agentic_mapper ''o'') (int (length [''7'']))"
    by (simp add: over_budget_def agentic_mapper_def mapper_of_def initial_settings_def) code_simp
  show ?thesis
    using agentic_map_bounded [OF agentic_built o(1) agentic_settings [folded o(2)] budget [folded o(2)] rtranclp.rtrancl_refl]
    by (simp add: o(2))
qed

end
