(* ===== verification/Spec2Isabelle.thy ===== *)
theory Spec2Isabelle
  imports Recall_Props Privacy_Props Capture_Props OpenCode_Props App_Props Maintenance_Props
    Batch_Worker Batch_Scan Agent_Map_Props
begin

text \<open>
  A verification development of acm (agent-context-manager): a local store that keeps every message of
  an agent's conversations verbatim, compacts older messages into a hierarchy of summaries under a
  token budget, and expands any summary back to its messages.

  Parts of the program and the theories that model them:

  \<^item> \<open>Prelude\<close>: errors as values, programs over a state, a Hoare triple with two exits, 64-bit
    integers.  \<open>GoText\<close>: Go strings as bytes, UTF-8, package strings, strconv, file paths.
  \<^item> \<open>CoreTypes\<close> (\<open>internal/core\<close>): the domain model and the derived identifiers.
    \<open>Tokens\<close> (\<open>internal/tokens\<close>): the token heuristic, and the contract of a token counter as
    the locale \<open>token_counter\<close>.
  \<^item> \<open>Database\<close>, \<open>Schema\<close>: the tables, the driver and its failures, transactions; every SQL
    statement as a function on the tables with the constraints of the migrations; the invariant
    \<open>wf_tables\<close> and its preservation by every statement.
  \<^item> \<open>Store_Core\<close>, \<open>Store_Dag\<close>, \<open>Store_Lifecycle\<close> (\<open>internal/store\<close>): every operation of
    the store, one definition per method.
  \<^item> \<open>Config\<close>, \<open>Window\<close>, \<open>Engine\<close> (\<open>internal/engine\<close>): configuration and its validation,
    the pure window functions, the compaction pass over the engine's store interface.
  \<^item> \<open>Dag\<close>, \<open>Cover\<close>: the abstract state behind that interface (log, summary nodes, links,
    windows) and what it means for a window to stand for the whole log.
  \<^item> \<open>Engine_Store\<close>, \<open>Compaction\<close>: the contract between engine and store as the locale
    \<open>engine_store\<close>, its extension \<open>engine\<close> by a compactor, and the compaction loop verified once
    inside it.
  \<^item> \<open>Summarize\<close> (\<open>internal/summarize\<close>): the deterministic digest, the command-line
    summarizers, the bounded event reader.
  \<^item> \<open>Engine_Sqlite\<close>, \<open>Acm_Engine\<close>: the SQLite store keeps the laws of \<open>engine_store\<close>, the
    compactor of the command line those of \<open>engine\<close>.
  \<^item> \<open>Frame\<close>: what programs leave alone, as motion along a preorder of states, proved once for the
    compaction pass over any store (the locales \<open>moving_engine\<close> and \<open>pass_preorder\<close>); \<open>pass_frame\<close> lists
    every table and what a pass may add to it.
  \<^item> \<open>Sample\<close>: a small concrete installation for the examples.  \<open>Engine_Props\<close>: the properties of
    a compaction pass on the SQLite store.
  \<^item> \<open>Assemble\<close> (\<open>internal/engine/assemble.go\<close>): the rendered window, expansion of a summary by one
    level and down to its messages, proved in the locale \<open>engine\<close>.
  \<^item> \<open>Service\<close> (\<open>internal/core/service.go\<close>): ingestion over the store interface, with the
    locale \<open>core_store\<close> and the SQLite store as its instance.
  \<^item> \<open>System\<close>: the step relation of the whole program on one database and what every step keeps.
    \<open>Acm_Props\<close>: the properties that span components.
  \<^item> \<open>Recall\<close> (\<open>internal/agents/recall.go\<close>, \<open>automatic_recall.go\<close>): search terms, ranking under
    quotas, the injected block, and automatic recall over the locale \<open>recall_store\<close>.
    \<open>Recall_Props\<close>: its instance on the SQLite store and its properties.
  \<^item> \<open>Glob\<close>, \<open>Regex\<close>, \<open>Json\<close>: what the program uses of path/filepath.Match, package
    regexp (leftmost-first matching by backtracking, with a denotation and the proof that the matcher
    finds exactly its matches) and encoding/json.
  \<^item> \<open>Privacy\<close> (\<open>internal/privacy\<close>): the capture policy, its detectors and its loading.
    \<open>Redaction\<close>: why a marker leaves no token behind, and a kept match no other than itself.
    \<open>Privacy_Props\<close>: redaction up to the values a policy allows, exclusion, ingestion under a policy, and
    its repetition.
  \<^item> \<open>Json_Encode\<close>, \<open>Unmarshal\<close>: strings written by \<open>json.Marshal\<close> and read back; decoding into Go
    structs, with repeated keys, pointers and integers.
  \<^item> \<open>Transcript\<close>, \<open>Capture\<close> (\<open>internal/agents/transcript.go\<close>, \<open>capture.go\<close>): transcripts of the
    host agents, with the state machine for Codex rollouts, and the requests made of hook events.
    \<open>Capture_Props\<close>: turns of a rollout, capture of a turn exactly once from its notification and its
    rollout, the output of a hook.
  \<^item> \<open>OpenCode\<close> (\<open>internal/opencode\<close>): the context plan of the OpenCode plugin.  \<open>OpenCode_Props\<close>:
    its bounds, and that its blocks are never captured again.
  \<^item> \<open>App\<close> (\<open>internal/cli\<close>: hook, ingest, opencode-context), \<open>Maintenance\<close> (backup, prune, backfill,
    carryover): the run functions of these commands over the store and a file system.  \<open>Keeps\<close>:
    programs that keep a reading of the state, by the rules of \<open>Frame\<close>.  \<open>App_Props\<close>, \<open>Maintenance_Props\<close>: a hook stores what it
    captured, pruning deletes only after a verified backup.
  \<^item> \<open>Glob_Props\<close>: matching a well-formed glob never fails.
  \<^item> \<open>Batch\<close> (\<open>internal/llmmap\<close>): settings, scanning, durable item states with their sizes on a disk
    that may fail at any call, the sequential code of a worker, the output.  \<open>Batch_Pool\<close>: producer,
    queue and workers as a step relation with every interleaving, answer and failure; a second
    relation adds crashes and resumption.
  \<^item> \<open>Batch_Props\<close>: the invariant of the pool, bounded attempts, final verdicts.  \<open>Batch_Run\<close>: bounded
    buffers, a variant for termination, absence of deadlock.  \<open>Batch_Output\<close>: a finished run has an
    output line for every item.  \<open>Batch_Worker\<close>: the sequential code refines the pool.
    \<open>Batch_Scan\<close>: the two passes over the input agree.
  \<^item> \<open>Agent_Map\<close> (\<open>internal/agentmap\<close>, \<open>internal/cli/map.go\<close>, the streamed child process of
    \<open>internal/summarize/stream.go\<close>): agentic processors and the mapper of the command line.
    \<open>Agent_Map_Props\<close>: their limits.

  Bounds and fuel.  The fuel of an expansion is any number above the depth of the summary, and depths
  are bounded by \<open>maxSummaryDepth\<close>; the compaction loop recurses on the iteration limit of its
  configuration; regular expressions repeat at most as often as there are characters left; the reader of
  raw JSON members and the JSON parser get fuel from the length of the text; the loop over the
  attempts of an item recurses on the attempts left.  Go integers are unbounded here where a check of
  the code bounds them, and wrapped by \<open>wrap64\<close> where it does not.

  What is a parameter: SHA-256, Unicode tables, FTS5 matching and ranking, the outcome of every
  child process, the zstd decoder, the TOML decoder, the JSON Schema compiler, the clock, the order of a
  range over a map, the texts of errors of the standard library, and which disk or driver call fails.

  Not modelled: opening the database file, its DSN and the goose migrations (driver calls); process
  groups; log output; cobra registration, help texts and exit codes; the lookup of configuration in
  directories and environment (\<open>internal/config\<close>); the explorers of files (\<open>internal/explore\<close>), which
  rest on parsers of other packages; the edits to the configuration of host agents
  (\<open>internal/install\<close>, \<open>internal/agents/init.go\<close>); and the commands that only format what modelled
  operations return (describe, expand, grep, stats, window, pin, doctor).
\<close>

end
